(* ===== verification/C_Prelude.thy ===== *)
theory C_Prelude
  imports Main "HOL-Library.Word" "HOL-Library.Char_ord"
begin

text \<open>
  What the components share: the names of the C integer types, the faults a C statement can run
  into, the state-and-fault monad in which the imperative code is written, its weakest
  preconditions, the byte-order conversions of \<^verbatim>\<open>glib\<close> and \<^verbatim>\<open>arpa/inet.h\<close>, and the number formats of
  \<^verbatim>\<open>printf\<close> that the programs use.
\<close>

unbundle bit_operations_syntax

named_theorems wp_simps \<open>unfolding rules for weakest preconditions\<close>
named_theorems keeps_intro \<open>frame rules: which part of the state a command leaves alone\<close>
named_theorems yields_intro \<open>rules on the values a command can return\<close>
named_theorems preserves_intro \<open>rules on invariants of commands\<close>
named_theorems fmt_defs \<open>definitions of the printf conversions\<close>

section \<open>C integer types\<close>

type_synonym byte = "8 word"
type_synonym u16 = "16 word"
type_synonym u32 = "32 word"

section \<open>Faults\<close>

text \<open>
  Where the C code leaves the objects it may access, the model stops with a fault instead of
  inventing a value. \<open>Exit_With\<close> is a call of \<^verbatim>\<open>exit\<close>: it also ends the run, but is intended.
\<close>

datatype c_fault =
    Frame_Bounds nat          \<comment> \<open>access at this offset of the frame buffer, past its block\<close>
  | Local_Bounds string nat   \<comment> \<open>access at this index of a local array, past its end\<close>
  | Copy_Bounds string nat    \<comment> \<open>copy of this many bytes to a local array, past its end and past the end of the source\<close>
  | Table_Bounds nat          \<comment> \<open>access at this index of a constant table, past its end\<close>
  | Null_Pointer
  | Uninitialised string      \<comment> \<open>use of a pointer that was never set\<close>
  | Port_Denied int           \<comment> \<open>access to an I/O port outside the range the process asked for\<close>
  | Exit_With int
  | Overflow                  \<comment> \<open>a signed sum outside the range of \<^verbatim>\<open>int\<close>\<close>
  | Abort                     \<comment> \<open>a failed \<^verbatim>\<open>assert\<close>\<close>

section \<open>The state-and-fault monad\<close>

type_synonym ('s, 'a) prog = "'s \<Rightarrow> c_fault + ('a \<times> 's)"

definition ret :: "'a \<Rightarrow> ('s, 'a) prog" where
  "ret x = (\<lambda>s. Inr (x, s))"

definition fault :: "c_fault \<Rightarrow> ('s, 'a) prog" where
  "fault e = (\<lambda>s. Inl e)"

definition bnd :: "('s, 'a) prog \<Rightarrow> ('a \<Rightarrow> ('s, 'b) prog) \<Rightarrow> ('s, 'b) prog" where
  "bnd m f = (\<lambda>s. case m s of Inl e \<Rightarrow> Inl e | Inr (x, s') \<Rightarrow> f x s')"

definition seq :: "('s, 'a) prog \<Rightarrow> ('s, 'b) prog \<Rightarrow> ('s, 'b) prog" where
  "seq m n = bnd m (\<lambda>_. n)"

definition gets :: "('s \<Rightarrow> 'a) \<Rightarrow> ('s, 'a) prog" where
  "gets f = (\<lambda>s. Inr (f s, s))"

definition modify :: "('s \<Rightarrow> 's) \<Rightarrow> ('s, unit) prog" where
  "modify f = (\<lambda>s. Inr ((), f s))"

definition skip :: "('s, unit) prog" where
  "skip = ret ()"

definition whenc :: "bool \<Rightarrow> ('s, unit) prog \<Rightarrow> ('s, unit) prog" where
  "whenc b m = (if b then m else skip)"

definition guard :: "bool \<Rightarrow> c_fault \<Rightarrow> ('s, unit) prog" where
  "guard b e = (if b then skip else fault e)"

lemmas prog_defs = ret_def fault_def bnd_def seq_def gets_def modify_def skip_def whenc_def guard_def

lemma bnd_ret [simp]: "bnd (ret x) f = f x"
  by (simp add: bnd_def ret_def)

lemma bnd_ret_right [simp]: "bnd m ret = m"
  by (rule ext) (auto simp: bnd_def ret_def split: sum.split)

lemma bnd_fault [simp]: "bnd (fault e) f = fault e"
  by (simp add: bnd_def fault_def)

lemma bnd_assoc: "bnd (bnd m f) g = bnd m (\<lambda>x. bnd (f x) g)"
  by (rule ext) (auto simp: bnd_def split: sum.split)

lemma bnd_eq_Inr:
  "bnd m f s = Inr r \<longleftrightarrow> (\<exists>x s'. m s = Inr (x, s') \<and> f x s' = Inr r)"
  by (auto simp: bnd_def split: sum.splits)

subsection \<open>Weakest preconditions\<close>

text \<open>
  \<open>wp m Q s\<close>: from \<open>s\<close> the command ends without a fault, in a state where \<open>Q\<close> holds of its result
  (total correctness); \<open>wlp\<close> is the liberal form, true as well where the command faults.
\<close>

definition wp :: "('s, 'a) prog \<Rightarrow> ('a \<Rightarrow> 's \<Rightarrow> bool) \<Rightarrow> 's \<Rightarrow> bool" where
  "wp m Q s = (case m s of Inl e \<Rightarrow> False | Inr (x, s') \<Rightarrow> Q x s')"

definition wlp :: "('s, 'a) prog \<Rightarrow> ('a \<Rightarrow> 's \<Rightarrow> bool) \<Rightarrow> 's \<Rightarrow> bool" where
  "wlp m Q s = (case m s of Inl e \<Rightarrow> True | Inr (x, s') \<Rightarrow> Q x s')"

lemma wp_ret [wp_simps]: "wp (ret x) Q s = Q x s"
  by (simp add: wp_def ret_def)

lemma wp_fault [wp_simps]: "wp (fault e) Q s = False"
  by (simp add: wp_def fault_def)

lemma wp_bnd [wp_simps]: "wp (bnd m f) Q s = wp m (\<lambda>x. wp (f x) Q) s"
  by (auto simp: wp_def bnd_def split: sum.split)

lemma wp_seq [wp_simps]: "wp (seq m n) Q s = wp m (\<lambda>_. wp n Q) s"
  by (simp add: seq_def wp_bnd)

lemma wp_gets [wp_simps]: "wp (gets f) Q s = Q (f s) s"
  by (simp add: wp_def gets_def)

lemma wp_modify [wp_simps]: "wp (modify f) Q s = Q () (f s)"
  by (simp add: wp_def modify_def)

lemma wp_skip [wp_simps]: "wp skip Q s = Q () s"
  by (simp add: skip_def wp_ret)

lemma wp_whenc [wp_simps]: "wp (whenc b m) Q s = (if b then wp m Q s else Q () s)"
  by (simp add: whenc_def wp_skip)

lemma wp_guard [wp_simps]: "wp (guard b e) Q s = (b \<and> Q () s)"
  by (simp add: guard_def wp_skip wp_fault)

lemma wp_if [wp_simps]: "wp (if b then m else n) Q s = (if b then wp m Q s else wp n Q s)"
  by simp

lemma wp_mono: "wp m P s \<Longrightarrow> (\<And>x s'. P x s' \<Longrightarrow> Q x s') \<Longrightarrow> wp m Q s"
  by (auto simp: wp_def split: sum.splits)

lemma wp_conj: "wp m P s \<Longrightarrow> wlp m Q s \<Longrightarrow> wp m (\<lambda>x s'. P x s' \<and> Q x s') s"
  by (auto simp: wp_def wlp_def split: sum.splits)

lemma wpD: "wp m Q s \<Longrightarrow> \<exists>x s'. m s = Inr (x, s') \<and> Q x s'"
  by (auto simp: wp_def split: sum.splits)

lemma wpI: "m s = Inr (x, s') \<Longrightarrow> Q x s' \<Longrightarrow> wp m Q s"
  by (simp add: wp_def)

lemma wlp_bnd: "wlp (bnd m f) Q s = wlp m (\<lambda>x. wlp (f x) Q) s"
  by (auto simp: wlp_def bnd_def split: sum.split)

lemma wlpD: "wlp m Q s \<Longrightarrow> m s = Inr (x, s') \<Longrightarrow> Q x s'"
  by (simp add: wlp_def)

subsection \<open>Frame conditions\<close>

text \<open>\<open>keeps g m\<close>: wherever \<open>m\<close> returns, the part \<open>g\<close> of the state is what it was before.\<close>

definition keeps :: "('s \<Rightarrow> 'g) \<Rightarrow> ('s, 'a) prog \<Rightarrow> bool" where
  "keeps g m \<longleftrightarrow> (\<forall>s x s'. m s = Inr (x, s') \<longrightarrow> g s' = g s)"

lemma keepsD: "keeps g m \<Longrightarrow> m s = Inr (x, s') \<Longrightarrow> g s' = g s"
  by (simp add: keeps_def)

lemma keeps_ret [keeps_intro]: "keeps g (ret x)"
  by (simp add: keeps_def ret_def)

lemma keeps_skip [keeps_intro]: "keeps g skip"
  by (simp add: skip_def keeps_ret)

lemma keeps_fault [keeps_intro]: "keeps g (fault e)"
  by (simp add: keeps_def fault_def)

lemma keeps_gets [keeps_intro]: "keeps g (gets f)"
  by (simp add: keeps_def gets_def)

lemma keeps_bnd [keeps_intro]: "keeps g m \<Longrightarrow> (\<And>x. keeps g (f x)) \<Longrightarrow> keeps g (bnd m f)"
  by (fastforce simp: keeps_def bnd_eq_Inr)

lemma keeps_seq [keeps_intro]: "keeps g m \<Longrightarrow> keeps g n \<Longrightarrow> keeps g (seq m n)"
  by (simp add: seq_def keeps_bnd)

lemma keeps_whenc [keeps_intro]: "(b \<Longrightarrow> keeps g m) \<Longrightarrow> keeps g (whenc b m)"
  by (simp add: whenc_def keeps_skip)

lemma keeps_guard [keeps_intro]: "keeps g (guard b e)"
  by (simp add: guard_def keeps_skip keeps_fault)

lemma keeps_if [keeps_intro]:
  "(b \<Longrightarrow> keeps g m) \<Longrightarrow> (\<not> b \<Longrightarrow> keeps g n) \<Longrightarrow> keeps g (if b then m else n)"
  by simp

lemma keeps_modify: "(\<And>s. g (f s) = g s) \<Longrightarrow> keeps g (modify f)"
  by (simp add: keeps_def modify_def)

subsection \<open>Invariants\<close>

text \<open>\<open>preserves P m\<close>: wherever \<open>m\<close> returns from a state with \<open>P\<close>, it leaves a state with \<open>P\<close>.\<close>

definition preserves :: "('s \<Rightarrow> bool) \<Rightarrow> ('s, 'a) prog \<Rightarrow> bool" where
  "preserves P m \<longleftrightarrow> (\<forall>s x s'. P s \<longrightarrow> m s = Inr (x, s') \<longrightarrow> P s')"

lemma preservesD: "preserves P m \<Longrightarrow> P s \<Longrightarrow> m s = Inr (x, s') \<Longrightarrow> P s'"
  by (auto simp: preserves_def)

lemma preserves_bnd [preserves_intro]:
  "preserves P m \<Longrightarrow> (\<And>x. preserves P (f x)) \<Longrightarrow> preserves P (bnd m f)"
  unfolding preserves_def bnd_eq_Inr by blast

lemma preserves_seq [preserves_intro]:
  "preserves P m \<Longrightarrow> preserves P n \<Longrightarrow> preserves P (seq m n)"
  by (simp add: seq_def preserves_bnd)

lemma preserves_if [preserves_intro]:
  "(b \<Longrightarrow> preserves P m) \<Longrightarrow> (\<not> b \<Longrightarrow> preserves P n) \<Longrightarrow> preserves P (if b then m else n)"
  by simp

lemma preserves_whenc [preserves_intro]: "(b \<Longrightarrow> preserves P m) \<Longrightarrow> preserves P (whenc b m)"
  by (simp add: whenc_def skip_def ret_def preserves_def)

lemma preserves_option:
  "preserves P m \<Longrightarrow> (\<And>y. preserves P (f y)) \<Longrightarrow> preserves P (case x of None \<Rightarrow> m | Some y \<Rightarrow> f y)"
  by (cases x) simp_all

lemma preserves_prod:
  "(\<And>a b. preserves P (f a b)) \<Longrightarrow> preserves P (case x of (a, b) \<Rightarrow> f a b)"
  by (cases x) simp

lemma preserves_same [preserves_intro]:
  "preserves P (ret x)" "preserves P skip" "preserves P (gets f)" "preserves P (fault e)"
  by (simp_all add: preserves_def ret_def skip_def gets_def fault_def)

lemma preserves_wp: "(\<And>s. P s \<Longrightarrow> wp m (\<lambda>_. P) s) \<Longrightarrow> preserves P m"
  unfolding preserves_def wp_def by (metis (no_types, lifting) case_prod_conv sum.case(2))

lemma preserves_keeps: "keeps g m \<Longrightarrow> preserves (\<lambda>s. P (g s)) m"
  by (auto simp: preserves_def dest: keepsD)

subsection \<open>Values a command can return\<close>

definition yields :: "('a \<Rightarrow> bool) \<Rightarrow> ('s, 'a) prog \<Rightarrow> bool" where
  "yields P m \<longleftrightarrow> (\<forall>s x s'. m s = Inr (x, s') \<longrightarrow> P x)"

lemma yieldsD: "yields P m \<Longrightarrow> m s = Inr (x, s') \<Longrightarrow> P x"
  by (auto simp: yields_def)

lemma yields_ret [yields_intro]: "P x \<Longrightarrow> yields P (ret x)"
  by (simp add: yields_def ret_def)

lemma yields_bnd [yields_intro]: "(\<And>x. yields P (f x)) \<Longrightarrow> yields P (bnd m f)"
  by (fastforce simp: yields_def bnd_eq_Inr)

lemma yields_seq [yields_intro]: "yields P n \<Longrightarrow> yields P (seq m n)"
  by (simp add: seq_def yields_bnd)

lemma yields_if [yields_intro]:
  "(b \<Longrightarrow> yields P m) \<Longrightarrow> (\<not> b \<Longrightarrow> yields P n) \<Longrightarrow> yields P (if b then m else n)"
  by simp

section \<open>Byte order\<close>

definition be16 :: "byte \<Rightarrow> byte \<Rightarrow> u16" where
  "be16 b0 b1 = push_bit 8 (ucast b0) OR ucast b1"

definition le16 :: "byte \<Rightarrow> byte \<Rightarrow> u16" where
  "le16 b0 b1 = be16 b1 b0"

definition be32 :: "byte \<Rightarrow> byte \<Rightarrow> byte \<Rightarrow> byte \<Rightarrow> u32" where
  "be32 b0 b1 b2 b3 =
     push_bit 24 (ucast b0) OR push_bit 16 (ucast b1) OR push_bit 8 (ucast b2) OR ucast b3"

definition le32 :: "byte \<Rightarrow> byte \<Rightarrow> byte \<Rightarrow> byte \<Rightarrow> u32" where
  "le32 b0 b1 b2 b3 = be32 b3 b2 b1 b0"

definition be16_bytes :: "u16 \<Rightarrow> byte list" where
  "be16_bytes w = [ucast (drop_bit 8 w), ucast w]"

definition be32_bytes :: "u32 \<Rightarrow> byte list" where
  "be32_bytes w = [ucast (drop_bit 24 w), ucast (drop_bit 16 w), ucast (drop_bit 8 w), ucast w]"

lemma be16_split: "be16 (ucast (drop_bit 8 w)) (ucast w) = w"
proof (rule bit_word_eqI)
  fix n assume "n < LENGTH(16)"
  then show "bit (be16 (ucast (drop_bit 8 w)) (ucast w)) n = bit w n"
    by (cases "n < 8") (auto simp: be16_def bit_simps)
qed

lemma be32_split:
  "be32 (ucast (drop_bit 24 w)) (ucast (drop_bit 16 w)) (ucast (drop_bit 8 w)) (ucast w) = w"
proof (rule bit_word_eqI)
  fix n assume "n < LENGTH(32)"
  then have n: "n < 32" by simp
  consider "n < 8" | "8 \<le> n" "n < 16" | "16 \<le> n" "n < 24" | "24 \<le> n" by linarith
  then show "bit (be32 (ucast (drop_bit 24 w)) (ucast (drop_bit 16 w)) (ucast (drop_bit 8 w))
      (ucast w)) n = bit w n"
    using n by cases (auto simp: be32_def bit_simps)
qed

lemma be16_of_bytes: "be16_bytes w = [b0, b1] \<Longrightarrow> be16 b0 b1 = w"
  using be16_split [of w] by (simp add: be16_bytes_def)

lemma be32_of_bytes: "be32_bytes w = [b0, b1, b2, b3] \<Longrightarrow> be32 b0 b1 b2 b3 = w"
  using be32_split [of w] by (simp add: be32_bytes_def)

section \<open>Conversions of printf\<close>

definition hex_digit :: "int \<Rightarrow> char" where
  "hex_digit n = ''0123456789abcdef'' ! nat n"

function digits_base :: "int \<Rightarrow> int \<Rightarrow> string" where
  "digits_base b n =
     (if n < b \<or> b < 2 then [hex_digit n] else digits_base b (n div b) @ [hex_digit (n mod b)])"
  by pat_completeness auto
termination
  by (relation "measure (\<lambda>(b, n). nat n)") (auto simp: int_div_less_self)

declare digits_base.simps [simp del]

definition hex_int :: "int \<Rightarrow> string" where
  "hex_int n = digits_base 16 n"

definition dec_int :: "int \<Rightarrow> string" where
  "dec_int n = digits_base 10 n"

definition pad :: "nat \<Rightarrow> string \<Rightarrow> string" where
  "pad w t = replicate (w - length t) CHR ''0'' @ t"

text \<open>
  \<^verbatim>\<open>%d\<close>, \<^verbatim>\<open>%0wd\<close> (of a value that is not negative), \<^verbatim>\<open>%x\<close>, \<^verbatim>\<open>%02x\<close>, \<^verbatim>\<open>%08x\<close> and \<^verbatim>\<open>%#02x\<close> (of unsigned
  values).
\<close>

definition fmt_d :: "int \<Rightarrow> string" where [fmt_defs]:
  "fmt_d i = (if i < 0 then CHR ''-'' # dec_int (- i) else dec_int i)"

definition fmt_0d :: "nat \<Rightarrow> int \<Rightarrow> string" where [fmt_defs]:
  "fmt_0d w i = pad w (dec_int i)"

definition fmt_x :: "int \<Rightarrow> string" where [fmt_defs]:
  "fmt_x n = hex_int n"

definition fmt_02x :: "int \<Rightarrow> string" where [fmt_defs]:
  "fmt_02x n = pad 2 (hex_int n)"

definition fmt_08x :: "int \<Rightarrow> string" where [fmt_defs]:
  "fmt_08x n = pad 8 (hex_int n)"

definition fmt_alt_02x :: "int \<Rightarrow> string" where [fmt_defs]:
  "fmt_alt_02x n = (if n = 0 then ''00'' else ''0x'' @ hex_int n)"

text \<open>A reader of these numerals, to state that what is printed determines the value.\<close>

definition digit_val :: "char \<Rightarrow> int" where
  "digit_val c = (let k = of_char c in if k < 58 then k - 48 else k - 87)"

definition read_base :: "int \<Rightarrow> string \<Rightarrow> int" where
  "read_base b t = foldl (\<lambda>a c. a * b + digit_val c) 0 t"

lemma digit_val_hex_digit: "0 \<le> n \<Longrightarrow> n < 16 \<Longrightarrow> digit_val (hex_digit n) = n"
proof -
  assume "0 \<le> n" "n < 16"
  then have "nat n \<in> set [0..<16]" by simp
  then have "nat n \<in> {0,1,2,3,4,5,6,7,8,9,10,11,12,13,14,15}" by (auto simp: upt_rec)
  with \<open>0 \<le> n\<close> show ?thesis by (auto simp: digit_val_def hex_digit_def Let_def)
qed

lemma read_base_snoc: "read_base b (t @ [c]) = read_base b t * b + digit_val c"
  by (simp add: read_base_def)

lemma read_digits_base: "2 \<le> b \<Longrightarrow> b \<le> 16 \<Longrightarrow> 0 \<le> n \<Longrightarrow> read_base b (digits_base b n) = n"
proof (induction b n rule: digits_base.induct)
  case (1 b n)
  show ?case
  proof (cases "n < b")
    case True
    with "1.prems" show ?thesis
      by (simp add: digits_base.simps [of b n] read_base_def digit_val_hex_digit)
  next
    case False
    have "n mod b < b" "0 \<le> n mod b" using "1.prems" by simp_all
    then have "digit_val (hex_digit (n mod b)) = n mod b"
      using "1.prems" by (intro digit_val_hex_digit) linarith+
    with False 1 show ?thesis
      by (simp add: digits_base.simps [of b n] read_base_snoc pos_imp_zdiv_nonneg_iff)
  qed
qed

lemma read_hex_int [simp]: "0 \<le> n \<Longrightarrow> read_base 16 (hex_int n) = n"
  by (simp add: hex_int_def read_digits_base)

lemma read_dec_int [simp]: "0 \<le> n \<Longrightarrow> read_base 10 (dec_int n) = n"
  by (simp add: dec_int_def read_digits_base)

lemma read_base_pad [simp]: "read_base b (pad w t) = read_base b t"
proof -
  have z: "digit_val CHR ''0'' = 0" by (simp add: digit_val_def)
  have "foldl (\<lambda>a c. a * b + digit_val c) 0 (replicate k CHR ''0'') = 0" for k
    by (induction k) (simp_all add: z)
  then show ?thesis by (simp add: read_base_def pad_def)
qed

lemma div_int_pos_less: "0 < b \<Longrightarrow> n < (m :: int) * b \<Longrightarrow> n div b < m"
proof (rule ccontr)
  assume b: "0 < b" and n: "n < m * b" and "\<not> n div b < m"
  then have "m * b \<le> n div b * b" by (intro mult_right_mono) simp_all
  also have "\<dots> = n - n mod b" by (rule minus_mod_eq_div_mult [symmetric])
  also have "\<dots> \<le> n" using b by simp
  finally show False using n by simp
qed

lemma length_digits_base:
  "2 \<le> b \<Longrightarrow> n < b ^ Suc k \<Longrightarrow> length (digits_base b n) \<le> Suc k"
proof (induction k arbitrary: n)
  case 0
  then show ?case by (simp add: digits_base.simps [of b n])
next
  case (Suc k)
  then have "n < b ^ Suc k * b" by (simp add: mult.commute)
  then have "n div b < b ^ Suc k" using Suc.prems(1) by (intro div_int_pos_less) simp_all
  with Suc.IH [OF Suc.prems(1)] have "length (digits_base b (n div b)) \<le> Suc k" by blast
  then show ?case by (simp add: digits_base.simps [of b n])
qed

lemma length_pad: "length t \<le> w \<Longrightarrow> length (pad w t) = w"
  by (simp add: pad_def)

lemma length_fmt_02x: "n < 256 \<Longrightarrow> length (fmt_02x n) = 2"
  using length_digits_base [of 16 n 1] by (simp add: fmt_02x_def hex_int_def length_pad)

lemma length_fmt_08x: "n < 2 ^ 32 \<Longrightarrow> length (fmt_08x n) = 8"
  using length_digits_base [of 16 n 7] by (simp add: fmt_08x_def hex_int_def length_pad)

section \<open>Reading of numbers\<close>

text \<open>\<^verbatim>\<open>isspace\<close> and \<^verbatim>\<open>atoi\<close> in the C locale.\<close>

definition isspace :: "char \<Rightarrow> bool" where
  "isspace c \<longleftrightarrow> c = CHR '' '' \<or> (9 \<le> (of_char c :: nat) \<and> (of_char c :: nat) \<le> 13)"

fun atoi_digits :: "int \<Rightarrow> string \<Rightarrow> int" where
  "atoi_digits acc [] = acc"
| "atoi_digits acc (c # cs) =
     (if CHR ''0'' \<le> c \<and> c \<le> CHR ''9'' then atoi_digits (10 * acc + (int (of_char c) - 48)) cs else acc)"

fun atoi_signed :: "string \<Rightarrow> int" where
  "atoi_signed [] = 0"
| "atoi_signed (c # cs) = (if c = CHR ''-'' then - atoi_digits 0 cs
     else if c = CHR ''+'' then atoi_digits 0 cs else atoi_digits 0 (c # cs))"

definition atoi :: "string \<Rightarrow> int" where
  "atoi t = atoi_signed (dropWhile isspace t)"

text \<open>
  A conversion \<^verbatim>\<open>%u\<close> of \<^verbatim>\<open>sscanf\<close>: white space, an optional sign, at least one digit. The number is read by
  \<^verbatim>\<open>strtoul\<close>, which stops at the largest \<^verbatim>\<open>unsigned long\<close>, and stored as an \<^verbatim>\<open>unsigned int\<close>. For \<^verbatim>\<open>%d\<close> it is
  \<^verbatim>\<open>strtol\<close>.
\<close>

definition isdigit :: "char \<Rightarrow> bool" where
  "isdigit c \<longleftrightarrow> CHR ''0'' \<le> c \<and> c \<le> CHR ''9''"

fun scan_sign :: "string \<Rightarrow> bool \<times> string" where
  "scan_sign [] = (False, [])"
| "scan_sign (c # cs) = (if c = CHR ''-'' then (True, cs) else if c = CHR ''+'' then (False, cs) else (False, c # cs))"

definition scan_number :: "string \<Rightarrow> (bool \<times> int \<times> string) option" where
  "scan_number t =
     (let (neg, t1) = scan_sign (dropWhile isspace t); ds = takeWhile isdigit t1
      in if ds = [] then None else Some (neg, read_base 10 ds, dropWhile isdigit t1))"

definition strtoul :: "bool \<Rightarrow> int \<Rightarrow> int" where
  "strtoul neg v = (if v > 2 ^ 64 - 1 then 2 ^ 64 - 1 else if neg then (- v) mod 2 ^ 64 else v)"

definition strtol :: "bool \<Rightarrow> int \<Rightarrow> int" where
  "strtol neg v = (if neg then max (- (2 ^ 63)) (- v) else min (2 ^ 63 - 1) v)"

definition scan_u :: "string \<Rightarrow> (u32 \<times> string) option" where
  "scan_u t = map_option (\<lambda>(neg, v, rest). (word_of_int (strtoul neg v), rest)) (scan_number t)"

definition scan_d :: "string \<Rightarrow> (u32 \<times> string) option" where
  "scan_d t = map_option (\<lambda>(neg, v, rest). (word_of_int (strtol neg v), rest)) (scan_number t)"

text \<open>
  \<^verbatim>\<open>strtoul(nptr, &endptr, 0)\<close>: white space, a sign, a prefix that gives the base, digits. The rest is what \<^verbatim>\<open>endptr\<close> points
  to; without a digit that is the whole string. The value stops at the largest \<^verbatim>\<open>unsigned long\<close>, which has \<open>w\<close> bits.
\<close>

definition digit_of :: "char \<Rightarrow> int option" where
  "digit_of c =
     (let k = of_char c :: int
      in if 48 \<le> k \<and> k \<le> 57 then Some (k - 48)
         else if 97 \<le> k \<and> k \<le> 122 then Some (k - 87)
         else if 65 \<le> k \<and> k \<le> 90 then Some (k - 55)
         else None)"

definition in_base :: "int \<Rightarrow> char \<Rightarrow> bool" where
  "in_base b c = (case digit_of c of None \<Rightarrow> False | Some d \<Rightarrow> d < b)"

definition read_digits :: "int \<Rightarrow> string \<Rightarrow> int" where
  "read_digits b ds = foldl (\<lambda>a c. a * b + (case digit_of c of None \<Rightarrow> 0 | Some d \<Rightarrow> d)) 0 ds"

text \<open>The prefix \<^verbatim>\<open>0x\<close> counts only when a hexadecimal digit follows.\<close>

definition split_base :: "string \<Rightarrow> int \<times> string" where
  "split_base t =
     (case t of
        c0 # c1 # c2 # r \<Rightarrow>
          if c0 = CHR ''0'' \<and> (c1 = CHR ''x'' \<or> c1 = CHR ''X'') \<and> in_base 16 c2 then (16, c2 # r)
          else if c0 = CHR ''0'' then (8, t) else (10, t)
      | c0 # r \<Rightarrow> if c0 = CHR ''0'' then (8, t) else (10, t)
      | [] \<Rightarrow> (10, t))"

definition strtoul_0 :: "nat \<Rightarrow> string \<Rightarrow> int \<times> string" where
  "strtoul_0 w nptr =
     (let (neg, t1) = scan_sign (dropWhile isspace nptr);
          (b, t2) = split_base t1;
          ds = takeWhile (in_base b) t2;
          v = read_digits b ds
      in if ds = [] then (0, nptr)
         else (if v > 2 ^ w - 1 then 2 ^ w - 1 else if neg then (- v) mod 2 ^ w else v, dropWhile (in_base b) t2))"

subsection \<open>Printed numbers are read back\<close>

lemma digit_of_hex: "0 \<le> n \<Longrightarrow> n < 16 \<Longrightarrow> digit_of (hex_digit n) = Some n \<and> \<not> isspace (hex_digit n) \<and>
  hex_digit n \<noteq> CHR ''-'' \<and> hex_digit n \<noteq> CHR ''+'' \<and> (hex_digit n = CHR ''0'' \<longleftrightarrow> n = 0)"
proof -
  assume "0 \<le> n" "n < 16"
  then obtain k where k: "n = int k" "k \<in> set [0..<16]" by (metis atLeast0LessThan atLeast_upt lessThan_iff nat_int
        nonneg_int_cases of_nat_less_numeral_iff)
  have "list_all (\<lambda>k. digit_of (''0123456789abcdef'' ! k) = Some (int k) \<and> \<not> isspace (''0123456789abcdef'' ! k) \<and>
      ''0123456789abcdef'' ! k \<noteq> CHR ''-'' \<and> ''0123456789abcdef'' ! k \<noteq> CHR ''+'' \<and>
      (''0123456789abcdef'' ! k = CHR ''0'' \<longleftrightarrow> k = 0)) [0..<16]"
    by code_simp
  then show ?thesis using k(2) unfolding k(1) hex_digit_def list_all_iff nat_int of_nat_eq_0_iff by blast
qed

lemma read_digits_snoc: "read_digits b (t @ [c]) = read_digits b t * b + (case digit_of c of None \<Rightarrow> 0 | Some d \<Rightarrow> d)"
  by (simp add: read_digits_def)

lemma numeral_digits:
  "2 \<le> b \<Longrightarrow> b \<le> 16 \<Longrightarrow> 0 \<le> n \<Longrightarrow>
   read_digits b (digits_base b n) = n \<and> list_all (in_base b) (digits_base b n) \<and>
   (\<exists>d r. digits_base b n = hex_digit d # r \<and> 0 \<le> d \<and> d < b \<and> (d = 0 \<longrightarrow> n = 0 \<and> r = []))"
proof (induction b n rule: digits_base.induct)
  case (1 b n)
  show ?case
  proof (cases "n < b")
    case True
    with "1.prems" show ?thesis
      by (auto simp: digits_base.simps [of b n] read_digits_def in_base_def digit_of_hex intro!: exI [of _ n])
  next
    case False
    have m: "0 \<le> n mod b" "n mod b < b" using "1.prems" by simp_all
    have q: "0 \<le> n div b" "n div b \<noteq> 0" using "1.prems" False by (simp_all add: pos_imp_zdiv_nonneg_iff zdiv_eq_0_iff)
    then have IH: "read_digits b (digits_base b (n div b)) = n div b" "list_all (in_base b) (digits_base b (n div b))"
      "\<exists>d r. digits_base b (n div b) = hex_digit d # r \<and> 0 \<le> d \<and> d < b \<and> (d = 0 \<longrightarrow> n div b = 0 \<and> r = [])"
      using "1.IH" "1.prems" False by simp_all
    then obtain d r where "digits_base b (n div b) = hex_digit d # r" "0 \<le> d" "d < b" "d \<noteq> 0"
      using q(2) by blast
    note lead = this
    have e: "digits_base b n = digits_base b (n div b) @ [hex_digit (n mod b)]"
      using False "1.prems" by (simp add: digits_base.simps [of b n])
    have dm: "digit_of (hex_digit (n mod b)) = Some (n mod b)" using digit_of_hex [of "n mod b"] m less_le_trans [OF m(2) "1.prems"(2)] by blast
    have "read_digits b (digits_base b n) = n" unfolding e read_digits_snoc IH(1) dm by simp
    moreover have "list_all (in_base b) (digits_base b n)"
      unfolding e list_all_append using IH(2) dm m(2) by (simp add: in_base_def)
    moreover have "digits_base b n = hex_digit d # (r @ [hex_digit (n mod b)])" unfolding e lead(1) by simp
    ultimately show ?thesis using lead(2-4) by blast
  qed
qed

lemma digits_taken: "list_all (in_base b) t \<Longrightarrow> takeWhile (in_base b) t = t \<and> dropWhile (in_base b) t = []"
  by (simp add: takeWhile_eq_all_conv dropWhile_eq_Nil_conv list_all_iff)

lemma hex_numeral:
  assumes "0 \<le> n"
  obtains k r where "fmt_x n = hex_digit k # r" "read_digits 16 (fmt_x n) = n" "list_all (in_base 16) (fmt_x n)"
  using numeral_digits [of 16 n] assms unfolding fmt_x_def hex_int_def by auto

lemma strtoul_0_hex:
  assumes "0 \<le> n" "n < 2 ^ w"
  shows "strtoul_0 w (''0x'' @ fmt_x n) = (n, [])"
proof -
  obtain k r where h: "fmt_x n = hex_digit k # r" "read_digits 16 (fmt_x n) = n" "list_all (in_base 16) (fmt_x n)"
    using hex_numeral [OF assms(1)] .
  have "split_base (''0x'' @ fmt_x n) = (16, fmt_x n)" using h(1,3) by (simp add: split_base_def)
  moreover have "\<not> isspace CHR ''0''" by code_simp
  ultimately show ?thesis using h(1,2) digits_taken [OF h(3)] assms by (simp add: strtoul_0_def Let_def)
qed

lemma strtoul_0_dec:
  assumes "0 \<le> n" "n < 2 ^ w"
  shows "strtoul_0 w (fmt_d n) = (n, [])"
proof -
  let ?d = "digits_base 10 n"
  have f: "fmt_d n = ?d" using assms(1) by (simp add: fmt_d_def dec_int_def)
  obtain k r where d: "read_digits 10 ?d = n" "list_all (in_base 10) ?d" "?d = hex_digit k # r"
    "0 \<le> k" "k < 10" "k = 0 \<longrightarrow> n = 0 \<and> r = []"
    using numeral_digits [of 10 n] assms(1) by auto
  have k: "\<not> isspace (hex_digit k)" "hex_digit k \<noteq> CHR ''-''" "hex_digit k \<noteq> CHR ''+''" "hex_digit k = CHR ''0'' \<longleftrightarrow> k = 0"
    using digit_of_hex [of k] d(4,5) by auto
  have s: "scan_sign (dropWhile isspace ?d) = (False, ?d)" using k d(3) by simp
  show ?thesis
  proof (cases "k = 0")
    case True
    then have z: "?d = ''0''" "n = 0" using d(3,6) by (simp_all add: hex_digit_def)
    have "split_base ''0'' = (8, ''0'')" "takeWhile (in_base 8) ''0'' = ''0''" "dropWhile (in_base 8) ''0'' = []" "read_digits 8 ''0'' = 0"
      by code_simp+
    moreover have "(1 :: int) \<le> 2 ^ w" by simp
    ultimately show ?thesis using s unfolding f z(1) by (simp add: strtoul_0_def z(2) not_less)
  next
    case False
    then have "split_base ?d = (10, ?d)" using k(4) d(3) by (auto simp: split_base_def split: list.split)
    then show ?thesis
      using d(1,3) assms s digits_taken [OF d(2)] unfolding f by (simp add: strtoul_0_def Let_def)
  qed
qed

lemma fmt_d_not_Nil: "fmt_d n \<noteq> []"
  by (simp add: fmt_d_def dec_int_def digits_base.simps)

section \<open>Strings\<close>

text \<open>The characters up to the terminator; \<^verbatim>\<open>strncmp(p, t, strlen(p)) == 0\<close>; \<^verbatim>\<open>fgets\<close> into an array of \<open>n\<close> characters: the line and
  the rest of the file.\<close>

definition c_str :: "string \<Rightarrow> string" where
  "c_str t = takeWhile (\<lambda>c. c \<noteq> CHR 0x00) t"

definition is_prefix :: "string \<Rightarrow> string \<Rightarrow> bool" where
  "is_prefix p t \<longleftrightarrow> take (length p) t = p"

definition fgets :: "nat \<Rightarrow> string \<Rightarrow> (string \<times> string) option" where
  "fgets n t =
     (let m = takeWhile (\<lambda>c. c \<noteq> CHR 0x0a) t; k = min (n - 1) (length m + 1)
      in if t = [] \<or> n \<le> 1 then None else Some (take k t, drop k t))"

lemma fgets_shorter: "fgets n t = Some (l, r) \<Longrightarrow> length r < length t"
  by (auto simp: fgets_def Let_def split: if_splits)

lemma fgets_line:
  "CHR 0x0a \<notin> set l \<Longrightarrow> length l + 2 \<le> n \<Longrightarrow> fgets n (l @ CHR 0x0a # r) = Some (l @ [CHR 0x0a], r)"
  by (simp add: fgets_def takeWhile_append)

section \<open>Words\<close>

lemma unat_and_le: "unat ((a :: 'a::len word) AND b) \<le> unat b"
  by (rule word_and_le1 [THEN word_le_nat_alt [THEN iffD1]])

lemma unat_drop_bit: "unat (drop_bit n (a :: 'a::len word)) = unat a div 2 ^ n"
  unfolding unat_drop_bit_eq by (simp only: drop_bit_eq_div)

lemma unat_byte_less [simp]: "unat (b :: byte) < 256"
proof -
  have "unat b < 2 ^ LENGTH(8)" by (rule unsigned_less)
  then show ?thesis by simp
qed

text \<open>A decidable fact about all bytes is checked by running through them.\<close>

lemma all_bytes: "list_all (\<lambda>n. P (of_nat n)) [0..<256] \<Longrightarrow> P (b :: byte)"
proof -
  assume *: "list_all (\<lambda>n. P (of_nat n)) [0..<256]"
  have "unat b \<in> set [0..<256]" by simp
  with * have "P (of_nat (unat b))" unfolding list_all_iff by blast
  then show ?thesis by simp
qed

lemma unat_u16_less [simp]: "unat (w :: u16) < 65536"
proof -
  have "unat w < 2 ^ LENGTH(16)" by (rule unsigned_less)
  then show ?thesis by simp
qed

lemma map_upt_shift: "map f [a..<a + n] = map (\<lambda>i. f (a + i)) [0..<n]"
  by (rule nth_equalityI) auto

end
