(* ===== verification/Netbuf.thy ===== *)
theory Netbuf
  imports C_Prelude
begin

text \<open>
  The network buffer of \<^verbatim>\<open>irda-utils/irdadump/netbuf.c\<close>. A \<open>netbuf\<close> is the \<^verbatim>\<open>GNetBuf\<close> structure
  together with the heap block it owns: the pointers \<^verbatim>\<open>data\<close>, \<^verbatim>\<open>tail\<close> and \<^verbatim>\<open>end\<close> are offsets from
  \<^verbatim>\<open>head\<close>, the block is a byte memory of which the first \<^verbatim>\<open>truesize\<close> cells are allocated. \<^verbatim>\<open>guint\<close>
  fields keep their 32 bits, so \<^verbatim>\<open>truesize+len\<close> wraps as it does in C. The C library's allocator
  is the parameter \<open>libc\<close>: whether a request of a size succeeds and what fresh bytes hold.

  The operations are shown to implement a sequence of bytes (\<open>payload\<close>) under the
  well-formedness of the pointers (\<open>netbuf_wf\<close>); the locale \<open>message_buffer\<close> is that contract, and
  protocol encapsulation is proved from it.
\<close>

section \<open>The buffer\<close>

record netbuf =
  nb_data :: nat
  nb_tail :: nat
  nb_end :: nat
  nb_len :: u32
  nb_truesize :: u32
  nb_mem :: "nat \<Rightarrow> byte"

record libc =
  realloc_ok :: "u32 \<Rightarrow> bool"
  fresh :: "nat \<Rightarrow> byte"

type_synonym 'a buf_prog = "(netbuf, 'a) prog"

definition g_netbuf_recycle :: "netbuf \<Rightarrow> netbuf" where
  "g_netbuf_recycle msg =
     msg\<lparr>nb_data := 0, nb_tail := 0, nb_len := 0, nb_end := unat (nb_truesize msg)\<rparr>"

text \<open>\<^verbatim>\<open>g_malloc\<close> stops the program when memory is exhausted and returns \<^verbatim>\<open>NULL\<close> only for size 0.\<close>

definition g_netbuf_new :: "libc \<Rightarrow> u32 \<Rightarrow> netbuf option" where
  "g_netbuf_new L len =
     (if len = 0 then None
      else Some (g_netbuf_recycle
        \<lparr>nb_data = 0, nb_tail = 0, nb_end = 0, nb_len = 0, nb_truesize = len, nb_mem = fresh L\<rparr>))"

definition g_netbuf_realloc :: "libc \<Rightarrow> u32 \<Rightarrow> netbuf \<Rightarrow> netbuf option" where
  "g_netbuf_realloc L len msg =
     (if realloc_ok L len
      then Some (msg\<lparr>nb_truesize := len, nb_end := unat len,
             nb_mem := (\<lambda>i. if i < unat (nb_truesize msg) then nb_mem msg i else fresh L i)\<rparr>)
      else None)"

text \<open>The handle is dead after \<^verbatim>\<open>g_netbuf_free\<close>, whether or not there was a buffer.\<close>

definition g_netbuf_free :: "netbuf option \<Rightarrow> netbuf option" where
  "g_netbuf_free msg = None"

text \<open>
  \<^verbatim>\<open>msg->tail\<close> and \<^verbatim>\<open>msg->len\<close> have already moved when the reallocation is tried, and stay moved when
  it fails. The result is the pointer returned to the caller, \<open>None\<close> for \<^verbatim>\<open>NULL\<close>.
\<close>

definition g_netbuf_put :: "libc \<Rightarrow> u32 \<Rightarrow> nat option buf_prog" where
  "g_netbuf_put L len = (\<lambda>msg.
     let tmp = nb_tail msg;
         msg1 = msg\<lparr>nb_tail := nb_tail msg + unat len, nb_len := nb_len msg + len\<rparr>
     in if nb_tail msg1 > nb_end msg1
        then (case g_netbuf_realloc L (nb_truesize msg1 + len) msg1 of
                None \<Rightarrow> Inr (None, msg1)
              | Some msg2 \<Rightarrow> Inr (Some (nb_tail msg2 - unat len), msg2))
        else Inr (Some tmp, msg1))"

text \<open>Copying \<open>len\<close> bytes of the object \<open>src\<close> to the pointer \<open>dst\<close> of the buffer.\<close>

definition memcpy_in :: "nat option \<Rightarrow> byte list \<Rightarrow> u32 \<Rightarrow> unit buf_prog" where
  "memcpy_in dst src len = (\<lambda>msg.
     if length src < unat len then Inl (Local_Bounds ''src'' (length src))
     else case dst of
       None \<Rightarrow> Inl Null_Pointer
     | Some p \<Rightarrow>
         if unat (nb_truesize msg) < p + unat len then Inl (Frame_Bounds (unat (nb_truesize msg)))
         else Inr ((), msg\<lparr>nb_mem := (\<lambda>i. if p \<le> i \<and> i < p + unat len then src ! (i - p)
                                          else nb_mem msg i)\<rparr>))"

definition g_netbuf_put_data :: "libc \<Rightarrow> byte list \<Rightarrow> u32 \<Rightarrow> nat option buf_prog" where
  "g_netbuf_put_data L src len =
     bnd (g_netbuf_put L len) (\<lambda>tmp.
     seq (memcpy_in tmp src len)
     (ret tmp))"

text \<open>\<^verbatim>\<open>g_memmove(msg->data+len, msg->data, msg->len)\<close>.\<close>

definition memmove_up :: "nat \<Rightarrow> unit buf_prog" where
  "memmove_up n = (\<lambda>msg.
     let d = nb_data msg; l = unat (nb_len msg)
     in if unat (nb_truesize msg) < d + n + l then Inl (Frame_Bounds (unat (nb_truesize msg)))
        else Inr ((), msg\<lparr>nb_mem := (\<lambda>i. if d + n \<le> i \<and> i < d + n + l then nb_mem msg (i - n)
                                          else nb_mem msg i)\<rparr>))"

definition g_netbuf_push :: "libc \<Rightarrow> u32 \<Rightarrow> nat option buf_prog" where
  "g_netbuf_push L len =
     bnd (gets (\<lambda>msg. nb_data msg < unat len)) (\<lambda>under.
     bnd (if under
          then bnd (gets (\<lambda>msg. g_netbuf_realloc L (nb_truesize msg + len) msg)) (\<lambda>r.
            case r of
              None \<Rightarrow> ret False
            | Some msg1 \<Rightarrow>
                seq (modify (\<lambda>_. msg1))
                (seq (memmove_up (unat len))
                (seq (modify (\<lambda>msg. msg\<lparr>nb_data := nb_data msg + unat len\<rparr>))
                (seq (modify (\<lambda>msg. msg\<lparr>nb_tail := nb_tail msg + unat len\<rparr>))
                (ret True)))))
          else ret True) (\<lambda>ok.
     if \<not> ok then ret None
     else
       seq (modify (\<lambda>msg. msg\<lparr>nb_data := nb_data msg - unat len\<rparr>))
       (seq (modify (\<lambda>msg. msg\<lparr>nb_len := nb_len msg + len\<rparr>))
       (gets (\<lambda>msg. Some (nb_data msg))))))"

definition g_netbuf_prepend_hdr :: "libc \<Rightarrow> byte list \<Rightarrow> u32 \<Rightarrow> nat option buf_prog" where
  "g_netbuf_prepend_hdr L hdr len =
     bnd (g_netbuf_push L len) (\<lambda>tmp.
     seq (memcpy_in tmp hdr len)
     (ret tmp))"

definition g_netbuf_pull :: "u32 \<Rightarrow> nat option buf_prog" where
  "g_netbuf_pull len = (\<lambda>msg.
     if len > nb_len msg then Inr (None, msg)
     else let msg1 = msg\<lparr>nb_len := nb_len msg - len, nb_data := nb_data msg + unat len\<rparr>
          in Inr (Some (nb_data msg1), msg1))"

definition g_netbuf_reserve :: "u32 \<Rightarrow> unit buf_prog" where
  "g_netbuf_reserve len =
     modify (\<lambda>msg. msg\<lparr>nb_data := nb_data msg + unat len, nb_tail := nb_tail msg + unat len\<rparr>)"

text \<open>The pointer differences are returned as \<^verbatim>\<open>gint\<close>: the low 32 bits, read as two's complement.\<close>

definition gint_of :: "int \<Rightarrow> int" where
  "gint_of i = sint (word_of_int i :: u32)"

definition g_netbuf_headroom :: "netbuf \<Rightarrow> int" where
  "g_netbuf_headroom msg = gint_of (int (nb_data msg))"

definition g_netbuf_tailroom :: "netbuf \<Rightarrow> int" where
  "g_netbuf_tailroom msg = gint_of (int (nb_end msg) - int (nb_tail msg))"

definition g_netbuf_trim :: "u32 \<Rightarrow> unit buf_prog" where
  "g_netbuf_trim len =
     modify (\<lambda>msg. if nb_len msg > len
       then msg\<lparr>nb_len := len, nb_tail := nb_data msg + unat len\<rparr> else msg)"

definition g_netbuf_get_len :: "netbuf \<Rightarrow> u32" where
  "g_netbuf_get_len msg = nb_len msg"

section \<open>What the buffer stands for\<close>

definition payload :: "netbuf \<Rightarrow> byte list" where
  "payload msg = map (nb_mem msg) [nb_data msg..<nb_data msg + unat (nb_len msg)]"

definition netbuf_wf :: "netbuf \<Rightarrow> bool" where
  "netbuf_wf msg \<longleftrightarrow> nb_data msg + unat (nb_len msg) = nb_tail msg \<and>
     nb_tail msg \<le> nb_end msg \<and> nb_end msg = unat (nb_truesize msg)"

text \<open>\<open>n\<close> more bytes can be added: the 32-bit size does not wrap and the allocator serves requests.\<close>

definition has_room :: "libc \<Rightarrow> nat \<Rightarrow> netbuf \<Rightarrow> bool" where
  "has_room L n msg \<longleftrightarrow> (\<forall>k. realloc_ok L k) \<and> unat (nb_truesize msg) + n < 2 ^ 32"

lemmas netbuf_spec_defs = payload_def netbuf_wf_def has_room_def

lemma length_payload [simp]: "length (payload msg) = unat (nb_len msg)"
  by (simp add: payload_def)

lemma payload_split:
  "unat (nb_len msg) = a + b \<Longrightarrow> payload msg =
     map (nb_mem msg) [nb_data msg..<nb_data msg + a] @
     map (nb_mem msg) [nb_data msg + a..<nb_data msg + a + b]"
  using upt_add_eq_append [of "nb_data msg" "nb_data msg + a" b]
  by (simp add: payload_def add.assoc flip: map_append)

lemma map_written: "length bs = n \<Longrightarrow>
    map (\<lambda>i. if p \<le> i \<and> i < p + n then bs ! (i - p) else f i) [p..<p + n] = bs"
  by (rule nth_equalityI) auto

lemma payload_nth: "i < unat (nb_len msg) \<Longrightarrow> payload msg ! i = nb_mem msg (nb_data msg + i)"
  by (simp add: payload_def)

lemma unat_add_u32: "unat a + unat b < 2 ^ 32 \<Longrightarrow> unat (a + b :: u32) = unat a + unat b"
  by (simp add: unat_word_ariths)

lemma unat_sub_u32: "b \<le> a \<Longrightarrow> unat (a - b :: u32) = unat a - unat b"
  by (simp add: unat_sub)

lemma unat_of_nat_u32: "n < 2 ^ 32 \<Longrightarrow> unat (of_nat n :: u32) = n"
  by (simp add: unat_of_nat)

lemma wp_memcpy_in [wp_simps]:
  "wp (memcpy_in dst src len) Q msg \<longleftrightarrow>
     unat len \<le> length src \<and> (\<exists>p. dst = Some p \<and> p + unat len \<le> unat (nb_truesize msg) \<and>
     Q () (msg\<lparr>nb_mem := (\<lambda>i. if p \<le> i \<and> i < p + unat len then src ! (i - p) else nb_mem msg i)\<rparr>))"
  by (auto simp: wp_def memcpy_in_def not_less split: option.splits)

lemma wp_memmove_up [wp_simps]:
  "wp (memmove_up n) Q msg \<longleftrightarrow>
     nb_data msg + n + unat (nb_len msg) \<le> unat (nb_truesize msg) \<and>
     Q () (msg\<lparr>nb_mem := (\<lambda>i. if nb_data msg + n \<le> i \<and> i < nb_data msg + n + unat (nb_len msg)
                             then nb_mem msg (i - n) else nb_mem msg i)\<rparr>)"
  by (auto simp: wp_def memmove_up_def Let_def not_less)

section \<open>Each operation against the specification\<close>

lemma recycle_wf: "netbuf_wf (g_netbuf_recycle msg)"
  by (simp add: g_netbuf_recycle_def netbuf_wf_def)

lemma recycle_payload: "payload (g_netbuf_recycle msg) = []"
  by (simp add: g_netbuf_recycle_def payload_def)

lemma new_wf: "g_netbuf_new L len = Some msg \<Longrightarrow>
    netbuf_wf msg \<and> payload msg = [] \<and> nb_truesize msg = len"
  by (auto simp: g_netbuf_new_def g_netbuf_recycle_def netbuf_spec_defs split: if_splits)

text \<open>\<^verbatim>\<open>put\<close> grows the message at its tail by \<open>len\<close> bytes and points at them.\<close>

lemma wp_put:
  assumes "netbuf_wf msg" "has_room L (unat len) msg"
  shows "wp (g_netbuf_put L len) (\<lambda>r msg'. r = Some (nb_tail msg) \<and> netbuf_wf msg' \<and>
    nb_data msg' = nb_data msg \<and> nb_len msg' = nb_len msg + len \<and>
    nb_tail msg' = nb_tail msg + unat len \<and>
    unat (nb_truesize msg') \<le> unat (nb_truesize msg) + unat len \<and>
    (\<forall>i < nb_tail msg. nb_mem msg' i = nb_mem msg i)) msg"
proof -
  have fit: "unat (nb_truesize msg) + unat len < 2 ^ 32" and ok: "\<And>k. realloc_ok L k"
    and wf: "nb_data msg + unat (nb_len msg) = nb_tail msg" "nb_tail msg \<le> nb_end msg"
      "nb_end msg = unat (nb_truesize msg)"
    using assms by (auto simp: netbuf_spec_defs)
  have u: "unat (nb_len msg + len) = unat (nb_len msg) + unat len"
    by (rule unat_add_u32) (use fit wf in linarith)
  have t: "unat (nb_truesize msg + len) = unat (nb_truesize msg) + unat len"
    by (rule unat_add_u32) (use fit in linarith)
  show ?thesis
    using wf ok
    by (auto simp: wp_def g_netbuf_put_def g_netbuf_realloc_def netbuf_wf_def Let_def u t)
qed

lemma wp_put_data:
  assumes wf: "netbuf_wf msg" and room: "has_room L (length bs) msg"
  shows "wp (g_netbuf_put_data L bs (of_nat (length bs))) (\<lambda>r msg'. r = Some (nb_tail msg) \<and>
    netbuf_wf msg' \<and> payload msg' = payload msg @ bs \<and>
    unat (nb_truesize msg') \<le> unat (nb_truesize msg) + length bs) msg"
proof -
  have n: "unat (of_nat (length bs) :: u32) = length bs"
    using room by (intro unat_of_nat_u32) (simp add: has_room_def)
  have l: "unat (nb_len msg + of_nat (length bs)) = unat (nb_len msg) + length bs"
    using wf room by (subst unat_add_u32) (auto simp: n netbuf_spec_defs)
  have pl: "payload (m'\<lparr>nb_mem := \<lambda>i. if nb_tail msg \<le> i \<and> i < nb_tail msg + length bs
        then bs ! (i - nb_tail msg) else nb_mem m' i\<rparr>) = payload msg @ bs"
    if "nb_data m' = nb_data msg" "nb_len m' = nb_len msg + of_nat (length bs)"
      "\<forall>i < nb_tail msg. nb_mem m' i = nb_mem msg i" for m' :: netbuf
    using that wf
    by (subst payload_split [where a = "unat (nb_len msg)" and b = "length bs"])
      (auto simp: l payload_def netbuf_wf_def map_written)
  show ?thesis
    unfolding g_netbuf_put_data_def wp_bnd
    by (rule wp_mono [OF wp_put [OF wf]])
      (use room in \<open>auto simp: n wp_simps netbuf_wf_def pl\<close>)
qed

text \<open>\<^verbatim>\<open>push\<close> grows it at the front, moving the bytes up when the headroom is too small.\<close>

lemma wp_push:
  assumes "netbuf_wf msg" "has_room L (unat len) msg"
  shows "wp (g_netbuf_push L len) (\<lambda>r msg'. r = Some (nb_data msg') \<and> netbuf_wf msg' \<and>
    nb_len msg' = nb_len msg + len \<and>
    unat (nb_truesize msg') \<le> unat (nb_truesize msg) + unat len \<and>
    (\<forall>i < unat (nb_len msg). nb_mem msg' (nb_data msg' + unat len + i) = nb_mem msg (nb_data msg + i)))
    msg"
proof -
  have fit: "unat (nb_truesize msg) + unat len < 2 ^ 32" and ok: "\<And>k. realloc_ok L k"
    and wf: "nb_data msg + unat (nb_len msg) = nb_tail msg" "nb_tail msg \<le> nb_end msg"
      "nb_end msg = unat (nb_truesize msg)"
    using assms by (auto simp: netbuf_spec_defs)
  have u: "unat (nb_len msg + len) = unat (nb_len msg) + unat len"
    by (rule unat_add_u32) (use fit wf in linarith)
  have t: "unat (nb_truesize msg + len) = unat (nb_truesize msg) + unat len"
    by (rule unat_add_u32) (use fit in linarith)
  show ?thesis
    using wf ok
    by (auto simp: g_netbuf_push_def g_netbuf_realloc_def wp_simps netbuf_wf_def Let_def u t)
qed

lemma wp_prepend:
  assumes wf: "netbuf_wf msg" and room: "has_room L (length bs) msg"
  shows "wp (g_netbuf_prepend_hdr L bs (of_nat (length bs))) (\<lambda>r msg'. r = Some (nb_data msg') \<and>
    netbuf_wf msg' \<and> payload msg' = bs @ payload msg \<and>
    unat (nb_truesize msg') \<le> unat (nb_truesize msg) + length bs) msg"
proof -
  have n: "unat (of_nat (length bs) :: u32) = length bs"
    using room by (intro unat_of_nat_u32) (simp add: has_room_def)
  have l: "unat (nb_len msg + of_nat (length bs)) = unat (nb_len msg) + length bs"
    using wf room by (subst unat_add_u32) (auto simp: n netbuf_spec_defs)
  have pl: "payload (m'\<lparr>nb_mem := \<lambda>i. if nb_data m' \<le> i \<and> i < nb_data m' + length bs
        then bs ! (i - nb_data m') else nb_mem m' i\<rparr>) = bs @ payload msg"
    if "nb_len m' = nb_len msg + of_nat (length bs)"
      "\<forall>i < unat (nb_len msg). nb_mem m' (nb_data m' + length bs + i) = nb_mem msg (nb_data msg + i)"
      for m' :: netbuf
    using that
    by (subst payload_split [where a = "length bs" and b = "unat (nb_len msg)"])
      (auto simp: l map_written payload_def map_upt_shift [of _ "nb_data msg"]
        map_upt_shift [of _ "nb_data m' + length bs"])
  show ?thesis
    unfolding g_netbuf_prepend_hdr_def wp_bnd
    by (rule wp_mono [OF wp_push [OF wf]])
      (use room in \<open>auto simp: n l wp_simps netbuf_wf_def pl\<close>)
qed

lemma pull_short: "nb_len msg < len \<Longrightarrow> g_netbuf_pull len msg = Inr (None, msg)"
  by (simp add: g_netbuf_pull_def)

lemma pull_ok: "len \<le> nb_len msg \<Longrightarrow> g_netbuf_pull len msg =
    Inr (Some (nb_data msg + unat len),
         msg\<lparr>nb_len := nb_len msg - len, nb_data := nb_data msg + unat len\<rparr>)"
  by (simp add: g_netbuf_pull_def not_less [symmetric])

lemma wp_pull:
  assumes "netbuf_wf msg" "len \<le> nb_len msg"
  shows "wp (g_netbuf_pull len) (\<lambda>r msg'. r = Some (nb_data msg') \<and> netbuf_wf msg' \<and>
    payload msg' = drop (unat len) (payload msg) \<and> nb_truesize msg' = nb_truesize msg \<and>
    nb_tail msg' = nb_tail msg) msg"
proof -
  have "unat len \<le> unat (nb_len msg)" using assms(2) by (simp add: word_le_nat_alt)
  with assms show ?thesis
    by (auto simp: wp_def pull_ok netbuf_wf_def payload_def unat_sub_u32 drop_map)
qed

lemma wp_trim:
  assumes "netbuf_wf msg"
  shows "wp (g_netbuf_trim len) (\<lambda>_ msg'. netbuf_wf msg' \<and>
    payload msg' = take (unat len) (payload msg)) msg"
  using assms
  by (auto simp: wp_def g_netbuf_trim_def modify_def netbuf_wf_def payload_def take_map
      word_less_nat_alt min_def not_less)

section \<open>The contract of a message buffer\<close>

text \<open>
  What the layers of a protocol stack need of a buffer: data is added behind, a header in front, and
  a header is taken off again. \<open>room n\<close> says that \<open>n\<close> more bytes fit; what an operation adds is
  what it takes from the room.
\<close>

text \<open>Headers put on one after the other (innermost layer first), and headers taken off.\<close>

primrec encapsulate :: "(byte list \<Rightarrow> ('b, 'r) prog) \<Rightarrow> byte list list \<Rightarrow> ('b, unit) prog" where
  "encapsulate add_header [] = skip"
| "encapsulate add_header (h # hs) = seq (add_header h) (encapsulate add_header hs)"

primrec decapsulate :: "(nat \<Rightarrow> ('b, 'r) prog) \<Rightarrow> nat list \<Rightarrow> ('b, unit) prog" where
  "decapsulate pull [] = skip"
| "decapsulate pull (n # ns) = seq (pull n) (decapsulate pull ns)"

locale message_buffer =
  fixes wf :: "'b \<Rightarrow> bool"
    and bytes :: "'b \<Rightarrow> byte list"
    and room :: "nat \<Rightarrow> 'b \<Rightarrow> bool"
    and add_data :: "byte list \<Rightarrow> ('b, 'r) prog"
    and add_header :: "byte list \<Rightarrow> ('b, 'r) prog"
    and pull :: "nat \<Rightarrow> ('b, 'r) prog"
  assumes add_data: "wf b \<Longrightarrow> room (length bs + n) b \<Longrightarrow>
      wp (add_data bs) (\<lambda>_ b'. wf b' \<and> bytes b' = bytes b @ bs \<and> room n b') b"
    and add_header: "wf b \<Longrightarrow> room (length bs + n) b \<Longrightarrow>
      wp (add_header bs) (\<lambda>_ b'. wf b' \<and> bytes b' = bs @ bytes b \<and> room n b') b"
    and pull: "wf b \<Longrightarrow> n \<le> length (bytes b) \<Longrightarrow>
      wp (pull n) (\<lambda>_ b'. wf b' \<and> bytes b' = drop n (bytes b)) b"
begin

lemma wp_encapsulate:
  "wf b \<Longrightarrow> room (length (concat hs)) b \<Longrightarrow>
     wp (encapsulate add_header hs) (\<lambda>_ b'. wf b' \<and> bytes b' = concat (rev hs) @ bytes b) b"
proof (induction hs arbitrary: b)
  case Nil
  then show ?case by (simp add: wp_simps)
next
  case (Cons h hs)
  have "wp (add_header h)
      (\<lambda>_ b'. wf b' \<and> bytes b' = h @ bytes b \<and> room (length (concat hs)) b') b"
    using Cons.prems by (intro add_header) simp_all
  then have "wp (add_header h) (\<lambda>_. wp (encapsulate add_header hs)
      (\<lambda>_ b'. wf b' \<and> bytes b' = concat (rev hs) @ h @ bytes b)) b"
    by (rule wp_mono) (auto dest: Cons.IH)
  then show ?case by (simp add: wp_seq)
qed

lemma wp_decapsulate:
  "wf b \<Longrightarrow> sum_list ns \<le> length (bytes b) \<Longrightarrow>
     wp (decapsulate pull ns) (\<lambda>_ b'. wf b' \<and> bytes b' = drop (sum_list ns) (bytes b)) b"
proof (induction ns arbitrary: b)
  case Nil
  then show ?case by (simp add: wp_simps)
next
  case (Cons n ns)
  have "wp (pull n) (\<lambda>_ b'. wf b' \<and> bytes b' = drop n (bytes b)) b"
    using Cons.prems by (intro pull) simp_all
  then have "wp (pull n) (\<lambda>_. wp (decapsulate pull ns)
      (\<lambda>_ b'. wf b' \<and> bytes b' = drop (sum_list (n # ns)) (bytes b))) b"
  proof (rule wp_mono)
    fix b' assume b': "wf b' \<and> bytes b' = drop n (bytes b)"
    with Cons.prems have "sum_list ns \<le> length (bytes b')" by simp
    with b' Cons.IH [of b'] show "wp (decapsulate pull ns)
        (\<lambda>_ b'. wf b' \<and> bytes b' = drop (sum_list (n # ns)) (bytes b)) b'"
      by (simp add: add.commute)
  qed
  then show ?case by (simp add: wp_seq)
qed

lemma encapsulation_roundtrip:
  assumes "wf b" "room (length (concat hs)) b"
  shows "wp (seq (encapsulate add_header hs) (decapsulate pull (map length (rev hs))))
    (\<lambda>_ b'. wf b' \<and> bytes b' = bytes b) b"
proof -
  have len: "length (concat (rev hs)) = sum_list (map length (rev hs))"
    by (simp add: length_concat)
  have "wp (encapsulate add_header hs) (\<lambda>_ b'. wf b' \<and> bytes b' = concat (rev hs) @ bytes b) b"
    using assms by (rule wp_encapsulate)
  then show ?thesis
    unfolding wp_seq
  proof (rule wp_mono)
    fix b' assume b': "wf b' \<and> bytes b' = concat (rev hs) @ bytes b"
    then have "wp (decapsulate pull (map length (rev hs)))
        (\<lambda>_ b''. wf b'' \<and> bytes b'' = drop (sum_list (map length (rev hs))) (bytes b')) b'"
      using len by (intro wp_decapsulate) auto
    then show "wp (decapsulate pull (map length (rev hs))) (\<lambda>_ b''. wf b'' \<and> bytes b'' = bytes b) b'"
      by (rule wp_mono) (use b' len in simp)
  qed
qed

end

definition nb_add_data :: "libc \<Rightarrow> byte list \<Rightarrow> nat option buf_prog" where
  "nb_add_data L bs = g_netbuf_put_data L bs (of_nat (length bs))"

definition nb_add_header :: "libc \<Rightarrow> byte list \<Rightarrow> nat option buf_prog" where
  "nb_add_header L bs = g_netbuf_prepend_hdr L bs (of_nat (length bs))"

definition nb_pull :: "nat \<Rightarrow> nat option buf_prog" where
  "nb_pull n = g_netbuf_pull (of_nat n)"

lemma has_room_less: "has_room L (m + n) msg \<Longrightarrow> has_room L m msg"
  by (auto simp: has_room_def)

lemma has_room_used:
  "has_room L (m + n) msg \<Longrightarrow> unat (nb_truesize msg') \<le> unat (nb_truesize msg) + m \<Longrightarrow>
   has_room L n msg'"
  by (auto simp: has_room_def)

interpretation nb: message_buffer netbuf_wf payload "has_room L" "nb_add_data L" "nb_add_header L"
  nb_pull for L
proof unfold_locales
  fix b :: netbuf and bs :: "byte list" and n assume "netbuf_wf b" and room: "has_room L (length bs + n) b"
  then show "wp (nb_add_data L bs)
      (\<lambda>_ b'. netbuf_wf b' \<and> payload b' = payload b @ bs \<and> has_room L n b') b"
    unfolding nb_add_data_def
    by (intro wp_mono [OF wp_put_data]) (auto intro: has_room_less has_room_used [OF room])
next
  fix b :: netbuf and bs :: "byte list" and n assume "netbuf_wf b" and room: "has_room L (length bs + n) b"
  then show "wp (nb_add_header L bs)
      (\<lambda>_ b'. netbuf_wf b' \<and> payload b' = bs @ payload b \<and> has_room L n b') b"
    unfolding nb_add_header_def
    by (intro wp_mono [OF wp_prepend]) (auto intro: has_room_less has_room_used [OF room])
next
  fix b :: netbuf and n assume "netbuf_wf b" and n: "n \<le> length (payload b)"
  moreover have "unat (of_nat n :: u32) = n"
  proof (rule unat_of_nat_u32)
    have "unat (nb_len b) < 2 ^ LENGTH(32)" by (rule unsigned_less)
    with n show "n < 2 ^ 32" by simp
  qed
  ultimately show "wp (nb_pull n) (\<lambda>_ b'. netbuf_wf b' \<and> payload b' = drop n (payload b)) b"
    unfolding nb_pull_def
    by (intro wp_mono [OF wp_pull]) (auto simp: word_le_nat_alt)
qed

section \<open>Properties\<close>

text \<open>C32: \<^verbatim>\<open>g_netbuf_put_data\<close> on a well-formed buffer with room for the data always succeeds, keeps the
  buffer well formed (reallocating where the tailroom is too small) and appends exactly the given
  bytes to the message.\<close>

theorem put_data_appends:
  assumes "netbuf_wf msg" "has_room L (length bs) msg"
  shows "\<exists>r msg'. g_netbuf_put_data L bs (of_nat (length bs)) msg = Inr (r, msg') \<and>
    netbuf_wf msg' \<and> payload msg' = payload msg @ bs"
  using wpD [OF wp_put_data [OF assms]] by blast

definition demo_libc :: libc where
  "demo_libc = \<lparr>realloc_ok = (\<lambda>_. True), fresh = (\<lambda>_. 0xcc)\<rparr>"

definition demo_buf :: netbuf where
  "demo_buf = \<lparr>nb_data = 1, nb_tail = 3, nb_end = 4, nb_len = 2, nb_truesize = 4,
     nb_mem = (\<lambda>i. if i = 1 then 10 else 20)\<rparr>"

lemma demo_wf: "netbuf_wf demo_buf" "payload demo_buf = [10, 20]"
  by (simp_all add: demo_buf_def netbuf_wf_def payload_def upt_rec)

lemma demo_room: "n < 1000 \<Longrightarrow> has_room demo_libc n demo_buf"
  by (simp add: demo_buf_def demo_libc_def has_room_def)

theorem put_data_appends_witness:
  "netbuf_wf demo_buf \<and> has_room demo_libc 3 demo_buf \<and>
   (\<exists>r msg'. g_netbuf_put_data demo_libc [1, 2, 3] 3 demo_buf = Inr (r, msg') \<and>
    netbuf_wf msg' \<and> payload msg' = [10, 20, 1, 2, 3])"
  using put_data_appends [OF demo_wf(1) demo_room, of "[1, 2, 3]"]
  by (simp add: demo_wf demo_room)

text \<open>\<^verbatim>\<open>g_netbuf_prepend_hdr\<close> on a well-formed buffer with room always succeeds, keeps the buffer well
  formed and puts the header in front of the message, moving the message up when the headroom is
  too small.\<close>

theorem prepend_hdr_prepends:
  assumes "netbuf_wf msg" "has_room L (length hdr) msg"
  shows "\<exists>r msg'. g_netbuf_prepend_hdr L hdr (of_nat (length hdr)) msg = Inr (r, msg') \<and>
    netbuf_wf msg' \<and> payload msg' = hdr @ payload msg"
  using wpD [OF wp_prepend [OF assms]] by blast

theorem prepend_hdr_prepends_witness:
  "netbuf_wf demo_buf \<and> has_room demo_libc 2 demo_buf \<and>
   (\<exists>r msg'. g_netbuf_prepend_hdr demo_libc [7, 8] 2 demo_buf = Inr (r, msg') \<and>
    netbuf_wf msg' \<and> payload msg' = [7, 8, 10, 20])"
  using prepend_hdr_prepends [OF demo_wf(1) demo_room, of "[7, 8]"]
  by (simp add: demo_wf demo_room)



text \<open>Taking a header off and cutting the tail: \<^verbatim>\<open>g_netbuf_pull\<close> returns \<^verbatim>\<open>NULL\<close> and changes nothing when
  the message is shorter than the header, and otherwise drops exactly that many bytes;
  \<^verbatim>\<open>g_netbuf_trim\<close> keeps the given number of bytes; both keep the buffer well formed.\<close>

theorem pull_and_trim:
  assumes "netbuf_wf msg"
  shows "(case g_netbuf_pull len msg of
      Inl e \<Rightarrow> False
    | Inr (r, msg') \<Rightarrow> netbuf_wf msg' \<and>
        (if nb_len msg < len then r = None \<and> msg' = msg
         else r = Some (nb_data msg') \<and> payload msg' = drop (unat len) (payload msg))) \<and>
    (case g_netbuf_trim len msg of
      Inl e \<Rightarrow> False
    | Inr (_, msg') \<Rightarrow> netbuf_wf msg' \<and> payload msg' = take (unat len) (payload msg))"
proof (rule conjI)
  show "case g_netbuf_pull len msg of
      Inl e \<Rightarrow> False
    | Inr (r, msg') \<Rightarrow> netbuf_wf msg' \<and>
        (if nb_len msg < len then r = None \<and> msg' = msg
         else r = Some (nb_data msg') \<and> payload msg' = drop (unat len) (payload msg))"
    using wp_pull [OF assms, of len] assms
    by (cases "nb_len msg < len") (auto simp: pull_short wp_def not_less split: sum.splits)
  show "case g_netbuf_trim len msg of
      Inl e \<Rightarrow> False
    | Inr (_, msg') \<Rightarrow> netbuf_wf msg' \<and> payload msg' = take (unat len) (payload msg)"
    using wp_trim [OF assms, of len] by (simp add: wp_def split: sum.splits)
qed

theorem pull_and_trim_witness:
  "netbuf_wf demo_buf \<and>
   (case g_netbuf_pull 1 demo_buf of Inl e \<Rightarrow> False | Inr (r, msg') \<Rightarrow> payload msg' = [20]) \<and>
   (case g_netbuf_trim 1 demo_buf of Inl e \<Rightarrow> False | Inr (r, msg') \<Rightarrow> payload msg' = [10])"
  using pull_and_trim [OF demo_wf(1), of 1] demo_wf
  by (auto simp: demo_buf_def split: sum.splits)

text \<open>When the tailroom is too small and the reallocation fails, \<^verbatim>\<open>g_netbuf_put\<close> returns \<^verbatim>\<open>NULL\<close> but has
  already moved \<^verbatim>\<open>tail\<close> and \<^verbatim>\<open>len\<close>: the buffer it leaves is not well formed, and its length claims bytes
  that are not allocated.\<close>

theorem put_failed_realloc_breaks_buffer:
  assumes "netbuf_wf msg" "nb_end msg < nb_tail msg + unat len"
    and "\<not> realloc_ok L (nb_truesize msg + len)"
  shows "\<exists>msg'. g_netbuf_put L len msg = Inr (None, msg') \<and> \<not> netbuf_wf msg' \<and>
    nb_tail msg' > unat (nb_truesize msg')"
  using assms by (simp add: g_netbuf_put_def g_netbuf_realloc_def netbuf_wf_def Let_def)

theorem put_failed_realloc_breaks_buffer_witness:
  "\<exists>msg'. g_netbuf_put (demo_libc\<lparr>realloc_ok := \<lambda>_. False\<rparr>) 9 demo_buf = Inr (None, msg') \<and>
    \<not> netbuf_wf msg' \<and> nb_tail msg' > unat (nb_truesize msg')"
  by (rule put_failed_realloc_breaks_buffer [OF demo_wf(1)]) (simp_all add: demo_buf_def)

end
