(* ===== verification/Dump_State.thy ===== *)
theory Dump_State
  imports Netbuf
begin

text \<open>
  The state the frame parsers of \<^verbatim>\<open>irda-utils/irdadump\<close> share, and the connection table of
  \<^verbatim>\<open>irlap.c\<close>. One record \<open>dump\<close> holds the globals of the program: the frame buffer, the line being
  built (the \<^verbatim>\<open>GString\<close> argument of every parser), the sequence counters, the last information-access
  query, the connection table with its one-entry cache, the last OBEX command and the configuration.
  \<open>stack\<close> is what uninitialised bytes of local arrays hold: any function, so that no theorem
  depends on it.

  The parameter loop that \<^verbatim>\<open>parse_irlap_params\<close> and \<^verbatim>\<open>parse_ircomm_params\<close> share is \<open>tlv_loop\<close>; the
  locale \<open>tlv_handler\<close> states what such a loop prints for a well-encoded parameter list.
\<close>

section \<open>State\<close>

record ias_query =
  ia_lsap_sel :: byte
  ia_ttp :: bool
  ia_obex :: bool
  ia_ircomm :: bool
  ia_irnet :: bool

record lsap_state =
  cn_valid :: bool
  cn_ttp :: bool
  cn_obex :: bool
  cn_ircomm :: bool
  cn_irnet :: bool
  cn_saddr :: u32
  cn_daddr :: u32
  cn_slsap_sel :: byte
  cn_dlsap_sel :: byte
  cn_caddr :: byte

record dump_config =
  config_print_diff :: bool
  config_dump_frame :: bool
  config_print_irlap :: bool
  config_print_irlmp :: bool
  config_print_lost_frames :: bool
  config_snaplen :: int
  config_dump_bytes :: bool
  config_snapcols :: int
  config_force_ttp :: bool

record dump =
  buf :: netbuf
  line :: string
  console :: string
  self_nr :: int
  self_ns :: int
  peer_nr :: int
  peer_ns :: int
  last_ias :: ias_query
  conn :: "lsap_state list"
  conn_cache :: int
  last_command :: byte
  config :: dump_config
  stack :: "nat \<Rightarrow> byte"

type_synonym 'a dprog = "(dump, 'a) prog"

definition MAX_CONNECTIONS :: nat where
  "MAX_CONNECTIONS = 15"

definition zero_ias :: ias_query where
  "zero_ias = \<lparr>ia_lsap_sel = 0, ia_ttp = False, ia_obex = False, ia_ircomm = False, ia_irnet = False\<rparr>"

definition zero_lsap :: lsap_state where
  "zero_lsap = \<lparr>cn_valid = False, cn_ttp = False, cn_obex = False, cn_ircomm = False,
     cn_irnet = False, cn_saddr = 0, cn_daddr = 0, cn_slsap_sel = 0, cn_dlsap_sel = 0, cn_caddr = 0\<rparr>"

text \<open>The initial values of the configuration variables of \<^verbatim>\<open>irdadump.c\<close>.\<close>

definition default_config :: dump_config where
  "default_config = \<lparr>config_print_diff = False, config_dump_frame = False,
     config_print_irlap = True, config_print_irlmp = True, config_print_lost_frames = False,
     config_snaplen = 32, config_dump_bytes = False, config_snapcols = 16,
     config_force_ttp = False\<rparr>"

text \<open>The globals before \<^verbatim>\<open>main\<close> runs (static storage is zero unless initialised).\<close>

definition start_state :: "netbuf \<Rightarrow> (nat \<Rightarrow> byte) \<Rightarrow> dump" where
  "start_state b junk = \<lparr>buf = b, line = [], console = [], self_nr = 0, self_ns = 0, peer_nr = 0,
     peer_ns = 0, last_ias = zero_ias, conn = replicate MAX_CONNECTIONS zero_lsap, conn_cache = -1,
     last_command = 0xff, config = default_config, stack = junk\<rparr>"

section \<open>Accesses\<close>

text \<open>\<^verbatim>\<open>buf->data[i]\<close>: the cell must lie in the allocated block, not in the message.\<close>

definition rd :: "nat \<Rightarrow> byte dprog" where
  "rd i = (\<lambda>s. let p = nb_data (buf s) + i
     in if p < unat (nb_truesize (buf s)) then Inr (nb_mem (buf s) p, s) else Inl (Frame_Bounds p))"

text \<open>\<^verbatim>\<open>buf->data[i] = b\<close>.\<close>

definition wr :: "nat \<Rightarrow> byte \<Rightarrow> unit dprog" where
  "wr i b = (\<lambda>s. let p = nb_data (buf s) + i
     in if p < unat (nb_truesize (buf s))
        then Inr ((), s\<lparr>buf := (buf s)\<lparr>nb_mem := (nb_mem (buf s))(p := b)\<rparr>\<rparr>)
        else Inl (Frame_Bounds p))"

definition rd16 :: "nat \<Rightarrow> u16 dprog" where
  "rd16 i = bnd (rd i) (\<lambda>a. bnd (rd (i + 1)) (\<lambda>b. ret (be16 a b)))"

definition rd32 :: "nat \<Rightarrow> u32 dprog" where
  "rd32 i = bnd (rd i) (\<lambda>a. bnd (rd (i + 1)) (\<lambda>b. bnd (rd (i + 2)) (\<lambda>c. bnd (rd (i + 3)) (\<lambda>d.
     ret (be32 a b c d)))))"

definition rd32_le :: "nat \<Rightarrow> u32 dprog" where
  "rd32_le i = bnd (rd i) (\<lambda>a. bnd (rd (i + 1)) (\<lambda>b. bnd (rd (i + 2)) (\<lambda>c. bnd (rd (i + 3)) (\<lambda>d.
     ret (le32 a b c d)))))"

definition say :: "string \<Rightarrow> unit dprog" where
  "say t = modify (\<lambda>s. s\<lparr>line := line s @ t\<rparr>)"

definition say_console :: "string \<Rightarrow> unit dprog" where
  "say_console t = modify (\<lambda>s. s\<lparr>console := console s @ t\<rparr>)"

definition on_buf :: "'a buf_prog \<Rightarrow> 'a dprog" where
  "on_buf m = (\<lambda>s. case m (buf s) of Inl e \<Rightarrow> Inl e | Inr (x, b) \<Rightarrow> Inr (x, s\<lparr>buf := b\<rparr>))"

definition pull :: "nat \<Rightarrow> nat option dprog" where
  "pull n = on_buf (g_netbuf_pull (of_nat n))"

definition chr :: "byte \<Rightarrow> char" where
  "chr b = char_of (unat b)"

text \<open>\<^verbatim>\<open>memcpy\<close> into a local array of the given size: the array's cells afterwards. A length beyond the array is an overrun of the array,
  or, where the source range leaves the block as well, of both.\<close>

definition memcpy_local :: "string \<Rightarrow> nat \<Rightarrow> nat \<Rightarrow> nat \<Rightarrow> byte list dprog" where
  "memcpy_local name cap off len = (\<lambda>s.
     let outside = unat (nb_truesize (buf s)) < nb_data (buf s) + off + len
     in if cap < len then Inl (if outside then Copy_Bounds name len else Local_Bounds name cap)
     else if outside then Inl (Frame_Bounds (unat (nb_truesize (buf s))))
     else Inr (map (\<lambda>i. nb_mem (buf s) (nb_data (buf s) + off + i)) [0..<len] @
               map (stack s) [len..<cap], s))"

definition store_local :: "string \<Rightarrow> byte list \<Rightarrow> nat \<Rightarrow> byte \<Rightarrow> byte list dprog" where
  "store_local name arr i b = (if i < length arr then ret (arr[i := b]) else fault (Local_Bounds name i))"

text \<open>The C string in a local array: up to its terminator, which must be there.\<close>

definition c_string :: "string \<Rightarrow> byte list \<Rightarrow> string dprog" where
  "c_string name arr = (if 0 \<in> set arr then ret (map chr (takeWhile (\<lambda>b. b \<noteq> 0) arr))
     else fault (Local_Bounds name (length arr)))"

text \<open>The C string at an offset of the message, which runs to the first zero byte of the block.\<close>

function frame_string :: "nat \<Rightarrow> dump \<Rightarrow> c_fault + string" where
  "frame_string i s =
     (if unat (nb_truesize (buf s)) \<le> nb_data (buf s) + i then Inl (Frame_Bounds (nb_data (buf s) + i))
      else let b = nb_mem (buf s) (nb_data (buf s) + i)
           in if b = 0 then Inr []
              else case frame_string (Suc i) s of Inl e \<Rightarrow> Inl e | Inr t \<Rightarrow> Inr (chr b # t))"
  by pat_completeness auto
termination
  by (relation "measure (\<lambda>(i, s). unat (nb_truesize (buf s)) - (nb_data (buf s) + i))") auto

declare frame_string.simps [simp del]

fun strstr :: "string \<Rightarrow> string \<Rightarrow> bool" where
  "strstr [] needle = (needle = [])"
| "strstr (c # cs) needle = (take (length needle) (c # cs) = needle \<or> strstr cs needle)"

section \<open>The connection table\<close>

definition conn_at :: "nat \<Rightarrow> lsap_state dprog" where
  "conn_at i = (\<lambda>s. if i < length (conn s) then Inr (conn s ! i, s) else Inl (Table_Bounds i))"

definition conn_match :: "byte \<Rightarrow> byte \<Rightarrow> lsap_state \<Rightarrow> bool" where
  "conn_match slsap_sel dlsap_sel c \<longleftrightarrow> cn_slsap_sel c = slsap_sel \<and> cn_dlsap_sel c = dlsap_sel"

text \<open>The linear search: index of the first entry with the property, -1 if there is none.\<close>

fun search_from :: "(lsap_state \<Rightarrow> bool) \<Rightarrow> int \<Rightarrow> lsap_state list \<Rightarrow> int" where
  "search_from p i [] = -1"
| "search_from p i (c # cs) = (if p c then i else search_from p (i + 1) cs)"

definition find_connection :: "byte \<Rightarrow> byte \<Rightarrow> int dprog" where
  "find_connection slsap_sel dlsap_sel =
     bnd (gets conn_cache) (\<lambda>cache.
     bnd (if cache \<noteq> -1 then bnd (conn_at (nat cache)) (\<lambda>c. ret (conn_match slsap_sel dlsap_sel c))
          else ret False) (\<lambda>hit.
     if hit then ret cache
     else
       bnd (gets (\<lambda>s. search_from (conn_match slsap_sel dlsap_sel) 0 (take MAX_CONNECTIONS (conn s)))) (\<lambda>i.
       seq (modify (\<lambda>s. s\<lparr>conn_cache := i\<rparr>))
       (ret i))))"

definition find_free_connection :: "int dprog" where
  "find_free_connection =
     gets (\<lambda>s. search_from (\<lambda>c. \<not> cn_valid c) 0 (take MAX_CONNECTIONS (conn s)))"

definition garbage_connection :: "byte \<Rightarrow> unit dprog" where
  "garbage_connection caddr =
     modify (\<lambda>s. s\<lparr>conn := map (\<lambda>c. if cn_caddr c = caddr then c\<lparr>cn_valid := False\<rparr> else c) (conn s)\<rparr>)"

definition conn_set :: "nat \<Rightarrow> (lsap_state \<Rightarrow> lsap_state) \<Rightarrow> unit dprog" where
  "conn_set i f = (\<lambda>s. if i < length (conn s) then Inr ((), s\<lparr>conn := (conn s)[i := f (conn s ! i)]\<rparr>)
     else Inl (Table_Bounds i))"

text \<open>
  \<^verbatim>\<open>irlap_init\<close> clears the query and, by the size it passes to \<^verbatim>\<open>memset\<close>, the first entry of the table
  only.
\<close>

definition irlap_init :: "int dprog" where
  "irlap_init =
     seq (modify (\<lambda>s. s\<lparr>last_ias := zero_ias\<rparr>))
     (seq (conn_set 0 (\<lambda>_. zero_lsap))
     (ret 1))"

section \<open>The parameter loop\<close>

text \<open>
  \<^verbatim>\<open>while (n < clen) { pi = data[n] & 0x7f; pl = data[n+1]; switch (pi) ... ; n += pl+2; }\<close>
  where \<open>body pi pl n\<close> is the \<^verbatim>\<open>switch\<close>.
\<close>

function tlv_loop :: "(byte \<Rightarrow> byte \<Rightarrow> nat \<Rightarrow> unit dprog) \<Rightarrow> nat \<Rightarrow> nat \<Rightarrow> unit dprog" where
  "tlv_loop body clen n =
     (if n < clen then
        bnd (rd n) (\<lambda>b0.
        bnd (rd (n + 1)) (\<lambda>pl.
        seq (body (b0 AND 0x7f) pl n)
        (tlv_loop body clen (n + unat pl + 2))))
      else skip)"
  by pat_completeness auto
termination
  by (relation "measure (\<lambda>(body, clen, n). clen - n)") auto

declare tlv_loop.simps [simp del]

section \<open>Rules for the accesses\<close>

lemma wp_rd [wp_simps]: "wp (rd i) Q s \<longleftrightarrow>
    nb_data (buf s) + i < unat (nb_truesize (buf s)) \<and> Q (nb_mem (buf s) (nb_data (buf s) + i)) s"
  by (simp add: wp_def rd_def Let_def)

lemma wp_wr [wp_simps]: "wp (wr i b) Q s \<longleftrightarrow>
    nb_data (buf s) + i < unat (nb_truesize (buf s)) \<and>
    Q () (s\<lparr>buf := (buf s)\<lparr>nb_mem := (nb_mem (buf s))(nb_data (buf s) + i := b)\<rparr>\<rparr>)"
  by (simp add: wp_def wr_def Let_def)

lemma wp_say [wp_simps]: "wp (say t) Q s = Q () (s\<lparr>line := line s @ t\<rparr>)"
  by (simp add: say_def wp_modify)

lemma wp_say_console [wp_simps]: "wp (say_console t) Q s = Q () (s\<lparr>console := console s @ t\<rparr>)"
  by (simp add: say_console_def wp_modify)

lemma wp_conn_at [wp_simps]: "wp (conn_at i) Q s \<longleftrightarrow> i < length (conn s) \<and> Q (conn s ! i) s"
  by (simp add: wp_def conn_at_def)

lemma wp_conn_set [wp_simps]: "wp (conn_set i f) Q s \<longleftrightarrow>
    i < length (conn s) \<and> Q () (s\<lparr>conn := (conn s)[i := f (conn s ! i)]\<rparr>)"
  by (simp add: wp_def conn_set_def)

lemma wp_on_buf: "wp (on_buf m) Q s = wp m (\<lambda>x b. Q x (s\<lparr>buf := b\<rparr>)) (buf s)"
  by (auto simp: wp_def on_buf_def split: sum.split)

lemma keeps_rd [keeps_intro]: "keeps g (rd i)"
  by (auto simp: keeps_def rd_def Let_def split: if_splits)

lemma keeps_conn_at [keeps_intro]: "keeps g (conn_at i)"
  by (auto simp: keeps_def conn_at_def split: if_splits)

lemma keeps_memcpy_local [keeps_intro]: "keeps g (memcpy_local name cap off len)"
  by (auto simp: keeps_def memcpy_local_def Let_def split: if_splits)

lemma keeps_store_local [keeps_intro]: "keeps g (store_local name arr i b)"
  by (simp add: store_local_def keeps_intro)

lemma keeps_c_string [keeps_intro]: "keeps g (c_string name arr)"
  by (simp add: c_string_def keeps_intro)

lemma keeps_rd16 [keeps_intro]: "keeps g (rd16 i)"
  by (simp add: rd16_def keeps_intro)

lemma keeps_rd32 [keeps_intro]: "keeps g (rd32 i)"
  by (simp add: rd32_def keeps_intro)

lemma keeps_rd32_le [keeps_intro]: "keeps g (rd32_le i)"
  by (simp add: rd32_le_def keeps_intro)

lemma keeps_say [keeps_intro]: "(\<And>s l. g (s\<lparr>line := l\<rparr>) = g s) \<Longrightarrow> keeps g (say t)"
  by (simp add: say_def keeps_modify)

lemma keeps_say_console [keeps_intro]: "(\<And>s l. g (s\<lparr>console := l\<rparr>) = g s) \<Longrightarrow> keeps g (say_console t)"
  by (simp add: say_console_def keeps_modify)

lemma keeps_on_buf [keeps_intro]: "(\<And>s b. g (s\<lparr>buf := b\<rparr>) = g s) \<Longrightarrow> keeps g (on_buf m)"
  by (auto simp: keeps_def on_buf_def split: sum.splits)

lemma keeps_pull [simp]: "(\<And>s b. g (s\<lparr>buf := b\<rparr>) = g s) \<Longrightarrow> keeps g (pull n)"
  by (simp add: pull_def keeps_on_buf)

lemma keeps_tlv_loop [keeps_intro]:
  "(\<And>pi pl n. keeps g (body pi pl n)) \<Longrightarrow> keeps g (tlv_loop body clen n)"
proof (induction body clen n rule: tlv_loop.induct)
  case (1 body clen n)
  then show ?case
    by (subst tlv_loop.simps) (simp add: keeps_intro)
qed

section \<open>The lookup contract of the connection table\<close>

definition conn_wf :: "dump \<Rightarrow> bool" where
  "conn_wf s \<longleftrightarrow> length (conn s) = MAX_CONNECTIONS \<and>
     (conn_cache s = -1 \<or> (0 \<le> conn_cache s \<and> conn_cache s < int MAX_CONNECTIONS))"

lemma search_from_none: "0 \<le> i \<Longrightarrow> search_from p i cs = -1 \<longleftrightarrow> (\<forall>c \<in> set cs. \<not> p c)"
  by (induction p i cs rule: search_from.induct) auto

lemma search_from_some:
  "0 \<le> i \<Longrightarrow> search_from p i cs = k \<Longrightarrow> k \<noteq> -1 \<Longrightarrow>
   i \<le> k \<and> k < i + int (length cs) \<and> p (cs ! nat (k - i)) \<and> (\<forall>j < nat (k - i). \<not> p (cs ! j))"
proof (induction p i cs rule: search_from.induct)
  case (1 p i)
  then show ?case by simp
next
  case (2 p i c cs)
  show ?case
  proof (cases "p c")
    case True
    with 2 show ?thesis by simp
  next
    case False
    with 2 have ih: "i + 1 \<le> k" "k < i + 1 + int (length cs)" "p (cs ! nat (k - (i + 1)))"
      "\<forall>j < nat (k - (i + 1)). \<not> p (cs ! j)" by auto
    from ih(1) have n: "nat (k - i) = Suc (nat (k - (i + 1)))" by simp
    show ?thesis using ih False unfolding n by (auto simp: less_Suc_eq_0_disj)
  qed
qed

lemma search_spec:
  "search_from p 0 cs = k \<Longrightarrow>
   if k = -1 then \<forall>c \<in> set cs. \<not> p c
   else 0 \<le> k \<and> nat k < length cs \<and> p (cs ! nat k) \<and> (\<forall>j < nat k. \<not> p (cs ! j))"
  using search_from_none [of 0 p cs] search_from_some [of 0 p cs k] by (auto simp: nat_less_iff)

text \<open>What a client may rely on when it looks connections up and registers them.\<close>

locale connection_table =
  fixes wf :: "'s \<Rightarrow> bool"
    and table :: "'s \<Rightarrow> lsap_state list"
    and find :: "byte \<Rightarrow> byte \<Rightarrow> ('s, int) prog"
    and find_free :: "('s, int) prog"
    and set_entry :: "nat \<Rightarrow> (lsap_state \<Rightarrow> lsap_state) \<Rightarrow> ('s, unit) prog"
  assumes find: "wf s \<Longrightarrow> wp (find a b) (\<lambda>i s'. wf s' \<and> table s' = table s \<and>
      (if i = -1 then \<forall>c \<in> set (table s). \<not> conn_match a b c
       else 0 \<le> i \<and> nat i < length (table s) \<and> conn_match a b (table s ! nat i))) s"
    and find_free: "wf s \<Longrightarrow> wp find_free (\<lambda>i s'. s' = s \<and>
      (if i = -1 then \<forall>c \<in> set (table s). cn_valid c
       else 0 \<le> i \<and> nat i < length (table s) \<and> \<not> cn_valid (table s ! nat i) \<and>
         (\<forall>j < nat i. cn_valid (table s ! j)))) s"
    and set_entry: "wf s \<Longrightarrow> i < length (table s) \<Longrightarrow>
      wp (set_entry i f) (\<lambda>_ s'. wf s' \<and> table s' = (table s)[i := f (table s ! i)]) s"
begin

text \<open>A connection that was entered is found again: the lookup returns an entry with its selectors.\<close>

lemma entered_is_found:
  assumes "wf s" "i < length (table s)" "\<And>c. conn_match a b (f c)"
  shows "wp (seq (set_entry i f) (find a b))
    (\<lambda>k s'. wf s' \<and> table s' = (table s)[i := f (table s ! i)] \<and>
      0 \<le> k \<and> nat k < length (table s) \<and> conn_match a b (table s' ! nat k)) s"
  unfolding wp_seq
proof (rule wp_mono [OF set_entry [OF assms(1,2)]])
  fix s1 assume s1: "wf s1 \<and> table s1 = (table s)[i := f (table s ! i)]"
  with assms(2) have "f (table s ! i) \<in> set (table s1)"
    by (simp add: set_update_memI)
  with assms(3) have "\<not> (\<forall>c \<in> set (table s1). \<not> conn_match a b c)" by blast
  with s1 show "wp (find a b) (\<lambda>k s'. wf s' \<and> table s' = (table s)[i := f (table s ! i)] \<and>
      0 \<le> k \<and> nat k < length (table s) \<and> conn_match a b (table s' ! nat k)) s1"
    by (intro wp_mono [OF find]) (auto split: if_splits)
qed

text \<open>A full table refuses a new connection, and only then.\<close>

lemma free_slot_exists:
  assumes "wf s" "\<exists>c \<in> set (table s). \<not> cn_valid c"
  shows "wp find_free (\<lambda>i _. i \<noteq> -1) s"
  by (rule wp_mono [OF find_free [OF assms(1)]]) (use assms(2) in \<open>auto split: if_splits\<close>)

end

lemma wp_find_connection:
  assumes "conn_wf s"
  shows "wp (find_connection a b) (\<lambda>i s'. conn_wf s' \<and> conn s' = conn s \<and>
    (if i = -1 then \<forall>c \<in> set (conn s). \<not> conn_match a b c
     else 0 \<le> i \<and> nat i < length (conn s) \<and> conn_match a b (conn s ! nat i))) s"
proof -
  have len: "length (conn s) = MAX_CONNECTIONS" using assms by (simp add: conn_wf_def)
  define k where "k = search_from (conn_match a b) 0 (conn s)"
  have k: "if k = -1 then \<forall>c \<in> set (conn s). \<not> conn_match a b c
     else 0 \<le> k \<and> k < int MAX_CONNECTIONS \<and> conn_match a b (conn s ! nat k)"
    using search_spec [OF k_def [symmetric]] by (auto simp: len nat_less_iff)
  then have "conn_wf (s\<lparr>conn_cache := k\<rparr>)" by (auto simp: conn_wf_def len split: if_splits)
  with assms k show ?thesis
    by (auto simp: find_connection_def wp_simps conn_wf_def k_def [symmetric] split: if_splits)
qed

interpretation ct: connection_table conn_wf conn find_connection find_free_connection conn_set
proof unfold_locales
  fix s a b assume "conn_wf s"
  then show "wp (find_connection a b) (\<lambda>i s'. conn_wf s' \<and> conn s' = conn s \<and>
      (if i = -1 then \<forall>c \<in> set (conn s). \<not> conn_match a b c
       else 0 \<le> i \<and> nat i < length (conn s) \<and> conn_match a b (conn s ! nat i))) s"
    by (rule wp_find_connection)
next
  fix s assume "conn_wf s"
  then show "wp find_free_connection (\<lambda>i s'. s' = s \<and>
      (if i = -1 then \<forall>c \<in> set (conn s). cn_valid c
       else 0 \<le> i \<and> nat i < length (conn s) \<and> \<not> cn_valid (conn s ! nat i) \<and>
         (\<forall>j < nat i. cn_valid (conn s ! j)))) s"
    using search_spec [of "\<lambda>c. \<not> cn_valid c" "conn s", OF refl]
    by (cases "search_from (\<lambda>c. \<not> cn_valid c) 0 (conn s) = -1")
      (auto simp: find_free_connection_def wp_simps conn_wf_def)
next
  fix s i f assume "conn_wf s" "i < length (conn s)"
  then show "wp (conn_set i f) (\<lambda>_ s'. conn_wf s' \<and> conn s' = (conn s)[i := f (conn s ! i)]) s"
    by (simp add: wp_simps conn_wf_def)
qed

section \<open>Staying inside the frame buffer\<close>

text \<open>
  \<open>contained m\<close>: started on a frame of at most 1536 bytes in the 2050-byte frame buffer, \<open>m\<close> neither
  reads nor writes outside the buffer's block (its faults, if any, are the overruns below), and leaves a
  buffer of which the same can be said. The slack of 514 bytes is what the longest fixed access of the
  parsers needs beyond the current position: the two counted strings of an information-access query.
\<close>

definition frame_ok :: "dump \<Rightarrow> bool" where
  "frame_ok s \<longleftrightarrow> netbuf_wf (buf s) \<and> nb_truesize (buf s) = 2050 \<and> nb_tail (buf s) \<le> 1536"

text \<open>
  The overruns the parsers can run into: of their local arrays and of the constant tables. The only copy that can leave the frame
  buffer as well is one into \<^verbatim>\<open>string\<close> of more than its 255 bytes. Every other fault is stray.
\<close>

fun overrun :: "c_fault \<Rightarrow> bool" where
  "overrun (Local_Bounds name i) \<longleftrightarrow> name \<in> {''name'', ''attr'', ''string''}"
| "overrun (Copy_Bounds name n) \<longleftrightarrow> name = ''string'' \<and> 255 < n"
| "overrun (Table_Bounds i) \<longleftrightarrow> True"
| "overrun _ \<longleftrightarrow> False"

definition stray_fault :: "c_fault \<Rightarrow> bool" where
  "stray_fault e \<longleftrightarrow> \<not> overrun e"

definition contained :: "'a dprog \<Rightarrow> bool" where
  "contained m \<longleftrightarrow> (\<forall>s. frame_ok s \<longrightarrow>
     (case m s of Inl e \<Rightarrow> \<not> stray_fault e | Inr (x, s') \<Rightarrow> frame_ok s'))"

named_theorems contained_intro \<open>rules for commands that stay inside the frame buffer\<close>

lemma frame_okD: "frame_ok s \<Longrightarrow> nb_data (buf s) \<le> 1536 \<and> unat (nb_truesize (buf s)) = 2050"
  by (auto simp: frame_ok_def netbuf_wf_def)

lemma containedD: "contained m \<Longrightarrow> frame_ok s \<Longrightarrow> m s = Inr (x, s') \<Longrightarrow> frame_ok s'"
  by (fastforce simp: contained_def)

lemma containedD_fault: "contained m \<Longrightarrow> frame_ok s \<Longrightarrow> m s = Inl e \<Longrightarrow> \<not> stray_fault e"
  by (fastforce simp: contained_def)

lemma contained_ret [contained_intro]: "contained (ret x)"
  by (simp add: contained_def ret_def)

lemma contained_skip [contained_intro]: "contained skip"
  by (simp add: skip_def contained_ret)

lemma contained_fault [contained_intro]: "\<not> stray_fault e \<Longrightarrow> contained (fault e)"
  by (simp add: contained_def fault_def)

lemma contained_gets [contained_intro]: "contained (gets f)"
  by (simp add: contained_def gets_def)

lemma contained_bnd [contained_intro]:
  assumes "contained m" "\<And>x. contained (f x)"
  shows "contained (bnd m f)"
  unfolding contained_def
proof (intro allI impI)
  fix s assume s: "frame_ok s"
  show "case bnd m f s of Inl e \<Rightarrow> \<not> stray_fault e | Inr (x, s') \<Rightarrow> frame_ok s'"
  proof (cases "m s")
    case (Inl e)
    with assms(1) s show ?thesis by (auto simp: bnd_def dest: containedD_fault)
  next
    case (Inr r)
    obtain x s1 where r: "r = (x, s1)" by (cases r)
    with Inr assms(1) s have "frame_ok s1" by (blast intro: containedD)
    with assms(2) [of x] Inr r show ?thesis by (simp add: bnd_def contained_def)
  qed
qed

lemma contained_seq [contained_intro]: "contained m \<Longrightarrow> contained n \<Longrightarrow> contained (seq m n)"
  by (simp add: seq_def contained_bnd)

lemma contained_whenc [contained_intro]: "contained m \<Longrightarrow> contained (whenc b m)"
  by (simp add: whenc_def contained_skip)

lemma contained_if [contained_intro]:
  "(b \<Longrightarrow> contained m) \<Longrightarrow> (\<not> b \<Longrightarrow> contained n) \<Longrightarrow> contained (if b then m else n)"
  by simp

lemma contained_modify: "(\<And>s. buf (f s) = buf s) \<Longrightarrow> contained (modify f)"
  by (simp add: contained_def modify_def frame_ok_def)

lemma contained_rd [contained_intro]: "i \<le> 513 \<Longrightarrow> contained (rd i)"
  by (auto simp: contained_def rd_def Let_def dest!: frame_okD)

lemma contained_rd16 [contained_intro]: "i \<le> 512 \<Longrightarrow> contained (rd16 i)"
  by (simp add: rd16_def contained_intro)

lemma contained_rd32 [contained_intro]: "i \<le> 510 \<Longrightarrow> contained (rd32 i)"
  by (simp add: rd32_def contained_intro)

lemma contained_rd32_le [contained_intro]: "i \<le> 510 \<Longrightarrow> contained (rd32_le i)"
  by (simp add: rd32_le_def contained_intro)

lemma contained_say [contained_intro]: "contained (say t)"
  by (simp add: say_def contained_modify)

lemma contained_say_console [contained_intro]: "contained (say_console t)"
  by (simp add: say_console_def contained_modify)

lemma contained_memcpy_local [contained_intro]:
  "off + cap \<le> 514 \<Longrightarrow> name \<in> {''name'', ''attr'', ''string''} \<Longrightarrow> len \<le> cap \<or> name = ''string'' \<and> cap = 255 \<Longrightarrow>
   contained (memcpy_local name cap off len)"
  by (auto simp: contained_def memcpy_local_def stray_fault_def Let_def dest!: frame_okD)

lemma contained_store_local [contained_intro]: "name \<in> {''name'', ''attr'', ''string''} \<Longrightarrow> contained (store_local name arr i b)"
  by (simp add: store_local_def contained_intro stray_fault_def)

lemma contained_c_string [contained_intro]: "name \<in> {''name'', ''attr'', ''string''} \<Longrightarrow> contained (c_string name arr)"
  by (simp add: c_string_def contained_intro stray_fault_def)

lemma contained_conn_at [contained_intro]: "contained (conn_at i)"
  by (simp add: contained_def conn_at_def stray_fault_def)

lemma contained_conn_set [contained_intro]: "contained (conn_set i f)"
  by (simp add: contained_def conn_set_def frame_ok_def stray_fault_def)

lemma contained_find_connection [contained_intro]: "contained (find_connection a b)"
  by (simp add: find_connection_def contained_intro contained_modify)

lemma contained_find_free [contained_intro]: "contained find_free_connection"
  by (simp add: find_free_connection_def contained_intro)

lemma contained_garbage [contained_intro]: "contained (garbage_connection caddr)"
  by (simp add: garbage_connection_def contained_modify)

lemma pull_frame_ok:
  assumes "frame_ok s" "pull n s = Inr (r, s')"
  shows "frame_ok s'"
  using assms
  by (auto simp: frame_ok_def netbuf_wf_def pull_def on_buf_def g_netbuf_pull_def Let_def not_less
      unat_sub_u32 word_le_nat_alt split: if_splits)

lemma contained_pull [contained_intro]: "contained (pull n)"
  unfolding contained_def
  by (auto simp: pull_frame_ok split: sum.split)
    (simp add: pull_def on_buf_def g_netbuf_pull_def Let_def split: if_splits)

lemma contained_tlv_loop [contained_intro]:
  "clen \<le> 256 \<Longrightarrow> (\<And>pi pl n. n < 256 \<Longrightarrow> contained (body pi pl n)) \<Longrightarrow> contained (tlv_loop body clen n)"
proof (induction body clen n rule: tlv_loop.induct)
  case (1 body clen n)
  then show ?case
    by (subst tlv_loop.simps) (simp add: contained_intro)
qed

text \<open>
  \<open>clean m\<close>: \<open>m\<close> overruns no local array and no table. A command that is contained
  and clean returns on every frame of at most 1536 bytes.
\<close>

definition clean :: "'a dprog \<Rightarrow> bool" where
  "clean m \<longleftrightarrow> (\<forall>s e. m s = Inl e \<longrightarrow> stray_fault e)"

named_theorems clean_intro \<open>rules for commands that can only fault on the frame buffer\<close>

lemma clean_bnd [clean_intro]: "clean m \<Longrightarrow> (\<And>x. clean (f x)) \<Longrightarrow> clean (bnd m f)"
  by (auto simp: clean_def bnd_def split: sum.splits)

lemma clean_seq [clean_intro]: "clean m \<Longrightarrow> clean n \<Longrightarrow> clean (seq m n)"
  by (simp add: seq_def clean_bnd)

lemma clean_if [clean_intro]: "(b \<Longrightarrow> clean m) \<Longrightarrow> (\<not> b \<Longrightarrow> clean n) \<Longrightarrow> clean (if b then m else n)"
  by simp

lemma clean_basic [clean_intro]:
  "clean (ret x)" "clean skip" "clean (gets f)" "clean (modify h)" "clean (rd i)" "clean (say t)"
  "clean (say_console t)" "clean (pull n)"
  by (auto simp: clean_def stray_fault_def ret_def skip_def gets_def modify_def rd_def say_def say_console_def pull_def
      on_buf_def g_netbuf_pull_def Let_def split: if_splits)

lemma clean_whenc [clean_intro]: "clean m \<Longrightarrow> clean (whenc b m)"
  by (simp add: whenc_def clean_basic)

lemma clean_rds [clean_intro]: "clean (rd16 i)" "clean (rd32 i)" "clean (rd32_le i)"
  by (simp_all add: rd16_def rd32_def rd32_le_def clean_intro)

lemma clean_tlv_loop [clean_intro]:
  "(\<And>pi pl n. clean (body pi pl n)) \<Longrightarrow> clean (tlv_loop body clen n)"
proof (induction body clen n rule: tlv_loop.induct)
  case (1 body clen n)
  then show ?case
    by (subst tlv_loop.simps) (simp add: clean_intro)
qed

lemma clean_returns:
  assumes "clean m" "contained m" "frame_ok s"
  shows "\<exists>x s'. m s = Inr (x, s') \<and> frame_ok s'"
proof (cases "m s")
  case (Inl e)
  with assms show ?thesis by (auto simp: clean_def dest: containedD_fault)
next
  case (Inr r)
  with assms show ?thesis by (cases r) (auto dest: containedD)
qed

lemma keeps_conn_wf:
  assumes "keeps conn m" "keeps conn_cache m"
  shows "preserves conn_wf m"
  using assms by (auto simp: preserves_def conn_wf_def keeps_def)

lemma preserves_conn_table [preserves_intro]:
  "preserves conn_wf (find_connection a b)" "preserves conn_wf find_free_connection"
  "preserves conn_wf (conn_set i f)" "preserves conn_wf (garbage_connection caddr)"
  "preserves conn_wf (conn_at i)"
proof -
  show "preserves conn_wf (find_connection a b)"
    by (rule preserves_wp, rule wp_mono [OF wp_find_connection]) simp_all
qed (auto simp: preserves_def find_free_connection_def gets_def conn_set_def garbage_connection_def
    modify_def conn_wf_def conn_at_def split: if_splits)

section \<open>Decoding a parameter list\<close>

text \<open>\<open>region s n bs\<close>: the bytes \<open>bs\<close> lie in the buffer, \<open>n\<close> bytes behind the current position.\<close>

definition region :: "dump \<Rightarrow> nat \<Rightarrow> byte list \<Rightarrow> bool" where
  "region s n bs \<longleftrightarrow> nb_data (buf s) + n + length bs \<le> unat (nb_truesize (buf s)) \<and>
     (\<forall>i < length bs. nb_mem (buf s) (nb_data (buf s) + n + i) = bs ! i)"

lemma region_append: "region s n (xs @ ys) \<longleftrightarrow> region s n xs \<and> region s (n + length xs) ys"
proof -
  have "(\<forall>i < length xs + length ys. P i) \<longleftrightarrow> (\<forall>i < length xs. P i) \<and> (\<forall>i < length ys. P (length xs + i))"
    for P
    by (metis add_less_cancel_left le_add_diff_inverse linorder_not_less nat_add_left_cancel_less
        trans_less_add1)
  then show ?thesis by (auto simp: region_def nth_append add.assoc)
qed

lemma region_Cons: "region s n (b # bs) \<longleftrightarrow> nb_data (buf s) + n < unat (nb_truesize (buf s)) \<and>
    nb_mem (buf s) (nb_data (buf s) + n) = b \<and> region s (Suc n) bs"
  using region_append [of s n "[b]" bs] by (auto simp: region_def)

lemma region_line [simp]: "region (s\<lparr>line := l\<rparr>) n bs = region s n bs"
  by (simp add: region_def)

lemma rd_region: "region s n (b # bs) \<Longrightarrow> rd n s = Inr (b, s)"
  by (simp add: region_Cons rd_def Let_def)

definition tlv_bytes :: "(byte \<times> byte list) list \<Rightarrow> byte list" where
  "tlv_bytes ps = concat (map (\<lambda>(pi, pv). pi # of_nat (length pv) # pv) ps)"

text \<open>
  A handler of one parameter: for an accepted identifier and value it appends a text to the line
  and does nothing else.
\<close>

locale tlv_handler =
  fixes body :: "byte \<Rightarrow> byte \<Rightarrow> nat \<Rightarrow> unit dprog"
    and accepted :: "byte \<Rightarrow> byte list \<Rightarrow> bool"
    and shown :: "byte \<Rightarrow> byte list \<Rightarrow> string"
  assumes body: "accepted pi pv \<Longrightarrow> length pv < 256 \<Longrightarrow>
    region s n (pi # of_nat (length pv) # pv) \<Longrightarrow>
    body (pi AND 0x7f) (of_nat (length pv)) n s = Inr ((), s\<lparr>line := line s @ shown pi pv\<rparr>)"
begin

text \<open>
  The loop over a well-encoded list of accepted parameters prints them in order, each exactly once,
  without a fault.
\<close>

lemma loop_decodes:
  assumes "\<And>pi pv. (pi, pv) \<in> set ps \<Longrightarrow> accepted pi pv \<and> length pv < 256"
    and "region s n (tlv_bytes ps)" "clen = n + length (tlv_bytes ps)"
  shows "tlv_loop body clen n s =
    Inr ((), s\<lparr>line := line s @ concat (map (\<lambda>(pi, pv). shown pi pv) ps)\<rparr>)"
  using assms
proof (induction ps arbitrary: s n)
  case Nil
  then show ?case by (simp add: tlv_bytes_def tlv_loop.simps [of body n n] skip_def ret_def)
next
  case (Cons p ps)
  obtain pi pv where p: "p = (pi, pv)" by (cases p)
  have acc: "accepted pi pv" "length pv < 256" using Cons.prems(1) [of pi pv] p by auto
  let ?hd = "pi # of_nat (length pv) # pv"
  let ?s1 = "s\<lparr>line := line s @ shown pi pv\<rparr>"
  have split: "tlv_bytes (p # ps) = ?hd @ tlv_bytes ps" by (simp add: tlv_bytes_def p)
  have hd: "region s n ?hd" and tl: "region s (n + length ?hd) (tlv_bytes ps)"
    using Cons.prems(2) unfolding split region_append by auto
  have u: "unat (of_nat (length pv) :: byte) = length pv" using acc(2) by (simp add: unat_of_nat)
  have pos: "n + unat (of_nat (length pv) :: byte) + 2 = n + length ?hd" by (simp add: u)
  have ih: "tlv_loop body clen (n + length ?hd) ?s1 =
      Inr ((), ?s1\<lparr>line := line ?s1 @ concat (map (\<lambda>(pi, pv). shown pi pv) ps)\<rparr>)"
    using Cons.prems tl split by (intro Cons.IH) auto
  have r0: "rd n s = Inr (pi, s)" and r1: "rd (n + 1) s = Inr (of_nat (length pv), s)"
    using hd by (auto simp: region_Cons rd_def Let_def)
  have "n < clen" using Cons.prems(3) split by simp
  then show ?case
    using r0 r1 body [OF acc hd] ih p
    by (simp add: tlv_loop.simps [of body clen n] bnd_def seq_def u)
qed

end

section \<open>Frames in the buffer\<close>

lemma region_payload:
  assumes "netbuf_wf (buf s)" "payload (buf s) = xs @ ys"
  shows "region s 0 xs"
proof -
  have len: "length xs + length ys = unat (nb_len (buf s))"
    using arg_cong [OF assms(2), of length] by simp
  have "nb_mem (buf s) (nb_data (buf s) + i) = xs ! i" if "i < length xs" for i
    using payload_nth [of i "buf s"] that len assms(2) by (simp add: nth_append)
  with assms(1) len show ?thesis by (simp add: region_def netbuf_wf_def)
qed

lemma pull_payload:
  assumes "netbuf_wf (buf s)" "payload (buf s) = xs @ ys"
  shows "\<exists>p b. pull (length xs) s = Inr (Some p, s\<lparr>buf := b\<rparr>) \<and> netbuf_wf b \<and> payload b = ys \<and>
    nb_truesize b = nb_truesize (buf s) \<and> nb_tail b = nb_tail (buf s)"
proof -
  have len: "length xs + length ys = unat (nb_len (buf s))"
    using arg_cong [OF assms(2), of length] by simp
  have "unat (nb_len (buf s)) < 2 ^ LENGTH(32)" by (rule unsigned_less)
  with len have u: "unat (of_nat (length xs) :: u32) = length xs"
    by (intro unat_of_nat_u32) simp
  have "wp (g_netbuf_pull (of_nat (length xs))) (\<lambda>r b. r = Some (nb_data b) \<and> netbuf_wf b \<and>
      payload b = drop (length xs) (payload (buf s)) \<and> nb_truesize b = nb_truesize (buf s) \<and>
      nb_tail b = nb_tail (buf s)) (buf s)"
    using wp_pull [OF assms(1), of "of_nat (length xs)"] len u by (simp add: word_le_nat_alt)
  from wpD [OF this] assms(2) show ?thesis by (auto simp: pull_def on_buf_def)
qed

definition frame_at :: "byte list \<Rightarrow> netbuf" where
  "frame_at bs = \<lparr>nb_data = 0, nb_tail = length bs, nb_end = 2050, nb_len = of_nat (length bs),
     nb_truesize = 2050, nb_mem = (\<lambda>i. if i < length bs then bs ! i else 0)\<rparr>"

lemma frame_at_wf: "length bs \<le> 2050 \<Longrightarrow> netbuf_wf (frame_at bs)"
  by (simp add: frame_at_def netbuf_wf_def unat_of_nat)

lemma frame_at_payload: "length bs \<le> 2050 \<Longrightarrow> payload (frame_at bs) = bs"
  by (intro nth_equalityI) (auto simp: frame_at_def payload_def unat_of_nat)

end
