(* ===== verification/Ircomm.thy ===== *)
theory Ircomm
  imports Dump_State
begin

text \<open>
  The IrCOMM parser, \<^verbatim>\<open>irda-utils/irdadump/ircomm.c\<close>: the control parameters of a serial or parallel
  port emulation. \<open>ircomm_param\<close> is the \<^verbatim>\<open>switch\<close> of \<^verbatim>\<open>parse_ircomm_params\<close>.
\<close>

definition nl_tab :: string where
  "nl_tab = [CHR 0x0A, CHR 0x09]"

definition bytes_to_uint :: "byte \<Rightarrow> byte \<Rightarrow> byte \<Rightarrow> byte \<Rightarrow> u32" where
  "bytes_to_uint b0 b1 b2 b3 =
     push_bit 24 (ucast b0) OR push_bit 16 (ucast b1) OR push_bit 8 (ucast b2) OR ucast b3"

definition service_names :: "byte \<Rightarrow> string" where
  "service_names pv =
     (if pv AND 0x08 \<noteq> 0 then ''CENTRONICS '' else '''') @
     (if pv AND 0x04 \<noteq> 0 then ''NINE_WIRE '' else '''') @
     (if pv AND 0x02 \<noteq> 0 then ''THREE_WIRE '' else '''') @
     (if pv AND 0x01 \<noteq> 0 then ''THREE_WIRE_RAW '' else '''') @
     (if pv AND 0x0F = 0 then ''N/A '' else '''')"

definition port_names :: "byte \<Rightarrow> string" where
  "port_names pv =
     (if pv AND 0x01 \<noteq> 0 then ''SERIAL '' else '''') @
     (if pv AND 0x02 \<noteq> 0 then ''PARALLEL '' else '''') @
     (if pv AND 0x03 = 0 then ''N/A '' else '''')"

definition ircomm_param :: "byte \<Rightarrow> byte \<Rightarrow> nat \<Rightarrow> unit dprog" where
  "ircomm_param pi pl n =
     (if pi = 0x00 then
        bnd (rd (n + 2)) (\<lambda>pv. seq (say ''Service Type='') (say (service_names pv)))
      else if pi = 0x01 then
        bnd (rd (n + 2)) (\<lambda>pv. seq (say ''Port Type='') (say (port_names pv)))
      else if pi = 0x10 then
        bnd (rd (n + 2)) (\<lambda>b0. bnd (rd (n + 3)) (\<lambda>b1. bnd (rd (n + 4)) (\<lambda>b2. bnd (rd (n + 5)) (\<lambda>b3.
        say (''Data Rate='' @ fmt_d (sint (bytes_to_uint b0 b1 b2 b3)) @ '' '')))))
      else if pi = 0x11 then
        bnd (rd (n + 2)) (\<lambda>b. say (''Data Format='' @ fmt_02x (uint b) @ '' ''))
      else if pi = 0x12 then
        bnd (rd (n + 2)) (\<lambda>b. say (''Flow Control='' @ fmt_02x (uint b) @ '' ''))
      else if pi = 0x13 then
        bnd (rd (n + 2)) (\<lambda>b. bnd (rd (n + 3)) (\<lambda>c.
        say (''XON/XOFF='' @ fmt_02x (uint b) @ '','' @ fmt_02x (uint c) @ '' '')))
      else if pi = 0x20 then
        bnd (rd (n + 2)) (\<lambda>b. say (''DTEline State='' @ fmt_02x (uint b) @ '' ''))
      else skip)"

definition parse_ircomm_params :: "byte \<Rightarrow> unit dprog" where
  "parse_ircomm_params clen =
     seq (tlv_loop ircomm_param (unat clen) 0)
     (seq (pull (unat clen))
     skip)"

definition parse_ircomm_lmp :: "unit dprog" where
  "parse_ircomm_lmp = say ''IrCOMM (IrLPT) ''"

definition parse_ircomm_ttp :: "unit dprog" where
  "parse_ircomm_ttp =
     bnd (gets (\<lambda>s. g_netbuf_get_len (buf s))) (\<lambda>len.
     if len = 0 then skip
     else
       bnd (rd 0) (\<lambda>clen.
       seq (pull 1)
       (if clen \<noteq> 0
        then seq (say (nl_tab @ ''IrCOMM '')) (parse_ircomm_params clen)
        else say ''IrCOMM '')))"

definition parse_ircomm_connect :: "unit dprog" where
  "parse_ircomm_connect = parse_ircomm_ttp"

lemmas ircomm_defs = ircomm_param_def parse_ircomm_params_def parse_ircomm_lmp_def
  parse_ircomm_ttp_def parse_ircomm_connect_def

section \<open>Frame conditions and containment\<close>

lemma keeps_ircomm_param [keeps_intro]:
  "(\<And>s l. g (s\<lparr>line := l\<rparr>) = g s) \<Longrightarrow> keeps g (ircomm_param pi pl n)"
  by (simp add: ircomm_param_def keeps_intro)

lemma keeps_ircomm [keeps_intro]:
  assumes "\<And>s l. g (s\<lparr>line := l\<rparr>) = g s" "\<And>n. keeps g (pull n)"
  shows "keeps g (parse_ircomm_params clen)" "keeps g parse_ircomm_ttp"
    "keeps g parse_ircomm_connect" "keeps g parse_ircomm_lmp"
proof -
  show p: "keeps g (parse_ircomm_params clen)" for clen
    unfolding parse_ircomm_params_def by (intro keeps_intro assms)
  show t: "keeps g parse_ircomm_ttp"
    unfolding parse_ircomm_ttp_def by (intro keeps_intro assms p)
  show "keeps g parse_ircomm_connect" "keeps g parse_ircomm_lmp"
    unfolding parse_ircomm_connect_def parse_ircomm_lmp_def by (intro keeps_intro assms t)+
qed

lemma contained_ircomm_param: "n < 256 \<Longrightarrow> contained (ircomm_param pi pl n)"
  by (simp add: ircomm_param_def contained_intro)

lemma contained_parse_ircomm_params [contained_intro]: "contained (parse_ircomm_params clen)"
  unfolding parse_ircomm_params_def
  by (intro contained_intro contained_ircomm_param) (simp_all add: less_imp_le)

lemma contained_ircomm [contained_intro]:
  "contained parse_ircomm_ttp" "contained parse_ircomm_connect" "contained parse_ircomm_lmp"
  by (simp_all add: parse_ircomm_ttp_def parse_ircomm_connect_def parse_ircomm_lmp_def contained_intro)

section \<open>What a parameter list prints\<close>

text \<open>
  The parameters the parser knows, with values of the length their format has, and those it skips
  over whatever their value. The critical bit of the identifier is ignored.
\<close>

definition ircomm_accepted :: "byte \<Rightarrow> byte list \<Rightarrow> bool" where
  "ircomm_accepted pi pv \<longleftrightarrow>
     (let k = pi AND 0x7f in
      if k = 0x10 then length pv = 4
      else if k = 0x13 then length pv = 2
      else if k \<in> {0x00, 0x01, 0x11, 0x12, 0x20} then length pv = 1
      else True)"

definition ircomm_shown :: "byte \<Rightarrow> byte list \<Rightarrow> string" where
  "ircomm_shown pi pv =
     (let k = pi AND 0x7f in
      if k = 0x00 then ''Service Type='' @ service_names (pv ! 0)
      else if k = 0x01 then ''Port Type='' @ port_names (pv ! 0)
      else if k = 0x10 then
        ''Data Rate='' @ fmt_d (sint (be32 (pv ! 0) (pv ! 1) (pv ! 2) (pv ! 3))) @ '' ''
      else if k = 0x11 then ''Data Format='' @ fmt_02x (uint (pv ! 0)) @ '' ''
      else if k = 0x12 then ''Flow Control='' @ fmt_02x (uint (pv ! 0)) @ '' ''
      else if k = 0x13 then
        ''XON/XOFF='' @ fmt_02x (uint (pv ! 0)) @ '','' @ fmt_02x (uint (pv ! 1)) @ '' ''
      else if k = 0x20 then ''DTEline State='' @ fmt_02x (uint (pv ! 0)) @ '' ''
      else '''')"

lemma bytes_to_uint_be32: "bytes_to_uint = be32"
  by (simp add: fun_eq_iff bytes_to_uint_def be32_def)

lemma rd_value:
  assumes "region s n pv" "i < length pv"
  shows "rd (n + i) s = Inr (pv ! i, s)"
  using assms by (simp add: region_def rd_def Let_def add.assoc)

lemma rd_values:
  assumes "region s (n + 2) pv"
  shows "0 < length pv \<Longrightarrow> rd (n + 2) s = Inr (pv ! 0, s)"
    and "1 < length pv \<Longrightarrow> rd (n + 3) s = Inr (pv ! 1, s)"
    and "2 < length pv \<Longrightarrow> rd (n + 4) s = Inr (pv ! 2, s)"
    and "3 < length pv \<Longrightarrow> rd (n + 5) s = Inr (pv ! 3, s)"
  using rd_value [OF assms, of 0] rd_value [OF assms, of 1] rd_value [OF assms, of 2]
    rd_value [OF assms, of 3] by (simp_all add: eval_nat_numeral)

interpretation ircomm_tlv: tlv_handler ircomm_param ircomm_accepted ircomm_shown
proof unfold_locales
  fix pi pv s n
  assume acc: "ircomm_accepted pi pv" and "length pv < 256"
    and reg: "region s n (pi # of_nat (length pv) # pv)"
  then have pv: "region s (n + 2) pv" by (simp add: region_Cons)
  show "ircomm_param (pi AND 0x7f) (of_nat (length pv)) n s =
      Inr ((), s\<lparr>line := line s @ ircomm_shown pi pv\<rparr>)"
    using acc rd_values [OF pv]
    by (simp add: ircomm_accepted_def ircomm_param_def ircomm_shown_def Let_def
        bytes_to_uint_be32 prog_defs say_def del: length_greater_0_conv split: if_split_asm)
qed

lemma clean_ircomm [clean_intro]:
  "clean parse_ircomm_ttp" "clean parse_ircomm_connect" "clean parse_ircomm_lmp"
  by (simp_all add: ircomm_defs clean_intro)

text \<open>C22: An IrCOMM control channel made of well-encoded parameters is printed parameter by parameter in
  order (service and port type by name, the 32-bit data rate in network byte order, line settings in
  hexadecimal), unknown parameters are skipped, and exactly the control channel is consumed.\<close>

theorem ircomm_parameters_decoded:
  assumes "netbuf_wf (buf s)" "payload (buf s) = tlv_bytes ps @ rest" "length (tlv_bytes ps) < 256"
    and "\<And>pi pv. (pi, pv) \<in> set ps \<Longrightarrow> ircomm_accepted pi pv \<and> length pv < 256"
  shows "\<exists>b. parse_ircomm_params (of_nat (length (tlv_bytes ps))) s = Inr ((), s\<lparr>line := line s @
      concat (map (\<lambda>(pi, pv). ircomm_shown pi pv) ps), buf := b\<rparr>) \<and> netbuf_wf b \<and> payload b = rest"
proof -
  let ?n = "length (tlv_bytes ps)"
  let ?s2 = "s\<lparr>line := line s @ concat (map (\<lambda>(pi, pv). ircomm_shown pi pv) ps)\<rparr>"
  have u: "unat (of_nat ?n :: byte) = ?n" using assms(3) by (simp add: unat_of_nat)
  have loop: "tlv_loop ircomm_param ?n 0 s = Inr ((), ?s2)"
    by (rule ircomm_tlv.loop_decodes) (use assms(4) region_payload [OF assms(1,2)] in auto)
  obtain r b where b: "pull ?n ?s2 = Inr (r, ?s2\<lparr>buf := b\<rparr>)" "netbuf_wf b" "payload b = rest"
    using pull_payload [of ?s2 "tlv_bytes ps" rest] assms(1,2) by auto
  show ?thesis
    using loop b by (intro exI [of _ b]) (simp add: parse_ircomm_params_def prog_defs u)
qed

theorem ircomm_parameters_decoded_witness:
  "\<exists>b. parse_ircomm_params 9 (start_state (frame_at [0x00, 0x01, 0x04, 0x90, 0x04, 0x00, 0x00, 0x25, 0x80, 0xaa]) (\<lambda>_. 0)) =
     Inr ((), start_state (frame_at [0x00, 0x01, 0x04, 0x90, 0x04, 0x00, 0x00, 0x25, 0x80, 0xaa]) (\<lambda>_. 0)
       \<lparr>line := ''Service Type=NINE_WIRE Data Rate=9600 '', buf := b\<rparr>) \<and> netbuf_wf b \<and> payload b = [0xaa]"
proof -
  let ?ps = "[(0x00, [0x04]), (0x90, [0x00, 0x00, 0x25, 0x80])] :: (byte \<times> byte list) list"
  let ?bs = "[0x00, 0x01, 0x04, 0x90, 0x04, 0x00, 0x00, 0x25, 0x80, 0xaa] :: byte list"
  let ?s = "start_state (frame_at ?bs) (\<lambda>_. 0)"
  have wf: "netbuf_wf (buf ?s)" "payload (buf ?s) = tlv_bytes ?ps @ [0xaa]"
    using frame_at_wf [of ?bs] frame_at_payload [of ?bs] by (simp_all add: start_state_def tlv_bytes_def)
  have acc: "ircomm_accepted pi pv \<and> length pv < 256" if "(pi, pv) \<in> set ?ps" for pi pv
  proof -
    have "list_all (\<lambda>(pi, pv). ircomm_accepted pi pv \<and> length pv < 256) ?ps" by code_simp
    with that show ?thesis by (auto simp: list_all_iff)
  qed
  have shown: "concat (map (\<lambda>(pi, pv). ircomm_shown pi pv) ?ps) = ''Service Type=NINE_WIRE Data Rate=9600 ''"
    by code_simp
  show ?thesis
    using ircomm_parameters_decoded [OF wf _ acc] shown by (simp add: tlv_bytes_def start_state_def)
qed

end
