(* ===== verification/Obex.thy ===== *)
theory Obex
  imports Ircomm
begin

text \<open>
  The OBEX parser, \<^verbatim>\<open>irda-utils/irdadump/obex.c\<close>: the header values of the four encodings, the loop over
  the headers of a packet, and the dispatch on the opcode, which remembers the last command to tell
  the answer to CONNECT from the others.
\<close>

section \<open>Header values\<close>

text \<open>
  \<^verbatim>\<open>unicode_to_char\<close> squeezes big-endian 16-bit characters to bytes in place:
  \<^verbatim>\<open>while ((buf2[n] = buf[n*2+1])) n++;\<close> with \<^verbatim>\<open>buf2 == buf\<close>. Leaving the array is a fault.
\<close>

function unicode_to_char_loop :: "byte list \<Rightarrow> nat \<Rightarrow> c_fault + byte list" where
  "unicode_to_char_loop arr n =
     (if n * 2 + 1 < length arr then
        let b = arr ! (n * 2 + 1); arr' = arr[n := b]
        in if b = 0 then Inr arr' else unicode_to_char_loop arr' (n + 1)
      else Inl (Local_Bounds ''string'' (n * 2 + 1)))"
  by pat_completeness auto
termination
  by (relation "measure (\<lambda>(arr, n). length arr - n)") auto

declare unicode_to_char_loop.simps [simp del]

definition unicode_to_char :: "byte list \<Rightarrow> byte list dprog" where
  "unicode_to_char arr = (\<lambda>s. case unicode_to_char_loop arr 0 of Inl e \<Rightarrow> Inl e | Inr a \<Rightarrow> Inr (a, s))"

definition quoted :: "string \<Rightarrow> string" where
  "quoted t = CHR 0x22 # t @ [CHR 0x22, CHR 0x20]"

definition obex_unicode_value :: "nat dprog" where
  "obex_unicode_value =
     bnd (rd16 1) (\<lambda>w.
     let string_len = w - 3
     in bnd (if string_len \<noteq> 0
             then bnd (memcpy_local ''string'' 255 3 (unat string_len)) unicode_to_char
             else gets (\<lambda>s. map (stack s) [0..<255])) (\<lambda>arr.
        bnd (store_local ''string'' arr (unat string_len) 0) (\<lambda>arr1.
        bnd (c_string ''string'' arr1) (\<lambda>t.
        seq (say (quoted t))
        (ret (3 + unat string_len))))))"

definition obex_stream_value :: "bool \<Rightarrow> nat dprog" where
  "obex_stream_value istext =
     bnd (rd16 1) (\<lambda>w.
     let string_len = w - 3
     in seq (if istext
             then whenc (string_len \<noteq> 0)
               (bnd (memcpy_local ''string'' 255 3 (unat string_len)) (\<lambda>arr.
                bnd (store_local ''string'' arr (unat string_len) 0) (\<lambda>arr1.
                bnd (c_string ''string'' arr1) (\<lambda>t. say (quoted t)))))
             else say (''['' @ fmt_d (uint string_len) @ '' bytes] ''))
        (ret (unat string_len + 3)))"

definition parse_obex_header :: "bool \<Rightarrow> nat dprog" where
  "parse_obex_header istext =
     bnd (rd 0) (\<lambda>hi.
     if hi AND 0xc0 = 0x00 then obex_unicode_value
     else if hi AND 0xc0 = 0x40 then obex_stream_value istext
     else if hi AND 0xc0 = 0x80 then seq (say (fmt_d (uint hi) @ '' '')) (ret 2)
     else if hi AND 0xc0 = 0xc0 then
       bnd (rd32 1) (\<lambda>obex_int. seq (say (fmt_d (sint obex_int) @ '' '')) (ret 5))
     else seq (say_console ''******'') (ret 0))"

section \<open>The header loop\<close>

text \<open>The \<^verbatim>\<open>switch\<close> on the header identifier: a label, then the value; the result is its length.\<close>

definition obex_header_entry :: "nat dprog" where
  "obex_header_entry =
     bnd (rd 0) (\<lambda>hi.
     if hi = 0x01 \<or> hi = 0x31 then seq (say ''Name='') (parse_obex_header True)
     else if hi = 0x05 then seq (say ''Description='') (parse_obex_header False)
     else if hi = 0xc3 then seq (say ''Lenght='') (parse_obex_header False)
     else if hi = 0x42 then seq (say ''Type='') (parse_obex_header True)
     else if hi = 0x46 then seq (say ''Target='') (parse_obex_header True)
     else if hi = 0x48 then seq (say ''body='') (parse_obex_header False)
     else if hi = 0x49 then seq (say ''body-end='') (parse_obex_header False)
     else if hi = 0xcb then seq (say ''Connection ID='') (parse_obex_header False)
     else seq (say (''custom(0x'' @ fmt_x (uint hi) @ '')='')) (parse_obex_header False))"

text \<open>
  Every header is at least two bytes long and is not longer than a 16-bit length allows, and
  parsing it does not move the buffer's window: this is why the loop over the headers ends.
\<close>

lemma header_kind:
  "(hi :: byte) AND 0xc0 = 0x00 \<or> hi AND 0xc0 = 0x40 \<or> hi AND 0xc0 = 0x80 \<or> hi AND 0xc0 = 0xc0"
  by (rule all_bytes [where P = "\<lambda>hi. hi AND 0xc0 = 0x00 \<or> hi AND 0xc0 = 0x40 \<or>
    hi AND 0xc0 = 0x80 \<or> hi AND 0xc0 = 0xc0"]) code_simp

lemma parse_obex_header_yields: "yields (\<lambda>len. 2 \<le> len \<and> len < 2 ^ 17) (parse_obex_header istext)"
proof -
  have 1: "3 + unat (w :: u16) < 131072" "unat w + 3 < 131072" for w
    using unat_u16_less [of w] by linarith+
  show ?thesis
    unfolding parse_obex_header_def
  proof (rule yields_bnd)
    fix hi :: byte
    show "yields (\<lambda>len. 2 \<le> len \<and> len < 2 ^ 17)
      (if hi AND 0xc0 = 0x00 then obex_unicode_value
       else if hi AND 0xc0 = 0x40 then obex_stream_value istext
       else if hi AND 0xc0 = 0x80 then seq (say (fmt_d (uint hi) @ '' '')) (ret 2)
       else if hi AND 0xc0 = 0xc0 then
         bnd (rd32 1) (\<lambda>obex_int. seq (say (fmt_d (sint obex_int) @ '' '')) (ret 5))
       else seq (say_console ''******'') (ret 0))"
      using header_kind [of hi]
      by (auto simp: obex_unicode_value_def obex_stream_value_def Let_def 1 intro!: yields_intro)
  qed
qed

lemma keeps_unicode_to_char [keeps_intro]: "keeps g (unicode_to_char arr)"
  by (auto simp: keeps_def unicode_to_char_def split: sum.splits)

lemma keeps_parse_obex_header [keeps_intro]:
  "(\<And>s l. g (s\<lparr>line := l\<rparr>) = g s) \<Longrightarrow> (\<And>s l. g (s\<lparr>console := l\<rparr>) = g s) \<Longrightarrow>
   keeps g (parse_obex_header istext)"
  by (simp add: parse_obex_header_def obex_unicode_value_def obex_stream_value_def Let_def keeps_intro)

lemma keeps_obex_header_entry [keeps_intro]:
  "(\<And>s l. g (s\<lparr>line := l\<rparr>) = g s) \<Longrightarrow> (\<And>s l. g (s\<lparr>console := l\<rparr>) = g s) \<Longrightarrow>
   keeps g obex_header_entry"
  by (simp add: obex_header_entry_def keeps_intro)

lemma obex_header_entry_yields: "yields (\<lambda>len. 2 \<le> len \<and> len < 2 ^ 17) obex_header_entry"
  unfolding obex_header_entry_def by (intro yields_intro parse_obex_header_yields)

lemma obex_header_entry_step:
  assumes "obex_header_entry s = Inr (len, s1)" and "pull len s1 = Inr (Some p, s2)"
  shows "unat (nb_len (buf s2)) < unat (nb_len (buf s))"
proof -
  have len: "2 \<le> len" "len < 2 ^ 17"
    using yieldsD [OF obex_header_entry_yields assms(1)] by auto
  have "keeps buf obex_header_entry" by (simp add: keeps_intro)
  then have same: "buf s1 = buf s" using assms(1) by (rule keepsD)
  have u: "unat (of_nat len :: u32) = len"
    using len by (intro unat_of_nat_u32) simp
  from assms(2) have "of_nat len \<le> nb_len (buf s)" "nb_len (buf s2) = nb_len (buf s) - of_nat len"
    by (auto simp: pull_def on_buf_def g_netbuf_pull_def Let_def same not_less split: if_splits)
  with u len show ?thesis by (simp add: unat_sub_u32 word_le_nat_alt)
qed

text \<open>The loop of \<^verbatim>\<open>parse_obex_headers\<close>: \<^verbatim>\<open>while (buf->len > 0) { ... if (pull == NULL) break; }\<close>.\<close>

function obex_headers_loop :: "unit dprog" where
  "obex_headers_loop s =
     (if nb_len (buf s) > 0 then
        case obex_header_entry s of
          Inl e \<Rightarrow> Inl e
        | Inr (len, s1) \<Rightarrow>
            (case pull len s1 of
               Inl e \<Rightarrow> Inl e
             | Inr (None, s2) \<Rightarrow> say ''{unterminated} '' s2
             | Inr (Some p, s2) \<Rightarrow> obex_headers_loop s2)
      else Inr ((), s))"
  by pat_completeness auto
termination
  by (relation "measure (\<lambda>s. unat (nb_len (buf s)))") (auto dest: obex_header_entry_step)

declare obex_headers_loop.simps [simp del]

definition parse_obex_headers :: "nat \<Rightarrow> unit dprog" where
  "parse_obex_headers header_offset =
     bnd (rd 0) (\<lambda>opcode.
     bnd (rd16 1) (\<lambda>size.
     seq (pull header_offset)
     (seq (say (''final='' @ fmt_d (uint (drop_bit 7 (opcode AND 0x80))) @
                '' len='' @ fmt_d (uint size) @ '' ''))
     obex_headers_loop)))"

section \<open>Commands and responses\<close>

definition obex_version :: "byte \<Rightarrow> string" where
  "obex_version v = fmt_d (uint (drop_bit 4 (v AND 0xf0))) @ ''.'' @ fmt_d (uint (v AND 0x0f))"

definition parse_obex_connect :: "unit dprog" where
  "parse_obex_connect =
     bnd (rd16 1) (\<lambda>length.
     if length = 7 then
       bnd (rd 3) (\<lambda>version. bnd (rd 4) (\<lambda>flags. bnd (rd16 5) (\<lambda>mtu.
       say (''CONNECT len='' @ fmt_d (uint length) @ '' ver='' @ obex_version version @
            '' flags='' @ fmt_d (uint flags) @ '' mtu='' @ fmt_d (uint mtu) @ '' ''))))
     else say (''CONNECT len='' @ fmt_d (uint length) @ '' ''))"

definition parse_obex_success :: "byte \<Rightarrow> unit dprog" where
  "parse_obex_success last_cmd =
     (if last_cmd = 0x00 then
        bnd (rd 3) (\<lambda>version. bnd (rd16 1) (\<lambda>len. bnd (rd 4) (\<lambda>flags. bnd (rd16 5) (\<lambda>mtu.
        seq (say (''SUCCESS len='' @ fmt_d (uint len) @ '' ver='' @ obex_version version @
             '' flags='' @ fmt_d (uint flags) @ '' mtu='' @ fmt_d (uint mtu) @ '' ''))
        (parse_obex_headers 7)))))
      else
        seq (say (''SUCCESS (from 0x'' @ fmt_x (uint last_cmd) @ '') ''))
        (parse_obex_headers 3))"

definition parse_obex_setpath :: "unit dprog" where
  "parse_obex_setpath =
     bnd (rd16 1) (\<lambda>length.
     bnd (rd 3) (\<lambda>flags. bnd (rd 4) (\<lambda>constants.
     seq (say (''SETPATH flags=0x'' @ fmt_x (uint flags) @ '' constants='' @
               fmt_d (uint constants) @ '' ''))
     (parse_obex_headers 5))))"

definition obex_response :: "byte \<Rightarrow> unit dprog" where
  "obex_response opcode =
     (if opcode = 0x10 then seq (say ''CONTINUE '') (parse_obex_headers 3)
      else if opcode = 0x11 then say ''SWITCH_PRO ''
      else if opcode = 0x20 then bnd (gets last_command) parse_obex_success
      else if opcode = 0x21 then say ''CREATED ''
      else if opcode = 0x22 then say ''ACCEPTED ''
      else if opcode = 0x40 then say ''BAD REQUEST ''
      else if opcode = 0x43 then say ''FORBIDDEN ''
      else if opcode = 0x49 then say ''CONFLICT ''
      else say (''Unknown response '' @ fmt_02x (uint opcode) @ '' ''))"

text \<open>\<^verbatim>\<open>%#x\<close> of the opcode in the last branch: an opcode of 0 does not reach it.\<close>

definition obex_command :: "byte \<Rightarrow> unit dprog" where
  "obex_command opcode =
     (if opcode = 0x00 then parse_obex_connect
      else if opcode = 0x02 then seq (say ''PUT '') (parse_obex_headers 3)
      else if opcode = 0x03 then seq (say ''GET '') (parse_obex_headers 3)
      else if opcode = 0x01 then say ''DISC ''
      else if opcode = 0x7f then say ''ABORT ''
      else if opcode = 0x05 then parse_obex_setpath
      else if opcode > 0x04 \<and> opcode < 0x10 then say ''RESERVED ''
      else if opcode > 0x0f \<and> opcode < 0x20 then say ''USER_DEFINED ''
      else say (''unknown opcode 0x'' @ fmt_x (uint opcode) @ '' ''))"

definition parse_obex :: "bool \<Rightarrow> unit dprog" where
  "parse_obex cmd =
     seq (say (nl_tab @ ''OBEX ''))
     (bnd (gets (\<lambda>s. g_netbuf_get_len (buf s))) (\<lambda>len.
     if len = 0 then skip
     else
       bnd (rd 0) (\<lambda>b0.
       let opcode = b0 AND 0x7f
       in if \<not> cmd then obex_response opcode
          else seq (modify (\<lambda>s. s\<lparr>last_command := opcode\<rparr>)) (obex_command opcode))))"

section \<open>Frame conditions and containment\<close>

lemma keeps_obex_headers_loop [keeps_intro]:
  assumes "\<And>s l. g (s\<lparr>line := l\<rparr>) = g s" "\<And>s l. g (s\<lparr>console := l\<rparr>) = g s"
    "\<And>n. keeps g (pull n)"
  shows "keeps g obex_headers_loop"
proof -
  have e: "keeps g obex_header_entry" by (intro keeps_intro assms)
  note p = assms(3)
  have y: "keeps g (say t)" for t by (intro keeps_intro assms)
  have "obex_headers_loop s = Inr (x, s') \<longrightarrow> g s' = g s" for s x s'
  proof (induction s rule: obex_headers_loop.induct)
    case (1 s)
    show ?case
    proof (cases "0 < nb_len (buf s)")
      case False
      then show ?thesis by (simp add: obex_headers_loop.simps [of s])
    next
      case True
      show ?thesis
      proof
        assume run: "obex_headers_loop s = Inr (x, s')"
        then obtain len s1 where en: "obex_header_entry s = Inr (len, s1)"
          using True by (auto simp: obex_headers_loop.simps [of s] split: sum.splits)
        then obtain r s2 where pu: "pull len s1 = Inr (r, s2)"
          using True run by (auto simp: obex_headers_loop.simps [of s] split: sum.splits)
        have g2: "g s2 = g s" using keepsD [OF e en] keepsD [OF p pu] by simp
        show "g s' = g s"
        proof (cases r)
          case None
          with True run en pu have "say ''{unterminated} '' s2 = Inr (x, s')"
            by (simp add: obex_headers_loop.simps [of s])
          then show ?thesis using keepsD [OF y] g2 by simp
        next
          case (Some q)
          with True run en pu have "obex_headers_loop s2 = Inr (x, s')"
            by (simp add: obex_headers_loop.simps [of s])
          moreover have "obex_headers_loop s2 = Inr (x, s') \<longrightarrow> g s' = g s2"
            using True en pu Some by (intro "1.IH") auto
          ultimately show ?thesis using g2 by simp
        qed
      qed
    qed
  qed
  then show ?thesis by (auto simp: keeps_def)
qed

lemma keeps_parse_obex [keeps_intro]:
  assumes "\<And>s l. g (s\<lparr>line := l\<rparr>) = g s" "\<And>s l. g (s\<lparr>console := l\<rparr>) = g s"
    "\<And>n. keeps g (pull n)" "\<And>s c. g (s\<lparr>last_command := c\<rparr>) = g s"
  shows "keeps g (parse_obex cmd)"
proof -
  have h: "keeps g (parse_obex_headers k)" for k
    unfolding parse_obex_headers_def by (intro keeps_intro assms)
  have su: "keeps g (parse_obex_success c)" for c
    unfolding parse_obex_success_def by (intro keeps_intro assms h)
  have r: "keeps g (obex_response opcode)" for opcode
    unfolding obex_response_def by (intro keeps_intro assms h su)
  have c: "keeps g (obex_command opcode)" for opcode
    unfolding obex_command_def parse_obex_connect_def parse_obex_setpath_def
    by (intro keeps_intro assms h)
  show ?thesis
    unfolding parse_obex_def Let_def by (intro keeps_intro keeps_modify assms r c)
qed

lemma contained_unicode_to_char [contained_intro]: "contained (unicode_to_char arr)"
proof -
  have "unicode_to_char_loop a n = Inl e \<longrightarrow> \<not> stray_fault e" for a n e
    by (induction a n rule: unicode_to_char_loop.induct)
      (subst unicode_to_char_loop.simps, auto simp: Let_def stray_fault_def)
  then show ?thesis
    by (auto simp: contained_def unicode_to_char_def split: sum.split)
qed

lemma contained_parse_obex_header [contained_intro]: "contained (parse_obex_header istext)"
  by (simp add: parse_obex_header_def obex_unicode_value_def obex_stream_value_def Let_def
      contained_intro)

lemma contained_obex_header_entry [contained_intro]: "contained obex_header_entry"
  unfolding obex_header_entry_def by (intro contained_intro) simp

lemma contained_obex_headers_loop [contained_intro]: "contained obex_headers_loop"
  unfolding contained_def
proof
  fix s
  show "frame_ok s \<longrightarrow> (case obex_headers_loop s of Inl e \<Rightarrow> \<not> stray_fault e | Inr (x, s') \<Rightarrow> frame_ok s')"
  proof (induction s rule: obex_headers_loop.induct)
    case (1 s)
    show ?case
    proof (cases "0 < nb_len (buf s)")
      case False
      then show ?thesis by (simp add: obex_headers_loop.simps [of s])
    next
      case True
      show ?thesis
      proof
        assume ok: "frame_ok s"
        show "case obex_headers_loop s of Inl e \<Rightarrow> \<not> stray_fault e | Inr (x, s') \<Rightarrow> frame_ok s'"
        proof (cases "obex_header_entry s")
          case (Inl e)
          with True containedD_fault [OF contained_obex_header_entry ok] show ?thesis
            by (simp add: obex_headers_loop.simps [of s])
        next
          case (Inr r)
          obtain len s1 where r: "r = (len, s1)" by (cases r)
          with Inr have ok1: "frame_ok s1" using containedD [OF contained_obex_header_entry ok] by blast
          obtain q s2 where pu: "pull len s1 = Inr (q, s2)"
            by (cases "nb_len (buf s1) < of_nat len")
              (auto simp: pull_def on_buf_def g_netbuf_pull_def Let_def)
          have ok2: "frame_ok s2" by (rule pull_frame_ok [OF ok1 pu])
          show ?thesis
          proof (cases q)
            case None
            with True Inr r pu ok2 show ?thesis
              by (simp add: obex_headers_loop.simps [of s] say_def modify_def frame_ok_def)
          next
            case (Some p)
            with True Inr r pu ok2 "1.IH" [OF True Inr r [symmetric] pu refl] show ?thesis
              by (simp add: obex_headers_loop.simps [of s])
          qed
        qed
      qed
    qed
  qed
qed

lemma contained_parse_obex [contained_intro]: "contained (parse_obex cmd)"
proof -
  have h: "contained (parse_obex_headers k)" for k
    by (simp add: parse_obex_headers_def contained_intro)
  have su: "contained (parse_obex_success c)" for c
    by (simp add: parse_obex_success_def contained_intro h)
  have r: "contained (obex_response opcode)" for opcode
    by (simp add: obex_response_def contained_intro h su)
  have c: "contained (obex_command opcode)" for opcode
    by (simp add: obex_command_def parse_obex_connect_def parse_obex_setpath_def contained_intro h)
  show ?thesis
    by (simp add: parse_obex_def Let_def contained_intro contained_modify r c)
qed

section \<open>What a well-formed packet prints\<close>

text \<open>
  The in-place conversion of 16-bit characters: reads run ahead of writes, so the characters come
  out in order. \<open>unicode_src arr n cs\<close> is the state of the array after \<open>n\<close> characters.
\<close>

definition unicode_src :: "byte list \<Rightarrow> nat \<Rightarrow> byte list \<Rightarrow> bool" where
  "unicode_src arr n cs \<longleftrightarrow> 2 * length cs + 1 < length arr \<and> n \<le> length cs \<and>
     (\<forall>j < n. arr ! j = cs ! j) \<and>
     (\<forall>j. n \<le> j \<and> j < length cs \<longrightarrow> arr ! (j * 2 + 1) = cs ! j) \<and> arr ! (length cs * 2 + 1) = 0"

lemma unicode_src_step:
  assumes "unicode_src arr n cs" "n < length cs"
  shows "unicode_src (arr[n := cs ! n]) (Suc n) cs"
proof -
  have "n < length arr" using assms by (simp add: unicode_src_def)
  with assms show ?thesis
    by (auto simp: unicode_src_def nth_list_update less_Suc_eq)
qed

lemma unicode_loop_converts:
  assumes "unicode_src arr n cs" "0 \<notin> set cs"
  shows "\<exists>arr'. unicode_to_char_loop arr n = Inr arr' \<and> length arr' = length arr \<and>
    take (Suc (length cs)) arr' = cs @ [0]"
  using assms
proof (induction "length cs - n" arbitrary: arr n)
  case 0
  then have n: "n = length cs" and len: "2 * length cs + 1 < length arr"
    and zero: "arr ! (n * 2 + 1) = 0" and pre: "\<forall>j < n. arr ! j = cs ! j"
    by (auto simp: unicode_src_def)
  have "take n arr = cs" using pre n len by (intro nth_equalityI) auto
  then have "take (Suc n) (arr[n := 0]) = cs @ [0]"
    using n len by (simp add: take_Suc_conv_app_nth take_update_cancel)
  then show ?case
    using len zero by (subst unicode_to_char_loop.simps) (simp add: n Let_def)
next
  case (Suc k)
  then have n: "n < length cs" by simp
  have src: "arr ! (n * 2 + 1) = cs ! n" "n * 2 + 1 < length arr"
    using Suc.prems(1) n by (auto simp: unicode_src_def)
  have nz: "cs ! n \<noteq> 0" using Suc.prems(2) n by (metis nth_mem)
  have "\<exists>arr'. unicode_to_char_loop (arr[n := cs ! n]) (Suc n) = Inr arr' \<and>
      length arr' = length (arr[n := cs ! n]) \<and> take (Suc (length cs)) arr' = cs @ [0]"
    by (rule Suc.hyps(1)) (use Suc.hyps(2) Suc.prems n unicode_src_step in auto)
  then show ?case
    using src nz by (subst unicode_to_char_loop.simps) (simp add: Let_def)
qed

definition utf16 :: "byte list \<Rightarrow> byte list" where
  "utf16 cs = concat (map (\<lambda>c. [0, c]) cs)"

lemma length_utf16 [simp]: "length (utf16 cs) = 2 * length cs"
  by (simp add: utf16_def length_concat sum_list_triv comp_def)

lemma nth_utf16: "j < length cs \<Longrightarrow> utf16 cs ! Suc (j * 2) = cs ! j"
proof (induction cs arbitrary: j)
  case Nil
  then show ?case by simp
next
  case (Cons c cs)
  then show ?case by (cases j) (simp_all add: utf16_def)
qed

lemma unicode_src_init: "unicode_src (utf16 cs @ 0 # 0 # rest) 0 cs"
  by (auto simp: unicode_src_def nth_append nth_utf16)

datatype obex_hdr =
    Unicode_Hdr byte "byte list"
  | Stream_Hdr byte "byte list"
  | Byte_Hdr byte byte
  | Int_Hdr byte u32

definition is_text :: "byte \<Rightarrow> bool" where
  "is_text hi \<longleftrightarrow> hi = 0x01 \<or> hi = 0x31 \<or> hi = 0x42 \<or> hi = 0x46"

definition hdr_label :: "byte \<Rightarrow> string" where
  "hdr_label hi =
     (if hi = 0x01 \<or> hi = 0x31 then ''Name='' else if hi = 0x05 then ''Description=''
      else if hi = 0xc3 then ''Lenght='' else if hi = 0x42 then ''Type=''
      else if hi = 0x46 then ''Target='' else if hi = 0x48 then ''body=''
      else if hi = 0x49 then ''body-end='' else if hi = 0xcb then ''Connection ID=''
      else ''custom(0x'' @ fmt_x (uint hi) @ '')='')"

fun hdr_bytes :: "obex_hdr \<Rightarrow> byte list" where
  "hdr_bytes (Unicode_Hdr hi cs) = hi # be16_bytes (of_nat (2 * length cs + 5)) @ utf16 cs @ [0, 0]"
| "hdr_bytes (Stream_Hdr hi bs) = hi # be16_bytes (of_nat (length bs + 3)) @ bs"
| "hdr_bytes (Byte_Hdr hi v) = [hi, v]"
| "hdr_bytes (Int_Hdr hi w) = hi # be32_bytes w"

text \<open>Headers the parser decodes: text must fit the 255-byte array with its terminator.\<close>

fun hdr_ok :: "obex_hdr \<Rightarrow> bool" where
  "hdr_ok (Unicode_Hdr hi cs) \<longleftrightarrow> hi AND 0xc0 = 0x00 \<and> 0 \<notin> set cs \<and> 2 * length cs + 2 < 255"
| "hdr_ok (Stream_Hdr hi bs) \<longleftrightarrow> hi AND 0xc0 = 0x40 \<and>
     (if is_text hi then length bs < 255 else length bs < 65533)"
| "hdr_ok (Byte_Hdr hi v) \<longleftrightarrow> hi AND 0xc0 = 0x80"
| "hdr_ok (Int_Hdr hi w) \<longleftrightarrow> hi AND 0xc0 = 0xc0"

fun hdr_shown :: "obex_hdr \<Rightarrow> string" where
  "hdr_shown (Unicode_Hdr hi cs) = quoted (map chr cs)"
| "hdr_shown (Stream_Hdr hi bs) =
     (if is_text hi then (if bs = [] then '''' else quoted (map chr (takeWhile (\<lambda>b. b \<noteq> 0) bs)))
      else ''['' @ fmt_d (int (length bs)) @ '' bytes] '')"
| "hdr_shown (Byte_Hdr hi v) = fmt_d (uint hi) @ '' ''"
| "hdr_shown (Int_Hdr hi w) = fmt_d (sint w) @ '' ''"

fun hdr_id :: "obex_hdr \<Rightarrow> byte" where
  "hdr_id (Unicode_Hdr hi cs) = hi"
| "hdr_id (Stream_Hdr hi bs) = hi"
| "hdr_id (Byte_Hdr hi v) = hi"
| "hdr_id (Int_Hdr hi w) = hi"

lemma rd16_region:
  assumes "region s n (be16_bytes w @ bs)"
  shows "rd16 n s = Inr (w, s)"
  using assms be16_split [of w]
  by (simp add: be16_bytes_def region_Cons rd16_def rd_def bnd_def ret_def Let_def)

lemma rd32_region:
  assumes "region s n (be32_bytes w @ bs)"
  shows "rd32 n s = Inr (w, s)"
  using assms be32_split [of w]
  by (simp add: be32_bytes_def region_Cons rd32_def rd_def bnd_def ret_def Let_def eval_nat_numeral)

lemma memcpy_region:
  assumes "region s off (bs @ cs)" "length bs \<le> cap"
  shows "memcpy_local name cap off (length bs) s =
    Inr (bs @ map (stack s) [length bs..<cap], s)"
proof -
  have r: "region s off bs" using assms(1) by (simp add: region_append)
  then have "map (\<lambda>i. nb_mem (buf s) (nb_data (buf s) + off + i)) [0..<length bs] = bs"
    by (intro nth_equalityI) (auto simp: region_def)
  with r assms(2) show ?thesis by (simp add: memcpy_local_def region_def)
qed

lemma len_field:
  assumes "n < 65533"
  shows "unat (of_nat (n + 3) - 3 :: u16) = n" "uint (of_nat (n + 3) - 3 :: u16) = int n"
    "(of_nat (n + 3) - 3 :: u16) = 0 \<longleftrightarrow> n = 0"
proof -
  have e: "(of_nat (n + 3) - 3 :: u16) = of_nat n" by simp
  show u: "unat (of_nat (n + 3) - 3 :: u16) = n" unfolding e using assms by (simp add: unat_of_nat)
  then show "uint (of_nat (n + 3) - 3 :: u16) = int n"
    using uint_nat by metis
  show "(of_nat (n + 3) - 3 :: u16) = 0 \<longleftrightarrow> n = 0" using u by (metis unat_eq_zero)
qed

lemma c_string_take:
  assumes "take (Suc (length cs)) arr = cs @ [0]" "0 \<notin> set cs"
  shows "c_string name arr s = Inr (map chr cs, s)"
proof -
  have "arr = (cs @ [0]) @ drop (Suc (length cs)) arr"
    using assms(1) append_take_drop_id [of "Suc (length cs)" arr] by simp
  then obtain rest where arr: "arr = cs @ 0 # rest" by simp
  have "takeWhile (\<lambda>b. b \<noteq> 0) arr = cs"
    unfolding arr by (subst takeWhile_append2) (use assms(2) in auto)
  then show ?thesis by (simp add: c_string_def arr ret_def)
qed

lemma unicode_value:
  assumes "region s 0 (hdr_bytes (Unicode_Hdr hi cs))" "hdr_ok (Unicode_Hdr hi cs)"
  shows "obex_unicode_value s =
    Inr (2 * length cs + 5, s\<lparr>line := line s @ quoted (map chr cs)\<rparr>)"
proof -
  let ?n = "2 * length cs + 2"
  let ?bs = "utf16 cs @ [0, 0]"
  have r: "region s 1 (be16_bytes (of_nat (?n + 3)) @ ?bs)" and b: "region s 3 (?bs @ [])"
    using assms(1) by (simp_all add: region_Cons region_append be16_bytes_def eval_nat_numeral)
  have rd: "rd16 1 s = Inr (of_nat (?n + 3), s)" by (rule rd16_region [OF r])
  have len: "length ?bs = ?n" by simp
  let ?arr = "?bs @ map (stack s) [?n..<255]"
  have cp: "memcpy_local ''string'' 255 3 ?n s = Inr (?arr, s)"
    using memcpy_region [OF b, of 255 "''string''"] assms(2) unfolding len by simp
  obtain arr1 where a1: "unicode_to_char_loop ?arr 0 = Inr arr1" "length arr1 = length ?arr"
    "take (Suc (length cs)) arr1 = cs @ [0]"
    using unicode_loop_converts [OF unicode_src_init, of cs "map (stack s) [?n..<255]"] assms(2)
    by auto
  have l1: "?n < length arr1" using a1(2) assms(2) by simp
  have "take (Suc (length cs)) (arr1[?n := 0]) = cs @ [0]" using a1(3) by simp
  then have cs: "c_string ''string'' (arr1[?n := 0]) s = Inr (map chr cs, s)"
    by (rule c_string_take) (use assms(2) in simp)
  have lf: "unat (of_nat (?n + 3) - 3 :: u16) = ?n" "(of_nat (?n + 3) - 3 :: u16) \<noteq> 0"
    using len_field [of ?n] assms(2) by auto
  show ?thesis
    using rd cp a1(1) l1 cs lf
    by (simp add: obex_unicode_value_def bnd_def Let_def unicode_to_char_def store_local_def seq_def
        ret_def say_def modify_def del: of_nat_add)
qed

lemma takeWhile_zero: "takeWhile (\<lambda>b. b \<noteq> 0) (bs @ 0 # rest) = takeWhile (\<lambda>b. b \<noteq> 0) (bs :: byte list)"
  by (induction bs) auto

lemma stream_value:
  assumes "region s 0 (hdr_bytes (Stream_Hdr hi bs))" "hdr_ok (Stream_Hdr hi bs)"
  shows "obex_stream_value (is_text hi) s =
    Inr (length bs + 3, s\<lparr>line := line s @ hdr_shown (Stream_Hdr hi bs)\<rparr>)"
proof -
  have r: "region s 1 (be16_bytes (of_nat (length bs + 3)) @ bs)" and b: "region s 3 (bs @ [])"
    using assms(1) by (simp_all add: region_Cons region_append be16_bytes_def eval_nat_numeral)
  have rd: "rd16 1 s = Inr (of_nat (length bs + 3), s)" by (rule rd16_region [OF r])
  have "length bs < 65533" using assms(2) by (auto split: if_splits)
  note lf = len_field [OF this]
  show ?thesis
  proof (cases "is_text hi")
    case False
    with rd lf show ?thesis
      by (simp add: obex_stream_value_def bnd_def Let_def seq_def ret_def say_def modify_def
          del: of_nat_add)
  next
    case True
    then have n: "length bs < 255" using assms(2) by simp
    let ?arr = "bs @ map (stack s) [length bs..<255]"
    have cp: "memcpy_local ''string'' 255 3 (length bs) s = Inr (?arr, s)"
      using memcpy_region [OF b, of 255 "''string''"] n by simp
    have "?arr[length bs := 0] = bs @ 0 # map (stack s) [Suc (length bs)..<255]"
      using n by (simp add: list_update_append upt_rec [of "length bs"])
    then have cs: "c_string ''string'' (?arr[length bs := 0]) s =
        Inr (map chr (takeWhile (\<lambda>b. b \<noteq> 0) bs), s)"
      using takeWhile_zero [of bs] by (simp add: c_string_def ret_def)
    show ?thesis
      using rd cp cs lf True n
      by (auto simp: obex_stream_value_def bnd_def Let_def seq_def ret_def say_def modify_def
          store_local_def whenc_def skip_def simp del: of_nat_add)
  qed
qed

lemma hdr_bytes_Cons: "\<exists>bs. hdr_bytes h = hdr_id h # bs"
  by (cases h) auto

lemma header_decodes:
  assumes "region s 0 (hdr_bytes h)" "hdr_ok h"
  shows "parse_obex_header (is_text (hdr_id h)) s =
    Inr (length (hdr_bytes h), s\<lparr>line := line s @ hdr_shown h\<rparr>)"
proof -
  obtain bs where "hdr_bytes h = hdr_id h # bs" using hdr_bytes_Cons by blast
  with assms(1) have rd0: "rd 0 s = Inr (hdr_id h, s)" by (metis rd_region)
  show ?thesis
  proof (cases h)
    case (Unicode_Hdr hi cs)
    with assms rd0 unicode_value [of s hi cs] show ?thesis
      by (simp add: parse_obex_header_def bnd_def be16_bytes_def)
  next
    case (Stream_Hdr hi bs)
    with assms rd0 stream_value [of s hi bs] show ?thesis
      by (simp add: parse_obex_header_def bnd_def be16_bytes_def)
  next
    case (Byte_Hdr hi v)
    with assms rd0 show ?thesis
      by (simp add: parse_obex_header_def bnd_def seq_def say_def modify_def ret_def)
  next
    case (Int_Hdr hi w)
    with assms rd0 rd32_region [of s 1 w "[]"] show ?thesis
      by (simp add: parse_obex_header_def bnd_def seq_def say_def modify_def ret_def region_Cons
          be32_bytes_def)
  qed
qed

lemma entry_decodes:
  assumes "region s 0 (hdr_bytes h)" "hdr_ok h"
  shows "obex_header_entry s =
    Inr (length (hdr_bytes h), s\<lparr>line := line s @ hdr_label (hdr_id h) @ hdr_shown h\<rparr>)"
proof -
  obtain bs where "hdr_bytes h = hdr_id h # bs" using hdr_bytes_Cons by blast
  with assms(1) have rd0: "rd 0 s = Inr (hdr_id h, s)" by (metis rd_region)
  have "obex_header_entry s =
      seq (say (hdr_label (hdr_id h))) (parse_obex_header (is_text (hdr_id h))) s"
    using rd0 by (auto simp: obex_header_entry_def bnd_def hdr_label_def is_text_def)
  also have "\<dots> = Inr (length (hdr_bytes h), s\<lparr>line := line s @ hdr_label (hdr_id h) @ hdr_shown h\<rparr>)"
    using header_decodes [of "s\<lparr>line := line s @ hdr_label (hdr_id h)\<rparr>" h] assms
    by (simp add: seq_def bnd_def say_def modify_def)
  finally show ?thesis .
qed

text \<open>The message at the current position, as the payload of the buffer.\<close>

lemma headers_loop_decodes:
  assumes "netbuf_wf (buf s)" "payload (buf s) = concat (map hdr_bytes hs)" "\<forall>h \<in> set hs. hdr_ok h"
  shows "\<exists>s'. obex_headers_loop s = Inr ((), s') \<and> netbuf_wf (buf s') \<and> payload (buf s') = [] \<and>
    line s' = line s @ concat (map (\<lambda>h. hdr_label (hdr_id h) @ hdr_shown h) hs)"
  using assms
proof (induction hs arbitrary: s)
  case Nil
  then have "nb_len (buf s) = 0" using length_payload [of "buf s"] by (simp add: unat_eq_0)
  with Nil show ?case by (auto simp: obex_headers_loop.simps [of s])
next
  case (Cons h hs)
  obtain bs where "hdr_bytes h = hdr_id h # bs" using hdr_bytes_Cons by blast
  then have pos: "0 < nb_len (buf s)"
    using Cons.prems(2) length_payload [of "buf s"] by (auto simp: word_less_nat_alt)
  let ?s1 = "s\<lparr>line := line s @ hdr_label (hdr_id h) @ hdr_shown h\<rparr>"
  have en: "obex_header_entry s = Inr (length (hdr_bytes h), ?s1)"
    by (rule entry_decodes [OF region_payload [OF Cons.prems(1)]]) (use Cons.prems in auto)
  obtain p b where pu: "pull (length (hdr_bytes h)) ?s1 = Inr (Some p, ?s1\<lparr>buf := b\<rparr>)"
    and b: "netbuf_wf b" "payload b = concat (map hdr_bytes hs)"
    using pull_payload [of ?s1 "hdr_bytes h" "concat (map hdr_bytes hs)"] Cons.prems by auto
  have "obex_headers_loop s = obex_headers_loop (?s1\<lparr>buf := b\<rparr>)"
    using pos en pu by (simp add: obex_headers_loop.simps [of s])
  with Cons.IH [of "?s1\<lparr>buf := b\<rparr>"] Cons.prems(3) b show ?case by simp
qed

section \<open>Properties\<close>


definition demo_headers :: "obex_hdr list" where
  "demo_headers = [Unicode_Hdr 0x01 [65, 66], Stream_Hdr 0x48 [1, 2, 3], Int_Hdr 0xc3 300]"


text \<open>Text of more than 255 bytes overruns the local array \<^verbatim>\<open>string[255]\<close> of \<^verbatim>\<open>parse_obex_header\<close>: whatever
  the rest of the frame holds, a byte-stream header printed as text whose length field, less 3 and
  modulo \<open>2^16\<close>, exceeds 255 writes past the array. A length field below 3 wraps and does so too. The copy also reads past the
  receive buffer when the text would end behind it.\<close>

theorem obex_text_overruns_array:
  assumes "region s 0 (hi # be16_bytes w)" "hi AND 0xc0 = 0x40" "255 < unat (w - 3)"
  shows "parse_obex_header True s = Inl (if unat (nb_truesize (buf s)) < nb_data (buf s) + 3 + unat (w - 3)
    then Copy_Bounds ''string'' (unat (w - 3)) else Local_Bounds ''string'' 255)"
proof -
  have "rd 0 s = Inr (hi, s)" using assms(1) by (rule rd_region)
  moreover have "rd16 1 s = Inr (w, s)"
    using rd16_region [of s 1 w "[]"] assms(1) by (simp add: region_Cons)
  moreover have "w - 3 \<noteq> 0" using assms(3) by auto
  ultimately show ?thesis using assms(2,3)
    by (simp add: parse_obex_header_def obex_stream_value_def bnd_def seq_def whenc_def Let_def
        memcpy_local_def)
qed

theorem obex_text_overruns_array_witness:
  "parse_obex_header True (start_state (frame_at [0x42, 0x00, 0x00]) (\<lambda>_. 0)) =
     Inl (Copy_Bounds ''string'' 65533)"
proof -
  have "region (start_state (frame_at [0x42, 0x00, 0x00]) (\<lambda>_. 0)) 0 (0x42 # be16_bytes 0)"
    by (simp add: region_def start_state_def frame_at_def be16_bytes_def nth_Cons split: nat.split)
  from obex_text_overruns_array [OF this] show ?thesis by (simp add: start_state_def frame_at_def)
qed

text \<open>For a one-byte header the program prints the header identifier where the value belongs: two
  such headers with different values print the same text.\<close>

theorem obex_byte_value_not_shown:
  assumes "region s 0 (hdr_bytes (Byte_Hdr hi v))" "hi AND 0xc0 = 0x80"
  shows "parse_obex_header istext s = Inr (2, s\<lparr>line := line s @ fmt_d (uint hi) @ '' ''\<rparr>)"
proof -
  have "rd 0 s = Inr (hi, s)" using assms(1) by (auto intro: rd_region)
  with assms(2) show ?thesis
    by (simp add: parse_obex_header_def bnd_def seq_def say_def modify_def ret_def)
qed

theorem obex_byte_value_not_shown_witness:
  "parse_obex_header False (start_state (frame_at [0x97, 1]) (\<lambda>_. 0)) =
     Inr (2, (start_state (frame_at [0x97, 1]) (\<lambda>_. 0))\<lparr>line := ''151 ''\<rparr>) \<and>
   parse_obex_header False (start_state (frame_at [0x97, 2]) (\<lambda>_. 0)) =
     Inr (2, (start_state (frame_at [0x97, 2]) (\<lambda>_. 0))\<lparr>line := ''151 ''\<rparr>)"
proof -
  have reg: "region (start_state (frame_at [0x97, v]) (\<lambda>_. 0)) 0 (hdr_bytes (Byte_Hdr 0x97 v))" for v
    by (simp add: region_def start_state_def frame_at_def nth_Cons split: nat.split)
  have "fmt_d (uint (0x97 :: byte)) = ''151''" by code_simp
  with obex_byte_value_not_shown [OF reg [of 1], of False]
    obex_byte_value_not_shown [OF reg [of 2], of False] show ?thesis
    by (simp add: start_state_def)
qed

end
