(* ===== verification/Irlmp.thy ===== *)
theory Irlmp
  imports Obex
begin

text \<open>
  The link management parser, \<^verbatim>\<open>irda-utils/irdadump/irlmp.c\<close>: queries and answers of the information
  access service, which teach the program what a service access point carries, the TinyTP headers,
  and the connect, data and disconnect frames that fill and use the connection table.
\<close>

section \<open>Information access\<close>

definition parse_iriap_command :: "unit dprog" where
  "parse_iriap_command =
     bnd (rd 0) (\<lambda>b0.
     let opcode = b0 AND 0x7f
     in if opcode = 0x01 \<or> opcode = 0x04 then
          bnd (rd 1) (\<lambda>name_len.
          bnd (memcpy_local ''name'' 255 2 (unat name_len)) (\<lambda>name.
          bnd (store_local ''name'' name (unat name_len) 0) (\<lambda>name1.
          bnd (rd (2 + unat name_len)) (\<lambda>attr_len.
          bnd (memcpy_local ''attr'' 255 (3 + unat name_len) (unat attr_len)) (\<lambda>attr.
          bnd (store_local ''attr'' attr (unat attr_len) 0) (\<lambda>attr1.
          bnd (c_string ''name'' name1) (\<lambda>name_s.
          bnd (c_string ''attr'' attr1) (\<lambda>attr_s.
          seq (say (''GET_VALUE_BY_CLASS: '' @ quoted name_s @ quoted attr_s))
          (modify (\<lambda>s. s\<lparr>last_ias :=
             \<lparr>ia_lsap_sel = 0xff,
              ia_ttp = strstr attr_s ''TinyTP'',
              ia_obex = strstr name_s ''OBEX'',
              ia_ircomm = strstr name_s ''IrCOMM'' \<or> strstr name_s ''IrLPT'',
              ia_irnet = strstr name_s ''IrNet''\<rparr>\<rparr>))))))))))
        else skip)"

definition parse_irias_value :: "unit dprog" where
  "parse_irias_value =
     bnd (rd16 0) (\<lambda>len.
     bnd (rd16 2) (\<lambda>obj_id.
     bnd (rd 4) (\<lambda>type.
     if type = 1 then
       bnd (rd32 5) (\<lambda>tmp_cpu32.
       seq (say (''Integer: '' @ fmt_02x (uint tmp_cpu32) @ '' ''))
       (modify (\<lambda>s. s\<lparr>last_ias := (last_ias s)\<lparr>ia_lsap_sel := ucast tmp_cpu32\<rparr>\<rparr>)))
     else if type = 3 then
       bnd (rd 5) (\<lambda>charset.
       bnd (rd 6) (\<lambda>value_len.
       bnd (memcpy_local ''string'' 255 7 (unat value_len)) (\<lambda>string.
       bnd (store_local ''string'' string (unat value_len) 0) (\<lambda>string1.
       bnd (c_string ''string'' string1) (\<lambda>t.
       say (''String: '' @ t @ '' ''))))))
     else if type = 2 then
       bnd (rd16 5) (\<lambda>tmp_cpu16.
       seq (pull 7)
       (bnd (gets last_ias) (\<lambda>ias.
       if ia_ircomm ias
       then seq (say (nl_tab @ ''IrCOMM Parameters '')) (parse_ircomm_params (ucast tmp_cpu16))
       else say ''N/A '')))
     else say_console ''parse_irias_value() Unknown IAS value type! '')))"

definition parse_iriap_response :: "unit dprog" where
  "parse_iriap_response =
     bnd (rd 0) (\<lambda>b0.
     bnd (rd 1) (\<lambda>rsp.
     let opcode = b0 AND 0x7f
     in seq (pull 2)
        (seq (if opcode = 0x01
              then say_console (''parse_iriap_response() Sorry, GET_INFO_BASE not implemented!'' @ [CHR 0x0A])
              else if opcode = 0x04 then say ''GET_VALUE_BY_CLASS: ''
              else say_console (''parse_iriap_response() Sorry, not implemented!'' @ [CHR 0x0A]))
        (if rsp = 0x00 then seq (say ''Success '') parse_irias_value
         else if rsp = 0x01 then say ''No such class ''
         else if rsp = 0x02 then say ''No such attribute ''
         else say ''Unknown response code ''))))"

section \<open>TinyTP and IrNET\<close>

definition parse_irnet :: "unit dprog" where
  "parse_irnet = say ''IrNET ''"

definition parse_irttp :: "unit dprog" where
  "parse_irttp =
     bnd (rd 0) (\<lambda>b0.
     seq (say (''TTP credits='' @ fmt_d (uint (b0 AND 0x7f)) @ '' ''))
     (seq (whenc (b0 AND 0x80 \<noteq> 0) (say ''More ''))
     (seq (pull 1)
     skip)))"

definition parse_irttp_connect :: "unit dprog" where
  "parse_irttp_connect =
     bnd (rd 0) (\<lambda>b0.
     seq (say (''TTP credits='' @ fmt_d (uint (b0 AND 0x7f)) @ '' ''))
     (seq (whenc (b0 AND 0x80 \<noteq> 0)
            (bnd (rd 1) (\<lambda>plen. bnd (rd 2) (\<lambda>pi. bnd (rd 3) (\<lambda>pl.
             bnd (rd16 4) (\<lambda>tmp_cpu.
             seq (pull (unat plen))
             (say (''MaxSduSize='' @ fmt_d (uint tmp_cpu) @ '' ''))))))))
     (seq (pull 1)
     skip)))"

section \<open>Frames\<close>

text \<open>The lookup seen from the sender: \<open>type\<close> says the frame was sent by this host.\<close>

definition find_for :: "bool \<Rightarrow> byte \<Rightarrow> byte \<Rightarrow> int dprog" where
  "find_for type slsap_sel dlsap_sel =
     (if type then find_connection slsap_sel dlsap_sel else find_connection dlsap_sel slsap_sel)"

text \<open>What follows the connect header on a connection of known kind.\<close>

definition connect_payload :: "lsap_state \<Rightarrow> unit dprog" where
  "connect_payload c =
     seq (whenc (cn_ttp c) parse_irttp_connect)
     (seq (whenc (cn_ircomm c) parse_ircomm_connect)
     (whenc (cn_irnet c) parse_irnet))"

definition irlmp_connect_cmd :: "byte \<Rightarrow> byte \<Rightarrow> byte \<Rightarrow> bool \<Rightarrow> unit dprog" where
  "irlmp_connect_cmd slsap_sel dlsap_sel caddr type =
     seq (say ''CONN_CMD '')
     (bnd (gets last_ias) (\<lambda>ias.
     if dlsap_sel = ia_lsap_sel ias then
       bnd find_free_connection (\<lambda>i.
       if i = -1 then say_console (''No more space for connection!'' @ [CHR 0x0A])
       else
         seq (conn_set (nat i) (\<lambda>c. c\<lparr>
           cn_valid := True, cn_caddr := caddr,
           cn_slsap_sel := (if type then slsap_sel else dlsap_sel),
           cn_dlsap_sel := (if type then dlsap_sel else slsap_sel),
           cn_ttp := ia_ttp ias, cn_obex := ia_obex ias, cn_ircomm := ia_ircomm ias,
           cn_irnet := ia_irnet ias\<rparr>))
         (bnd (conn_at (nat i)) connect_payload))
     else
       bnd (gets (\<lambda>s. config_force_ttp (config s))) (\<lambda>force.
       whenc (force \<and> dlsap_sel \<noteq> 0x00) parse_irttp_connect)))"

definition irlmp_connect_rsp :: "byte \<Rightarrow> byte \<Rightarrow> bool \<Rightarrow> unit dprog" where
  "irlmp_connect_rsp slsap_sel dlsap_sel type =
     seq (say ''CONN_RSP '')
     (bnd (find_for type slsap_sel dlsap_sel) (\<lambda>i.
     if i \<noteq> -1 then bnd (conn_at (nat i)) connect_payload
     else
       bnd (gets (\<lambda>s. config_force_ttp (config s))) (\<lambda>force.
       whenc (force \<and> slsap_sel \<noteq> 0x00) parse_irttp_connect)))"

definition irlmp_disconnect :: "byte \<Rightarrow> byte \<Rightarrow> bool \<Rightarrow> unit dprog" where
  "irlmp_disconnect slsap_sel dlsap_sel type =
     seq (say ''DISC '')
     (bnd (find_for type slsap_sel dlsap_sel) (\<lambda>i.
     whenc (i \<noteq> -1) (conn_set (nat i) (\<lambda>c. c\<lparr>cn_valid := False\<rparr>))))"

text \<open>What a data frame carries on a connection of known kind.\<close>

definition data_payload :: "bool \<Rightarrow> lsap_state \<Rightarrow> unit dprog" where
  "data_payload cmd c =
     seq (whenc (cn_valid c \<and> cn_ttp c) parse_irttp)
     (seq (whenc (cn_valid c \<and> cn_obex c) (parse_obex cmd))
     (seq (whenc (cn_valid c \<and> cn_ircomm c)
             (if cn_ttp c then parse_ircomm_ttp else parse_ircomm_lmp))
     (whenc (cn_valid c \<and> cn_irnet c) parse_irnet)))"

definition irlmp_data :: "byte \<Rightarrow> byte \<Rightarrow> bool \<Rightarrow> bool \<Rightarrow> unit dprog" where
  "irlmp_data slsap_sel dlsap_sel type cmd =
     seq (if dlsap_sel = 0x00 then parse_iriap_command
          else if slsap_sel = 0x00 then parse_iriap_response
          else skip)
     (bnd (find_for type slsap_sel dlsap_sel) (\<lambda>i.
     seq (whenc (i \<noteq> -1) (bnd (conn_at (nat i)) (data_payload cmd)))
     (bnd (gets (\<lambda>s. config_force_ttp (config s))) (\<lambda>force.
     whenc (dlsap_sel \<noteq> 0x00 \<and> slsap_sel \<noteq> 0x00 \<and> i = -1 \<and> force) parse_irttp))))"

definition parse_irlmp :: "byte \<Rightarrow> bool \<Rightarrow> bool \<Rightarrow> unit dprog" where
  "parse_irlmp caddr type cmd =
     bnd (rd 0) (\<lambda>b0.
     bnd (rd 1) (\<lambda>slsap_sel.
     let dlsap_sel = b0 AND 0x7f
     in seq (pull 2)
        (seq (say (''LM slsap='' @ fmt_02x (uint slsap_sel) @ '' dlsap='' @
                   fmt_02x (uint dlsap_sel) @ '' ''))
        (if b0 AND 0x80 \<noteq> 0 then
           bnd (rd 0) (\<lambda>ctrl.
           bnd (rd 1) (\<lambda>rsvd.
           seq (pull 2)
           (if ctrl = 0x01 then irlmp_connect_cmd slsap_sel dlsap_sel caddr type
            else if ctrl = 0x81 then irlmp_connect_rsp slsap_sel dlsap_sel type
            else if ctrl = 0x02 then irlmp_disconnect slsap_sel dlsap_sel type
            else skip)))
         else irlmp_data slsap_sel dlsap_sel type cmd))))"

definition parse_ui_irlmp :: "unit dprog" where
  "parse_ui_irlmp =
     bnd (rd 0) (\<lambda>b0.
     bnd (rd 1) (\<lambda>slsap_sel.
     let dlsap_sel = b0 AND 0x7f
     in seq (pull 2)
        (seq (say (''LM slsap='' @ fmt_02x (uint slsap_sel) @ '' dlsap='' @
                   fmt_02x (uint dlsap_sel) @ '' ''))
        (whenc (slsap_sel = 0x70 \<and> dlsap_sel = 0x70)
          (bnd (rd 0) (\<lambda>b.
           let upid = b AND 0x7f
           in seq (pull 1)
              (seq (say ('' Ultra-PID='' @ fmt_02x (uint upid) @ '' ''))
              (whenc (upid = 0x01)
                (seq (pull 1)
                (parse_obex True)))))))))) "

section \<open>Frame conditions, containment, invariants\<close>

lemmas irlmp_leaf_defs = parse_irnet_def parse_irttp_def parse_irttp_connect_def

lemma keeps_irttp [keeps_intro]:
  assumes "\<And>s l. g (s\<lparr>line := l\<rparr>) = g s" "\<And>n. keeps g (pull n)"
  shows "keeps g parse_irnet" "keeps g parse_irttp" "keeps g parse_irttp_connect"
  unfolding irlmp_leaf_defs by (intro keeps_intro assms)+

lemma keeps_connect_payload [keeps_intro]:
  assumes "\<And>s l. g (s\<lparr>line := l\<rparr>) = g s" "\<And>n. keeps g (pull n)"
  shows "keeps g (connect_payload c)"
  unfolding connect_payload_def by (intro keeps_intro assms)

lemma keeps_data_payload [keeps_intro]:
  assumes "\<And>s l. g (s\<lparr>line := l\<rparr>) = g s" "\<And>s l. g (s\<lparr>console := l\<rparr>) = g s"
    "\<And>n. keeps g (pull n)" "\<And>s c. g (s\<lparr>last_command := c\<rparr>) = g s"
  shows "keeps g (data_payload cmd c)"
  unfolding data_payload_def by (intro keeps_intro assms)

lemma keeps_iriap [keeps_intro]:
  assumes "\<And>s l. g (s\<lparr>line := l\<rparr>) = g s" "\<And>s l. g (s\<lparr>console := l\<rparr>) = g s"
    "\<And>n. keeps g (pull n)" "\<And>s q. g (s\<lparr>last_ias := q\<rparr>) = g s"
  shows "keeps g parse_iriap_command" "keeps g parse_iriap_response"
proof -
  show "keeps g parse_iriap_command"
    unfolding parse_iriap_command_def Let_def by (intro keeps_intro keeps_modify assms)
  have "keeps g parse_irias_value"
    unfolding parse_irias_value_def by (intro keeps_intro keeps_modify assms)
  then show "keeps g parse_iriap_response"
    unfolding parse_iriap_response_def Let_def by (intro keeps_intro assms)
qed

lemma keeps_find_for [keeps_intro]:
  assumes "\<And>s i. g (s\<lparr>conn_cache := i\<rparr>) = g s"
  shows "keeps g (find_for type a b)"
  unfolding find_for_def find_connection_def by (intro keeps_intro keeps_modify assms)

lemma contained_irttp [contained_intro]:
  "contained parse_irnet" "contained parse_irttp" "contained parse_irttp_connect"
  by (simp_all add: irlmp_leaf_defs contained_intro)

lemma contained_iriap [contained_intro]:
  "contained parse_iriap_command" "contained parse_iriap_response"
proof -
  have b: "unat (x :: byte) \<le> 511" "unat x \<le> 256" "unat x \<le> 255" for x
    using unat_byte_less [of x] by linarith+
  show "contained parse_iriap_command"
    unfolding parse_iriap_command_def Let_def
    by (intro contained_intro contained_modify) (simp_all add: b)
  have "contained parse_irias_value"
    unfolding parse_irias_value_def by (intro contained_intro contained_modify) simp_all
  then show "contained parse_iriap_response"
    unfolding parse_iriap_response_def Let_def by (intro contained_intro) simp_all
qed

lemma contained_connect_payload [contained_intro]: "contained (connect_payload c)"
  unfolding connect_payload_def by (intro contained_intro)

lemma contained_data_payload [contained_intro]: "contained (data_payload cmd c)"
  unfolding data_payload_def by (intro contained_intro)

lemma contained_parse_irlmp [contained_intro]: "contained (parse_irlmp caddr type cmd)"
proof -
  have "contained (irlmp_connect_cmd a b caddr type)" "contained (irlmp_connect_rsp a b type)"
    "contained (irlmp_disconnect a b type)" "contained (irlmp_data a b type cmd)" for a b
    unfolding irlmp_connect_cmd_def irlmp_connect_rsp_def irlmp_disconnect_def irlmp_data_def
      find_for_def
    by (intro contained_intro)+
  then show ?thesis
    unfolding parse_irlmp_def Let_def by (intro contained_intro) simp_all
qed

lemma contained_parse_ui_irlmp [contained_intro]: "contained parse_ui_irlmp"
  unfolding parse_ui_irlmp_def Let_def by (intro contained_intro) simp_all

lemma clean_connect_payload [clean_intro]: "clean (connect_payload c)"
  unfolding connect_payload_def irlmp_leaf_defs by (intro clean_intro)

lemma preserves_parse_irlmp [preserves_intro]: "preserves conn_wf (parse_irlmp caddr type cmd)"
proof -
  have pay: "preserves conn_wf (connect_payload c)" "preserves conn_wf (data_payload cmd c)"
    "preserves conn_wf parse_irttp_connect" "preserves conn_wf parse_irttp"
    "preserves conn_wf parse_iriap_command" "preserves conn_wf parse_iriap_response"
    "preserves conn_wf (say t)" "preserves conn_wf (say_console t)" "preserves conn_wf (pull n)"
    "preserves conn_wf (rd i)" for c t n i
    by (intro keeps_conn_wf keeps_intro; simp)+
  have "preserves conn_wf (irlmp_connect_cmd a b caddr type)"
    "preserves conn_wf (irlmp_connect_rsp a b type)"
    "preserves conn_wf (irlmp_disconnect a b type)" "preserves conn_wf (irlmp_data a b type cmd)"
    for a b
    unfolding irlmp_connect_cmd_def irlmp_connect_rsp_def irlmp_disconnect_def irlmp_data_def
      find_for_def
    by (intro preserves_intro pay)+
  then show ?thesis
    unfolding parse_irlmp_def Let_def by (intro preserves_intro pay) simp_all
qed

section \<open>Opening a frame\<close>

lemma wp_clean:
  assumes "clean m" "contained m" "frame_ok s"
    and "\<And>x s'. m s = Inr (x, s') \<Longrightarrow> frame_ok s' \<Longrightarrow> Q x s'"
  shows "wp m Q s"
  using clean_returns [OF assms(1-3)] assms(4) by (auto intro: wpI)

definition lm_text :: "byte \<Rightarrow> byte \<Rightarrow> string" where
  "lm_text slsap_sel dlsap_sel =
     ''LM slsap='' @ fmt_02x (uint slsap_sel) @ '' dlsap='' @ fmt_02x (uint dlsap_sel) @ '' ''"

text \<open>
  The two bytes of the multiplexer header, and the two more of a control frame, are read and taken
  off; what runs next sees the rest of the message.
\<close>

lemma open_data_frame:
  assumes "netbuf_wf (buf s)" "payload (buf s) = d # sl # rest" "d AND 0x80 = 0"
  shows "\<exists>b. netbuf_wf b \<and> payload b = rest \<and> parse_irlmp caddr type cmd s =
    irlmp_data sl (d AND 0x7f) type cmd (s\<lparr>buf := b, line := line s @ lm_text sl (d AND 0x7f)\<rparr>)"
proof -
  have "region s 0 ([d, sl] @ rest)" using region_payload [of s "d # sl # rest" "[]"] assms by simp
  then have r: "rd 0 s = Inr (d, s)" "rd 1 s = Inr (sl, s)"
    by (simp_all add: region_Cons rd_def Let_def)
  obtain p b where b: "pull 2 s = Inr (Some p, s\<lparr>buf := b\<rparr>)" "netbuf_wf b" "payload b = rest"
    using pull_payload [of s "[d, sl]" rest] assms(1,2) by (auto simp: numeral_2_eq_2)
  with r assms(3) show ?thesis
    by (auto simp: parse_irlmp_def bnd_def seq_def say_def modify_def Let_def lm_text_def
        intro!: exI [of _ b])
qed

lemma open_control_frame:
  assumes "netbuf_wf (buf s)" "payload (buf s) = d # sl # ctrl # rsvd # rest" "d AND 0x80 \<noteq> 0"
  shows "\<exists>b. netbuf_wf b \<and> payload b = rest \<and> nb_truesize b = nb_truesize (buf s) \<and>
    nb_tail b = nb_tail (buf s) \<and> parse_irlmp caddr type cmd s =
    (if ctrl = 0x01 then irlmp_connect_cmd sl (d AND 0x7f) caddr type
     else if ctrl = 0x81 then irlmp_connect_rsp sl (d AND 0x7f) type
     else if ctrl = 0x02 then irlmp_disconnect sl (d AND 0x7f) type else skip)
    (s\<lparr>line := line s @ lm_text sl (d AND 0x7f), buf := b\<rparr>)"
proof -
  have "region s 0 (d # sl # ctrl # rsvd # rest)"
    using region_payload [of s "d # sl # ctrl # rsvd # rest" "[]"] assms by simp
  then have r: "rd 0 s = Inr (d, s)" "rd 1 s = Inr (sl, s)"
    by (simp_all add: region_Cons rd_def Let_def)
  obtain p b where b: "pull 2 s = Inr (Some p, s\<lparr>buf := b\<rparr>)" "netbuf_wf b"
    "payload b = ctrl # rsvd # rest" "nb_truesize b = nb_truesize (buf s)"
    "nb_tail b = nb_tail (buf s)"
    using pull_payload [of s "[d, sl]" "ctrl # rsvd # rest"] assms(1,2) by (auto simp: numeral_2_eq_2)
  let ?s1 = "s\<lparr>buf := b, line := line s @ lm_text sl (d AND 0x7f)\<rparr>"
  have "region ?s1 0 (ctrl # rsvd # rest)"
    using region_payload [of ?s1 "ctrl # rsvd # rest" "[]"] b by simp
  then have r1: "rd 0 ?s1 = Inr (ctrl, ?s1)" "rd 1 ?s1 = Inr (rsvd, ?s1)"
    by (simp_all add: region_Cons rd_def Let_def)
  obtain p1 b1 where b1: "pull 2 ?s1 = Inr (Some p1, ?s1\<lparr>buf := b1\<rparr>)" "netbuf_wf b1"
    "payload b1 = rest" "nb_truesize b1 = nb_truesize b" "nb_tail b1 = nb_tail b"
    using pull_payload [of ?s1 "[ctrl, rsvd]" rest] b by (auto simp: numeral_2_eq_2)
  from r r1 b b1 assms(3) show ?thesis
    by (intro exI [of _ b1])
      (simp add: parse_irlmp_def bnd_def seq_def say_def modify_def Let_def lm_text_def)
qed

section \<open>Connecting\<close>

definition new_entry :: "ias_query \<Rightarrow> byte \<Rightarrow> byte \<Rightarrow> byte \<Rightarrow> bool \<Rightarrow> lsap_state \<Rightarrow> lsap_state" where
  "new_entry ias slsap_sel dlsap_sel caddr type c = c\<lparr>
     cn_valid := True, cn_caddr := caddr,
     cn_slsap_sel := (if type then slsap_sel else dlsap_sel),
     cn_dlsap_sel := (if type then dlsap_sel else slsap_sel),
     cn_ttp := ia_ttp ias, cn_obex := ia_obex ias, cn_ircomm := ia_ircomm ias,
     cn_irnet := ia_irnet ias\<rparr>"

lemma connect_registers_wp:
  assumes ok: "frame_ok s" and wf: "conn_wf s" and d: "dlsap_sel = ia_lsap_sel (last_ias s)"
  shows "wp (irlmp_connect_cmd slsap_sel dlsap_sel caddr type) (\<lambda>_ s'. conn_wf s' \<and>
    (if \<forall>c \<in> set (conn s). cn_valid c then conn s' = conn s
     else \<exists>i < length (conn s). \<not> cn_valid (conn s ! i) \<and> (\<forall>j < i. cn_valid (conn s ! j)) \<and>
       conn s' = (conn s)[i := new_entry (last_ias s) slsap_sel dlsap_sel caddr type (conn s ! i)])) s"
proof -
  define Q where "Q s' \<longleftrightarrow> conn_wf s' \<and>
    (if \<forall>c \<in> set (conn s). cn_valid c then conn s' = conn s
     else \<exists>i < length (conn s). \<not> cn_valid (conn s ! i) \<and> (\<forall>j < i. cn_valid (conn s ! j)) \<and>
       conn s' = (conn s)[i := new_entry (last_ias s) slsap_sel dlsap_sel caddr type (conn s ! i)])"
    for s'
  let ?s1 = "s\<lparr>line := line s @ ''CONN_CMD ''\<rparr>"
  have wf1: "conn_wf ?s1" using wf by (simp add: conn_wf_def)
  have pay: "wp (connect_payload c) (\<lambda>_. Q) s2" if "frame_ok s2" "conn_wf s2" "Q s2" for c s2
  proof (rule wp_clean [OF clean_connect_payload contained_connect_payload that(1)])
    fix x s3 assume run: "connect_payload c s2 = Inr (x, s3)"
    have k: "keeps conn (connect_payload c)" "keeps conn_cache (connect_payload c)"
      by (intro keeps_intro; simp)+
    show "Q s3"
      using keepsD [OF k(1) run] keepsD [OF k(2) run] that(2,3) by (simp add: Q_def conn_wf_def)
  qed
  have "wp find_free_connection (\<lambda>i. wp (if i = -1
      then say_console (''No more space for connection!'' @ [CHR 0x0A])
      else seq (conn_set (nat i) (new_entry (last_ias s) slsap_sel dlsap_sel caddr type))
        (bnd (conn_at (nat i)) connect_payload)) (\<lambda>_. Q)) ?s1"
  proof (rule wp_mono [OF ct.find_free [OF wf1]])
    fix i s2
    assume i: "s2 = ?s1 \<and> (if i = -1 then \<forall>c \<in> set (conn ?s1). cn_valid c
      else 0 \<le> i \<and> nat i < length (conn ?s1) \<and> \<not> cn_valid (conn ?s1 ! nat i) \<and>
        (\<forall>j < nat i. cn_valid (conn ?s1 ! j)))"
    show "wp (if i = -1 then say_console (''No more space for connection!'' @ [CHR 0x0A])
      else seq (conn_set (nat i) (new_entry (last_ias s) slsap_sel dlsap_sel caddr type))
        (bnd (conn_at (nat i)) connect_payload)) (\<lambda>_. Q) s2"
    proof (cases "i = -1")
      case True
      with i wf show ?thesis by (simp add: wp_simps Q_def conn_wf_def)
    next
      case False
      let ?e = "new_entry (last_ias s) slsap_sel dlsap_sel caddr type"
      let ?s3 = "?s1\<lparr>conn := (conn s)[nat i := ?e (conn s ! nat i)]\<rparr>"
      have lt: "nat i < length (conn s)" "\<not> cn_valid (conn s ! nat i)"
        "\<forall>j < nat i. cn_valid (conn s ! j)" using i False by auto
      then have "\<not> (\<forall>c \<in> set (conn s). cn_valid c)" by (auto simp: all_set_conv_all_nth)
      moreover have "conn_wf ?s3" using wf by (simp add: conn_wf_def)
      moreover have "frame_ok ?s3" using ok by (simp add: frame_ok_def)
      ultimately have "wp (connect_payload c) (\<lambda>_. Q) ?s3" for c
        using lt by (intro pay) (auto simp: Q_def)
      with lt i False show ?thesis by (simp add: wp_simps)
    qed
  qed
  then have "wp (irlmp_connect_cmd slsap_sel dlsap_sel caddr type) (\<lambda>_. Q) s"
    using d by (simp add: irlmp_connect_cmd_def wp_simps new_entry_def [abs_def] cong: if_cong)
  then show ?thesis by (simp add: Q_def [abs_def])
qed

section \<open>Learning what a service access point carries\<close>

definition ias_query_frame :: "byte \<Rightarrow> byte list \<Rightarrow> byte list \<Rightarrow> byte list" where
  "ias_query_frame slsap_sel name attr =
     [0x00, slsap_sel, 0x84, of_nat (length name)] @ name @ [of_nat (length attr)] @ attr"

definition ias_integer_frame :: "byte \<Rightarrow> u16 \<Rightarrow> u32 \<Rightarrow> byte list" where
  "ias_integer_frame dlsap_sel obj_id val =
     [dlsap_sel, 0x00, 0x84, 0x00] @ be16_bytes 1 @ be16_bytes obj_id @ [0x01] @ be32_bytes val"

definition connect_frame :: "byte \<Rightarrow> byte \<Rightarrow> byte list \<Rightarrow> byte list" where
  "connect_frame slsap_sel dlsap_sel rest = [dlsap_sel OR 0x80, slsap_sel, 0x01, 0x00] @ rest"

definition asked :: "byte list \<Rightarrow> byte list \<Rightarrow> ias_query" where
  "asked name attr = (let n = map chr (takeWhile (\<lambda>b. b \<noteq> 0) name);
       a = map chr (takeWhile (\<lambda>b. b \<noteq> 0) attr)
     in \<lparr>ia_lsap_sel = 0xff, ia_ttp = strstr a ''TinyTP'', ia_obex = strstr n ''OBEX'',
         ia_ircomm = strstr n ''IrCOMM'' \<or> strstr n ''IrLPT'', ia_irnet = strstr n ''IrNet''\<rparr>)"

text \<open>Copying a counted string to a local array and terminating it there.\<close>

lemma local_string:
  assumes "region s off (bs @ rest)" "length bs < 255"
  shows "\<exists>arr arr1. memcpy_local name 255 off (length bs) s = Inr (arr, s) \<and>
    store_local name arr (length bs) 0 s = Inr (arr1, s) \<and>
    c_string name arr1 s = Inr (map chr (takeWhile (\<lambda>b. b \<noteq> 0) bs), s)"
proof -
  let ?arr = "bs @ map (stack s) [length bs..<255]"
  have "memcpy_local name 255 off (length bs) s = Inr (?arr, s)"
    using memcpy_region [OF assms(1)] assms(2) by simp
  moreover have "?arr[length bs := 0] = bs @ 0 # map (stack s) [Suc (length bs)..<255]"
    using assms(2) by (simp add: list_update_append upt_rec [of "length bs"])
  ultimately show ?thesis
    using assms(2) by (auto simp: store_local_def c_string_def ret_def takeWhile_zero)
qed

lemma iriap_command_learns:
  assumes "netbuf_wf (buf s)"
    and "payload (buf s) = [0x84, of_nat (length name)] @ name @ [of_nat (length attr)] @ attr"
    and "length name < 255" "length attr < 255"
  shows "\<exists>l. parse_iriap_command s = Inr ((), s\<lparr>line := l, last_ias := asked name attr\<rparr>)"
proof -
  let ?n = "length name"
  have un: "unat (of_nat ?n :: byte) = ?n" "unat (of_nat (length attr) :: byte) = length attr"
    using assms(3,4) by (simp_all add: unat_of_nat)
  have reg: "region s 0 ([0x84, of_nat ?n] @ name @ [of_nat (length attr)] @ attr)"
    using region_payload [of s _ "[]"] assms(1,2) by simp
  then have r: "rd 0 s = Inr (0x84, s)" "rd 1 s = Inr (of_nat ?n, s)"
    "rd (2 + ?n) s = Inr (of_nat (length attr), s)"
    by (simp_all add: region_append region_Cons rd_def Let_def numeral_2_eq_2)
  have rn: "region s 2 (name @ [])" and ra: "region s (3 + ?n) (attr @ [])"
    using reg by (simp_all add: region_append region_Cons numeral_2_eq_2 numeral_3_eq_3)
  obtain n0 n1 a0 a1 where
    "memcpy_local ''name'' 255 2 ?n s = Inr (n0, s)" "store_local ''name'' n0 ?n 0 s = Inr (n1, s)"
    "c_string ''name'' n1 s = Inr (map chr (takeWhile (\<lambda>b. b \<noteq> 0) name), s)"
    "memcpy_local ''attr'' 255 (3 + ?n) (length attr) s = Inr (a0, s)"
    "store_local ''attr'' a0 (length attr) 0 s = Inr (a1, s)"
    "c_string ''attr'' a1 s = Inr (map chr (takeWhile (\<lambda>b. b \<noteq> 0) attr), s)"
    using local_string [OF rn assms(3)] local_string [OF ra assms(4)] by metis
  with r un show ?thesis
    by (auto simp: parse_iriap_command_def bnd_def Let_def seq_def say_def modify_def asked_def)
qed

lemma iriap_integer_learns:
  assumes "netbuf_wf (buf s)"
    and "payload (buf s) = [0x84, 0x00] @ be16_bytes 1 @ be16_bytes obj_id @ [0x01] @ be32_bytes val"
  shows "\<exists>l b. parse_iriap_response s =
    Inr ((), s\<lparr>buf := b, line := l, last_ias := (last_ias s)\<lparr>ia_lsap_sel := ucast val\<rparr>\<rparr>)"
proof -
  have "region s 0 ([0x84, 0x00] @ be16_bytes 1 @ be16_bytes obj_id @ [0x01] @ be32_bytes val)"
    using region_payload [of s _ "[]"] assms by simp
  then have r: "rd 0 s = Inr (0x84, s)" "rd 1 s = Inr (0, s)"
    by (simp_all add: region_Cons rd_def Let_def)
  let ?rest = "be16_bytes 1 @ be16_bytes obj_id @ [0x01] @ be32_bytes val"
  obtain p b where b: "pull 2 s = Inr (Some p, s\<lparr>buf := b\<rparr>)" "netbuf_wf b" "payload b = ?rest"
    using pull_payload [of s "[0x84, 0x00]" ?rest] assms by (auto simp: numeral_2_eq_2)
  let ?s1 = "s\<lparr>buf := b, line := line s @ ''GET_VALUE_BY_CLASS: Success ''\<rparr>"
  have reg: "region ?s1 0 ?rest" using region_payload [of ?s1 ?rest "[]"] b by simp
  then have "rd16 0 ?s1 = Inr (1, ?s1)" by (rule rd16_region)
  moreover have "rd16 2 ?s1 = Inr (obj_id, ?s1)"
    by (rule rd16_region [of _ _ _ "[0x01] @ be32_bytes val"])
      (use reg in \<open>simp add: region_append region_Cons be16_bytes_def numeral_2_eq_2\<close>)
  moreover have "rd 4 ?s1 = Inr (1, ?s1)"
    by (rule rd_region [of _ _ _ "be32_bytes val"])
      (use reg in \<open>simp add: region_append region_Cons be16_bytes_def eval_nat_numeral\<close>)
  moreover have "rd32 5 ?s1 = Inr (val, ?s1)"
    by (rule rd32_region [of _ _ _ "[]"])
      (use reg in \<open>simp add: region_append region_Cons be16_bytes_def eval_nat_numeral\<close>)
  ultimately have "\<exists>l. parse_irias_value ?s1 =
      Inr ((), ?s1\<lparr>line := l, last_ias := (last_ias s)\<lparr>ia_lsap_sel := ucast val\<rparr>\<rparr>)"
    by (auto simp: parse_irias_value_def bnd_def seq_def say_def modify_def)
  with r b show ?thesis
    by (auto simp: parse_iriap_response_def bnd_def seq_def say_def modify_def Let_def)
qed

text \<open>No connection is known between a client's access point and the information service.\<close>

definition no_ias_entry :: "byte \<Rightarrow> dump \<Rightarrow> bool" where
  "no_ias_entry sel s \<longleftrightarrow> (\<forall>c \<in> set (conn s). \<not> conn_match sel 0 c \<and> \<not> conn_match 0 sel c)"

lemma find_for_none:
  assumes "conn_wf s" "\<forall>c \<in> set (conn s). \<not> conn_match a b c \<and> \<not> conn_match b a c"
  shows "\<exists>s'. find_for type a b s = Inr (-1, s') \<and> conn_wf s' \<and> conn s' = conn s \<and>
    last_ias s' = last_ias s"
proof -
  have "\<exists>i s'. find_for type a b s = Inr (i, s') \<and> i = -1 \<and> conn_wf s' \<and> conn s' = conn s"
    using wpD [OF wp_find_connection [OF assms(1), of a b]] wpD [OF wp_find_connection [OF assms(1), of b a]]
      assms(2) by (auto simp: find_for_def split: if_splits)
  then obtain s' where run: "find_for type a b s = Inr (-1, s')" "conn_wf s'" "conn s' = conn s"
    by blast
  have "keeps last_ias (find_for type a b)" by (intro keeps_intro) simp
  with run show ?thesis by (auto dest: keepsD)
qed

lemma ias_data_ends:
  assumes "conn_wf s" "no_ias_entry sel s" "a = 0 \<and> b = sel \<or> a = sel \<and> b = 0"
  shows "wp (bnd (find_for type a b) (\<lambda>i.
      seq (whenc (i \<noteq> -1) (bnd (conn_at (nat i)) (data_payload cmd)))
      (bnd (gets (\<lambda>s. config_force_ttp (config s))) (\<lambda>force.
       whenc (b \<noteq> 0x00 \<and> a \<noteq> 0x00 \<and> i = -1 \<and> force) parse_irttp))))
    (\<lambda>_ s'. conn_wf s' \<and> conn s' = conn s \<and> last_ias s' = last_ias s) s"
proof -
  obtain s' where "find_for type a b s = Inr (-1, s')" "conn_wf s'" "conn s' = conn s"
    "last_ias s' = last_ias s"
    using find_for_none [OF assms(1), of a b type] assms(2,3) by (auto simp: no_ias_entry_def)
  with assms(3) show ?thesis
    by (auto simp: wp_bnd intro!: wpI [of "find_for type a b"] simp: wp_simps)
qed

lemma query_frame_learns:
  assumes "netbuf_wf (buf s)" "payload (buf s) = ias_query_frame sel name attr"
    and "length name < 255" "length attr < 255" "conn_wf s" "no_ias_entry sel s"
  shows "wp (parse_irlmp caddr type cmd) (\<lambda>_ s'. conn_wf s' \<and> conn s' = conn s \<and>
    last_ias s' = asked name attr) s"
proof -
  let ?rest = "[0x84, of_nat (length name)] @ name @ [of_nat (length attr)] @ attr"
  obtain b where b: "netbuf_wf b" "payload b = ?rest" "parse_irlmp caddr type cmd s =
      irlmp_data sel 0 type cmd (s\<lparr>buf := b, line := line s @ lm_text sel 0\<rparr>)"
    using open_data_frame [of s 0 sel ?rest caddr type cmd] assms(1,2)
    by (auto simp: ias_query_frame_def)
  let ?s1 = "s\<lparr>buf := b, line := line s @ lm_text sel 0\<rparr>"
  obtain l where l: "parse_iriap_command ?s1 = Inr ((), ?s1\<lparr>line := l, last_ias := asked name attr\<rparr>)"
    using iriap_command_learns [of ?s1 name attr] b(1,2) assms(3,4) by auto
  let ?s2 = "?s1\<lparr>line := l, last_ias := asked name attr\<rparr>"
  have "conn_wf ?s2" "no_ias_entry sel ?s2"
    using assms(5,6) by (simp_all add: conn_wf_def no_ias_entry_def)
  from ias_data_ends [OF this, of sel 0 type cmd]
  have "wp (irlmp_data sel 0 type cmd) (\<lambda>_ s'. conn_wf s' \<and> conn s' = conn s \<and>
      last_ias s' = asked name attr) ?s1"
    by (auto simp: irlmp_data_def wp_seq wp_def [of parse_iriap_command] l)
  then show ?thesis by (simp add: wp_def b(3))
qed

lemma answer_frame_learns:
  assumes "netbuf_wf (buf s)" "payload (buf s) = ias_integer_frame sel obj_id val"
    and "conn_wf s" "no_ias_entry sel s" "sel AND 0x80 = 0" "sel \<noteq> 0"
  shows "wp (parse_irlmp caddr type cmd) (\<lambda>_ s'. conn_wf s' \<and> conn s' = conn s \<and>
    last_ias s' = (last_ias s)\<lparr>ia_lsap_sel := ucast val\<rparr>) s"
proof -
  let ?rest = "[0x84, 0x00] @ be16_bytes 1 @ be16_bytes obj_id @ [0x01] @ be32_bytes val"
  have m: "sel AND 0x7f = sel"
  proof -
    have "b AND 0x80 \<noteq> 0 \<or> b AND 0x7f = b" for b :: byte
      by (rule all_bytes [where P = "\<lambda>b. b AND 0x80 \<noteq> 0 \<or> b AND 0x7f = b"]) code_simp
    with assms(5) show ?thesis by blast
  qed
  obtain b where b: "netbuf_wf b" "payload b = ?rest" "parse_irlmp caddr type cmd s =
      irlmp_data 0 sel type cmd (s\<lparr>buf := b, line := line s @ lm_text 0 sel\<rparr>)"
    using open_data_frame [of s sel 0 ?rest caddr type cmd] assms(1,2,5) m
    by (auto simp: ias_integer_frame_def)
  let ?s1 = "s\<lparr>buf := b, line := line s @ lm_text 0 sel\<rparr>"
  obtain l b2 where l: "parse_iriap_response ?s1 =
      Inr ((), ?s1\<lparr>buf := b2, line := l, last_ias := (last_ias s)\<lparr>ia_lsap_sel := ucast val\<rparr>\<rparr>)"
    using iriap_integer_learns [of ?s1 obj_id val] b(1,2) by auto
  let ?s2 = "?s1\<lparr>buf := b2, line := l, last_ias := (last_ias s)\<lparr>ia_lsap_sel := ucast val\<rparr>\<rparr>"
  have "conn_wf ?s2" "no_ias_entry sel ?s2"
    using assms(3,4) by (simp_all add: conn_wf_def no_ias_entry_def)
  from ias_data_ends [OF this, of 0 sel type cmd]
  have "wp (irlmp_data 0 sel type cmd) (\<lambda>_ s'. conn_wf s' \<and> conn s' = conn s \<and>
      last_ias s' = (last_ias s)\<lparr>ia_lsap_sel := ucast val\<rparr>) ?s1"
    using assms(6) by (auto simp: irlmp_data_def wp_seq wp_def [of parse_iriap_response] l)
  then show ?thesis by (simp add: wp_def b(3))
qed

section \<open>Properties\<close>

text \<open>A connect request to the access point named in the last information-access answer is entered in
  the first free slot of the connection table, with the connection address, the two selectors seen
  from this host and the service kind that was asked for; every other entry is unchanged. When all
  slots are in use nothing changes. The request is processed without a fault on any frame of at most
  1536 bytes.\<close>

theorem connect_request_registers:
  assumes "frame_ok s" "conn_wf s" "dlsap_sel = ia_lsap_sel (last_ias s)"
  shows "\<exists>s'. irlmp_connect_cmd slsap_sel dlsap_sel caddr type s = Inr ((), s') \<and> conn_wf s' \<and>
    (if \<forall>c \<in> set (conn s). cn_valid c then conn s' = conn s
     else \<exists>i < length (conn s). \<not> cn_valid (conn s ! i) \<and> (\<forall>j < i. cn_valid (conn s ! j)) \<and>
       conn s' = (conn s)[i := new_entry (last_ias s) slsap_sel dlsap_sel caddr type (conn s ! i)])"
  using wpD [OF connect_registers_wp [OF assms]] by auto

lemma start_wf: "conn_wf (start_state b junk)"
  by (simp add: conn_wf_def start_state_def MAX_CONNECTIONS_def)

lemma start_frame_ok: "length bs \<le> 1536 \<Longrightarrow> frame_ok (start_state (frame_at bs) junk)"
  using frame_at_wf [of bs] by (simp add: frame_ok_def start_state_def) (simp add: frame_at_def)

theorem connect_request_registers_witness:
  "\<exists>s'. irlmp_connect_cmd 0x11 0 2 True (start_state (frame_at []) (\<lambda>_. 0)) = Inr ((), s') \<and>
    conn_wf s' \<and> conn s' ! 0 = new_entry zero_ias 0x11 0 2 True zero_lsap"
proof -
  let ?s = "start_state (frame_at []) (\<lambda>_. 0)"
  have c: "conn ?s = replicate 15 zero_lsap" "last_ias ?s = zero_ias"
    by (simp_all add: start_state_def MAX_CONNECTIONS_def)
  have v: "\<not> cn_valid zero_lsap" by (simp add: zero_lsap_def)
  have d: "0 = ia_lsap_sel (last_ias ?s)" by (simp add: c zero_ias_def)
  have ok: "frame_ok ?s" by (rule start_frame_ok) simp
  from connect_request_registers [OF ok start_wf d, of "0x11" 2 True] obtain s' i where
    s': "irlmp_connect_cmd 0x11 0 2 True ?s = Inr ((), s')" "conn_wf s'" "i < 15"
    "\<forall>j < i. cn_valid (replicate 15 zero_lsap ! j)"
    "conn s' = (conn ?s)[i := new_entry zero_ias 0x11 0 2 True (conn ?s ! i)]"
    unfolding c using v by (auto split: if_splits)
  have "i = 0" using s'(3,4) v by (cases i) auto
  with s' show ?thesis by (auto simp: c)
qed

text \<open>C9: What the program learns from the information-access service decides how a connection is decoded. Take a query for a class and an attribute
  (names below 255 bytes, from an access point that is not 0), the answer with an access point number below 128, and a connect request to that
  access point (within the first 1536 bytes of the receive buffer), while the connection table has a free entry and none for the client
  and the information service. All three are parsed without a fault, and afterwards the table holds a valid entry for the connection whose service kind
  (TinyTP, OBEX, IrCOMM, IrNET) is the one the names of the query show.\<close>

theorem ias_session_sets_service:
  assumes "conn_wf s" "no_ias_entry sel s" "sel AND 0x80 = 0" "sel \<noteq> 0"
    and "\<exists>c \<in> set (conn s). \<not> cn_valid c"
    and "length name < 255" "length attr < 255" "(ucast val :: byte) AND 0x80 = 0"
    and "netbuf_wf b1" "payload b1 = ias_query_frame sel name attr"
    and "netbuf_wf b2" "payload b2 = ias_integer_frame sel obj_id val"
    and "netbuf_wf b3" "payload b3 = connect_frame sel' (ucast val) rest"
    and "nb_truesize b3 = 2050" "nb_tail b3 \<le> 1536"
  shows "\<exists>s1 s2 s3.
    parse_irlmp ca1 type1 cmd1 (s\<lparr>buf := b1\<rparr>) = Inr ((), s1) \<and>
    parse_irlmp ca2 type2 cmd2 (s1\<lparr>buf := b2\<rparr>) = Inr ((), s2) \<and>
    parse_irlmp caddr type cmd (s2\<lparr>buf := b3\<rparr>) = Inr ((), s3) \<and>
    (\<exists>c \<in> set (conn s3). cn_valid c \<and> cn_caddr c = caddr \<and>
      conn_match (if type then sel' else ucast val) (if type then ucast val else sel') c \<and>
      cn_ttp c = ia_ttp (asked name attr) \<and> cn_obex c = ia_obex (asked name attr) \<and>
      cn_ircomm c = ia_ircomm (asked name attr) \<and> cn_irnet c = ia_irnet (asked name attr))"
proof -
  let ?lsap = "ucast val :: byte"
  have "conn_wf (s\<lparr>buf := b1\<rparr>)" "no_ias_entry sel (s\<lparr>buf := b1\<rparr>)"
    using assms(1,2) by (simp_all add: conn_wf_def no_ias_entry_def)
  then obtain s1 where s1: "parse_irlmp ca1 type1 cmd1 (s\<lparr>buf := b1\<rparr>) = Inr ((), s1)" "conn_wf s1"
    "conn s1 = conn s" "last_ias s1 = asked name attr"
    using wpD [OF query_frame_learns [of "s\<lparr>buf := b1\<rparr>" sel name attr ca1 type1 cmd1]] assms(6,7,9,10)
    by auto
  have "conn_wf (s1\<lparr>buf := b2\<rparr>)" "no_ias_entry sel (s1\<lparr>buf := b2\<rparr>)"
    using s1 assms(2) by (simp_all add: conn_wf_def no_ias_entry_def)
  then obtain s2 where s2: "parse_irlmp ca2 type2 cmd2 (s1\<lparr>buf := b2\<rparr>) = Inr ((), s2)" "conn_wf s2"
    "conn s2 = conn s" "last_ias s2 = (asked name attr)\<lparr>ia_lsap_sel := ?lsap\<rparr>"
    using wpD [OF answer_frame_learns [of "s1\<lparr>buf := b2\<rparr>" sel obj_id val ca2 type2 cmd2]]
      assms(3,4,11,12) s1 by auto
  have m: "(?lsap OR 0x80) AND 0x7f = ?lsap" "(?lsap OR 0x80) AND 0x80 \<noteq> 0"
  proof -
    have "(b AND 0x80 \<noteq> 0 \<or> (b OR 0x80) AND 0x7f = b) \<and> (b OR 0x80) AND 0x80 \<noteq> 0" for b :: byte
      by (rule all_bytes [where P = "\<lambda>b. (b AND 0x80 \<noteq> 0 \<or> (b OR 0x80) AND 0x7f = b) \<and>
        (b OR 0x80) AND 0x80 \<noteq> 0"]) code_simp
    with assms(8) show "(?lsap OR 0x80) AND 0x7f = ?lsap" "(?lsap OR 0x80) AND 0x80 \<noteq> 0" by blast+
  qed
  obtain b where b: "netbuf_wf b" "nb_truesize b = 2050" "nb_tail b \<le> 1536"
    "parse_irlmp caddr type cmd (s2\<lparr>buf := b3\<rparr>) = irlmp_connect_cmd sel' ?lsap caddr type
      (s2\<lparr>line := line s2 @ lm_text sel' ?lsap, buf := b\<rparr>)"
    using open_control_frame [of "s2\<lparr>buf := b3\<rparr>" "?lsap OR 0x80" sel' 1 0 rest caddr type cmd]
      assms(13-16) m by (auto simp: connect_frame_def)
  let ?s = "s2\<lparr>line := line s2 @ lm_text sel' ?lsap, buf := b\<rparr>"
  have pre: "frame_ok ?s" "conn_wf ?s" "?lsap = ia_lsap_sel (last_ias ?s)"
    using b s2 by (simp_all add: frame_ok_def conn_wf_def)
  obtain s3 i where s3: "irlmp_connect_cmd sel' ?lsap caddr type ?s = Inr ((), s3)"
    "i < length (conn ?s)" "conn s3 = (conn ?s)[i := new_entry (last_ias ?s) sel' ?lsap caddr type (conn ?s ! i)]"
    using wpD [OF connect_registers_wp [OF pre, of sel' caddr type]] assms(5) s2(3)
    by (auto split: if_splits)
  then have "new_entry (last_ias ?s) sel' ?lsap caddr type (conn ?s ! i) \<in> set (conn s3)"
    by (simp add: set_update_memI)
  then show ?thesis
    using s1 s2 s3 b(4)
    by (intro exI [of _ s1] exI [of _ s2] exI [of _ s3])
      (auto simp: new_entry_def conn_match_def intro!: bexI)
qed

definition ascii :: "string \<Rightarrow> byte list" where
  "ascii t = map (\<lambda>c. of_nat (of_char c)) t"

theorem ias_session_sets_service_witness:
  "\<exists>s1 s2 s3.
    parse_irlmp 2 True True ((start_state (frame_at []) (\<lambda>_. 0))\<lparr>buf :=
      frame_at (ias_query_frame 0x11 (ascii ''OBEX'') (ascii ''IrDA:TinyTP:LsapSel''))\<rparr>) = Inr ((), s1) \<and>
    parse_irlmp 2 False False (s1\<lparr>buf := frame_at (ias_integer_frame 0x11 1 5)\<rparr>) = Inr ((), s2) \<and>
    parse_irlmp 2 True True (s2\<lparr>buf := frame_at (connect_frame 0x12 5 [0x04])\<rparr>) = Inr ((), s3) \<and>
    (\<exists>c \<in> set (conn s3). cn_valid c \<and> cn_caddr c = 2 \<and> conn_match 0x12 5 c \<and> cn_ttp c \<and> cn_obex c)"
proof -
  let ?n = "ascii ''OBEX''" and ?a = "ascii ''IrDA:TinyTP:LsapSel''"
  let ?s = "start_state (frame_at []) (\<lambda>_. 0)"
  have cs: "conn ?s = replicate 15 zero_lsap" by (simp add: start_state_def MAX_CONNECTIONS_def)
  have ask: "ia_ttp (asked ?n ?a)" "ia_obex (asked ?n ?a)" by code_simp+
  have v: "(ucast (5 :: u32) :: byte) = 5" by simp
  have pre: "no_ias_entry 0x11 ?s" "(0x11 :: byte) AND 0x80 = 0" "(0x11 :: byte) \<noteq> 0"
    "\<exists>c \<in> set (conn ?s). \<not> cn_valid c" "length ?n < 255" "length ?a < 255"
    "(ucast (5 :: u32) :: byte) AND 0x80 = 0"
    by (simp_all add: no_ias_entry_def cs conn_match_def zero_lsap_def ascii_def)
  have l: "length (ias_query_frame 0x11 ?n ?a) \<le> 2050" "length (ias_integer_frame 0x11 1 5) \<le> 2050"
    "length (connect_frame 0x12 5 [0x04]) \<le> 2050"
    by (simp_all add: ias_query_frame_def ias_integer_frame_def connect_frame_def ascii_def
        be16_bytes_def be32_bytes_def)
  have fr: "nb_truesize (frame_at (connect_frame 0x12 5 [0x04])) = 2050"
    "nb_tail (frame_at (connect_frame 0x12 5 [0x04])) \<le> 1536"
    by (simp_all add: frame_at_def connect_frame_def)
  show ?thesis
    using ias_session_sets_service [OF start_wf pre frame_at_wf [OF l(1)] frame_at_payload [OF l(1)]
      frame_at_wf [OF l(2)] frame_at_payload [OF l(2)] frame_at_wf [OF l(3)], unfolded v,
      OF frame_at_payload [OF l(3)] fr, of 2 True True 2 False False 2 True True] ask
    by (fastforce simp: v)
qed

text \<open>A class name of 255 bytes in an information-access query overruns the local array \<^verbatim>\<open>name[255]\<close>: the
  copy fills it and the terminator is stored behind it.\<close>

theorem ias_name_overruns_array:
  assumes "region s 0 (opcode # 255 # name)" "length name = 255"
    and "opcode AND 0x7f = 0x01 \<or> opcode AND 0x7f = 0x04"
  shows "parse_iriap_command s = Inl (Local_Bounds ''name'' 255)"
proof -
  have r: "rd 0 s = Inr (opcode, s)" "rd 1 s = Inr (255, s)"
    using assms(1) by (simp_all add: region_Cons rd_def Let_def)
  have "region s 2 (name @ [])" using assms(1) by (simp add: region_Cons numeral_2_eq_2)
  from memcpy_region [OF this, of 255 "''name''"] assms(2)
  have "memcpy_local ''name'' 255 2 255 s = Inr (name, s)" by simp
  with r assms(2,3) show ?thesis
    by (auto simp: parse_iriap_command_def bnd_def Let_def store_local_def fault_def)
qed

theorem ias_name_overruns_array_witness:
  "parse_iriap_command (start_state (frame_at ([0x84, 255] @ replicate 255 65)) (\<lambda>_. 0)) =
     Inl (Local_Bounds ''name'' 255)"
proof (rule ias_name_overruns_array [where opcode = "0x84" and name = "replicate 255 65"])
  let ?fr = "[0x84, 255] @ replicate 255 (65 :: byte)"
  have "netbuf_wf (buf (start_state (frame_at ?fr) (\<lambda>_. 0)))"
    "payload (buf (start_state (frame_at ?fr) (\<lambda>_. 0))) = ?fr"
    using frame_at_wf [of ?fr] frame_at_payload [of ?fr] by (simp_all add: start_state_def)
  then show "region (start_state (frame_at ?fr) (\<lambda>_. 0)) 0 (0x84 # 255 # replicate 255 65)"
    using region_payload [of "start_state (frame_at ?fr) (\<lambda>_. 0)" ?fr "[]"] by simp
qed simp_all

text \<open>Feeding a list of link-management frames, each in a fresh buffer.\<close>

fun run_irlmp :: "(bool \<times> byte list) list \<Rightarrow> dump \<Rightarrow> c_fault + dump" where
  "run_irlmp [] s = Inr s"
| "run_irlmp ((type, bs) # fs) s =
     (case parse_irlmp 2 type type (s\<lparr>buf := frame_at bs\<rparr>) of
        Inl e \<Rightarrow> Inl e | Inr (_, s') \<Rightarrow> run_irlmp fs s')"

definition reconnect_trace :: "(bool \<times> byte list) list" where
  "reconnect_trace =
     [(True, ias_query_frame 0x10 (ascii ''A'') (ascii ''TinyTP'')),
      (False, ias_integer_frame 0x10 1 5),
      (True, connect_frame 0x11 5 [0]),
      (True, connect_frame 0x12 5 [0]),
      (True, [0x85, 0x11, 0x02, 0x00]),
      (True, [0x85, 0x12, 0x02, 0x00]),
      (True, connect_frame 0x12 5 [0])]"

text \<open>The cache of the last lookup is not invalidated when a connection is closed. On a trace in which
  two connections are opened and closed and the second is opened again, the table holds the valid new
  entry in slot 0, but the lookup returns the cached slot 1, whose entry is no longer valid: the data
  of the new connection is not decoded.\<close>

theorem lookup_returns_closed_entry:
  "case run_irlmp reconnect_trace (start_state (frame_at []) (\<lambda>_. 0)) of
     Inl e \<Rightarrow> False
   | Inr s \<Rightarrow> cn_valid (conn s ! 0) \<and> conn_match 0x12 5 (conn s ! 0) \<and>
       (case find_connection 0x12 5 s of
          Inl e \<Rightarrow> False
        | Inr (i, s') \<Rightarrow> i = 1 \<and> \<not> cn_valid (conn s' ! 1))"
  by code_simp

section \<open>What a link-management frame leaves alone\<close>

lemma keeps_parse_irlmp:
  assumes "\<And>s l. g (s\<lparr>line := l\<rparr>) = g s" "\<And>s l. g (s\<lparr>console := l\<rparr>) = g s"
    "\<And>n. keeps g (pull n)" "\<And>s c. g (s\<lparr>last_command := c\<rparr>) = g s"
    "\<And>s q. g (s\<lparr>last_ias := q\<rparr>) = g s" "\<And>s i. g (s\<lparr>conn_cache := i\<rparr>) = g s"
    "\<And>s cs. g (s\<lparr>conn := cs\<rparr>) = g s"
  shows "keeps g (parse_irlmp caddr type cmd)"
proof -
  have set: "keeps g (conn_set i f)" for i f
    using assms(7) by (auto simp: keeps_def conn_set_def split: if_splits)
  have "keeps g (irlmp_connect_cmd a b caddr type)" "keeps g (irlmp_connect_rsp a b type)"
    "keeps g (irlmp_disconnect a b type)" "keeps g (irlmp_data a b type cmd)" for a b
    unfolding irlmp_connect_cmd_def irlmp_connect_rsp_def irlmp_disconnect_def irlmp_data_def
      find_free_connection_def
    by (intro keeps_intro assms set)+
  then show ?thesis
    unfolding parse_irlmp_def Let_def by (intro keeps_intro assms) simp_all
qed

lemma keeps_parse_ui_irlmp:
  assumes "\<And>s l. g (s\<lparr>line := l\<rparr>) = g s" "\<And>s l. g (s\<lparr>console := l\<rparr>) = g s"
    "\<And>n. keeps g (pull n)" "\<And>s c. g (s\<lparr>last_command := c\<rparr>) = g s"
  shows "keeps g parse_ui_irlmp"
  unfolding parse_ui_irlmp_def Let_def by (intro keeps_intro assms)

end
