(* ===== verification/Irlap.thy ===== *)
theory Irlap
  imports Irlmp
begin

text \<open>
  The link access parser, \<^verbatim>\<open>irda-utils/irdadump/irlap.c\<close>: the negotiation parameters and their value
  tables, one function per frame type, and the dispatch on the control byte.
\<close>

section \<open>Negotiation parameters\<close>

definition min_turn_times :: "int list" where
  "min_turn_times = [10000, 5000, 1000, 500, 100, 50, 10, 0]"

definition baud_rates :: "int list" where
  "baud_rates = [2400, 9600, 19200, 38400, 57600, 115200, 576000, 1152000, 4000000, 16000000]"

definition data_sizes :: "int list" where
  "data_sizes = [64, 128, 256, 512, 1024, 2048]"

definition add_bofs :: "int list" where
  "add_bofs = [48, 24, 12, 5, 3, 2, 1, 0]"

definition max_turn_times :: "int list" where
  "max_turn_times = [500, 250, 100, 50]"

definition link_disc_times :: "int list" where
  "link_disc_times = [3, 8, 12, 16, 20, 25, 30, 40]"

definition window_sizes :: "int list" where
  "window_sizes = [1, 2, 3, 4, 5, 6, 7, 0]"

definition index_value :: "int \<Rightarrow> int list \<Rightarrow> int dprog" where
  "index_value bit_index arr =
     (if 0 \<le> bit_index \<and> nat bit_index < length arr then ret (arr ! nat bit_index)
      else fault (Table_Bounds (nat bit_index)))"

text \<open>\<^verbatim>\<open>while (msb) { if (word & msb) break; msb >>= 1; bit_index--; }\<close>\<close>

lemma drop_bit_1_less: "(msb :: u16) \<noteq> 0 \<Longrightarrow> unat (drop_bit 1 msb) < unat msb"
  by (simp add: unat_drop_bit unat_gt_0)

function msb_loop :: "u16 \<Rightarrow> u16 \<Rightarrow> int \<Rightarrow> int" where
  "msb_loop word msb bit_index =
     (if msb \<noteq> 0 then
        if word AND msb \<noteq> 0 then bit_index
        else msb_loop word (drop_bit 1 msb) (bit_index - 1)
      else bit_index)"
  by pat_completeness auto
termination
  by (relation "measure (\<lambda>(word, msb, bit_index). unat msb)") (auto simp: drop_bit_1_less [simplified])

declare msb_loop.simps [simp del]

definition msb_index :: "u16 \<Rightarrow> int dprog" where
  "msb_index word =
     bnd (if word = 0
          then seq (say_console (''Detected buggy peer, adjust null PV to 0x1!'' @ [CHR 0x0A])) (ret 1)
          else ret word) (\<lambda>w.
     ret (msb_loop w 0x8000 15))"

definition byte_value :: "u16 \<Rightarrow> int list \<Rightarrow> int dprog" where
  "byte_value byte arr = bnd (msb_index byte) (\<lambda>bit_index. index_value bit_index arr)"

definition qos_item :: "string \<Rightarrow> int list \<Rightarrow> string \<Rightarrow> u16 \<Rightarrow> unit dprog" where
  "qos_item label arr unit_name pv_byte =
     bnd (byte_value pv_byte arr) (\<lambda>v. say (label @ fmt_d v @ unit_name))"

definition irlap_param :: "byte \<Rightarrow> byte \<Rightarrow> nat \<Rightarrow> unit dprog" where
  "irlap_param pi pl n =
     (if pi = 0x01 then
        bnd (rd (n + 2)) (\<lambda>b.
        bnd (if 2 \<le> pl then bnd (rd (n + 3)) (\<lambda>c. ret (ucast b OR push_bit 8 (ucast c)))
             else ret (ucast b)) (\<lambda>pv_byte.
        qos_item ''Baud Rate='' baud_rates ''bps '' pv_byte))
      else if pi = 0x02 then
        bnd (rd (n + 2)) (\<lambda>b. qos_item ''Max Turn Time='' max_turn_times ''ms '' (ucast b))
      else if pi = 0x03 then
        bnd (rd (n + 2)) (\<lambda>b. qos_item ''Data Size='' data_sizes ''B '' (ucast b))
      else if pi = 0x04 then
        bnd (rd (n + 2)) (\<lambda>b. qos_item ''Window Size='' window_sizes '' '' (ucast b))
      else if pi = 0x05 then
        bnd (rd (n + 2)) (\<lambda>b. qos_item ''Add BOFS='' add_bofs '' '' (ucast b))
      else if pi = 0x06 then
        bnd (rd (n + 2)) (\<lambda>b. qos_item ''Min Turn Time='' min_turn_times ''us '' (ucast b))
      else if pi = 0x08 then
        bnd (rd (n + 2)) (\<lambda>b. qos_item ''Link Disc='' link_disc_times ''s '' (ucast b))
      else skip)"

definition parse_irlap_params :: "byte \<Rightarrow> unit dprog" where
  "parse_irlap_params clen =
     seq (say (nl_tab @ ''LAP QoS: ''))
     (seq (tlv_loop irlap_param (unat clen) 0)
     (seq (pull (unat clen))
     skip))"

section \<open>Discovery frames\<close>

definition parse_hints :: "byte \<Rightarrow> byte \<Rightarrow> string" where
  "parse_hints h0 h1 =
     ''[ '' @
     (if h0 AND 0x01 \<noteq> 0 then ''PnP '' else '''') @
     (if h0 AND 0x02 \<noteq> 0 then ''PDA/Palmtop '' else '''') @
     (if h0 AND 0x04 \<noteq> 0 then ''Computer '' else '''') @
     (if h0 AND 0x08 \<noteq> 0 then ''Printer '' else '''') @
     (if h0 AND 0x10 \<noteq> 0 then ''Modem '' else '''') @
     (if h0 AND 0x20 \<noteq> 0 then ''Fax '' else '''') @
     (if h0 AND 0x40 \<noteq> 0 then ''LAN Access '' else '''') @
     (if h1 AND 0x01 \<noteq> 0 then ''Telephony '' else '''') @
     (if h1 AND 0x02 \<noteq> 0 then ''File Server '' else '''') @
     (if h1 AND 0x04 \<noteq> 0 then ''IrCOMM '' else '''') @
     (if h1 AND 0x20 \<noteq> 0 then ''IrOBEX '' else '''') @
     ''] ''"

definition cmd_rsp :: "bool \<Rightarrow> string" where
  "cmd_rsp cmd = (if cmd then ''cmd'' else ''rsp'')"

definition arrow :: "bool \<Rightarrow> string" where
  "arrow type = (if type then ''>'' else ''<'')"

definition slots_of_flags :: "byte \<Rightarrow> int" where
  "slots_of_flags f = (if f = 0x00 then 1 else if f = 0x01 then 6 else if f = 0x02 then 8
     else if f = 0x03 then 16 else 0)"

text \<open>
  The discovery information: the hint bytes and the offset of the device name in the frame. The name
  is terminated by a zero byte written behind the frame.
\<close>

definition xid_info :: "(byte \<times> byte \<times> nat) dprog" where
  "xid_info =
     bnd (rd 14) (\<lambda>h0.
     bnd (if h0 AND 0x80 \<noteq> 0 then bnd (rd 15) (\<lambda>h1. ret (h1, 17)) else ret (0, 16)) (\<lambda>(h1, info).
     bnd (gets (\<lambda>s. unat (nb_len (buf s)))) (\<lambda>len.
     seq (wr len 0)
     (ret (h0, h1, info)))))"

definition say_frame_string :: "nat \<Rightarrow> unit dprog" where
  "say_frame_string i = (\<lambda>s. case frame_string i s of Inl e \<Rightarrow> Inl e | Inr t \<Rightarrow> say t s)"

definition xid_print_info :: "(byte \<times> byte \<times> nat) option \<Rightarrow> unit dprog" where
  "xid_print_info info =
     (case info of
        None \<Rightarrow> skip
      | Some (h0, h1, off) \<Rightarrow>
          seq (say_frame_string off)
          (seq (say ('' hint='' @ fmt_02x (uint h0) @ fmt_02x (uint h1) @ '' ''))
          (say (parse_hints h0 h1))))"

definition parse_xid_frame :: "bool \<Rightarrow> bool \<Rightarrow> unit dprog" where
  "parse_xid_frame command type =
     bnd (rd32_le 3) (\<lambda>saddr.
     bnd (rd32_le 7) (\<lambda>daddr.
     bnd (rd 11) (\<lambda>flags.
     bnd (rd 12) (\<lambda>slotnr.
     bnd (if slotnr = 0xff \<or> \<not> command
          then bnd xid_info (\<lambda>x. ret (Some x)) else ret None) (\<lambda>info.
     seq (if type
          then say (''xid:'' @ cmd_rsp command @ '' '' @ fmt_08x (uint saddr) @ '' > '' @
                 fmt_08x (uint daddr) @ '' S='' @ fmt_d (slots_of_flags flags) @ '' '')
          else say (''xid:'' @ cmd_rsp command @ '' '' @ fmt_08x (uint daddr) @ '' < '' @
                 fmt_08x (uint saddr) @ '' S='' @ fmt_d (slots_of_flags flags) @ '' ''))
     (seq (if slotnr = 0xff then say ''s=* '' else say (''s='' @ fmt_d (uint slotnr) @ '' ''))
     (xid_print_info info)))))))"

section \<open>Numbered and supervisory frames\<close>

definition next_recv :: "byte \<Rightarrow> int" where
  "next_recv c = uint (drop_bit 5 c)"

definition next_send :: "byte \<Rightarrow> int" where
  "next_send c = uint (drop_bit 1 c AND 0x07)"

text \<open>\<^verbatim>\<open>(ns + 1 > nr) ? ns + 1 - nr : ns + 9 - nr\<close>: the number of frames not acknowledged.\<close>

definition frames_lost :: "int \<Rightarrow> int \<Rightarrow> int" where
  "frames_lost ns nr = (if ns + 1 > nr then ns + 1 - nr else ns + 9 - nr)"

definition report_lost :: "int \<Rightarrow> int \<Rightarrow> unit dprog" where
  "report_lost ns nr =
     whenc (nr \<noteq> (ns + 1) mod 8) (say (''** '' @ fmt_d (frames_lost ns nr) @ '' frame(s) lost ** ''))"

definition track_i_frame :: "bool \<Rightarrow> int \<Rightarrow> int \<Rightarrow> unit dprog" where
  "track_i_frame type nr ns =
     (if type then
        seq (modify (\<lambda>s. s\<lparr>self_nr := nr\<rparr>))
        (seq (bnd (gets peer_ns) (\<lambda>p. report_lost p nr))
        (seq (bnd (gets self_ns) (\<lambda>x. whenc (ns \<noteq> (x + 1) mod 8) (say ''** retransmit ** '')))
        (modify (\<lambda>s. s\<lparr>self_ns := ns\<rparr>))))
      else
        seq (modify (\<lambda>s. s\<lparr>peer_nr := nr\<rparr>))
        (seq (bnd (gets self_ns) (\<lambda>p. report_lost p nr))
        (seq (bnd (gets peer_ns) (\<lambda>x. whenc (ns \<noteq> (x + 1) mod 8) (say ''** retransmit **'')))
        (modify (\<lambda>s. s\<lparr>peer_ns := ns\<rparr>)))))"

definition parse_i_frame :: "byte \<Rightarrow> bool \<Rightarrow> byte \<Rightarrow> bool \<Rightarrow> unit dprog" where
  "parse_i_frame caddr cmd pf type =
     bnd (rd 1) (\<lambda>c.
     let nr = next_recv c; ns = next_send c
     in seq (pull 2)
        (seq (say (''i:'' @ cmd_rsp cmd @ ''  '' @ arrow type @ '' ca='' @ fmt_02x (uint caddr) @
               '' pf='' @ fmt_d (uint pf) @ '' nr='' @ fmt_d nr @ '' ns='' @ fmt_d ns @ '' ''))
        (seq (bnd (gets (\<lambda>s. config_print_irlmp (config s))) (\<lambda>b. whenc b (parse_irlmp caddr type cmd)))
        (bnd (gets (\<lambda>s. config_print_lost_frames (config s))) (\<lambda>b. whenc b (track_i_frame type nr ns))))))"

definition parse_ui_frame :: "byte \<Rightarrow> bool \<Rightarrow> byte \<Rightarrow> bool \<Rightarrow> unit dprog" where
  "parse_ui_frame caddr cmd pf type =
     seq (pull 2)
     (seq (say (''ui:'' @ cmd_rsp cmd @ '' '' @ arrow type @ '' ca='' @ fmt_02x (uint caddr) @
            '' pf='' @ fmt_d (uint pf) @ ''  ''))
     (bnd (gets (\<lambda>s. config_print_irlmp (config s))) (\<lambda>b. whenc b parse_ui_irlmp)))"

text \<open>The arguments are in the order of the call: \<^verbatim>\<open>caddr, ctrl, nr, pf, ns\<close>.\<close>

definition parse_frmr_frame :: "byte \<Rightarrow> bool \<Rightarrow> byte \<Rightarrow> bool \<Rightarrow> unit dprog" where
  "parse_frmr_frame caddr cmd pf type =
     bnd (rd 1) (\<lambda>ctrl.
     bnd (rd 2) (\<lambda>c.
     let nr = next_recv c; ns = next_send c
     in say (''frmr:'' @ cmd_rsp cmd @ ''  '' @ arrow type @ '' ca='' @ fmt_02x (uint caddr) @
          '' pf='' @ fmt_d (uint ctrl) @ '' ctrl='' @ fmt_02x nr @ '', nr='' @ fmt_d (uint pf) @
          '' ns='' @ fmt_d ns @ '' '')))"

definition s_frame_text :: "string \<Rightarrow> byte \<Rightarrow> bool \<Rightarrow> byte \<Rightarrow> bool \<Rightarrow> int \<Rightarrow> string" where
  "s_frame_text name caddr cmd pf type nr =
     name @ '':'' @ cmd_rsp cmd @ '' '' @ arrow type @ '' ca='' @ fmt_02x (uint caddr) @
     '' pf='' @ fmt_d (uint pf) @ '' nr='' @ fmt_d nr @ '' ''"

definition parse_rr_frame :: "byte \<Rightarrow> bool \<Rightarrow> byte \<Rightarrow> bool \<Rightarrow> unit dprog" where
  "parse_rr_frame caddr cmd pf type =
     bnd (rd 1) (\<lambda>c.
     let nr = next_recv c
     in seq (say (s_frame_text ''rr'' caddr cmd pf type nr))
        (bnd (gets (\<lambda>s. config_print_lost_frames (config s))) (\<lambda>b.
        whenc b
          (if type
           then seq (modify (\<lambda>s. s\<lparr>self_nr := nr\<rparr>)) (bnd (gets peer_ns) (\<lambda>p. report_lost p nr))
           else seq (modify (\<lambda>s. s\<lparr>peer_nr := nr\<rparr>)) (bnd (gets self_ns) (\<lambda>p. report_lost p nr))))))"

definition parse_rnr_frame :: "byte \<Rightarrow> bool \<Rightarrow> byte \<Rightarrow> bool \<Rightarrow> unit dprog" where
  "parse_rnr_frame caddr cmd pf type =
     bnd (rd 1) (\<lambda>c. say (s_frame_text ''rnr'' caddr cmd pf type (next_recv c)))"

definition parse_rej_frame :: "byte \<Rightarrow> bool \<Rightarrow> byte \<Rightarrow> bool \<Rightarrow> unit dprog" where
  "parse_rej_frame caddr cmd pf type =
     bnd (rd 1) (\<lambda>c. say (s_frame_text ''rej'' caddr cmd pf type (next_recv c)))"

definition parse_srej_frame :: "byte \<Rightarrow> bool \<Rightarrow> byte \<Rightarrow> bool \<Rightarrow> unit dprog" where
  "parse_srej_frame caddr cmd pf type =
     bnd (rd 1) (\<lambda>c. say (s_frame_text ''srej'' caddr cmd pf type (next_recv c)))"

section \<open>Unnumbered frames\<close>

text \<open>\<^verbatim>\<open>len = g_netbuf_get_len(buf); if (len != 0) parse_irlap_params(len, buf, str);\<close>\<close>

definition parse_i_field :: "unit dprog" where
  "parse_i_field =
     bnd (gets (\<lambda>s. g_netbuf_get_len (buf s))) (\<lambda>len.
     whenc (len \<noteq> 0) (parse_irlap_params (ucast len)))"

definition parse_ua_frame :: "byte \<Rightarrow> bool \<Rightarrow> byte \<Rightarrow> bool \<Rightarrow> unit dprog" where
  "parse_ua_frame caddr cmd pf type =
     bnd (rd32_le 2) (\<lambda>saddr.
     bnd (rd32_le 6) (\<lambda>daddr.
     seq (say (''ua:'' @ cmd_rsp cmd @ '' ca='' @ fmt_02x (uint caddr) @ '' pf='' @ fmt_d (uint pf) @
            '' '' @ (if type then fmt_08x (uint saddr) @ '' > '' @ fmt_08x (uint daddr)
                   else fmt_08x (uint daddr) @ '' < '' @ fmt_08x (uint saddr)) @ '' ''))
     (seq (pull 10)
     parse_i_field)))"

definition u_frame_text :: "string \<Rightarrow> byte \<Rightarrow> bool \<Rightarrow> byte \<Rightarrow> bool \<Rightarrow> string" where
  "u_frame_text name caddr cmd pf type =
     name @ '':'' @ cmd_rsp cmd @ '' '' @ arrow type @ '' ca='' @ fmt_alt_02x (uint caddr) @
     '' pf='' @ fmt_d (uint pf) @ '' ''"

definition parse_disc_frame :: "byte \<Rightarrow> bool \<Rightarrow> byte \<Rightarrow> bool \<Rightarrow> unit dprog" where
  "parse_disc_frame caddr cmd pf type =
     seq (say (u_frame_text ''disc'' caddr cmd pf type)) (garbage_connection caddr)"

definition parse_dm_frame :: "byte \<Rightarrow> bool \<Rightarrow> byte \<Rightarrow> bool \<Rightarrow> unit dprog" where
  "parse_dm_frame caddr cmd pf type = say (u_frame_text ''dm'' caddr cmd pf type)"

definition parse_rd_frame :: "byte \<Rightarrow> bool \<Rightarrow> byte \<Rightarrow> bool \<Rightarrow> unit dprog" where
  "parse_rd_frame caddr cmd pf type = say (u_frame_text ''rd'' caddr cmd pf type)"

definition parse_test_frame :: "byte \<Rightarrow> bool \<Rightarrow> byte \<Rightarrow> bool \<Rightarrow> unit dprog" where
  "parse_test_frame caddr cmd pf type =
     bnd (rd32_le 2) (\<lambda>saddr.
     bnd (rd32_le 6) (\<lambda>daddr.
     say (''test:'' @ cmd_rsp cmd @ '' ca='' @ fmt_alt_02x (uint caddr) @ '' pf='' @ fmt_d (uint pf) @
       '' '' @ fmt_08x (uint saddr) @ '' '' @ arrow type @ '' '' @ fmt_08x (uint daddr) @ '' '')))"

definition parse_snrm_frame :: "byte \<Rightarrow> bool \<Rightarrow> byte \<Rightarrow> bool \<Rightarrow> unit dprog" where
  "parse_snrm_frame caddr cmd pf type =
     bnd (rd32_le 2) (\<lambda>saddr.
     bnd (rd32_le 6) (\<lambda>daddr.
     bnd (rd 10) (\<lambda>new_caddr.
     seq (say (''snrm:'' @ cmd_rsp cmd @ '' ca='' @ fmt_02x (uint caddr) @ '' pf='' @ fmt_d (uint pf) @
            '' '' @ (if type then fmt_08x (uint saddr) @ '' > '' @ fmt_08x (uint daddr)
                   else fmt_08x (uint daddr) @ '' < '' @ fmt_08x (uint saddr)) @
            '' new-ca='' @ fmt_02x (uint new_caddr) @ '' ''))
     (seq (pull 11)
     parse_i_field))))"

definition parse_rnrm_frame :: "byte \<Rightarrow> bool \<Rightarrow> byte \<Rightarrow> bool \<Rightarrow> unit dprog" where
  "parse_rnrm_frame caddr cmd pf type =
     bnd (rd32_le 2) (\<lambda>saddr.
     bnd (rd32_le 6) (\<lambda>daddr.
     say (''snrm:'' @ cmd_rsp cmd @ '' ca='' @ fmt_02x (uint caddr) @ '' pf='' @ fmt_d (uint pf) @
       '' '' @ fmt_08x (uint saddr) @ '' '' @ arrow type @ '' '' @ fmt_08x (uint daddr) @ '' '')))"

section \<open>Dispatch\<close>

definition parse_s_frame :: "byte \<Rightarrow> byte \<Rightarrow> bool \<Rightarrow> byte \<Rightarrow> bool \<Rightarrow> unit dprog" where
  "parse_s_frame ctrl caddr cmd pf type =
     (if ctrl AND 0x0f = 0x01 then parse_rr_frame caddr cmd pf type
      else if ctrl AND 0x0f = 0x05 then parse_rnr_frame caddr cmd pf type
      else if ctrl AND 0x0f = 0x09 then parse_rej_frame caddr cmd pf type
      else if ctrl AND 0x0f = 0x0d then parse_srej_frame caddr cmd pf type
      else say (''Unknown S frame '' @ fmt_02x (uint ctrl) @ '' received!'' @ [CHR 0x0A]))"

definition parse_u_frame :: "byte \<Rightarrow> byte \<Rightarrow> bool \<Rightarrow> byte \<Rightarrow> bool \<Rightarrow> unit dprog" where
  "parse_u_frame ctrl caddr cmd pf type =
     (if ctrl = 0xaf then parse_xid_frame cmd type
      else if ctrl = 0x2f then parse_xid_frame cmd type
      else if ctrl = 0x83 then
        (if cmd then parse_snrm_frame caddr cmd pf type else parse_rnrm_frame caddr cmd pf type)
      else if ctrl = 0x0f then parse_dm_frame caddr cmd pf type
      else if ctrl = 0x43 then
        (if cmd then parse_disc_frame caddr cmd pf type else parse_rd_frame caddr cmd pf type)
      else if ctrl = 0xe3 then parse_test_frame caddr cmd pf type
      else if ctrl = 0x63 then parse_ua_frame caddr cmd pf type
      else if ctrl = 0x87 then parse_frmr_frame caddr cmd pf type
      else if ctrl = 0x03 then parse_ui_frame caddr cmd pf type
      else say (''Unknown frame '' @ fmt_02x (uint ctrl) @ '' received!'' @ [CHR 0x0A]))"

definition parse_irlap_frame :: "bool \<Rightarrow> unit dprog" where
  "parse_irlap_frame type =
     bnd (rd 0) (\<lambda>b0.
     bnd (rd 1) (\<lambda>b1.
     let cmd = b0 AND 0x01 \<noteq> 0;
         caddr = b0 AND 0xfe;
         pf = drop_bit 4 (b1 AND 0x10);
         ctrl = b1 AND NOT 0x10
     in if NOT ctrl AND 0x01 \<noteq> 0 then parse_i_frame caddr cmd pf type
        else if NOT ctrl AND 0x02 \<noteq> 0 then parse_s_frame ctrl caddr cmd pf type
        else parse_u_frame ctrl caddr cmd pf type))"

section \<open>The most significant bit\<close>

lemma msb_loop_spec:
  assumes "word \<noteq> 0" "\<And>j. k < j \<Longrightarrow> \<not> bit word j" "k < 16"
  shows "\<exists>m \<le> k. msb_loop word (push_bit k 1) (int k) = int m \<and> bit word m \<and> (\<forall>j > m. \<not> bit word j)"
  using assms(2,3)
proof (induction k)
  case 0
  have "bit word 0"
  proof (rule ccontr)
    assume "\<not> bit word 0"
    with 0 have "\<not> bit word j" for j by (cases j) auto
    with assms(1) show False by (auto simp: bit_eq_iff)
  qed
  with 0 show ?case
    by (subst msb_loop.simps) (auto simp: bit_iff_and_push_bit_not_eq_0)
next
  case (Suc k)
  show ?case
  proof (cases "bit word (Suc k)")
    case True
    then have "word AND push_bit (Suc k) 1 \<noteq> 0" by (simp add: bit_iff_and_push_bit_not_eq_0)
    with True Suc.prems show ?thesis by (subst msb_loop.simps) (auto split: if_splits)
  next
    case False
    then have z: "word AND push_bit (Suc k) 1 = 0" by (simp add: bit_iff_and_push_bit_not_eq_0)
    have "\<not> bit word j" if "k < j" for j
      using Suc.prems False that by (cases "j = Suc k") auto
    with Suc.IH Suc.prems(2) obtain m where m: "m \<le> k"
      "msb_loop word (push_bit k 1) (int k) = int m" "bit word m" "\<forall>j > m. \<not> bit word j"
      by (meson Suc_lessD)
    have "drop_bit 1 (push_bit (Suc k) (1 :: u16)) = push_bit k 1"
      by (rule bit_word_eqI) (use Suc.prems(2) in \<open>auto simp: bit_simps\<close>)
    moreover have "bit (push_bit (Suc k) (1 :: u16)) (Suc k)"
      using Suc.prems(2) by (simp add: bit_simps)
    then have "push_bit (Suc k) (1 :: u16) \<noteq> 0" by auto
    ultimately have "msb_loop word (push_bit (Suc k) 1) (int (Suc k)) =
        msb_loop word (push_bit k 1) (int k)"
      using z by (subst msb_loop.simps) simp
    with m show ?thesis by (metis le_SucI)
  qed
qed

lemma msb_loop_bounds:
  assumes "(word :: u16) \<noteq> 0"
  shows "\<exists>m < 16. msb_loop word 0x8000 15 = int m \<and> 2 ^ m \<le> unat word \<and> unat word < 2 ^ Suc m"
proof -
  have high: "\<not> bit word j" if "15 < j" for j
    using that by (auto dest: bit_imp_le_length)
  have top: "push_bit 15 (1 :: u16) = 0x8000" by simp
  obtain m where m: "m \<le> 15" "msb_loop word 0x8000 15 = int m" "bit word m" "\<forall>j > m. \<not> bit word j"
    using msb_loop_spec [OF assms high, of 15] by (auto simp: top)
  have b: "bit (unat word) j = bit word j" for j by (simp add: bit_unsigned_iff bit_imp_le_length)
  have "take_bit (Suc m) (unat word) = unat word"
    by (rule bit_eqI) (use m(4) in \<open>auto simp: bit_take_bit_iff b not_less_eq [symmetric]\<close>)
  then have "unat word < 2 ^ Suc m" by (metis take_bit_nat_less_exp)
  moreover have "odd (unat word div 2 ^ m)" using m(3) b [of m] by (simp add: bit_iff_odd)
  then have "unat word div 2 ^ m \<noteq> 0" by (metis even_zero)
  then have "2 ^ m \<le> unat word" by (simp add: div_eq_0_iff not_less)
  ultimately show ?thesis using m(1,2) by (intro exI [of _ m]) auto
qed

lemma msb_index_run: "w \<noteq> 0 \<Longrightarrow> msb_index w s = Inr (msb_loop w 0x8000 15, s)"
  by (simp add: msb_index_def bnd_def ret_def)

section \<open>What a negotiation parameter list prints\<close>

definition qos_table :: "byte \<Rightarrow> (string \<times> int list \<times> string) option" where
  "qos_table k =
     (if k = 0x01 then Some (''Baud Rate='', baud_rates, ''bps '')
      else if k = 0x02 then Some (''Max Turn Time='', max_turn_times, ''ms '')
      else if k = 0x03 then Some (''Data Size='', data_sizes, ''B '')
      else if k = 0x04 then Some (''Window Size='', window_sizes, '' '')
      else if k = 0x05 then Some (''Add BOFS='', add_bofs, '' '')
      else if k = 0x06 then Some (''Min Turn Time='', min_turn_times, ''us '')
      else if k = 0x08 then Some (''Link Disc='', link_disc_times, ''s '')
      else None)"

definition qos_word :: "byte \<Rightarrow> byte list \<Rightarrow> u16" where
  "qos_word k pv = (if k = 0x01 \<and> 2 \<le> length pv then ucast (pv ! 0) OR push_bit 8 (ucast (pv ! 1))
     else ucast (pv ! 0))"

text \<open>A parameter is accepted if its value has a bit set and none beyond the end of its table.\<close>

definition qos_accepted :: "byte \<Rightarrow> byte list \<Rightarrow> bool" where
  "qos_accepted pi pv \<longleftrightarrow>
     (let k = pi AND 0x7f in case qos_table k of
        None \<Rightarrow> True
      | Some (label, table, u) \<Rightarrow> 1 \<le> length pv \<and> qos_word k pv \<noteq> 0 \<and>
          unat (qos_word k pv) < 2 ^ length table)"

text \<open>The most significant bit of a word.\<close>

definition top_bit :: "u16 \<Rightarrow> nat" where
  "top_bit w = last (filter (bit w) [0..<16])"

definition qos_shown :: "byte \<Rightarrow> byte list \<Rightarrow> string" where
  "qos_shown pi pv =
     (let k = pi AND 0x7f in case qos_table k of
        None \<Rightarrow> ''''
      | Some (label, table, u) \<Rightarrow>
          label @ fmt_d (table ! top_bit (qos_word k pv)) @ u)"

lemma msb_loop_top_bit:
  assumes "w \<noteq> 0"
  shows "msb_loop w 0x8000 15 = int (top_bit w)"
proof -
  have "push_bit 15 (1 :: u16) = 0x8000" by simp
  moreover have "\<not> bit w j" if "15 < j" for j using that by (auto dest: bit_imp_le_length)
  ultimately obtain m where m: "m \<le> 15" "msb_loop w 0x8000 15 = int m" "bit w m" "\<forall>j > m. \<not> bit w j"
    using msb_loop_spec [OF assms, of 15] by auto
  have "[0..<16] = [0..<m] @ m # [Suc m..<16]"
    using m(1) upt_add_eq_append [of 0 m "16 - m"] by (simp add: upt_conv_Cons)
  moreover have "filter (bit w) [Suc m..<16] = []" using m(4) by (auto simp: filter_empty_conv)
  ultimately show ?thesis using m(2,3) by (simp add: top_bit_def)
qed

lemma byte_value_run:
  assumes "w \<noteq> 0" "unat w < 2 ^ length table"
  shows "byte_value w table s = Inr (table ! top_bit w, s)"
proof -
  note t = msb_loop_top_bit [OF assms(1)]
  obtain m where m: "msb_loop w 0x8000 15 = int m" "2 ^ m \<le> unat w"
    using msb_loop_bounds [OF assms(1)] by blast
  have "(2 :: nat) ^ m < 2 ^ length table" using m(2) assms(2) by linarith
  then have "m < length table" by simp
  with m(1) t show ?thesis
    by (simp add: byte_value_def bnd_def msb_index_run [OF assms(1)] index_value_def ret_def)
qed

lemma qos_item_run:
  assumes "w \<noteq> 0" "unat w < 2 ^ length table"
  shows "qos_item label table u w s =
    Inr ((), s\<lparr>line := line s @ label @ fmt_d (table ! top_bit w) @ u\<rparr>)"
  using byte_value_run [OF assms] by (simp add: qos_item_def bnd_def say_def modify_def)

lemma irlap_param_known:
  assumes "qos_table k = Some (label, table, u)" "region s (n + 2) pv" "1 \<le> length pv" "length pv < 256"
  shows "irlap_param k (of_nat (length pv)) n s = qos_item label table u (qos_word k pv) s"
proof -
  have two: "(2 :: byte) \<le> of_nat (length pv) \<longleftrightarrow> 2 \<le> length pv"
    using assms(4) by (simp add: word_le_nat_alt unat_of_nat)
  have "rd (n + 2) s = Inr (pv ! 0, s)" "2 \<le> length pv \<Longrightarrow> rd (n + 3) s = Inr (pv ! 1, s)"
    using rd_values(1,2) [OF assms(2)] assms(3) by (auto simp del: length_greater_0_conv)
  with assms(1) show ?thesis
    by (auto simp: qos_table_def irlap_param_def qos_word_def bnd_def ret_def two split: if_splits)
qed

interpretation qos_tlv: tlv_handler irlap_param qos_accepted qos_shown
proof unfold_locales
  fix pi pv s n
  assume acc: "qos_accepted pi pv" and len: "length pv < 256"
    and reg: "region s n (pi # of_nat (length pv) # pv)"
  then have pv: "region s (n + 2) pv" by (simp add: region_Cons)
  let ?k = "pi AND 0x7f"
  show "irlap_param ?k (of_nat (length pv)) n s = Inr ((), s\<lparr>line := line s @ qos_shown pi pv\<rparr>)"
  proof (cases "qos_table ?k")
    case None
    then show ?thesis
      by (simp add: qos_shown_def irlap_param_def qos_table_def skip_def ret_def split: if_splits)
  next
    case (Some t)
    obtain label table u where t: "t = (label, table, u)" by (cases t)
    with Some acc have w: "1 \<le> length pv" "qos_word ?k pv \<noteq> 0" "unat (qos_word ?k pv) < 2 ^ length table"
      by (auto simp: qos_accepted_def Let_def)
    with Some t irlap_param_known [OF _ pv w(1) len] qos_item_run [OF w(2,3)] show ?thesis
      by (simp add: qos_shown_def)
  qed
qed

section \<open>Frame conditions, containment, invariants\<close>

lemma frame_string_ends:
  assumes "nb_mem (buf s) (nb_data (buf s) + j) = 0" "nb_data (buf s) + j < unat (nb_truesize (buf s))"
    "i \<le> j"
  shows "\<exists>t. frame_string i s = Inr t"
  using assms(3)
proof (induction "j - i" arbitrary: i)
  case 0
  with assms(1,2) show ?case by (subst frame_string.simps) (simp add: Let_def)
next
  case (Suc k)
  then obtain t where "frame_string (Suc i) s = Inr t" by (metis Suc_diff_le diff_Suc_Suc Suc_leI
    diff_diff_cancel le_add1 less_eq_Suc_le nat_less_le plus_1_eq_Suc zero_less_Suc zero_less_diff)
  moreover have "nb_data (buf s) + i < unat (nb_truesize (buf s))" using assms(2) Suc.prems by simp
  ultimately show ?case by (subst frame_string.simps) (simp add: Let_def)
qed

lemma wp_say_frame_string:
  assumes "nb_mem (buf s) (nb_data (buf s) + j) = 0" "nb_data (buf s) + j < unat (nb_truesize (buf s))"
    "i \<le> j" "\<And>t. Q () (s\<lparr>line := line s @ t\<rparr>)"
  shows "wp (say_frame_string i) Q s"
proof -
  obtain t where "frame_string i s = Inr t" using frame_string_ends [OF assms(1-3)] by blast
  with assms(4) show ?thesis by (simp add: wp_def say_frame_string_def say_def modify_def)
qed

lemma wp_rd32_le [wp_simps]: "wp (rd32_le i) Q s \<longleftrightarrow>
    nb_data (buf s) + i + 3 < unat (nb_truesize (buf s)) \<and>
    Q (le32 (nb_mem (buf s) (nb_data (buf s) + i)) (nb_mem (buf s) (nb_data (buf s) + (i + 1)))
         (nb_mem (buf s) (nb_data (buf s) + (i + 2))) (nb_mem (buf s) (nb_data (buf s) + (i + 3)))) s"
  by (auto simp: rd32_le_def wp_simps)

text \<open>Everything of the state but the frame buffer and the line.\<close>

definition rest_state :: "dump \<Rightarrow> dump" where
  "rest_state s = s\<lparr>buf := undefined, line := []\<rparr>"

lemma wp_parse_xid:
  assumes ok: "frame_ok s" and len: "17 \<le> unat (nb_len (buf s))"
  shows "wp (parse_xid_frame command type) (\<lambda>_ s'. frame_ok s' \<and> rest_state s' = rest_state s) s"
proof -
  let ?l = "unat (nb_len (buf s))"
  have d: "nb_data (buf s) + ?l \<le> 1536" "unat (nb_truesize (buf s)) = 2050"
    using ok by (auto simp: frame_ok_def netbuf_wf_def)
  let ?b = "(buf s)\<lparr>nb_mem := (nb_mem (buf s))(nb_data (buf s) + ?l := 0)\<rparr>"
  have okb: "frame_ok (s\<lparr>buf := ?b\<rparr>)" using ok by (simp add: frame_ok_def netbuf_wf_def)
  define Q where "Q s' \<longleftrightarrow> frame_ok s' \<and> rest_state s' = rest_state s" for s'
  have Ql: "Q (s'\<lparr>line := t\<rparr>) = Q s'" for s' t
    by (simp add: Q_def frame_ok_def rest_state_def)
  have Q0: "Q s" "Q (s\<lparr>buf := ?b\<rparr>)" using ok okb by (simp_all add: Q_def rest_state_def)
  have str: "wp (xid_print_info (Some (h0, h1, off))) (\<lambda>_. Q) (s\<lparr>buf := ?b, line := t\<rparr>)"
    if "off \<le> 17" for off t h0 h1
    unfolding xid_print_info_def option.case prod.case wp_seq
    by (rule wp_say_frame_string [where j = ?l]) (use d len that Q0 in \<open>auto simp: wp_simps Ql\<close>)
  have non: "wp (xid_print_info None) (\<lambda>_. Q) s' = Q s'" for s'
    by (simp add: xid_print_info_def wp_simps)
  have "wp (parse_xid_frame command type) (\<lambda>_. Q) s"
    using d len Q0
    by (simp add: parse_xid_frame_def xid_info_def wp_simps Ql str non split: prod.split)
  then show ?thesis by (simp add: Q_def [abs_def])
qed

lemma contained_qos_item [contained_intro]: "contained (qos_item label table u w)"
  unfolding qos_item_def byte_value_def msb_index_def index_value_def
  by (intro contained_intro) (simp add: stray_fault_def)

lemma contained_parse_i_field [contained_intro]: "contained parse_i_field"
proof -
  have "contained (irlap_param pi pl n)" if "n < 256" for pi pl n
    unfolding irlap_param_def by (intro contained_intro) (use that in simp_all)
  then have "contained (parse_irlap_params clen)" for clen
    unfolding parse_irlap_params_def by (intro contained_intro) (simp_all add: less_imp_le)
  then show ?thesis unfolding parse_i_field_def by (intro contained_intro)
qed

lemma contained_report_lost [contained_intro]: "contained (report_lost ns nr)"
  unfolding report_lost_def by (intro contained_intro)

lemma contained_parse_i_frame [contained_intro]: "contained (parse_i_frame caddr cmd pf type)"
  unfolding parse_i_frame_def track_i_frame_def Let_def
  by (intro contained_intro contained_modify) simp_all

lemma contained_parse_s_frame [contained_intro]: "contained (parse_s_frame ctrl caddr cmd pf type)"
  unfolding parse_s_frame_def parse_rr_frame_def parse_rnr_frame_def parse_rej_frame_def
    parse_srej_frame_def Let_def
  by (intro contained_intro contained_modify) simp_all

lemmas u_frame_defs = parse_snrm_frame_def parse_rnrm_frame_def parse_dm_frame_def
  parse_disc_frame_def parse_rd_frame_def parse_test_frame_def parse_ua_frame_def
  parse_frmr_frame_def parse_ui_frame_def

lemma contained_parse_u_frame:
  "ctrl \<noteq> 0xaf \<Longrightarrow> ctrl \<noteq> 0x2f \<Longrightarrow> contained (parse_u_frame ctrl caddr cmd pf type)"
  unfolding parse_u_frame_def u_frame_defs Let_def
  by (intro contained_intro) simp_all

definition ctrl_byte :: "dump \<Rightarrow> byte" where
  "ctrl_byte s = nb_mem (buf s) (nb_data (buf s) + 1) AND NOT 0x10"

lemma parse_irlap_frame_run:
  assumes "nb_data (buf s) + 1 < unat (nb_truesize (buf s))"
  shows "parse_irlap_frame type s =
    (let b0 = nb_mem (buf s) (nb_data (buf s)); ctrl = ctrl_byte s;
         pf = drop_bit 4 (nb_mem (buf s) (nb_data (buf s) + 1) AND 0x10)
     in if NOT ctrl AND 0x01 \<noteq> 0 then parse_i_frame (b0 AND 0xfe) (b0 AND 0x01 \<noteq> 0) pf type
        else if NOT ctrl AND 0x02 \<noteq> 0 then parse_s_frame ctrl (b0 AND 0xfe) (b0 AND 0x01 \<noteq> 0) pf type
        else parse_u_frame ctrl (b0 AND 0xfe) (b0 AND 0x01 \<noteq> 0) pf type) s"
  using assms by (simp add: parse_irlap_frame_def bnd_def rd_def ctrl_byte_def Let_def)

lemma irlap_contained:
  assumes ok: "frame_ok s" and xid: "ctrl_byte s \<in> {0x2f, 0xaf} \<Longrightarrow> 17 \<le> unat (nb_len (buf s))"
  shows "case parse_irlap_frame type s of Inl e \<Rightarrow> \<not> stray_fault e | Inr (x, s') \<Rightarrow> frame_ok s'"
proof -
  have in_block: "nb_data (buf s) + 1 < unat (nb_truesize (buf s))" using frame_okD [OF ok] by simp
  have run: "case m s of Inl e \<Rightarrow> \<not> stray_fault e | Inr (x, s') \<Rightarrow> frame_ok s'" if "contained m"
    for m :: "unit dprog" using that ok by (simp add: contained_def)
  show ?thesis
  proof (cases "ctrl_byte s \<in> {0x2f, 0xaf}")
    case True
    have x: "case parse_xid_frame c t s of Inl e \<Rightarrow> \<not> stray_fault e | Inr (x, s') \<Rightarrow> frame_ok s'" for c t
      using wp_parse_xid [OF ok xid [OF True], of c t] by (auto simp: wp_def split: sum.splits)
    from True have "NOT (ctrl_byte s) AND 0x01 = 0" "NOT (ctrl_byte s) AND 0x02 = 0" by auto
    with True x show ?thesis
      by (auto simp: parse_irlap_frame_run [OF in_block] Let_def parse_u_frame_def)
  next
    case False
    then show ?thesis
      by (simp add: parse_irlap_frame_run [OF in_block] Let_def run contained_parse_i_frame
          contained_parse_s_frame contained_parse_u_frame)
  qed
qed

lemma preserves_irlap [preserves_intro]: "preserves conn_wf (parse_irlap_frame type)"
proof -
  have basic: "preserves conn_wf (say t)" "preserves conn_wf (rd i)" "preserves conn_wf (pull n)"
    "preserves conn_wf (rd32_le i)" "preserves conn_wf parse_ui_irlmp"
    "preserves conn_wf (wr i b)" "preserves conn_wf (say_frame_string i)" for t i n b
    by (intro keeps_conn_wf keeps_intro; simp add: parse_ui_irlmp_def Let_def keeps_intro)+
      (auto simp: preserves_def wr_def say_frame_string_def say_def modify_def Let_def conn_wf_def
        split: if_splits sum.splits)
  have md: "preserves conn_wf (modify f)" if "\<And>s. conn (f s) = conn s" "\<And>s. conn_cache (f s) = conn_cache s"
    for f using that by (simp add: preserves_def modify_def conn_wf_def)
  have q: "preserves conn_wf (qos_item label table u w)" for label table u w
    by (intro keeps_conn_wf; simp add: qos_item_def byte_value_def msb_index_def index_value_def
        keeps_intro)
  have tl: "preserves conn_wf (tlv_loop irlap_param clen n)" for clen n
    by (intro keeps_conn_wf keeps_tlv_loop; simp add: irlap_param_def qos_item_def byte_value_def
        msb_index_def index_value_def keeps_intro)
  have fld: "preserves conn_wf parse_i_field"
    unfolding parse_i_field_def parse_irlap_params_def by (intro preserves_intro basic tl)
  have xid: "preserves conn_wf (parse_xid_frame c t)" for c t
    unfolding parse_xid_frame_def xid_info_def xid_print_info_def
    by (intro preserves_intro basic) (auto intro!: preserves_intro basic split: option.split)
  have i: "preserves conn_wf (parse_i_frame caddr cmd pf type)" for caddr cmd pf
    unfolding parse_i_frame_def track_i_frame_def report_lost_def Let_def
    by (intro preserves_intro basic md) simp_all
  have s: "preserves conn_wf (parse_s_frame ctrl caddr cmd pf type)" for ctrl caddr cmd pf
    unfolding parse_s_frame_def parse_rr_frame_def parse_rnr_frame_def parse_rej_frame_def
      parse_srej_frame_def report_lost_def Let_def
    by (intro preserves_intro basic md) simp_all
  have u: "preserves conn_wf (parse_u_frame ctrl caddr cmd pf type)" for ctrl caddr cmd pf
    unfolding parse_u_frame_def u_frame_defs Let_def
    by (intro preserves_intro basic fld xid)
  show ?thesis
    unfolding parse_irlap_frame_def Let_def by (intro preserves_intro basic i s u)
qed

section \<open>Properties\<close>

lemma wpI_run: "m s = Inr (x, s') \<Longrightarrow> Q x s' \<Longrightarrow> wp m Q s"
  by (simp add: wp_def)

text \<open>C1: On any frame of at most 1536 bytes in the 2050-byte buffer (an XID frame of at least 17 bytes), whatever its contents and
  whatever the state left by earlier frames, the frame parser ends in one of two ways. It returns, with a buffer of which the same
  holds; or it overruns one of the local arrays \<^verbatim>\<open>name\<close>, \<^verbatim>\<open>attr\<close> and \<^verbatim>\<open>string\<close> or a table of values. It touches memory outside the
  receive buffer in one place only, a copy of more than 255 bytes into the array \<^verbatim>\<open>string\<close>, which overruns that array as well.\<close>

theorem frame_buffer_not_overrun:
  assumes "frame_ok s" "ctrl_byte s \<in> {0x2f, 0xaf} \<Longrightarrow> 17 \<le> unat (nb_len (buf s))"
  shows "(\<exists>e. parse_irlap_frame type s = Inl e \<and> overrun e) \<or>
    (\<exists>s'. parse_irlap_frame type s = Inr ((), s') \<and> frame_ok s')"
  using irlap_contained [OF assms, of type] by (auto simp: stray_fault_def split: sum.splits)

definition xid_demo :: "byte list" where
  "xid_demo = [0xff, 0x3f, 0x01, 0x78, 0x56, 0x34, 0x12, 0xff, 0xff, 0xff, 0xff, 0x01, 0xff, 0x00,
     0x84, 0x25, 0x00, 0x61, 0x62]"

theorem frame_buffer_not_overrun_witness:
  "frame_ok (start_state (frame_at xid_demo) (\<lambda>_. 0)) \<and>
   (\<exists>s'. parse_irlap_frame True (start_state (frame_at xid_demo) (\<lambda>_. 0)) = Inr ((), s') \<and> frame_ok s')"
proof -
  have ok: "frame_ok (start_state (frame_at xid_demo) (\<lambda>_. 0))"
    by (rule start_frame_ok) (simp add: xid_demo_def)
  have len: "17 \<le> unat (nb_len (buf (start_state (frame_at xid_demo) (\<lambda>_. 0))))"
    by (simp add: start_state_def frame_at_def xid_demo_def)
  have "case parse_irlap_frame True (start_state (frame_at xid_demo) (\<lambda>_. 0)) of
      Inl e \<Rightarrow> False | Inr r \<Rightarrow> True" by code_simp
  with frame_buffer_not_overrun [OF ok len, of True] ok show ?thesis by (auto split: sum.splits)
qed

text \<open>\<^verbatim>\<open>msb_index\<close> returns the index of the most significant bit: for a word other than zero the
  \<open>m\<close> with \<open>2 ^ m \<le> word < 2 ^ (m + 1)\<close>, with no effect on the state; for zero it warns and returns 0.\<close>

theorem msb_index_correct:
  "(word \<noteq> 0 \<and> (\<exists>m < 16. msb_index word s = Inr (int m, s) \<and> 2 ^ m \<le> unat word \<and> unat word < 2 ^ (m + 1))) \<or>
   (word = 0 \<and> (\<exists>t. msb_index word s = Inr (0, s\<lparr>console := console s @ t\<rparr>)))"
proof (cases "word = 0")
  case True
  have "msb_loop 1 0x8000 15 = 0" by code_simp
  with True show ?thesis by (auto simp: msb_index_def prog_defs say_console_def)
next
  case False
  with msb_loop_bounds [OF False] msb_index_run [OF False, of s] show ?thesis by auto
qed

text \<open>C21: A negotiation field made of well-encoded parameters (values with at least one byte, a bit set and
  no bit beyond the table) is printed parameter by parameter in order, each with the table entry
  of its most significant bit and its unit (one the parser does not know prints nothing), and exactly those bytes are consumed.\<close>

theorem qos_parameters_decoded:
  assumes "netbuf_wf (buf s)" "payload (buf s) = tlv_bytes ps @ rest" "length (tlv_bytes ps) < 256"
    and "\<And>pi pv. (pi, pv) \<in> set ps \<Longrightarrow> qos_accepted pi pv \<and> length pv < 256"
  shows "\<exists>b. parse_irlap_params (of_nat (length (tlv_bytes ps))) s = Inr ((), s\<lparr>line := line s @
      nl_tab @ ''LAP QoS: '' @ concat (map (\<lambda>(pi, pv). qos_shown pi pv) ps), buf := b\<rparr>) \<and>
    netbuf_wf b \<and> payload b = rest"
proof -
  let ?n = "length (tlv_bytes ps)"
  let ?s1 = "s\<lparr>line := line s @ nl_tab @ ''LAP QoS: ''\<rparr>"
  let ?s2 = "?s1\<lparr>line := line ?s1 @ concat (map (\<lambda>(pi, pv). qos_shown pi pv) ps)\<rparr>"
  have u: "unat (of_nat ?n :: byte) = ?n" using assms(3) by (simp add: unat_of_nat)
  have reg: "region ?s1 0 (tlv_bytes ps)" using region_payload [OF assms(1,2)] by simp
  have loop: "tlv_loop irlap_param ?n 0 ?s1 = Inr ((), ?s2)"
    by (rule qos_tlv.loop_decodes) (use assms(4) reg in auto)
  obtain r b where b: "pull ?n ?s2 = Inr (r, ?s2\<lparr>buf := b\<rparr>)" "netbuf_wf b" "payload b = rest"
    using pull_payload [of ?s2 "tlv_bytes ps" rest] assms(1,2) by auto
  show ?thesis
    using loop b by (intro exI [of _ b]) (simp add: parse_irlap_params_def prog_defs say_def u)
qed

theorem qos_parameters_decoded_witness:
  "\<exists>b. parse_irlap_params 9 (start_state (frame_at [0x01, 0x02, 0x3f, 0x01, 0x82, 0x01, 0x01, 0x7f, 0x00, 0xaa]) (\<lambda>_. 0)) =
     Inr ((), start_state (frame_at [0x01, 0x02, 0x3f, 0x01, 0x82, 0x01, 0x01, 0x7f, 0x00, 0xaa]) (\<lambda>_. 0)
       \<lparr>line := nl_tab @ ''LAP QoS: Baud Rate=4000000bps Max Turn Time=500ms '', buf := b\<rparr>) \<and>
     netbuf_wf b \<and> payload b = [0xaa]"
proof -
  let ?ps = "[(0x01, [0x3f, 0x01]), (0x82, [0x01]), (0x7f, [])] :: (byte \<times> byte list) list"
  let ?bs = "[0x01, 0x02, 0x3f, 0x01, 0x82, 0x01, 0x01, 0x7f, 0x00, 0xaa] :: byte list"
  let ?s = "start_state (frame_at ?bs) (\<lambda>_. 0)"
  have wf: "netbuf_wf (buf ?s)" "payload (buf ?s) = tlv_bytes ?ps @ [0xaa]"
    using frame_at_wf [of ?bs] frame_at_payload [of ?bs] by (simp_all add: start_state_def tlv_bytes_def)
  have acc: "qos_accepted pi pv \<and> length pv < 256" if "(pi, pv) \<in> set ?ps" for pi pv
  proof -
    have "list_all (\<lambda>(pi, pv). qos_accepted pi pv \<and> length pv < 256) ?ps" by code_simp
    with that show ?thesis by (auto simp: list_all_iff)
  qed
  have shown: "concat (map (\<lambda>(pi, pv). qos_shown pi pv) ?ps) = ''Baud Rate=4000000bps Max Turn Time=500ms ''"
    by code_simp
  show ?thesis
    using qos_parameters_decoded [OF wf _ acc] shown by (simp add: tlv_bytes_def start_state_def)
qed

text \<open>The value tables are indexed by the most significant bit of the received value with no check
  of their length: a Maximum Turn Time parameter with one of the upper four bits set reads beyond
  the end of \<^verbatim>\<open>max_turn_times\<close>.\<close>

theorem turn_time_table_overrun:
  assumes "region s (n + 2) (v # bs)" "0x10 \<le> v"
  shows "\<exists>k \<ge> 4. irlap_param 0x02 pl n s = Inl (Table_Bounds k)"
proof -
  let ?w = "ucast v :: u16"
  have uw: "unat ?w = unat v"
    using unat_byte_less [of v] by (simp add: unsigned_ucast_eq take_bit_nat_eq_self [of "unat v" 16] del: unat_byte_less)
  have v: "16 \<le> unat v" using assms(2) by (simp add: word_le_nat_alt)
  then have w: "?w \<noteq> 0" using uw by auto
  obtain m where m: "msb_loop ?w 0x8000 15 = int m" "unat ?w < 2 ^ Suc m"
    using msb_loop_bounds [OF w] by blast
  have "4 \<le> m"
  proof (rule ccontr)
    assume "\<not> 4 \<le> m"
    then have "2 ^ Suc m \<le> (2 :: nat) ^ 4" by (intro power_increasing) auto
    with m(2) uw v show False by simp
  qed
  moreover have "rd (n + 2) s = Inr (v, s)" using assms(1) by (rule rd_region)
  ultimately show ?thesis
    using m(1) by (auto simp: irlap_param_def qos_item_def byte_value_def bnd_def msb_index_run [OF w]
        index_value_def max_turn_times_def fault_def)
qed


theorem turn_time_table_overrun_witness:
  "\<exists>k \<ge> 4. irlap_param 0x02 0x01 0 (start_state (frame_at [0x02, 0x01, 0x10]) (\<lambda>_. 0)) = Inl (Table_Bounds k)"
  by (rule turn_time_table_overrun [where v = "0x10" and bs = "[]"])
    (simp_all add: region_def start_state_def frame_at_def)

section \<open>Disconnection\<close>

definition link_closed :: "byte \<Rightarrow> lsap_state list \<Rightarrow> lsap_state list" where
  "link_closed caddr cs = map (\<lambda>c. c\<lparr>cn_valid := cn_valid c \<and> cn_caddr c \<noteq> caddr\<rparr>) cs"

lemma garbage_closes: "garbage_connection caddr s = Inr ((), s\<lparr>conn := link_closed caddr (conn s)\<rparr>)"
  by (auto simp: garbage_connection_def link_closed_def modify_def)

lemma u_frame_run:
  assumes "region s 0 [b0, b1]" "b1 AND NOT 0x10 = ctrl" "ctrl AND 0x03 = 0x03"
  shows "parse_irlap_frame type s =
    parse_u_frame ctrl (b0 AND 0xfe) (b0 AND 0x01 \<noteq> 0) (drop_bit 4 (b1 AND 0x10)) type s"
proof -
  have m: "nb_data (buf s) + 1 < unat (nb_truesize (buf s))" "nb_mem (buf s) (nb_data (buf s)) = b0"
    "nb_mem (buf s) (nb_data (buf s) + 1) = b1" using assms(1) by (auto simp: region_Cons)
  have "ctrl AND 0x03 = 0x03 \<longrightarrow> NOT ctrl AND 0x01 = 0 \<and> NOT ctrl AND 0x02 = 0"
    by (rule all_bytes [where P = "\<lambda>c. c AND 0x03 = 0x03 \<longrightarrow> NOT c AND 0x01 = 0 \<and> NOT c AND 0x02 = 0"])
      code_simp
  moreover have "ctrl_byte s = ctrl" using assms(2) m by (simp add: ctrl_byte_def)
  ultimately show ?thesis
    using assms(3) m by (simp add: parse_irlap_frame_run [OF m(1)] Let_def)
qed

text \<open>A disconnect command closes the link: every connection of that link address is
  invalid afterwards, no other entry changes in any field, and nothing else of the state but the
  printed line changes.\<close>

theorem disc_frame_closes_link:
  assumes "region s 0 [b0, b1]" "b0 AND 0x01 \<noteq> 0" "b1 AND NOT 0x10 = 0x43"
  shows "\<exists>t. parse_irlap_frame type s =
      Inr ((), s\<lparr>line := line s @ t, conn := link_closed (b0 AND 0xfe) (conn s)\<rparr>) \<and>
    (\<forall>i < length (conn s). let c = conn s ! i; c' = link_closed (b0 AND 0xfe) (conn s) ! i in
       if cn_caddr c = b0 AND 0xfe then \<not> cn_valid c' \<and> c' = c\<lparr>cn_valid := False\<rparr> else c' = c)"
proof -
  from u_frame_run [OF assms(1,3)] assms(2) show ?thesis
    by (auto simp: parse_u_frame_def parse_disc_frame_def seq_def bnd_def say_def modify_def
        garbage_closes link_closed_def Let_def)
qed

theorem disc_frame_closes_link_witness:
  "\<exists>t. parse_irlap_frame True (start_state (frame_at [0x13, 0x53]) (\<lambda>_. 0)\<lparr>conn :=
        [zero_lsap\<lparr>cn_valid := True, cn_caddr := 0x12\<rparr>, zero_lsap\<lparr>cn_valid := True, cn_caddr := 0x14\<rparr>]\<rparr>) =
     Inr ((), start_state (frame_at [0x13, 0x53]) (\<lambda>_. 0)\<lparr>line := t, conn :=
        [zero_lsap\<lparr>cn_caddr := 0x12\<rparr>, zero_lsap\<lparr>cn_valid := True, cn_caddr := 0x14\<rparr>]\<rparr>)"
proof -
  let ?s = "start_state (frame_at [0x13, 0x53]) (\<lambda>_. 0)\<lparr>conn :=
        [zero_lsap\<lparr>cn_valid := True, cn_caddr := 0x12\<rparr>, zero_lsap\<lparr>cn_valid := True, cn_caddr := 0x14\<rparr>]\<rparr>"
  have "region ?s 0 [0x13, 0x53]" by (simp add: region_def start_state_def frame_at_def less_Suc_eq)
  from disc_frame_closes_link [OF this, of True] show ?thesis
    by (auto simp: link_closed_def zero_lsap_def start_state_def)
qed


section \<open>Acknowledgements and lost frames\<close>

lemma frames_lost_mod:
  assumes "0 \<le> ns" "ns < 8" "0 \<le> nr" "nr < 8" "nr \<noteq> (ns + 1) mod 8"
  shows "frames_lost ns nr = (ns + 1 - nr) mod 8" "0 < frames_lost ns nr" "frames_lost ns nr < 8"
proof -
  have "ns \<in> {0, 1, 2, 3, 4, 5, 6, 7}" "nr \<in> {0, 1, 2, 3, 4, 5, 6, 7}" using assms by auto
  then show "frames_lost ns nr = (ns + 1 - nr) mod 8" "0 < frames_lost ns nr" "frames_lost ns nr < 8"
    using assms(5) by (elim insertE; simp add: frames_lost_def)+
qed

lemma counter_fields: "0 \<le> next_recv c" "next_recv c < 8" "0 \<le> next_send c" "next_send c < 8"
proof -
  have "next_recv c < 8"
    by (rule all_bytes [where P = "\<lambda>c. next_recv c < 8"]) code_simp
  moreover have "next_send c < 8"
    by (rule all_bytes [where P = "\<lambda>c. next_send c < 8"]) code_simp
  ultimately show "0 \<le> next_recv c" "next_recv c < 8" "0 \<le> next_send c" "next_send c < 8"
    by (simp_all add: next_recv_def next_send_def)
qed

text \<open>The sequence counters are three-bit numbers.\<close>

definition counters_ok :: "dump \<Rightarrow> bool" where
  "counters_ok s \<longleftrightarrow> 0 \<le> self_nr s \<and> self_nr s < 8 \<and> 0 \<le> self_ns s \<and> self_ns s < 8 \<and>
     0 \<le> peer_nr s \<and> peer_nr s < 8 \<and> 0 \<le> peer_ns s \<and> peer_ns s < 8"

lemma s_frame_run:
  assumes "region s 0 [b0, b1]" "b1 AND NOT 0x10 = ctrl" "ctrl AND 0x03 = 0x01"
  shows "parse_irlap_frame type s =
    parse_s_frame ctrl (b0 AND 0xfe) (b0 AND 0x01 \<noteq> 0) (drop_bit 4 (b1 AND 0x10)) type s"
proof -
  have m: "nb_data (buf s) + 1 < unat (nb_truesize (buf s))" "nb_mem (buf s) (nb_data (buf s)) = b0"
    "nb_mem (buf s) (nb_data (buf s) + 1) = b1" using assms(1) by (auto simp: region_Cons)
  have "ctrl AND 0x03 = 0x01 \<longrightarrow> NOT ctrl AND 0x01 = 0 \<and> NOT ctrl AND 0x02 \<noteq> 0"
    by (rule all_bytes [where P = "\<lambda>c. c AND 0x03 = 0x01 \<longrightarrow> NOT c AND 0x01 = 0 \<and> NOT c AND 0x02 \<noteq> 0"])
      code_simp
  moreover have "ctrl_byte s = ctrl" using assms(2) m by (simp add: ctrl_byte_def)
  ultimately show ?thesis
    using assms(3) m by (simp add: parse_irlap_frame_run [OF m(1)] Let_def)
qed

lemma rr_ctrl:
  assumes "b1 AND 0x0f = 0x01"
  shows "(b1 AND NOT 0x10) AND 0x03 = 0x01" "(b1 AND NOT 0x10) AND 0x0f = (0x01 :: byte)"
proof -
  have "b1 AND 0x0f = 0x01 \<longrightarrow> (b1 AND NOT 0x10) AND 0x03 = 0x01 \<and> (b1 AND NOT 0x10) AND 0x0f = 0x01"
    by (rule all_bytes [where P = "\<lambda>c. c AND 0x0f = 0x01 \<longrightarrow> (c AND NOT 0x10) AND 0x03 = 0x01 \<and>
      (c AND NOT 0x10) AND 0x0f = 0x01"]) code_simp
  with assms show "(b1 AND NOT 0x10) AND 0x03 = 0x01" "(b1 AND NOT 0x10) AND 0x0f = (0x01 :: byte)"
    by blast+
qed

text \<open>The report for an acknowledgement \<open>nr\<close> when the other side last sent number \<open>ns\<close>.\<close>

definition lost_report :: "int \<Rightarrow> int \<Rightarrow> string" where
  "lost_report ns nr =
     (let lost = (ns + 1 - nr) mod 8
      in if lost = 0 then '''' else ''** '' @ fmt_d lost @ '' frame(s) lost ** '')"

lemma report_lost_run:
  assumes "0 \<le> ns" "ns < 8"
  shows "report_lost ns (next_recv c) s = Inr ((), s\<lparr>line := line s @ lost_report ns (next_recv c)\<rparr>)"
proof -
  note nr = counter_fields(1,2) [of c]
  have "(ns + 1 - next_recv c) mod 8 = 0 \<longleftrightarrow> next_recv c = (ns + 1) mod 8"
    using assms nr by presburger
  with frames_lost_mod(1) [OF assms nr] show ?thesis
    by (auto simp: report_lost_def lost_report_def Let_def whenc_def skip_def ret_def say_def modify_def)
qed

text \<open>With lost-frame reporting on, a receive-ready frame that acknowledges all frames sent by the
  other side reports nothing, and one that does not reports the number of frames still missing: the
  distance from the acknowledged number to the next one expected, modulo 8. The
  acknowledged number is recorded for the side that sent the frame, and nothing else changes.\<close>

theorem ready_frame_reports_lost:
  assumes "region s 0 [b0, b1]" "b1 AND 0x0f = 0x01" "config_print_lost_frames (config s)" "counters_ok s"
  shows "parse_irlap_frame type s = Inr ((),
      let nr = next_recv b1;
          shown = s_frame_text ''rr'' (b0 AND 0xfe) (b0 AND 0x01 \<noteq> 0) (drop_bit 4 (b1 AND 0x10)) type nr
      in if type then s\<lparr>line := line s @ shown @ lost_report (peer_ns s) nr, self_nr := nr\<rparr>
         else s\<lparr>line := line s @ shown @ lost_report (self_ns s) nr, peer_nr := nr\<rparr>)"
proof -
  have ns: "0 \<le> peer_ns s" "peer_ns s < 8" "0 \<le> self_ns s" "self_ns s < 8"
    using assms(4) by (auto simp: counters_ok_def)
  have rd: "rd 1 s = Inr (b1, s)" using assms(1) by (auto simp: region_Cons rd_def Let_def)
  have "parse_irlap_frame type s =
      parse_rr_frame (b0 AND 0xfe) (b0 AND 0x01 \<noteq> 0) (drop_bit 4 (b1 AND 0x10)) type s"
    unfolding s_frame_run [OF assms(1) refl rr_ctrl(1) [OF assms(2)], of type] parse_s_frame_def
      rr_ctrl(2) [OF assms(2)] by simp
  then show ?thesis
    using report_lost_run [OF ns(1,2)] report_lost_run [OF ns(3,4)] rd assms(3)
    by (simp add: parse_rr_frame_def bnd_def seq_def Let_def say_def modify_def gets_def whenc_def)
qed

theorem ready_frame_reports_lost_witness:
  "parse_irlap_frame True (start_state (frame_at [0x12, 0xb1]) (\<lambda>_. 0)\<lparr>peer_ns := 7,
       config := default_config\<lparr>config_print_lost_frames := True\<rparr>\<rparr>) =
     Inr ((), start_state (frame_at [0x12, 0xb1]) (\<lambda>_. 0)\<lparr>line :=
       ''rr:rsp > ca=12 pf=1 nr=5 ** 3 frame(s) lost ** '', self_nr := 5, peer_ns := 7,
       config := default_config\<lparr>config_print_lost_frames := True\<rparr>\<rparr>)"
proof -
  let ?s = "start_state (frame_at [0x12, 0xb1]) (\<lambda>_. 0)\<lparr>peer_ns := 7,
       config := default_config\<lparr>config_print_lost_frames := True\<rparr>\<rparr>"
  have pre: "region ?s 0 [0x12, 0xb1]" "counters_ok ?s"
    by (simp_all add: region_def start_state_def frame_at_def less_Suc_eq counters_ok_def)
  have out: "s_frame_text ''rr'' (0x12 AND 0xfe) (0x12 AND (0x01 :: byte) \<noteq> 0) (drop_bit 4 (0xb1 AND 0x10)) True
      (next_recv 0xb1) @ lost_report 7 (next_recv 0xb1) = ''rr:rsp > ca=12 pf=1 nr=5 ** 3 frame(s) lost ** ''"
    "next_recv 0xb1 = 5" by code_simp+
  have "parse_irlap_frame True ?s = Inr ((), ?s\<lparr>line := line ?s @ (s_frame_text ''rr'' (0x12 AND 0xfe)
      (0x12 AND (0x01 :: byte) \<noteq> 0) (drop_bit 4 (0xb1 AND 0x10)) True (next_recv 0xb1) @
      lost_report (peer_ns ?s) (next_recv 0xb1)), self_nr := next_recv 0xb1\<rparr>)"
    using ready_frame_reports_lost [OF pre(1) _ _ pre(2), of True] by (simp add: Let_def)
  then show ?thesis using out by (simp add: start_state_def)
qed


section \<open>Which frames change the tables\<close>

lemma keeps_wr [keeps_intro]: "(\<And>s b. g (s\<lparr>buf := b\<rparr>) = g s) \<Longrightarrow> keeps g (wr i b)"
  by (auto simp: keeps_def wr_def Let_def split: if_splits)

lemma keeps_say_frame_string [keeps_intro]:
  "(\<And>s l. g (s\<lparr>line := l\<rparr>) = g s) \<Longrightarrow> keeps g (say_frame_string i)"
  by (auto simp: keeps_def say_frame_string_def say_def modify_def split: sum.splits)

text \<open>What the program knows about the connections, and the configuration.\<close>

definition session_state :: "dump \<Rightarrow> ias_query \<times> lsap_state list \<times> int \<times> dump_config" where
  "session_state s = (last_ias s, conn s, conn_cache s, config s)"

lemma session_state_simps [simp]:
  "session_state (s\<lparr>line := l\<rparr>) = session_state s" "session_state (s\<lparr>buf := b\<rparr>) = session_state s"
  "session_state (s\<lparr>console := k\<rparr>) = session_state s" "session_state (s\<lparr>self_nr := n\<rparr>) = session_state s"
  "session_state (s\<lparr>peer_nr := n\<rparr>) = session_state s"
  "session_state (s\<lparr>last_command := c\<rparr>) = session_state s"
  by (simp_all add: session_state_def)

lemma keeps_irlap_params [keeps_intro]: "keeps session_state (parse_irlap_params clen)"
proof -
  have "keeps session_state (irlap_param pi pl n)" for pi pl n
    by (simp add: irlap_param_def qos_item_def byte_value_def msb_index_def index_value_def keeps_intro)
  then show ?thesis unfolding parse_irlap_params_def by (intro keeps_intro) simp_all
qed

lemma keeps_parse_s_frame: "keeps session_state (parse_s_frame ctrl caddr cmd pf type)"
  by (simp add: parse_s_frame_def parse_rr_frame_def parse_rnr_frame_def parse_rej_frame_def
      parse_srej_frame_def report_lost_def Let_def keeps_intro keeps_modify)

lemma keeps_parse_xid_frame: "keeps session_state (parse_xid_frame command type)"
  unfolding parse_xid_frame_def xid_info_def xid_print_info_def
  by (auto intro!: keeps_intro split: option.split)

lemma keeps_parse_u_frame:
  assumes "\<not> (ctrl = 0x43 \<and> cmd)"
  shows "keeps session_state (parse_u_frame ctrl caddr cmd pf type)"
  using assms
  by (auto simp: parse_u_frame_def u_frame_defs parse_i_field_def parse_ui_irlmp_def Let_def
      keeps_parse_xid_frame intro!: keeps_intro)

text \<open>C23: Only information frames and disconnect commands change what the program knows about the
  connections: any other frame, whatever its contents, leaves the last query, the
  connection table with its cache and the configuration as they were.\<close>

theorem session_changes_only_by_i_and_disc:
  assumes "parse_irlap_frame type s = Inr ((), s')" "ctrl_byte s AND 0x01 \<noteq> 0"
    and "\<not> (ctrl_byte s = 0x43 \<and> nb_mem (buf s) (nb_data (buf s)) AND 0x01 \<noteq> 0)"
  shows "session_state s' = session_state s"
proof -
  have "ctrl_byte s AND 0x01 \<noteq> 0 \<longrightarrow> NOT (ctrl_byte s) AND 0x01 = 0"
    by (rule all_bytes [where P = "\<lambda>c. c AND 0x01 \<noteq> 0 \<longrightarrow> NOT c AND 0x01 = 0"]) code_simp
  with assms(2) have "NOT (ctrl_byte s) AND 0x01 = 0" by blast
  moreover have "nb_data (buf s) + 1 < unat (nb_truesize (buf s))"
    using assms(1) by (auto simp: parse_irlap_frame_def bnd_def rd_def Let_def split: if_splits)
  ultimately show ?thesis
    using assms(1,3)
    by (auto simp: parse_irlap_frame_run Let_def split: if_splits
        dest!: keepsD [OF keeps_parse_s_frame] keepsD [OF keeps_parse_u_frame, rotated])
qed


theorem session_changes_only_by_i_and_disc_witness:
  "\<exists>s'. parse_irlap_frame True (start_state (frame_at xid_demo) (\<lambda>_. 0)) = Inr ((), s') \<and>
     session_state s' = session_state (start_state (frame_at xid_demo) (\<lambda>_. 0))"
proof -
  let ?s = "start_state (frame_at xid_demo) (\<lambda>_. 0)"
  have "case parse_irlap_frame True ?s of Inl e \<Rightarrow> False | Inr r \<Rightarrow> True" by code_simp
  then obtain s' where s': "parse_irlap_frame True ?s = Inr ((), s')" by (auto split: sum.splits)
  have "ctrl_byte ?s AND 0x01 \<noteq> 0" "\<not> (ctrl_byte ?s = 0x43 \<and> nb_mem (buf ?s) (nb_data (buf ?s)) AND 0x01 \<noteq> 0)"
    by code_simp+
  with session_changes_only_by_i_and_disc [OF s'] s' show ?thesis by blast
qed

section \<open>Unchecked lengths and misplaced arguments\<close>

text \<open>The device name of a discovery frame is terminated by a store behind the frame. When the frame
  fills the receive buffer, that store is one byte beyond the buffer's block.\<close>

theorem xid_terminator_overruns_block:
  assumes "netbuf_wf (buf s)" "nb_data (buf s) = 0" "nb_truesize (buf s) = 2050" "nb_len (buf s) = 2050"
    and "nb_mem (buf s) 12 = 0xff \<or> \<not> command"
  shows "parse_xid_frame command type s = Inl (Frame_Bounds 2050)"
  using assms(2-)
  by (auto simp: parse_xid_frame_def xid_info_def bnd_def rd_def rd32_le_def Let_def ret_def gets_def
      seq_def wr_def)

theorem xid_terminator_overruns_block_witness:
  "parse_xid_frame False True (start_state (frame_at (replicate 2050 0)) (\<lambda>_. 0)) = Inl (Frame_Bounds 2050)"
  by (rule xid_terminator_overruns_block)
    (auto simp: start_state_def frame_at_def netbuf_wf_def)

text \<open>For a frame-reject response the line shows the control byte under \<^verbatim>\<open>pf=\<close>, the receive count under
  \<^verbatim>\<open>ctrl=\<close> and the poll/final bit under \<^verbatim>\<open>nr=\<close>: the arguments are not in the order of the format.\<close>

theorem frmr_fields_misplaced:
  assumes "region s 0 [b0, ctrl, c]"
  shows "parse_frmr_frame caddr cmd pf type s = Inr ((), s\<lparr>line := line s @ ''frmr:'' @ cmd_rsp cmd @
    ''  '' @ arrow type @ '' ca='' @ fmt_02x (uint caddr) @ '' pf='' @ fmt_d (uint ctrl) @ '' ctrl='' @
    fmt_02x (next_recv c) @ '', nr='' @ fmt_d (uint pf) @ '' ns='' @ fmt_d (next_send c) @ '' ''\<rparr>)"
  using assms
  by (auto simp: parse_frmr_frame_def region_Cons rd_def bnd_def Let_def say_def modify_def)

theorem frmr_fields_misplaced_witness:
  "parse_frmr_frame 0x12 False 1 False (start_state (frame_at [0x12, 0x97, 0x64]) (\<lambda>_. 0)) =
     Inr ((), start_state (frame_at [0x12, 0x97, 0x64]) (\<lambda>_. 0)\<lparr>line :=
       ''frmr:rsp  < ca=12 pf=151 ctrl=03, nr=1 ns=2 ''\<rparr>)"
proof -
  let ?s = "start_state (frame_at [0x12, 0x97, 0x64]) (\<lambda>_. 0)"
  have reg: "region ?s 0 [0x12, 0x97, 0x64]"
    by (simp add: region_def start_state_def frame_at_def less_Suc_eq)
  have out: "''frmr:'' @ cmd_rsp False @ ''  '' @ arrow False @ '' ca='' @ fmt_02x (uint (0x12 :: byte)) @
      '' pf='' @ fmt_d (uint (0x97 :: byte)) @ '' ctrl='' @ fmt_02x (next_recv 0x64) @ '', nr='' @
      fmt_d (uint (1 :: byte)) @ '' ns='' @ fmt_d (next_send 0x64) @ '' '' =
      ''frmr:rsp  < ca=12 pf=151 ctrl=03, nr=1 ns=2 ''" by code_simp
  show ?thesis
    unfolding frmr_fields_misplaced [OF reg] out by (simp add: start_state_def)
qed


section \<open>The sequence counters and the frame's own bytes\<close>

definition counters :: "dump \<Rightarrow> int \<times> int \<times> int \<times> int" where
  "counters s = (self_nr s, self_ns s, peer_nr s, peer_ns s)"

lemma counters_simps [simp]:
  "counters (s\<lparr>line := l\<rparr>) = counters s" "counters (s\<lparr>buf := b\<rparr>) = counters s"
  "counters (s\<lparr>console := k\<rparr>) = counters s" "counters (s\<lparr>last_command := c\<rparr>) = counters s"
  "counters (s\<lparr>last_ias := q\<rparr>) = counters s" "counters (s\<lparr>conn_cache := i\<rparr>) = counters s"
  "counters (s\<lparr>conn := cs\<rparr>) = counters s"
  by (simp_all add: counters_def)

lemma counters_ok_alt: "counters_ok = (\<lambda>s. case counters s of (a, b, c, d) \<Rightarrow>
    0 \<le> a \<and> a < 8 \<and> 0 \<le> b \<and> b < 8 \<and> 0 \<le> c \<and> c < 8 \<and> 0 \<le> d \<and> d < 8)"
  by (simp add: fun_eq_iff counters_ok_def counters_def)

lemma keeps_counters_ok: "keeps counters m \<Longrightarrow> preserves counters_ok m"
  unfolding counters_ok_alt by (rule preserves_keeps)

lemma keeps_qos:
  assumes "\<And>s l. g (s\<lparr>line := l\<rparr>) = g s" "\<And>s l. g (s\<lparr>console := l\<rparr>) = g s" "\<And>n. keeps g (pull n)"
  shows "keeps g parse_i_field"
proof -
  have "keeps g (irlap_param pi pl n)" for pi pl n
    using assms by (simp add: irlap_param_def qos_item_def byte_value_def msb_index_def index_value_def
        keeps_intro)
  then show ?thesis
    unfolding parse_i_field_def parse_irlap_params_def by (intro keeps_intro assms)
qed

lemma keeps_u_frame:
  assumes "\<And>s l. g (s\<lparr>line := l\<rparr>) = g s" "\<And>s l. g (s\<lparr>console := l\<rparr>) = g s"
    "\<And>n. keeps g (pull n)" "\<And>s c. g (s\<lparr>last_command := c\<rparr>) = g s" "\<And>s cs. g (s\<lparr>conn := cs\<rparr>) = g s"
    and "\<And>c t. keeps g (parse_xid_frame c t) \<or> ctrl \<noteq> 0xaf \<and> ctrl \<noteq> 0x2f"
  shows "keeps g (parse_u_frame ctrl caddr cmd pf type)"
proof -
  have g: "keeps g (garbage_connection caddr)"
    unfolding garbage_connection_def by (intro keeps_modify assms)
  note base = keeps_intro assms(1-5) keeps_qos keeps_parse_ui_irlmp g
  have "keeps g (parse_snrm_frame caddr cmd pf type)" "keeps g (parse_rnrm_frame caddr cmd pf type)"
    "keeps g (parse_dm_frame caddr cmd pf type)" "keeps g (parse_disc_frame caddr cmd pf type)"
    "keeps g (parse_rd_frame caddr cmd pf type)" "keeps g (parse_test_frame caddr cmd pf type)"
    "keeps g (parse_ua_frame caddr cmd pf type)" "keeps g (parse_frmr_frame caddr cmd pf type)"
    "keeps g (parse_ui_frame caddr cmd pf type)"
    unfolding u_frame_defs Let_def by (intro base)+
  then show ?thesis
    using assms(6) [of cmd type] assms(1) by (auto simp: parse_u_frame_def intro: keeps_say)
qed

lemma counters_ok_modify:
  "0 \<le> n \<Longrightarrow> n < 8 \<Longrightarrow> preserves counters_ok (modify (\<lambda>s. s\<lparr>self_nr := n\<rparr>))"
  "0 \<le> n \<Longrightarrow> n < 8 \<Longrightarrow> preserves counters_ok (modify (\<lambda>s. s\<lparr>self_ns := n\<rparr>))"
  "0 \<le> n \<Longrightarrow> n < 8 \<Longrightarrow> preserves counters_ok (modify (\<lambda>s. s\<lparr>peer_nr := n\<rparr>))"
  "0 \<le> n \<Longrightarrow> n < 8 \<Longrightarrow> preserves counters_ok (modify (\<lambda>s. s\<lparr>peer_ns := n\<rparr>))"
  by (auto simp: preserves_def modify_def counters_ok_def)

lemma preserves_counters: "preserves counters_ok (parse_irlap_frame type)"
proof -
  have basic: "preserves counters_ok (say t)" "preserves counters_ok (rd i)" "preserves counters_ok (pull n)"
    "preserves counters_ok (parse_irlmp a b c)" for t i n a b c
    by (intro keeps_counters_ok keeps_intro keeps_parse_irlmp; simp)+
  have xid: "keeps counters (parse_xid_frame c t)" for c t
    unfolding parse_xid_frame_def xid_info_def xid_print_info_def
    by (auto intro!: keeps_intro split: option.split)
  have u: "preserves counters_ok (parse_u_frame ctrl caddr cmd pf type)" for ctrl caddr cmd pf
    by (intro keeps_counters_ok keeps_u_frame) (simp_all add: xid)
  note upd = counters_ok_modify [OF counter_fields(1,2)] counters_ok_modify [OF counter_fields(3,4)]
  have s: "preserves counters_ok (parse_s_frame ctrl caddr cmd pf type)" for ctrl caddr cmd pf
    unfolding parse_s_frame_def parse_rr_frame_def parse_rnr_frame_def parse_rej_frame_def
      parse_srej_frame_def report_lost_def Let_def
    by (intro preserves_intro basic upd)
  have i: "preserves counters_ok (parse_i_frame caddr cmd pf type)" for caddr cmd pf
    unfolding parse_i_frame_def track_i_frame_def report_lost_def Let_def
    by (intro preserves_intro basic upd)
  show ?thesis
    unfolding parse_irlap_frame_def Let_def by (intro preserves_intro basic i s u)
qed


text \<open>The cells of the frame buffer's block and its size.\<close>

definition block :: "dump \<Rightarrow> (nat \<Rightarrow> byte) \<times> u32" where
  "block s = (nb_mem (buf s), nb_truesize (buf s))"

lemma block_simps [simp]:
  "block (s\<lparr>line := l\<rparr>) = block s" "block (s\<lparr>console := k\<rparr>) = block s"
  "block (s\<lparr>last_command := c\<rparr>) = block s" "block (s\<lparr>last_ias := q\<rparr>) = block s"
  "block (s\<lparr>conn_cache := i\<rparr>) = block s" "block (s\<lparr>conn := cs\<rparr>) = block s"
  "block (s\<lparr>self_nr := n\<rparr>) = block s" "block (s\<lparr>self_ns := n\<rparr>) = block s"
  "block (s\<lparr>peer_nr := n\<rparr>) = block s" "block (s\<lparr>peer_ns := n\<rparr>) = block s"
  by (simp_all add: block_def)

lemma keeps_block_pull: "keeps block (pull n)"
  by (auto simp: keeps_def block_def pull_def on_buf_def g_netbuf_pull_def Let_def split: if_splits)

text \<open>A frame ends where it ended and its bytes are what they were.\<close>

definition same_frame :: "netbuf \<Rightarrow> dump \<Rightarrow> bool" where
  "same_frame b s \<longleftrightarrow> nb_truesize (buf s) = nb_truesize b \<and>
     (\<forall>i < nb_data b + unat (nb_len b). nb_mem (buf s) i = nb_mem b i)"

lemma xid_keeps_frame:
  assumes "parse_xid_frame c t s = Inr (x, s')"
  shows "same_frame (buf s) s'"
proof -
  let ?P = "\<lambda>s1. same_frame (buf s) s1 \<and> nb_data (buf s1) + unat (nb_len (buf s1)) = nb_data (buf s) + unat (nb_len (buf s))"
  have basic: "preserves ?P (say u)" "preserves ?P (rd i)" "preserves ?P (rd32_le i)"
    "preserves ?P (say_frame_string i)" for u i
    by (auto simp: preserves_def say_def modify_def rd_def rd32_le_def bnd_def ret_def Let_def
        say_frame_string_def same_frame_def split: if_splits sum.splits)
  have w: "preserves ?P (bnd (gets (\<lambda>s. unat (nb_len (buf s)))) (\<lambda>len. seq (wr len 0) (ret y)))" for y :: "byte \<times> byte \<times> nat"
    by (auto simp: preserves_def bnd_def seq_def gets_def wr_def ret_def Let_def same_frame_def split: if_splits)
  have "preserves ?P xid_info"
    unfolding xid_info_def by (intro preserves_intro basic) (auto intro!: w split: prod.split)
  then have "preserves ?P (parse_xid_frame c t)"
    unfolding parse_xid_frame_def xid_print_info_def
    by (intro preserves_intro basic) (auto intro!: preserves_intro basic split: option.split)
  from preservesD [OF this _ assms] show ?thesis by (simp add: same_frame_def)
qed

lemma irlap_keeps_frame:
  assumes "parse_irlap_frame type s = Inr (x, s')"
  shows "same_frame (buf s) s'"
proof -
  have in_block: "nb_data (buf s) + 1 < unat (nb_truesize (buf s))"
    using assms by (auto simp: parse_irlap_frame_def bnd_def rd_def Let_def split: if_splits)
  have blk: "same_frame (buf s) s'" if "keeps block m" "m s = Inr (x, s')" for m :: "unit dprog"
    using keepsD [OF that] by (auto simp: same_frame_def block_def)
  have i: "keeps block (parse_i_frame caddr cmd pf type)" for caddr cmd pf
    unfolding parse_i_frame_def track_i_frame_def report_lost_def Let_def
    by (intro keeps_intro keeps_modify keeps_parse_irlmp keeps_block_pull) simp_all
  have sf: "keeps block (parse_s_frame ctrl caddr cmd pf type)" for ctrl caddr cmd pf
    by (simp add: parse_s_frame_def parse_rr_frame_def parse_rnr_frame_def parse_rej_frame_def
        parse_srej_frame_def report_lost_def Let_def keeps_intro keeps_modify)
  have u: "keeps block (parse_u_frame ctrl caddr cmd pf type)" if "ctrl \<noteq> 0xaf" "ctrl \<noteq> 0x2f" for ctrl caddr cmd pf
    by (intro keeps_u_frame keeps_block_pull) (simp_all add: that)
  show ?thesis
  proof (cases "ctrl_byte s \<in> {0x2f, 0xaf}")
    case True
    then have "NOT (ctrl_byte s) AND 0x01 = 0" "NOT (ctrl_byte s) AND 0x02 = 0" by auto
    with True assms show ?thesis
      by (auto simp: parse_irlap_frame_run [OF in_block] Let_def parse_u_frame_def intro: xid_keeps_frame)
  next
    case False
    with assms show ?thesis
      by (auto simp: parse_irlap_frame_run [OF in_block] Let_def split: if_splits intro: blk [OF i] blk [OF sf] blk [OF u])
  qed
qed


lemma keeps_config: "keeps config (parse_irlap_frame type)"
proof -
  have i: "keeps config (parse_i_frame caddr cmd pf type)" for caddr cmd pf
    unfolding parse_i_frame_def track_i_frame_def report_lost_def Let_def
    by (intro keeps_intro keeps_modify keeps_parse_irlmp) simp_all
  have s: "keeps config (parse_s_frame ctrl caddr cmd pf type)" for ctrl caddr cmd pf
    by (simp add: parse_s_frame_def parse_rr_frame_def parse_rnr_frame_def parse_rej_frame_def
        parse_srej_frame_def report_lost_def Let_def keeps_intro keeps_modify)
  have xid: "keeps config (parse_xid_frame c t)" for c t
    unfolding parse_xid_frame_def xid_info_def xid_print_info_def
    by (auto intro!: keeps_intro split: option.split)
  have u: "keeps config (parse_u_frame ctrl caddr cmd pf type)" for ctrl caddr cmd pf
    by (intro keeps_u_frame) (simp_all add: xid)
  show ?thesis unfolding parse_irlap_frame_def Let_def by (intro keeps_intro i s u)
qed

end
