(* ===== verification/Capture.thy ===== *)
theory Capture
  imports Dump_State
begin

text \<open>
  The capture files of \<^verbatim>\<open>irda-utils/irdadump/capture.c\<close>: the file header, the record header and the
  cooked packet header are C structures written and read as they lie in memory, so that the byte order
  of the host is a parameter of the model. A capture file being written is the list of
  bytes written so far; \<open>write_results\<close> is what the next calls of \<^verbatim>\<open>write\<close> return (a negative value is an
  error, a smaller count a short write; an exhausted list means that all is written). A file being read is
  the list of bytes left.
\<close>

section \<open>Host representation of the structures\<close>

datatype endian = Little | Big

definition h16_bytes :: "endian \<Rightarrow> u16 \<Rightarrow> byte list" where
  "h16_bytes e w = (if e = Little then rev (be16_bytes w) else be16_bytes w)"

definition h32_bytes :: "endian \<Rightarrow> u32 \<Rightarrow> byte list" where
  "h32_bytes e w = (if e = Little then rev (be32_bytes w) else be32_bytes w)"

definition h16_at :: "endian \<Rightarrow> byte list \<Rightarrow> nat \<Rightarrow> u16" where
  "h16_at e bs i = (if e = Little then le16 (bs ! i) (bs ! (i + 1)) else be16 (bs ! i) (bs ! (i + 1)))"

definition h32_at :: "endian \<Rightarrow> byte list \<Rightarrow> nat \<Rightarrow> u32" where
  "h32_at e bs i =
     (if e = Little then le32 (bs ! i) (bs ! (i + 1)) (bs ! (i + 2)) (bs ! (i + 3))
      else be32 (bs ! i) (bs ! (i + 1)) (bs ! (i + 2)) (bs ! (i + 3)))"

text \<open>\<^verbatim>\<open>htons\<close> and \<^verbatim>\<open>ntohs\<close>.\<close>

definition htons :: "endian \<Rightarrow> u16 \<Rightarrow> u16" where
  "htons e w = (if e = Little then be16 (ucast w) (ucast (drop_bit 8 w)) else w)"

record pcap_hdr =
  magic :: u32
  version_major :: u16
  version_minor :: u16
  thiszone :: u32
  sigfigs :: u32
  snaplen :: u32
  network :: u32

record pcaprec_hdr =
  ts_sec :: u32
  ts_usec :: u32
  incl_len :: u32
  orig_len :: u32

record sll_header =
  h_pkttype :: u16
  h_hatype :: u16
  h_halen :: u16
  h_addr :: "byte list"
  h_protocol :: u16

record sockaddr_ll =
  sll_protocol :: u16
  sll_ifindex :: int
  sll_hatype :: u16
  sll_pkttype :: byte
  sll_halen :: byte
  sll_addr :: "byte list"

record timeval =
  tv_sec :: int
  tv_usec :: int

definition fileHeader :: pcap_hdr where
  "fileHeader = \<lparr>magic = 0xa1b2c3d4, version_major = 2, version_minor = 0, thiszone = 0, sigfigs = 0,
     snaplen = 2050 + 16, network = 144\<rparr>"

definition pcap_hdr_bytes :: "endian \<Rightarrow> pcap_hdr \<Rightarrow> byte list" where
  "pcap_hdr_bytes e h = h32_bytes e (magic h) @ h16_bytes e (version_major h) @
     h16_bytes e (version_minor h) @ h32_bytes e (thiszone h) @ h32_bytes e (sigfigs h) @
     h32_bytes e (snaplen h) @ h32_bytes e (network h)"

definition pcaprec_hdr_bytes :: "endian \<Rightarrow> pcaprec_hdr \<Rightarrow> byte list" where
  "pcaprec_hdr_bytes e h = h32_bytes e (ts_sec h) @ h32_bytes e (ts_usec h) @
     h32_bytes e (incl_len h) @ h32_bytes e (orig_len h)"

definition sll_header_bytes :: "endian \<Rightarrow> sll_header \<Rightarrow> byte list" where
  "sll_header_bytes e h = h16_bytes e (h_pkttype h) @ h16_bytes e (h_hatype h) @
     h16_bytes e (h_halen h) @ h_addr h @ h16_bytes e (h_protocol h)"

section \<open>Files\<close>

record cap_files =
  cap_in :: "byte list"
  cap_out :: "byte list"
  write_results :: "int list"

definition write_file :: "byte list \<Rightarrow> (cap_files, int) prog" where
  "write_file bs = (\<lambda>s.
     case write_results s of
       [] \<Rightarrow> Inr (int (length bs), s\<lparr>cap_out := cap_out s @ bs\<rparr>)
     | r # rs \<Rightarrow>
         if r < 0 then Inr (-1, s\<lparr>write_results := rs\<rparr>)
         else Inr (int (min (nat r) (length bs)),
                s\<lparr>cap_out := cap_out s @ take (nat r) bs, write_results := rs\<rparr>))"

text \<open>\<^verbatim>\<open>read\<close> of a regular file: as many bytes as asked for, or what is left.\<close>

definition read_file :: "nat \<Rightarrow> (cap_files, byte list) prog" where
  "read_file n = (\<lambda>s. Inr (take n (cap_in s), s\<lparr>cap_in := drop n (cap_in s)\<rparr>))"

text \<open>The conversion of an \<^verbatim>\<open>int\<close> to \<^verbatim>\<open>size_t\<close>.\<close>

definition size_t :: "int \<Rightarrow> nat" where
  "size_t n = (if n < 0 then nat (2 ^ 64 + n) else nat n)"

section \<open>Writing\<close>

definition capwrite_init :: "endian \<Rightarrow> (cap_files, int) prog" where
  "capwrite_init e =
     bnd (write_file (pcap_hdr_bytes e fileHeader)) (\<lambda>r.
     if r < 0 then ret (-1) else ret 0)"

text \<open>
  \<open>hdr\<close> is the header before the call: bytes of the address that are not copied stay what they were.
  A link-layer address has eight bytes.
\<close>

definition capwrite_fillsll :: "endian \<Rightarrow> sll_header \<Rightarrow> sockaddr_ll \<Rightarrow> sll_header" where
  "capwrite_fillsll e hdr from =
     (let t = sll_pkttype from;
          n = (if 8 < unat (sll_halen from) then 8 else unat (sll_halen from))
      in hdr\<lparr>h_pkttype :=
               (if t = 0 then htons e 0 else if t = 1 then htons e 1 else if t = 2 then htons e 2
                else if t = 3 then htons e 3 else if t = 4 then htons e 4 else - 1),
             h_hatype := htons e (sll_hatype from),
             h_halen := htons e (ucast (sll_halen from)),
             h_addr := take n (sll_addr from) @ drop n (h_addr hdr),
             h_protocol := sll_protocol from\<rparr>)"

text \<open>The bytes from \<^verbatim>\<open>frame_buf->head\<close> on.\<close>

definition head_bytes :: "netbuf \<Rightarrow> nat \<Rightarrow> (cap_files, byte list) prog" where
  "head_bytes b n = (if unat (nb_truesize b) < n then fault (Frame_Bounds (unat (nb_truesize b)))
     else ret (map (nb_mem b) [0..<n]))"

text \<open>\<open>hdr0\<close> is what the local \<^verbatim>\<open>psd_hdr\<close> holds before it is filled.\<close>

definition capwrite_dump :: "endian \<Rightarrow> sll_header \<Rightarrow> netbuf \<Rightarrow> int \<Rightarrow> sockaddr_ll \<Rightarrow> timeval \<Rightarrow> (cap_files, int) prog" where
  "capwrite_dump e hdr0 frame_buf len from curr_time =
     (let n = of_int len + 16;
          rec_hdr = \<lparr>ts_sec = of_int (tv_sec curr_time), ts_usec = of_int (tv_usec curr_time),
            incl_len = n, orig_len = n\<rparr>;
          psd_hdr = capwrite_fillsll e hdr0 from
      in bnd (write_file (pcaprec_hdr_bytes e rec_hdr)) (\<lambda>r1.
         if r1 < 0 then fault (Exit_With (-1))
         else bnd (write_file (sll_header_bytes e psd_hdr)) (\<lambda>r2.
         if r2 < 0 then fault (Exit_With (-1))
         else bnd (head_bytes frame_buf (size_t len)) (\<lambda>bs.
         bnd (write_file bs) (\<lambda>r3.
         if r3 < 0 then fault (Exit_With (-1))
         else ret 0)))))"

section \<open>Reading\<close>

definition capread_check :: "endian \<Rightarrow> (cap_files, int) prog" where
  "capread_check e =
     bnd (read_file 24) (\<lambda>h.
     if length h \<noteq> 24 then ret (-1)
     else if h32_at e h 0 \<noteq> magic fileHeader \<or> h16_at e h 4 \<noteq> version_major fileHeader \<or>
       h16_at e h 6 \<noteq> version_minor fileHeader \<or> h32_at e h 20 \<noteq> network fileHeader
     then ret (-1)
     else ret 0)"

text \<open>The objects \<^verbatim>\<open>capread_get\<close> is given pointers to.\<close>

record cap_frame =
  cf_buf :: netbuf
  cf_len :: int
  cf_dir :: bool
  cf_prot :: int
  cf_time :: timeval

definition store_head :: "byte list \<Rightarrow> netbuf \<Rightarrow> (cap_files, netbuf) prog" where
  "store_head bs b = (if unat (nb_truesize b) < length bs then fault (Frame_Bounds (unat (nb_truesize b)))
     else ret (b\<lparr>nb_mem := (\<lambda>i. if i < length bs then bs ! i else nb_mem b i)\<rparr>))"

definition capread_get :: "endian \<Rightarrow> cap_frame \<Rightarrow> (cap_files, int \<times> cap_frame) prog" where
  "capread_get e cf =
     bnd (read_file 16) (\<lambda>rec_hdr.
     if length rec_hdr \<noteq> 16 then ret (-1, cf)
     else
       let cf1 = cf\<lparr>cf_time := \<lparr>tv_sec = uint (h32_at e rec_hdr 0), tv_usec = uint (h32_at e rec_hdr 4)\<rparr>,
                    cf_len := sint (h32_at e rec_hdr 12 - 16)\<rparr>
       in bnd (read_file 16) (\<lambda>psd_hdr.
          if length psd_hdr \<noteq> 16 then ret (-1, cf1)
          else
            let cf2 = cf1\<lparr>cf_dir := h16_at e psd_hdr 0 \<noteq> 0, cf_prot := uint (h16_at e psd_hdr 14)\<rparr>
            in bnd (read_file (size_t (cf_len cf2))) (\<lambda>bs.
               bnd (store_head bs (cf_buf cf2)) (\<lambda>b.
               let cf3 = cf2\<lparr>cf_buf := b\<rparr>
               in if int (length bs) \<noteq> cf_len cf3 then ret (-1, cf3) else ret (0, cf3)))))"

section \<open>Representation lemmas\<close>

lemma length_host_bytes [simp]: "length (h16_bytes e w) = 2" "length (h32_bytes e v) = 4"
  by (simp_all add: h16_bytes_def h32_bytes_def be16_bytes_def be32_bytes_def)

lemma h16_at_bytes: "length pre = i \<Longrightarrow> h16_at e (pre @ h16_bytes e w @ post) i = w"
  by (auto simp: h16_at_def h16_bytes_def be16_bytes_def le16_def nth_append be16_split)

lemma h32_at_bytes: "length pre = i \<Longrightarrow> h32_at e (pre @ h32_bytes e w @ post) i = w"
  by (auto simp: h32_at_def h32_bytes_def be32_bytes_def le32_def nth_append be32_split)

lemma htons_involution: "htons e (htons e w) = w"
proof -
  have "be16 (ucast (be16 (ucast w) (ucast (drop_bit 8 w))))
      (ucast (drop_bit 8 (be16 (ucast w) (ucast (drop_bit 8 w))))) = w"
    by (rule bit_word_eqI) (auto simp: be16_def bit_simps)
  then show ?thesis by (simp add: htons_def)
qed

section \<open>A log of records\<close>

text \<open>Appending a list of records; reading at most \<open>n\<close> records, up to the end of the file.\<close>

fun put_all :: "('r \<Rightarrow> (cap_files, int) prog) \<Rightarrow> 'r list \<Rightarrow> (cap_files, unit) prog" where
  "put_all put [] = skip"
| "put_all put (r # rs) = seq (put r) (put_all put rs)"

fun get_all :: "(cap_files, 'q option) prog \<Rightarrow> nat \<Rightarrow> (cap_files, 'q list) prog" where
  "get_all get 0 = ret []"
| "get_all get (Suc n) =
     bnd get (\<lambda>q. case q of None \<Rightarrow> ret [] | Some x \<Rightarrow> bnd (get_all get n) (\<lambda>xs. ret (x # xs)))"

text \<open>
  What a client of the two files relies on: a record is appended as a fixed encoding, and the reader,
  started in front of an encoding, returns the record's image and stops behind it.
\<close>

locale frame_log =
  fixes put :: "'r \<Rightarrow> (cap_files, int) prog"
    and get :: "(cap_files, 'q option) prog"
    and enc :: "'r \<Rightarrow> byte list"
    and image :: "'r \<Rightarrow> 'q"
    and storable :: "'r \<Rightarrow> bool"
  assumes put_law: "storable r \<Longrightarrow> write_results s = [] \<Longrightarrow>
      put r s = Inr (0, s\<lparr>cap_out := cap_out s @ enc r\<rparr>)"
    and get_law: "storable r \<Longrightarrow> cap_in s = enc r @ rest \<Longrightarrow>
      get s = Inr (Some (image r), s\<lparr>cap_in := rest\<rparr>)"
    and get_end: "cap_in s = [] \<Longrightarrow> get s = Inr (None, s)"
begin

lemma put_all_appends:
  "list_all storable rs \<Longrightarrow> write_results s = [] \<Longrightarrow>
   put_all put rs s = Inr ((), s\<lparr>cap_out := cap_out s @ concat (map enc rs)\<rparr>)"
  by (induction rs arbitrary: s) (auto simp: put_law prog_defs)

lemma get_all_reads:
  "list_all storable rs \<Longrightarrow> length rs < n \<Longrightarrow> cap_in s = concat (map enc rs) \<Longrightarrow>
   get_all get n s = Inr (map image rs, s\<lparr>cap_in := []\<rparr>)"
proof (induction rs arbitrary: s n)
  case Nil
  then obtain m where "n = Suc m" by (cases n) auto
  with Nil show ?case by (simp add: get_end prog_defs)
next
  case (Cons r rs)
  then obtain m where n: "n = Suc m" by (cases n) auto
  have "get s = Inr (Some (image r), s\<lparr>cap_in := concat (map enc rs)\<rparr>)"
    using Cons.prems get_law [of r s "concat (map enc rs)"] by simp
  with Cons n show ?case by (simp add: prog_defs)
qed

text \<open>Everything written is read back, in order, and then the end of the file is seen.\<close>

lemma log_roundtrip:
  assumes "list_all storable rs" "write_results s = []" "cap_out s = []" "length rs < n"
  shows "\<exists>s'. put_all put rs s = Inr ((), s') \<and> (\<forall>t. cap_in t = cap_out s' \<longrightarrow>
    get_all get n t = Inr (map image rs, t\<lparr>cap_in := []\<rparr>))"
  using assms by (simp add: put_all_appends get_all_reads)

end

section \<open>The capture file as a log\<close>

text \<open>A frame as it is captured: its bytes, its packet address, its time stamp.\<close>

record captured =
  c_data :: "byte list"
  c_from :: sockaddr_ll
  c_time :: timeval

definition storable :: "captured \<Rightarrow> bool" where
  "storable r \<longleftrightarrow> length (c_data r) \<le> 2050 \<and> length (sll_addr (c_from r)) = 8 \<and>
     0 \<le> tv_sec (c_time r) \<and> tv_sec (c_time r) < 2 ^ 32 \<and>
     0 \<le> tv_usec (c_time r) \<and> tv_usec (c_time r) < 2 ^ 32"

definition zero_sll :: sll_header where
  "zero_sll = \<lparr>h_pkttype = 0, h_hatype = 0, h_halen = 0, h_addr = replicate 8 0, h_protocol = 0\<rparr>"

definition captured_bytes :: "endian \<Rightarrow> sll_header \<Rightarrow> captured \<Rightarrow> byte list" where
  "captured_bytes e hdr0 r =
     (let n = of_nat (length (c_data r)) + 16
      in pcaprec_hdr_bytes e \<lparr>ts_sec = of_int (tv_sec (c_time r)), ts_usec = of_int (tv_usec (c_time r)),
           incl_len = n, orig_len = n\<rparr> @
         sll_header_bytes e (capwrite_fillsll e hdr0 (c_from r)) @ c_data r)"

lemma frame_head: "length bs \<le> 2050 \<Longrightarrow> map (nb_mem (frame_at bs)) [0..<length bs] = bs"
  by (intro nth_equalityI) (simp_all add: frame_at_def)

lemma capwrite_dump_appends:
  assumes "length (c_data r) \<le> unat (nb_truesize b)" "map (nb_mem b) [0..<length (c_data r)] = c_data r"
    and "write_results s = []"
  shows "capwrite_dump e hdr0 b (int (length (c_data r))) (c_from r) (c_time r) s =
    Inr (0, s\<lparr>cap_out := cap_out s @ captured_bytes e hdr0 r\<rparr>)"
proof -
  have "head_bytes b (size_t (int (length (c_data r)))) = ret (c_data r)"
    using assms(1,2) by (simp add: head_bytes_def size_t_def)
  with assms(3) show ?thesis
    by (simp add: capwrite_dump_def write_file_def captured_bytes_def prog_defs Let_def)
qed

lemma length_captured_headers:
  "length (pcaprec_hdr_bytes e h) = 16" "length (h_addr k) = 8 \<Longrightarrow> length (sll_header_bytes e k) = 16"
  by (simp_all add: pcaprec_hdr_bytes_def sll_header_bytes_def)

lemma rec_fields:
  "h32_at e (pcaprec_hdr_bytes e h) 0 = ts_sec h" "h32_at e (pcaprec_hdr_bytes e h) 4 = ts_usec h"
  "h32_at e (pcaprec_hdr_bytes e h) 12 = orig_len h"
  using h32_at_bytes [of "[]" 0 e "ts_sec h" "h32_bytes e (ts_usec h) @ h32_bytes e (incl_len h) @ h32_bytes e (orig_len h)"]
    h32_at_bytes [of "h32_bytes e (ts_sec h)" 4 e "ts_usec h" "h32_bytes e (incl_len h) @ h32_bytes e (orig_len h)"]
    h32_at_bytes [of "h32_bytes e (ts_sec h) @ h32_bytes e (ts_usec h) @ h32_bytes e (incl_len h)" 12 e "orig_len h" "[]"]
  by (simp_all add: pcaprec_hdr_bytes_def)

lemma sll_fields:
  "h16_at e (sll_header_bytes e k) 0 = h_pkttype k"
  "length (h_addr k) = 8 \<Longrightarrow> h16_at e (sll_header_bytes e k) 14 = h_protocol k"
  using h16_at_bytes [of "[]" 0 e "h_pkttype k" "h16_bytes e (h_hatype k) @ h16_bytes e (h_halen k) @ h_addr k @ h16_bytes e (h_protocol k)"]
    h16_at_bytes [of "h16_bytes e (h_pkttype k) @ h16_bytes e (h_hatype k) @ h16_bytes e (h_halen k) @ h_addr k" 14 e "h_protocol k" "[]"]
  by (simp_all add: sll_header_bytes_def)

lemma htons_zero: "htons e w = 0 \<longleftrightarrow> w = 0"
proof -
  have "htons e 0 = 0" by (cases e) (simp_all add: htons_def be16_def)
  then show ?thesis by (metis htons_involution)
qed

lemma fillsll_fields:
  assumes "length (sll_addr from) = 8" "length (h_addr hdr0) = 8"
  shows "length (h_addr (capwrite_fillsll e hdr0 from)) = 8"
    and "h_pkttype (capwrite_fillsll e hdr0 from) = 0 \<longleftrightarrow> sll_pkttype from = 0"
    and "h_protocol (capwrite_fillsll e hdr0 from) = sll_protocol from"
  using assms by (simp_all add: capwrite_fillsll_def Let_def htons_zero)

lemma sint_small_u32: "n < 2 ^ 31 \<Longrightarrow> sint (of_nat n :: u32) = int n"
  by (simp add: signed_of_nat signed_take_bit_int_eq_self)

text \<open>What \<^verbatim>\<open>capread_get\<close> delivers of a captured frame.\<close>

definition delivered :: "netbuf \<Rightarrow> captured \<Rightarrow> cap_frame" where
  "delivered b r = \<lparr>cf_buf = b\<lparr>nb_mem := (\<lambda>i. if i < length (c_data r) then c_data r ! i else nb_mem b i)\<rparr>,
     cf_len = int (length (c_data r)), cf_dir = (sll_pkttype (c_from r) \<noteq> 0),
     cf_prot = uint (sll_protocol (c_from r)), cf_time = c_time r\<rparr>"

lemma capread_get_delivers:
  assumes "storable r" "length (h_addr hdr0) = 8" "nb_truesize (cf_buf cf) = 2050"
    and "cap_in s = captured_bytes e hdr0 r @ rest"
  shows "capread_get e cf s = Inr ((0, delivered (cf_buf cf) r), s\<lparr>cap_in := rest\<rparr>)"
proof -
  let ?n = "length (c_data r)"
  let ?h = "\<lparr>ts_sec = of_int (tv_sec (c_time r)), ts_usec = of_int (tv_usec (c_time r)),
    incl_len = of_nat ?n + 16, orig_len = of_nat ?n + 16\<rparr> :: pcaprec_hdr"
  let ?k = "capwrite_fillsll e hdr0 (c_from r)"
  have st: "?n \<le> 2050" "length (sll_addr (c_from r)) = 8" using assms(1) by (auto simp: storable_def)
  note k = fillsll_fields [OF st(2) assms(2), of e]
  have l: "length (pcaprec_hdr_bytes e ?h) = 16" "length (sll_header_bytes e ?k) = 16"
    using length_captured_headers k(1) by auto
  have inp: "cap_in s = pcaprec_hdr_bytes e ?h @ sll_header_bytes e ?k @ c_data r @ rest"
    using assms(4) by (simp add: captured_bytes_def Let_def)
  have len: "sint (orig_len ?h - 16) = int ?n" using st(1) by (simp add: sint_small_u32)
  have tm: "uint (ts_sec ?h) = tv_sec (c_time r)" "uint (ts_usec ?h) = tv_usec (c_time r)"
    using assms(1) by (simp_all add: storable_def uint_word_of_int_eq take_bit_int_eq_self)
  have r3: "read_file (size_t (int ?n)) (s\<lparr>cap_in := c_data r @ rest\<rparr>) = Inr (c_data r, s\<lparr>cap_in := rest\<rparr>)"
    by (simp add: read_file_def size_t_def)
  have r2: "read_file 16 (s\<lparr>cap_in := sll_header_bytes e ?k @ c_data r @ rest\<rparr>) =
      Inr (sll_header_bytes e ?k, s\<lparr>cap_in := c_data r @ rest\<rparr>)"
    by (simp add: read_file_def l)
  have r1: "read_file 16 s = Inr (pcaprec_hdr_bytes e ?h, s\<lparr>cap_in := sll_header_bytes e ?k @ c_data r @ rest\<rparr>)"
    by (simp add: read_file_def l inp)
  show ?thesis
    using r1 r2 r3 l len tm k st(1) assms(3)
    by (cases cf) (simp add: capread_get_def bnd_def ret_def Let_def rec_fields sll_fields store_head_def
        delivered_def cong: if_cong)
qed

text \<open>Reading with one fixed buffer, as a log: \<open>None\<close> when \<^verbatim>\<open>capread_get\<close> reports the end or an error.\<close>

definition log_put :: "endian \<Rightarrow> sll_header \<Rightarrow> captured \<Rightarrow> (cap_files, int) prog" where
  "log_put e hdr0 r =
     capwrite_dump e hdr0 (frame_at (c_data r)) (int (length (c_data r))) (c_from r) (c_time r)"

definition log_get :: "endian \<Rightarrow> cap_frame \<Rightarrow> (cap_files, cap_frame option) prog" where
  "log_get e cf = bnd (capread_get e cf) (\<lambda>(r, cf'). ret (if r < 0 then None else Some cf'))"

definition fresh_frame :: cap_frame where
  "fresh_frame = \<lparr>cf_buf = frame_at [], cf_len = 0, cf_dir = False, cf_prot = 0,
     cf_time = \<lparr>tv_sec = 0, tv_usec = 0\<rparr>\<rparr>"

interpretation cap: frame_log "log_put e zero_sll" "log_get e fresh_frame" "captured_bytes e zero_sll"
    "delivered (frame_at [])" storable for e
proof unfold_locales
  fix r and s :: cap_files assume "storable r" "write_results s = []"
  then show "log_put e zero_sll r s = Inr (0, s\<lparr>cap_out := cap_out s @ captured_bytes e zero_sll r\<rparr>)"
    unfolding log_put_def
    by (intro capwrite_dump_appends) (auto simp: storable_def frame_head, simp add: frame_at_def)
next
  fix r rest and s :: cap_files assume r: "storable r" "cap_in s = captured_bytes e zero_sll r @ rest"
  have "capread_get e fresh_frame s = Inr ((0, delivered (cf_buf fresh_frame) r), s\<lparr>cap_in := rest\<rparr>)"
    by (rule capread_get_delivers [OF r(1) _ _ r(2)])
      (simp_all add: zero_sll_def fresh_frame_def frame_at_def)
  then show "log_get e fresh_frame s = Inr (Some (delivered (frame_at []) r), s\<lparr>cap_in := rest\<rparr>)"
    by (simp add: log_get_def bnd_def ret_def fresh_frame_def)
next
  fix s :: cap_files assume "cap_in s = []"
  then show "log_get e fresh_frame s = Inr (None, s)"
    by (cases s) (simp add: log_get_def capread_get_def read_file_def bnd_def ret_def)
qed

section \<open>Properties\<close>

text \<open>C6: A capture session is read back as it was written. Frames of up to 2050 bytes with 32-bit
  time stamps, written one after the other by \<^verbatim>\<open>capwrite_dump\<close> on a host of either byte order, are delivered
  by \<^verbatim>\<open>capread_get\<close> on a host of the same order in the order of writing, each with its bytes, its length, its
  direction, its time stamp and its protocol field, and then the end of the file is reported.\<close>

theorem capture_roundtrip:
  assumes "list_all storable rs" "write_results s = []" "cap_out s = []" "length rs < n"
  shows "\<exists>s'. put_all (log_put e zero_sll) rs s = Inr ((), s') \<and>
    (\<forall>t. cap_in t = cap_out s' \<longrightarrow> get_all (log_get e fresh_frame) n t = Inr (map (delivered (frame_at [])) rs, t\<lparr>cap_in := []\<rparr>))"
  using cap.log_roundtrip [OF assms] by blast

definition demo_capture :: "captured list" where
  "demo_capture =
     [\<lparr>c_data = [0x12, 0xb1], c_from = \<lparr>sll_protocol = 0x1700, sll_ifindex = 3, sll_hatype = 783,
        sll_pkttype = 4, sll_halen = 4, sll_addr = [1, 2, 3, 4, 0, 0, 0, 0]\<rparr>,
        c_time = \<lparr>tv_sec = 1000000000, tv_usec = 250000\<rparr>\<rparr>]"

theorem capture_roundtrip_witness:
  "\<exists>s'. put_all (log_put Little zero_sll) demo_capture \<lparr>cap_in = [], cap_out = [], write_results = []\<rparr> = Inr ((), s') \<and>
     get_all (log_get Little fresh_frame) 5 \<lparr>cap_in = cap_out s', cap_out = [], write_results = []\<rparr> =
       Inr (map (delivered (frame_at [])) demo_capture, \<lparr>cap_in = [], cap_out = [], write_results = []\<rparr>)"
proof -
  have "list_all storable demo_capture" "length demo_capture < 5"
    by (simp_all add: demo_capture_def storable_def)
  from capture_roundtrip [OF this(1) _ _ this(2), of "\<lparr>cap_in = [], cap_out = [], write_results = []\<rparr>" Little]
  show ?thesis by auto
qed

lemma length_pcap_hdr_bytes [simp]: "length (pcap_hdr_bytes e h) = 24"
  by (simp add: pcap_hdr_bytes_def)

text \<open>A capture file is accepted by the reader exactly on hosts of the byte order of the writer: the
  header \<^verbatim>\<open>capwrite_init\<close> writes passes \<^verbatim>\<open>capread_check\<close> on the same byte order and is refused with -1 on
  the other; after either answer the reader stands behind the header.\<close>

theorem capture_header_checked:
  "\<exists>f. capwrite_init e \<lparr>cap_in = [], cap_out = [], write_results = []\<rparr> = Inr (0, f) \<and>
     capread_check e' \<lparr>cap_in = cap_out f @ rest, cap_out = [], write_results = []\<rparr> =
       Inr (if e' = e then 0 else -1, \<lparr>cap_in = rest, cap_out = [], write_results = []\<rparr>)"
proof -
  let ?h = "pcap_hdr_bytes e fileHeader"
  have w: "capwrite_init e \<lparr>cap_in = [], cap_out = [], write_results = []\<rparr> =
      Inr (0, \<lparr>cap_in = [], cap_out = ?h, write_results = []\<rparr>)"
    by (simp add: capwrite_init_def write_file_def prog_defs)
  have "(h32_at e' ?h 0 \<noteq> magic fileHeader \<or> h16_at e' ?h 4 \<noteq> version_major fileHeader \<or>
      h16_at e' ?h 6 \<noteq> version_minor fileHeader \<or> h32_at e' ?h 20 \<noteq> network fileHeader) = (e' \<noteq> e)"
    by (cases e; cases e'; simp only:; code_simp)
  then show ?thesis
    by (auto simp: w capread_check_def read_file_def bnd_def ret_def)
qed

text \<open>The record length of a capture file is not compared with the size of the frame buffer: a record
  that announces and holds more than 2050 bytes makes \<^verbatim>\<open>capread_get\<close> write beyond the buffer's block.\<close>

theorem capture_record_overruns_buffer:
  assumes "cap_in s = pcaprec_hdr_bytes e h @ sll_header_bytes e k @ bs" "length (h_addr k) = 8"
    and "2050 < unat (orig_len h - 16)" "unat (orig_len h - 16) < 2 ^ 31" "2050 < length bs"
    and "nb_truesize (cf_buf cf) = 2050"
  shows "capread_get e cf s = Inl (Frame_Bounds 2050)"
proof -
  let ?n = "unat (orig_len h - 16)"
  have l: "length (pcaprec_hdr_bytes e h) = 16" "length (sll_header_bytes e k) = 16"
    using length_captured_headers assms(2) by auto
  have "sint (orig_len h - 16) = int ?n"
    using sint_small_u32 [OF assms(4)] by simp
  then have n: "size_t (sint (orig_len h - 16)) = ?n" by (simp add: size_t_def)
  have "store_head (take ?n bs) (cf_buf cf) = fault (Frame_Bounds 2050)"
    using assms(3,5,6) by (simp add: store_head_def)
  then show ?thesis
    using assms(1) l n by (simp add: capread_get_def read_file_def bnd_def Let_def rec_fields fault_def)
qed

theorem capture_record_overruns_buffer_witness:
  "capread_get Little fresh_frame \<lparr>cap_in = pcaprec_hdr_bytes Little \<lparr>ts_sec = 0, ts_usec = 0,
       incl_len = 4016, orig_len = 4016\<rparr> @ sll_header_bytes Little zero_sll @ replicate 4000 0,
       cap_out = [], write_results = []\<rparr> = Inl (Frame_Bounds 2050)"
  by (rule capture_record_overruns_buffer [where h = "\<lparr>ts_sec = 0, ts_usec = 0, incl_len = 4016, orig_len = 4016\<rparr>"
        and k = zero_sll and bs = "replicate 4000 0"])
    (simp_all add: zero_sll_def fresh_frame_def frame_at_def)

end
