(* ===== verification/Irdadump.thy ===== *)
theory Irdadump
  imports Irlap Capture "HOL-Library.Log_Nat"
begin

text \<open>
  The program \<^verbatim>\<open>irdadump\<close> around the parsers: \<^verbatim>\<open>irda-utils/irdadump/irdadump.c\<close> and \<^verbatim>\<open>main.c\<close>. The state \<open>tool\<close>
  adds to the parser's state the capture files, the two time stamps, the interface filter and what has
  been printed. A packet delivered by the kernel is an \<open>event\<close>; the results of the system calls made at
  start-up are a record \<open>env\<close>.
\<close>

section \<open>State\<close>

record tool =
  parser :: dump
  files :: cap_files
  curr_time :: timeval
  prev_time :: timeval
  config_capturewrite :: int
  config_captureread :: int
  ifindex :: int
  packets :: int
  screen :: "string list"

record packet =
  pk_from :: sockaddr_ll
  pk_data :: "byte list"
  pk_stamp :: "timeval option"

datatype event = Recv_Error | Recv packet

definition in_parser :: "'a dprog \<Rightarrow> (tool, 'a) prog" where
  "in_parser m = (\<lambda>t. case m (parser t) of Inl f \<Rightarrow> Inl f | Inr (x, d) \<Rightarrow> Inr (x, t\<lparr>parser := d\<rparr>))"

definition in_files :: "(cap_files, 'a) prog \<Rightarrow> (tool, 'a) prog" where
  "in_files m = (\<lambda>t. case m (files t) of Inl f \<Rightarrow> Inl f | Inr (x, c) \<Rightarrow> Inr (x, t\<lparr>files := c\<rparr>))"

definition cfg :: "(dump_config \<Rightarrow> 'a) \<Rightarrow> (tool, 'a) prog" where
  "cfg f = gets (\<lambda>t. f (config (parser t)))"

section \<open>Time stamps\<close>

text \<open>The remainder of C, which has the sign of the dividend.\<close>

definition c_rem :: "int \<Rightarrow> int \<Rightarrow> int" where
  "c_rem a b = (if a < 0 then - (- a mod b) else a mod b)"

definition day_seconds :: "timeval \<Rightarrow> int" where
  "day_seconds tv = (let s = c_rem (tv_sec tv) 86400 in if s < 0 then s + 86400 else s)"

definition print_time :: "timeval \<Rightarrow> string" where
  "print_time tv =
     (let s = day_seconds tv
      in fmt_0d 2 (s div 3600) @ '':'' @ fmt_0d 2 (s mod 3600 div 60) @ '':'' @ fmt_0d 2 (s mod 60) @
         ''.'' @ fmt_0d 6 (tv_usec tv mod 2 ^ 32) @ '' '')"

text \<open>
  Binary floating point in the range that occurs here: a value rounded to \<open>p\<close> significant bits, ties to
  even. \<open>round_even\<close> rounds to an integer; the exponent comes from the value scaled by \<open>2 ^ 64\<close>.
\<close>

definition round_even :: "rat \<Rightarrow> int" where
  "round_even x =
     (let f = \<lfloor>x\<rfloor>; d = x - of_int f
      in if d < 1 / 2 \<or> (d = 1 / 2 \<and> even f) then f else f + 1)"

definition float_round :: "nat \<Rightarrow> rat \<Rightarrow> rat" where
  "float_round p x =
     (if x = 0 then 0
      else let k = int (floorlog 2 (nat \<lfloor>\<bar>x\<bar> * 2 ^ 64\<rfloor>)) - 64 - int p;
               u = (if 0 \<le> k then 2 ^ nat k else 1 / 2 ^ nat (- k))
           in of_int (round_even (x / u)) * u)"

text \<open>\<^verbatim>\<open>((float) sec * 1000000 + usec) / 1000.0\<close>, assigned to a \<^verbatim>\<open>float\<close>.\<close>

definition diff_ms :: "int \<Rightarrow> int \<Rightarrow> rat" where
  "diff_ms sec usec =
     (let a = float_round 24 (of_int sec);
          b = float_round 24 (a * 1000000);
          c = float_round 24 (b + float_round 24 (of_int usec));
          d = float_round 53 (c / 1000)
      in float_round 24 d)"

text \<open>\<^verbatim>\<open>%07.2f\<close>.\<close>

definition fmt_07_2f :: "rat \<Rightarrow> string" where
  "fmt_07_2f x =
     (let h = round_even (\<bar>x\<bar> * 100);
          body = dec_int (h div 100) @ ''.'' @ fmt_0d 2 (h mod 100)
      in if x < 0 then CHR ''-'' # pad 6 body else pad 7 body)"

text \<open>Both time stamps are updated; the second becomes the difference.\<close>

definition print_diff_time :: "timeval \<Rightarrow> timeval \<Rightarrow> timeval \<times> timeval \<times> string" where
  "print_diff_time timev prev_timev =
     (let t1 = (if tv_usec prev_timev > tv_usec timev
                then timev\<lparr>tv_usec := tv_usec timev + 1000000, tv_sec := tv_sec timev - 1\<rparr> else timev);
          p1 = prev_timev\<lparr>tv_usec := tv_usec t1 - tv_usec prev_timev\<rparr>;
          p2 = p1\<lparr>tv_sec := tv_sec t1 - tv_sec p1\<rparr>
      in (t1, p2, ''('' @ fmt_07_2f (diff_ms (tv_sec p2) (tv_usec p2)) @ '' ms) ''))"

section \<open>One frame\<close>

definition head_at :: "nat \<Rightarrow> (tool, byte) prog" where
  "head_at i = (\<lambda>t. if i < unat (nb_truesize (buf (parser t))) then Inr (nb_mem (buf (parser t)) i, t)
     else Inl (Frame_Bounds i))"

definition out :: "string \<Rightarrow> (tool, unit) prog" where
  "out x = in_parser (say x)"

text \<open>\<^verbatim>\<open>for (i=0;i<maxlen;i++) ...\<close>\<close>

fun for_upto :: "nat \<Rightarrow> nat \<Rightarrow> (nat \<Rightarrow> (tool, unit) prog) \<Rightarrow> (tool, unit) prog" where
  "for_upto i 0 body = skip"
| "for_upto i (Suc n) body = seq (body i) (for_upto (Suc i) n body)"

definition printable :: "byte \<Rightarrow> char" where
  "printable b = (if sint b < 32 \<or> sint b > 126 then CHR ''.'' else chr b)"

definition parse_irda_frame :: "bool \<Rightarrow> int \<Rightarrow> (tool, unit) prog" where
  "parse_irda_frame type len =
     seq (bnd (gets curr_time) (\<lambda>tv. out (print_time tv)))
     (seq (bnd (cfg config_print_diff) (\<lambda>b.
        if b then
          bnd (gets (\<lambda>t. print_diff_time (curr_time t) (prev_time t))) (\<lambda>(c, p, x).
          seq (out x)
          (modify (\<lambda>t. t\<lparr>curr_time := p, prev_time := c\<rparr>)))
        else skip))
     (seq (bnd (cfg config_print_irlap) (\<lambda>b. whenc b (in_parser (parse_irlap_frame type))))
     (seq (out (''('' @ fmt_d len @ '') ''))
     (bnd (cfg config_snaplen) (\<lambda>snap. let maxlen = nat (if len < snap then len else snap) in
     seq (bnd (cfg config_dump_frame) (\<lambda>b. whenc b
        (seq (out nl_tab)
        (seq (for_upto 0 maxlen (\<lambda>i. bnd (head_at i) (\<lambda>c. out (fmt_02x (uint c)))))
        (seq (out nl_tab)
        (for_upto 0 maxlen (\<lambda>i. bnd (head_at i) (\<lambda>c. out ('' '' @ [printable c])))))))))
     (bnd (cfg config_dump_bytes) (\<lambda>b. whenc b
        (bnd (cfg config_snapcols) (\<lambda>cols.
        for_upto 0 maxlen (\<lambda>i.
          seq (whenc (int i mod cols = 0) (out nl_tab))
          (bnd (head_at i) (\<lambda>c. out (fmt_02x (uint c) @ '' '')))))))))))))"

section \<open>One packet\<close>

definition ETH_P_IRDA :: u16 where
  "ETH_P_IRDA = 0x0017"

definition put_frame :: "libc \<Rightarrow> int \<Rightarrow> (tool, unit) prog" where
  "put_frame L len = seq (in_parser (on_buf (g_netbuf_put L (of_int len)))) skip"

definition loop_capture :: "libc \<Rightarrow> endian \<Rightarrow> int \<Rightarrow> (tool, int) prog" where
  "loop_capture L e junk =
     bnd (gets (\<lambda>t. \<lparr>cf_buf = buf (parser t), cf_len = junk, cf_dir = False, cf_prot = junk,
       cf_time = curr_time t\<rparr>)) (\<lambda>cf.
     bnd (in_files (capread_get e cf)) (\<lambda>(r, cf').
     seq (modify (\<lambda>t. t\<lparr>parser := (parser t)\<lparr>buf := cf_buf cf'\<rparr>, curr_time := cf_time cf'\<rparr>))
     (if r < 0 then fault (Exit_With (-1))
      else if cf_prot cf' \<noteq> uint ETH_P_IRDA then ret (-1)
      else if cf_len cf' = 0 then ret (-1)
      else seq (put_frame L (cf_len cf'))
        (seq (parse_irda_frame (cf_dir cf') (cf_len cf'))
        (ret 0)))))"

text \<open>
  \<^verbatim>\<open>recvfrom(fd, frame_buf->data, MAX_FRAME_SIZE, ...)\<close>: the packet's bytes are stored at the start of the
  buffer, a longer packet is cut off.
\<close>

definition MAX_FRAME_SIZE :: nat where
  "MAX_FRAME_SIZE = 2050"

definition recvfrom :: "byte list \<Rightarrow> (tool, int) prog" where
  "recvfrom data = (\<lambda>t.
     let b = buf (parser t); bs = take MAX_FRAME_SIZE data
     in if unat (nb_truesize b) < nb_data b + length bs then Inl (Frame_Bounds (unat (nb_truesize b)))
        else Inr (int (length bs), t\<lparr>parser := (parser t)\<lparr>buf := b\<lparr>nb_mem :=
          (\<lambda>i. if nb_data b \<le> i \<and> i < nb_data b + length bs then bs ! (i - nb_data b)
               else nb_mem b i)\<rparr>\<rparr>\<rparr>))"

definition loop_socket :: "libc \<Rightarrow> endian \<Rightarrow> sll_header \<Rightarrow> event \<Rightarrow> (tool, int) prog" where
  "loop_socket L e hdr0 ev =
     (case ev of
        Recv_Error \<Rightarrow> fault (Exit_With (-1))
      | Recv pk \<Rightarrow>
          bnd (recvfrom (pk_data pk)) (\<lambda>len.
          if sll_protocol (pk_from pk) \<noteq> htons e ETH_P_IRDA then ret (-1)
          else
            bnd (gets ifindex) (\<lambda>ix.
            if ix \<noteq> 0 \<and> sll_ifindex (pk_from pk) \<noteq> ix then ret (-1)
            else if len = 0 then ret (-1)
            else
              seq (put_frame L len)
              (case pk_stamp pk of
                 None \<Rightarrow> fault (Exit_With (-1))
               | Some tv \<Rightarrow>
                   seq (modify (\<lambda>t. t\<lparr>curr_time := tv\<rparr>))
                   (seq (parse_irda_frame (sll_pkttype (pk_from pk) \<noteq> 0) len)
                   (seq (bnd (gets config_capturewrite) (\<lambda>w. whenc (0 \<le> w)
                      (bnd (gets (\<lambda>t. (buf (parser t), curr_time t))) (\<lambda>(b, tv').
                      seq (in_files (capwrite_dump e hdr0 b len (pk_from pk) tv')) skip))))
                   (ret 0)))))))"

definition irdadump_loop :: "libc \<Rightarrow> endian \<Rightarrow> sll_header \<Rightarrow> event \<Rightarrow> (tool, int) prog" where
  "irdadump_loop L e hdr0 ev =
     seq (modify (\<lambda>t. t\<lparr>parser := (parser t)\<lparr>buf := g_netbuf_recycle (buf (parser t))\<rparr>\<rparr>))
     (bnd (gets config_captureread) (\<lambda>r.
     if 0 \<le> r then loop_capture L e 0 else loop_socket L e hdr0 ev))"

text \<open>The endless loop of \<^verbatim>\<open>main\<close>, over the packets that arrive.\<close>

fun main_loop :: "libc \<Rightarrow> endian \<Rightarrow> sll_header \<Rightarrow> event list \<Rightarrow> (tool, unit) prog" where
  "main_loop L e hdr0 [] = skip"
| "main_loop L e hdr0 (ev # evs) =
     bnd (irdadump_loop L e hdr0 ev) (\<lambda>r.
     seq (whenc (r \<noteq> -1)
       (modify (\<lambda>t. t\<lparr>packets := packets t + 1, screen := screen t @ [line (parser t)],
          parser := (parser t)\<lparr>line := []\<rparr>\<rparr>)))
     (main_loop L e hdr0 evs))"

section \<open>Start-up\<close>

text \<open>
  What \<^verbatim>\<open>main\<close> collects from the command line: the configuration and the three file and device names.
  An option is the pair \<^verbatim>\<open>getopt\<close> returns: the option character and its argument.
\<close>

record options =
  o_config :: dump_config
  o_ifdev :: "string option"
  o_write :: "string option"
  o_read :: "string option"

definition set_config :: "(dump_config \<Rightarrow> dump_config) \<Rightarrow> options \<Rightarrow> options" where
  "set_config f o1 = o1\<lparr>o_config := f (o_config o1)\<rparr>"

text \<open>
  The \<^verbatim>\<open>switch\<close> of \<^verbatim>\<open>main\<close>. The case \<^verbatim>\<open>'s'\<close> has no \<^verbatim>\<open>break\<close> and goes on with the case \<^verbatim>\<open>'t'\<close>. \<open>Inl\<close> is the
  argument of \<^verbatim>\<open>exit\<close>.
\<close>

definition main_option :: "char \<Rightarrow> string \<Rightarrow> options \<Rightarrow> int + options" where
  "main_option c optarg o1 =
     (if c = CHR ''b'' then Inr (set_config (\<lambda>k. k\<lparr>config_dump_bytes := True\<rparr>) o1)
      else if c = CHR ''c'' then
        (let n = atoi optarg
         in Inr (set_config (\<lambda>k. k\<lparr>config_snapcols := (if n \<le> 0 then 16 else n)\<rparr>) o1))
      else if c = CHR ''d'' then Inr (set_config (\<lambda>k. k\<lparr>config_print_diff := True\<rparr>) o1)
      else if c = CHR ''i'' then Inr (o1\<lparr>o_ifdev := Some optarg\<rparr>)
      else if c = CHR ''l'' then Inr o1
      else if c = CHR ''p'' then Inr (set_config (\<lambda>k. k\<lparr>config_print_irlap := False\<rparr>) o1)
      else if c = CHR ''r'' then Inr (o1\<lparr>o_read := Some optarg\<rparr>)
      else if c = CHR ''s'' then
        (let n = atoi optarg
         in Inr (set_config (\<lambda>k. k\<lparr>config_snaplen := (if n \<le> 0 then 2050 else n),
              config_force_ttp := True\<rparr>) o1))
      else if c = CHR ''t'' then Inr (set_config (\<lambda>k. k\<lparr>config_force_ttp := True\<rparr>) o1)
      else if c = CHR ''v'' then Inl 0
      else if c = CHR ''w'' then Inr (o1\<lparr>o_write := Some optarg\<rparr>)
      else if c = CHR ''x'' then Inr (set_config (\<lambda>k. k\<lparr>config_dump_frame := True\<rparr>) o1)
      else if c = CHR ''?'' then Inl 1
      else Inr o1)"

fun main_options :: "(char \<times> string) list \<Rightarrow> options \<Rightarrow> int + options" where
  "main_options [] o1 = Inr o1"
| "main_options ((c, optarg) # rest) o1 =
     (case main_option c optarg o1 of Inl r \<Rightarrow> Inl r | Inr o2 \<Rightarrow> main_options rest o2)"

text \<open>
  What the system answers at start-up: the descriptors of the two capture files, the contents of the
  one that is read, the socket, the index of an interface, the time.
\<close>

record env =
  open_write :: "string \<Rightarrow> int"
  open_read :: "string \<Rightarrow> int"
  contents :: "string \<Rightarrow> byte list"
  socket_fd :: int
  if_index :: "string \<Rightarrow> int option"
  now :: timeval

definition irdadump_init :: "libc \<Rightarrow> env \<Rightarrow> string option \<Rightarrow> (tool, int) prog" where
  "irdadump_init L env ifdev =
     seq (in_parser irlap_init)
     (seq (modify (\<lambda>t. t\<lparr>prev_time := now env\<rparr>))
     (if socket_fd env < 0 then ret (socket_fd env)
      else
        seq (case ifdev of
               None \<Rightarrow> skip
             | Some d \<Rightarrow> (case if_index env d of
                 None \<Rightarrow> fault (Exit_With (-1))
               | Some i \<Rightarrow> modify (\<lambda>t. t\<lparr>ifindex := i\<rparr>)))
        (case g_netbuf_new L (of_nat MAX_FRAME_SIZE) of
           None \<Rightarrow> fault Null_Pointer
         | Some b \<Rightarrow> seq (modify (\<lambda>t. t\<lparr>parser := (parser t)\<lparr>buf := b\<rparr>\<rparr>)) (ret (socket_fd env)))))"

text \<open>\<^verbatim>\<open>main\<close> up to its loop: \<open>Some r\<close> when it returns \<open>r\<close> before.\<close>

definition main_start :: "libc \<Rightarrow> endian \<Rightarrow> env \<Rightarrow> (char \<times> string) list \<Rightarrow> (tool, int option) prog" where
  "main_start L e env args =
     bnd (gets (\<lambda>t. main_options args \<lparr>o_config = config (parser t), o_ifdev = None, o_write = None, o_read = None\<rparr>))
     (\<lambda>r. case r of Inl n \<Rightarrow> fault (Exit_With n) | Inr o1 \<Rightarrow>
     seq (modify (\<lambda>t. t\<lparr>parser := (parser t)\<lparr>config := o_config o1\<rparr>\<rparr>))
     (bnd (case o_write o1 of
            None \<Rightarrow> ret None
          | Some f \<Rightarrow>
              seq (modify (\<lambda>t. t\<lparr>config_capturewrite := open_write env f\<rparr>))
              (if open_write env f < 0 then ret (Some (open_write env f))
               else bnd (in_files (capwrite_init e)) (\<lambda>k. ret (if k < 0 then Some (-1) else None)))) (\<lambda>r1.
     if r1 \<noteq> None then ret r1
     else bnd (case o_read o1 of
            None \<Rightarrow> ret None
          | Some f \<Rightarrow>
              seq (modify (\<lambda>t. t\<lparr>config_captureread := open_read env f,
                     files := (files t)\<lparr>cap_in := contents env f\<rparr>\<rparr>))
              (if open_read env f < 0 then ret (Some (open_read env f))
               else bnd (in_files (capread_check e)) (\<lambda>k. ret (if k < 0 then Some (-1) else None)))) (\<lambda>r2.
     if r2 \<noteq> None then ret r2
     else bnd (irdadump_init L env (o_ifdev o1)) (\<lambda>fd.
       ret (if fd < 0 then Some fd else None))))))"

text \<open>The globals of all files before \<^verbatim>\<open>main\<close>.\<close>

definition tool_start :: "(nat \<Rightarrow> byte) \<Rightarrow> tool" where
  "tool_start junk = \<lparr>parser = start_state (frame_at []) junk,
     files = \<lparr>cap_in = [], cap_out = [], write_results = []\<rparr>,
     curr_time = \<lparr>tv_sec = 0, tv_usec = 0\<rparr>, prev_time = \<lparr>tv_sec = 0, tv_usec = 0\<rparr>,
     config_capturewrite = -1, config_captureread = -1, ifindex = 0, packets = 0, screen = []\<rparr>"

section \<open>Time of day\<close>

lemma day_seconds_mod: "day_seconds tv = tv_sec tv mod 86400"
proof (cases "tv_sec tv < 0")
  case True
  have "- (- tv_sec tv mod 86400) = (if tv_sec tv mod 86400 = 0 then 0 else tv_sec tv mod 86400 - 86400)"
    by (simp add: zmod_zminus1_eq_if)
  moreover have "0 \<le> tv_sec tv mod 86400" "tv_sec tv mod 86400 < 86400" by simp_all
  ultimately show ?thesis using True by (auto simp: day_seconds_def c_rem_def Let_def)
next
  case False
  have "0 \<le> tv_sec tv mod 86400" by simp
  with False show ?thesis by (simp add: day_seconds_def c_rem_def Let_def)
qed


section \<open>Commands that work on the parser's state only\<close>

text \<open>
  \<open>local m\<close>: \<open>m\<close> reads only the parser's state and the current time stamp and changes only the
  parser's state, so that it does the same from two states that agree on these.
\<close>

definition local :: "(tool, 'a) prog \<Rightarrow> bool" where
  "local m \<longleftrightarrow> (\<forall>t u. parser t = parser u \<longrightarrow> curr_time t = curr_time u \<longrightarrow>
     (case m t of Inl f \<Rightarrow> m u = Inl f
      | Inr (x, t') \<Rightarrow> t' = t\<lparr>parser := parser t'\<rparr> \<and> m u = Inr (x, u\<lparr>parser := parser t'\<rparr>)))"

named_theorems local_intro \<open>rules for commands that work on the parser's state only\<close>

lemma localD:
  assumes "local m" "m t = Inr (x, t')" "parser t = parser u" "curr_time t = curr_time u"
  shows "t' = t\<lparr>parser := parser t'\<rparr>" "m u = Inr (x, u\<lparr>parser := parser t'\<rparr>)"
  using assms by (fastforce simp: local_def)+

lemma localD_fault:
  assumes "local m" "m t = Inl f" "parser t = parser u" "curr_time t = curr_time u"
  shows "m u = Inl f"
  using assms by (fastforce simp: local_def)

lemma local_in_parser [local_intro]: "local (in_parser m)"
  by (auto simp: local_def in_parser_def split: sum.splits)

lemma local_out [local_intro]: "local (out x)"
  by (simp add: out_def local_in_parser)

lemma local_cfg [local_intro]: "local (cfg f)"
  by (simp add: local_def cfg_def gets_def)

lemma local_time [local_intro]: "local (gets curr_time)"
  by (simp add: local_def gets_def)

lemma local_head_at [local_intro]: "local (head_at i)"
  by (auto simp: local_def head_at_def)

lemma local_skip [local_intro]: "local skip" "local (ret x)"
  by (simp_all add: local_def skip_def ret_def)

lemma local_bnd [local_intro]:
  assumes "local m" "\<And>x. local (k x)"
  shows "local (bnd m k)"
  unfolding local_def
proof (intro allI impI)
  fix t u :: tool assume p: "parser t = parser u" "curr_time t = curr_time u"
  show "case bnd m k t of Inl f \<Rightarrow> bnd m k u = Inl f
    | Inr (x, t') \<Rightarrow> t' = t\<lparr>parser := parser t'\<rparr> \<and> bnd m k u = Inr (x, u\<lparr>parser := parser t'\<rparr>)"
  proof (cases "m t")
    case (Inl f)
    with localD_fault [OF assms(1) Inl p] show ?thesis by (simp add: bnd_def)
  next
    case (Inr r)
    obtain x t1 where r: "m t = Inr (x, t1)" using Inr by (cases r) auto
    note m = localD [OF assms(1) r p]
    have "parser t1 = parser (u\<lparr>parser := parser t1\<rparr>)" "curr_time t1 = curr_time (u\<lparr>parser := parser t1\<rparr>)"
      using arg_cong [OF m(1), of curr_time] p(2) by simp_all
    with assms(2) [of x] have "case k x t1 of Inl f \<Rightarrow> k x (u\<lparr>parser := parser t1\<rparr>) = Inl f
      | Inr (y, t') \<Rightarrow> t' = t1\<lparr>parser := parser t'\<rparr> \<and>
          k x (u\<lparr>parser := parser t1\<rparr>) = Inr (y, u\<lparr>parser := parser t1\<rparr>\<lparr>parser := parser t'\<rparr>)"
      unfolding local_def by blast
    moreover have "t1\<lparr>parser := d\<rparr> = t\<lparr>parser := d\<rparr>" for d
      using arg_cong [OF m(1), of "\<lambda>a. a\<lparr>parser := d\<rparr>"] by simp
    ultimately show ?thesis using r m(2) by (auto simp: bnd_def split: sum.splits)
  qed
qed


lemma local_seq [local_intro]: "local m \<Longrightarrow> local n \<Longrightarrow> local (seq m n)"
  by (simp add: seq_def local_bnd)

lemma local_whenc [local_intro]: "local m \<Longrightarrow> local (whenc b m)"
  by (simp add: whenc_def local_skip)

lemma local_for [local_intro]: "(\<And>i. local (body i)) \<Longrightarrow> local (for_upto i n body)"
  by (induction i n body rule: for_upto.induct) (simp_all add: local_intro)

text \<open>The parts of \<^verbatim>\<open>parse_irda_frame\<close> when time differences are not printed.\<close>

definition frame_dumps :: "int \<Rightarrow> (tool, unit) prog" where
  "frame_dumps len =
     (bnd (cfg config_snaplen) (\<lambda>snap. let maxlen = nat (if len < snap then len else snap) in
     seq (bnd (cfg config_dump_frame) (\<lambda>b. whenc b
        (seq (out nl_tab)
        (seq (for_upto 0 maxlen (\<lambda>i. bnd (head_at i) (\<lambda>c. out (fmt_02x (uint c)))))
        (seq (out nl_tab)
        (for_upto 0 maxlen (\<lambda>i. bnd (head_at i) (\<lambda>c. out ('' '' @ [printable c])))))))))
     (bnd (cfg config_dump_bytes) (\<lambda>b. whenc b
        (bnd (cfg config_snapcols) (\<lambda>cols.
        for_upto 0 maxlen (\<lambda>i.
          seq (whenc (int i mod cols = 0) (out nl_tab))
          (bnd (head_at i) (\<lambda>c. out (fmt_02x (uint c) @ '' '')))))))))) "

definition frame_decode :: "bool \<Rightarrow> (tool, unit) prog" where
  "frame_decode type = bnd (cfg config_print_irlap) (\<lambda>b. whenc b (in_parser (parse_irlap_frame type)))"

lemma parse_irda_frame_nodiff:
  assumes "\<not> config_print_diff (config (parser t))"
  shows "parse_irda_frame type len t =
    seq (bnd (gets curr_time) (\<lambda>tv. out (print_time tv)))
      (seq (frame_decode type) (seq (out (''('' @ fmt_d len @ '') '')) (frame_dumps len))) t"
  using assms
  by (simp add: parse_irda_frame_def frame_decode_def frame_dumps_def bnd_def seq_def gets_def out_def
      in_parser_def say_def modify_def cfg_def whenc_def skip_def ret_def)

lemma local_dumps [local_intro]: "local (frame_dumps len)" "local (frame_decode type)"
  unfolding frame_dumps_def frame_decode_def Let_def by (intro local_intro)+

lemma parse_irda_frame_local:
  assumes "\<not> config_print_diff (config (parser t))" "parse_irda_frame type len t = Inr (x, t')"
    and "parser t = parser u" "curr_time t = curr_time u"
  shows "t' = t\<lparr>parser := parser t'\<rparr>" "parse_irda_frame type len u = Inr (x, u\<lparr>parser := parser t'\<rparr>)"
proof -
  let ?m = "seq (bnd (gets curr_time) (\<lambda>tv. out (print_time tv)))
      (seq (frame_decode type) (seq (out (''('' @ fmt_d len @ '') '')) (frame_dumps len)))"
  have l: "local ?m" by (intro local_intro)
  have m: "?m t = Inr (x, t')" using assms(1,2) by (simp add: parse_irda_frame_nodiff)
  from localD [OF l m assms(3,4)] assms(1,3)
  show "t' = t\<lparr>parser := parser t'\<rparr>" "parse_irda_frame type len u = Inr (x, u\<lparr>parser := parser t'\<rparr>)"
    by (simp_all add: parse_irda_frame_nodiff)
qed

section \<open>The frame's bytes survive the decoding\<close>

lemma keeps_buf_out: "keeps (\<lambda>t. buf (parser t)) (out x)"
  by (auto simp: keeps_def out_def in_parser_def say_def modify_def)

lemma keeps_reads: "keeps g (cfg f)" "keeps g (head_at i)"
  by (auto simp: keeps_def cfg_def gets_def head_at_def split: if_splits)

lemma keeps_for: "(\<And>i. keeps g (body i)) \<Longrightarrow> keeps g (for_upto i n body)"
  by (induction i n body rule: for_upto.induct) (simp_all add: keeps_intro)

lemma keeps_buf_dumps: "keeps (\<lambda>t. buf (parser t)) (frame_dumps len)"
  unfolding frame_dumps_def Let_def
  by (intro keeps_intro keeps_for keeps_buf_out keeps_reads)

lemma frame_decode_same:
  assumes "frame_decode type t = Inr (x, t')"
  shows "same_frame (buf (parser t)) (parser t')"
  using assms irlap_keeps_frame [of type "parser t"]
  by (auto simp: frame_decode_def bnd_def cfg_def gets_def whenc_def skip_def ret_def in_parser_def
      same_frame_def split: if_splits sum.splits)

lemma parse_irda_frame_same:
  assumes "\<not> config_print_diff (config (parser t))" "parse_irda_frame type len t = Inr (x, t')"
  shows "same_frame (buf (parser t)) (parser t')"
proof -
  from assms(2) obtain t1 t2 t3 where
    1: "bnd (gets curr_time) (\<lambda>tv. out (print_time tv)) t = Inr ((), t1)" and
    2: "frame_decode type t1 = Inr ((), t2)" and
    3: "out (''('' @ fmt_d len @ '') '') t2 = Inr ((), t3)" and
    4: "frame_dumps len t3 = Inr (x, t')"
    by (auto simp: parse_irda_frame_nodiff [OF assms(1)] seq_def bnd_eq_Inr)
  have "keeps (\<lambda>t. buf (parser t)) (bnd (gets curr_time) (\<lambda>tv. out (print_time tv)))"
    by (intro keeps_intro keeps_buf_out)
  from keepsD [OF this 1] keepsD [OF keeps_buf_out 3] keepsD [OF keeps_buf_dumps 4] frame_decode_same [OF 2]
  show ?thesis by (simp add: same_frame_def)
qed


section \<open>Live capture and replay\<close>

text \<open>The buffer when a frame has been received into it or read from a file, and \<^verbatim>\<open>g_netbuf_put\<close> is done.\<close>

definition loaded :: "byte list \<Rightarrow> netbuf \<Rightarrow> netbuf" where
  "loaded bs b = b\<lparr>nb_data := 0, nb_tail := length bs, nb_end := unat (nb_truesize b),
     nb_len := of_nat (length bs), nb_mem := (\<lambda>i. if i < length bs then bs ! i else nb_mem b i)\<rparr>"

lemma put_loaded:
  assumes "length bs \<le> unat (nb_truesize b)" "nb_truesize b = 2050"
  shows "g_netbuf_put L (of_int (int (length bs)))
      ((g_netbuf_recycle b)\<lparr>nb_mem := (\<lambda>i. if i < length bs then bs ! i else nb_mem b i)\<rparr>) =
    Inr (Some 0, loaded bs b)"
proof -
  have "unat (of_nat (length bs) :: u32) = length bs" using assms by (intro unat_of_nat_u32) simp
  with assms show ?thesis
    by (simp add: g_netbuf_put_def g_netbuf_recycle_def loaded_def Let_def)
qed

lemma recvfrom_recycled:
  assumes "length bs \<le> 2050" "nb_truesize b = 2050"
  shows "recvfrom bs (t\<lparr>parser := d\<lparr>buf := g_netbuf_recycle b\<rparr>\<rparr>) = Inr (int (length bs),
    t\<lparr>parser := d\<lparr>buf := (g_netbuf_recycle b)\<lparr>nb_mem :=
      (\<lambda>i. if i < length bs then bs ! i else nb_mem b i)\<rparr>\<rparr>\<rparr>)"
  using assms by (simp add: recvfrom_def MAX_FRAME_SIZE_def g_netbuf_recycle_def Let_def cong: if_cong)

definition dir_of :: "sockaddr_ll \<Rightarrow> bool" where
  "dir_of a \<longleftrightarrow> sll_pkttype a \<noteq> 0"

definition load_tool :: "captured \<Rightarrow> tool \<Rightarrow> tool" where
  "load_tool r t = t\<lparr>parser := (parser t)\<lparr>buf := loaded (c_data r) (buf (parser t))\<rparr>, curr_time := c_time r\<rparr>"

lemma time_then_parser: "t\<lparr>curr_time := c, parser := d\<rparr> = t\<lparr>parser := d, curr_time := c\<rparr>"
  by (cases t) simp

definition packet_of :: "captured \<Rightarrow> packet" where
  "packet_of r = \<lparr>pk_from = c_from r, pk_data = c_data r, pk_stamp = Some (c_time r)\<rparr>"

text \<open>A frame the live filter lets through.\<close>

definition passes :: "endian \<Rightarrow> int \<Rightarrow> captured \<Rightarrow> bool" where
  "passes e ix r \<longleftrightarrow> storable r \<and> c_data r \<noteq> [] \<and> sll_protocol (c_from r) = htons e ETH_P_IRDA \<and>
     (ix = 0 \<or> sll_ifindex (c_from r) = ix)"

lemma live_run:
  assumes "passes e (ifindex t) r" "config_captureread t < 0" "nb_truesize (buf (parser t)) = 2050"
  shows "irdadump_loop L e hdr0 (Recv (packet_of r)) t =
    seq (parse_irda_frame (dir_of (c_from r)) (int (length (c_data r))))
      (seq (bnd (gets config_capturewrite) (\<lambda>w. whenc (0 \<le> w)
        (bnd (gets (\<lambda>t. (buf (parser t), curr_time t))) (\<lambda>(b, tv').
           seq (in_files (capwrite_dump e hdr0 b (int (length (c_data r))) (c_from r) tv')) skip))))
        (ret 0)) (load_tool r t)"
proof -
  let ?bs = "c_data r"
  have bs: "length ?bs \<le> unat (nb_truesize (buf (parser t)))" "length ?bs \<le> 2050" "?bs \<noteq> []"
    using assms(1,3) by (auto simp: passes_def storable_def)
  note put = put_loaded [OF bs(1) assms(3), of L] and rec = recvfrom_recycled [OF bs(2) assms(3)]
  show ?thesis
    using assms bs(3) put rec
    by (auto simp: irdadump_loop_def loop_socket_def packet_of_def passes_def seq_def bnd_def
        gets_def modify_def put_frame_def in_parser_def on_buf_def skip_def ret_def load_tool_def dir_of_def)
qed

lemma replay_run:
  assumes "storable r" "c_data r \<noteq> []" "length (h_addr hdr0) = 8"
    and "cap_in (files u) = captured_bytes e hdr0 r @ rest"
    and "0 \<le> config_captureread u" "nb_truesize (buf (parser u)) = 2050"
  shows "irdadump_loop L e hdr1 ev u =
    (if sll_protocol (c_from r) \<noteq> ETH_P_IRDA
     then Inr (-1, u\<lparr>files := (files u)\<lparr>cap_in := rest\<rparr>, curr_time := c_time r, parser := (parser u)\<lparr>buf :=
       (g_netbuf_recycle (buf (parser u)))\<lparr>nb_mem := (\<lambda>i. if i < length (c_data r) then c_data r ! i
          else nb_mem (buf (parser u)) i)\<rparr>\<rparr>\<rparr>)
     else seq (parse_irda_frame (dir_of (c_from r)) (int (length (c_data r)))) (ret 0)
       (load_tool r (u\<lparr>files := (files u)\<lparr>cap_in := rest\<rparr>\<rparr>)))"
proof -
  let ?bs = "c_data r"
  let ?cf = "\<lparr>cf_buf = g_netbuf_recycle (buf (parser u)), cf_len = 0, cf_dir = False, cf_prot = 0, cf_time = curr_time u\<rparr>"
  have bs: "length ?bs \<le> unat (nb_truesize (buf (parser u)))"
    using assms(1,6) by (auto simp: storable_def)
  note put = put_loaded [OF bs assms(6), of L]
  have ts: "nb_truesize (cf_buf ?cf) = 2050" using assms(6) by (simp add: g_netbuf_recycle_def)
  have get: "capread_get e ?cf (files u) =
      Inr ((0, delivered (g_netbuf_recycle (buf (parser u))) r), (files u)\<lparr>cap_in := rest\<rparr>)"
    using capread_get_delivers [OF assms(1,3) ts assms(4)] by simp
  have pr: "uint (sll_protocol (c_from r)) = uint ETH_P_IRDA \<longleftrightarrow> sll_protocol (c_from r) = ETH_P_IRDA"
    by (rule word_uint_eq_iff [symmetric])
  have mem: "nb_mem (g_netbuf_recycle b) = nb_mem b" for b by (simp add: g_netbuf_recycle_def)
  show ?thesis
    using assms(2,5) put get pr
    by (simp add: irdadump_loop_def loop_capture_def seq_def bnd_def gets_def modify_def in_files_def
        put_frame_def in_parser_def on_buf_def skip_def ret_def load_tool_def dir_of_def delivered_def mem
        time_then_parser cong: if_cong)
qed


lemma parse_irda_frame_config:
  assumes "\<not> config_print_diff (config (parser t))" "parse_irda_frame type len t = Inr (x, t')"
  shows "config (parser t') = config (parser t)"
proof -
  have o1: "keeps (\<lambda>t. config (parser t)) (out x)" for x
    by (auto simp: keeps_def out_def in_parser_def say_def modify_def)
  have d: "keeps (\<lambda>t. config (parser t)) (frame_decode type)"
    unfolding frame_decode_def
    by (intro keeps_intro keeps_reads)
      (auto simp: keeps_def in_parser_def split: sum.splits dest: keepsD [OF keeps_config])
  have "keeps (\<lambda>t. config (parser t)) (seq (bnd (gets curr_time) (\<lambda>tv. out (print_time tv)))
      (seq (frame_decode type) (seq (out (''('' @ fmt_d len @ '') '')) (frame_dumps len))))"
    unfolding frame_dumps_def Let_def by (intro keeps_intro keeps_for keeps_reads o1 d)
  from keepsD [OF this] assms show ?thesis by (simp add: parse_irda_frame_nodiff)
qed

text \<open>A running live capture: frames are received, written to a file and not compared in time.\<close>

definition live_ready :: "tool \<Rightarrow> bool" where
  "live_ready t \<longleftrightarrow> config_captureread t < 0 \<and> 0 \<le> config_capturewrite t \<and>
     nb_truesize (buf (parser t)) = 2050 \<and> \<not> config_print_diff (config (parser t)) \<and>
     write_results (files t) = []"

lemma live_step:
  assumes "passes e (ifindex t) r" "live_ready t"
    and "irdadump_loop L e hdr0 (Recv (packet_of r)) t = Inr (x, t')"
  shows "\<exists>d. x = 0 \<and> t' = (load_tool r t)\<lparr>parser := d, files := (files t)\<lparr>cap_out := cap_out (files t) @
      captured_bytes e hdr0 r\<rparr>\<rparr> \<and> nb_truesize (buf d) = 2050 \<and> config d = config (parser t) \<and>
    parse_irda_frame (dir_of (c_from r)) (int (length (c_data r))) (load_tool r t) =
      Inr ((), (load_tool r t)\<lparr>parser := d\<rparr>)"
proof -
  let ?t = "load_tool r t"
  have nd: "\<not> config_print_diff (config (parser ?t))" using assms(2) by (simp add: load_tool_def live_ready_def)
  obtain t1 where t1: "parse_irda_frame (dir_of (c_from r)) (int (length (c_data r))) ?t = Inr ((), t1)"
    using assms live_run [OF assms(1), of L hdr0] by (auto simp: live_ready_def seq_def bnd_eq_Inr)
  note loc = parse_irda_frame_local(1) [OF nd t1 refl refl]
  note same = parse_irda_frame_same [OF nd t1]
  have n: "length (c_data r) \<le> 2050" using assms(1) by (simp add: passes_def storable_def)
  have u: "unat (of_nat (length (c_data r)) :: u32) = length (c_data r)"
    using n by (intro unat_of_nat_u32) simp
  have sz: "nb_truesize (buf (parser t1)) = 2050"
    using same assms(2) by (simp add: same_frame_def load_tool_def loaded_def live_ready_def)
  have hd: "map (nb_mem (buf (parser t1))) [0..<length (c_data r)] = c_data r"
    using same u by (intro nth_equalityI) (auto simp: same_frame_def load_tool_def loaded_def)
  have rest: "curr_time t1 = c_time r" "files t1 = files t" "config_capturewrite t1 = config_capturewrite t"
    using arg_cong [OF loc, of curr_time] arg_cong [OF loc, of files] arg_cong [OF loc, of config_capturewrite]
    by (simp_all add: load_tool_def)
  have wr: "capwrite_dump e hdr0 (buf (parser t1)) (int (length (c_data r))) (c_from r) (c_time r) (files t) =
      Inr (0, (files t)\<lparr>cap_out := cap_out (files t) @ captured_bytes e hdr0 r\<rparr>)"
    using n sz hd assms(2) by (intro capwrite_dump_appends) (simp_all add: live_ready_def)
  have "irdadump_loop L e hdr0 (Recv (packet_of r)) t =
      Inr (0, t1\<lparr>files := (files t)\<lparr>cap_out := cap_out (files t) @ captured_bytes e hdr0 r\<rparr>\<rparr>)"
    using live_run [OF assms(1), of L hdr0] t1 wr rest assms(2)
    by (simp add: live_ready_def seq_def bnd_def gets_def whenc_def in_files_def skip_def ret_def)
  moreover have "config (parser t1) = config (parser t)"
    using parse_irda_frame_config [OF nd t1] by (simp add: load_tool_def)
  ultimately show ?thesis
    using assms(3) t1 loc sz by (intro exI [of _ "parser t1"]) auto
qed


lemma replay_step:
  assumes "passes e ix r" "htons e ETH_P_IRDA = ETH_P_IRDA" "length (h_addr hdr0) = 8"
    and "cap_in (files u) = captured_bytes e hdr0 r @ rest" "0 \<le> config_captureread u"
    and "parser u = parser t" "nb_truesize (buf (parser t)) = 2050"
    and "\<not> config_print_diff (config (parser t))"
    and "parse_irda_frame (dir_of (c_from r)) (int (length (c_data r))) (load_tool r t) =
      Inr ((), (load_tool r t)\<lparr>parser := d\<rparr>)"
  shows "irdadump_loop L e hdr1 ev u =
    Inr (0, (load_tool r (u\<lparr>files := (files u)\<lparr>cap_in := rest\<rparr>\<rparr>))\<lparr>parser := d\<rparr>)"
proof -
  let ?u = "load_tool r (u\<lparr>files := (files u)\<lparr>cap_in := rest\<rparr>\<rparr>)"
  have r: "storable r" "c_data r \<noteq> []" "sll_protocol (c_from r) = ETH_P_IRDA"
    using assms(1,2) by (auto simp: passes_def)
  have "parse_irda_frame (dir_of (c_from r)) (int (length (c_data r))) ?u = Inr ((), ?u\<lparr>parser := d\<rparr>)"
    using parse_irda_frame_local(2) [OF _ assms(9), of ?u] assms(6,8) by (simp add: load_tool_def)
  with replay_run [OF r(1,2) assms(3-5)] assms(6,7) r(3) show ?thesis
    by (simp add: seq_def bnd_def ret_def)
qed

definition shows_same :: "tool \<Rightarrow> tool \<Rightarrow> bool" where
  "shows_same t u \<longleftrightarrow> parser u = parser t \<and> screen u = screen t \<and> packets u = packets t"

lemma live_then_replay:
  assumes "list_all (passes e (ifindex t)) rs" "htons e ETH_P_IRDA = ETH_P_IRDA" "length (h_addr hdr0) = 8"
    and "live_ready t" "main_loop L e hdr0 (map (\<lambda>r. Recv (packet_of r)) rs) t = Inr ((), t')"
    and "length evs = length rs" "0 \<le> config_captureread u" "shows_same t u"
    and "cap_in (files u) = concat (map (captured_bytes e hdr0) rs) @ rest"
  shows "cap_out (files t') = cap_out (files t) @ concat (map (captured_bytes e hdr0) rs) \<and>
    (\<exists>u'. main_loop L e hdr1 evs u = Inr ((), u') \<and> shows_same t' u')"
  using assms
proof (induction rs arbitrary: t u evs)
  case Nil
  then show ?case by (simp add: prog_defs)
next
  case (Cons r rs)
  obtain ev evs' where evs: "evs = ev # evs'" using Cons.prems(6) by (cases evs) auto
  let ?next = "\<lambda>t1. t1\<lparr>packets := packets t1 + 1, screen := screen t1 @ [line (parser t1)],
          parser := (parser t1)\<lparr>line := []\<rparr>\<rparr>"
  let ?rest = "concat (map (captured_bytes e hdr0) rs) @ rest"
  obtain x t1 where l1: "irdadump_loop L e hdr0 (Recv (packet_of r)) t = Inr (x, t1)"
    using Cons.prems(5) by (auto simp: bnd_eq_Inr)
  have p: "passes e (ifindex t) r" using Cons.prems(1) by simp
  obtain d where x: "x = 0" and t1: "t1 = (load_tool r t)\<lparr>parser := d, files := (files t)\<lparr>cap_out :=
        cap_out (files t) @ captured_bytes e hdr0 r\<rparr>\<rparr>"
    and d: "nb_truesize (buf d) = 2050" "config d = config (parser t)"
    and pf: "parse_irda_frame (dir_of (c_from r)) (int (length (c_data r))) (load_tool r t) =
      Inr ((), (load_tool r t)\<lparr>parser := d\<rparr>)"
    using live_step [OF p Cons.prems(4) l1] by blast
  let ?u1 = "(load_tool r (u\<lparr>files := (files u)\<lparr>cap_in := ?rest\<rparr>\<rparr>))\<lparr>parser := d\<rparr>"
  have u1: "irdadump_loop L e hdr1 ev u = Inr (0, ?u1)"
    using Cons.prems(4,7,8,9)
    by (intro replay_step [OF p Cons.prems(2,3) _ _ _ _ _ pf])
      (simp_all add: live_ready_def shows_same_def)
  have run: "main_loop L e hdr0 (map (\<lambda>r. Recv (packet_of r)) rs) (?next t1) = Inr ((), t')"
    using Cons.prems(5) l1 x by (simp add: bnd_def seq_def whenc_def modify_def)
  have ih: "cap_out (files t') = cap_out (files (?next t1)) @ concat (map (captured_bytes e hdr0) rs) \<and>
    (\<exists>u'. main_loop L e hdr1 evs' (?next ?u1) = Inr ((), u') \<and> shows_same t' u')"
    by (rule Cons.IH [OF _ Cons.prems(2,3) _ run])
      (use Cons.prems evs d in \<open>simp_all add: t1 load_tool_def live_ready_def shows_same_def\<close>)
  then show ?case
    using u1 by (auto simp: evs bnd_def seq_def whenc_def modify_def t1)
qed


section \<open>Properties\<close>

text \<open>C2: On a big-endian host a capture file is a faithful record of the session. Take a live session over frames that pass the filter
  (IrDA frames of the interface, not empty, of at most 2050 bytes and stamped between 1970 and 2106),
  without the option \<^verbatim>\<open>-d\<close> for time differences and with every write to the file succeeding. When it prints its lines without a fault, then
  replaying the file from the same parser state prints exactly the same lines, counts the same packets and leaves the parser in the same
  state, so that the connection table and the counters are rebuilt too.\<close>

theorem replay_repeats_live_session:
  assumes "list_all (passes Big (ifindex t)) rs" "length (h_addr hdr0) = 8" "live_ready t"
    and "main_loop L Big hdr0 (map (\<lambda>r. Recv (packet_of r)) rs) t = Inr ((), t')" "cap_out (files t) = []"
    and "length evs = length rs" "0 \<le> config_captureread u" "shows_same t u"
    and "cap_in (files u) = cap_out (files t')"
  shows "\<exists>u'. main_loop L Big hdr1 evs u = Inr ((), u') \<and> shows_same t' u'"
proof -
  have h: "htons Big ETH_P_IRDA = ETH_P_IRDA" by (simp add: htons_def)
  note args = assms(1) h assms(2-4)
  have nil: "htons Big ETH_P_IRDA = ETH_P_IRDA" by (rule h)
  let ?u0 = "t\<lparr>files := (files t)\<lparr>cap_in := concat (map (captured_bytes Big hdr0) rs)\<rparr>, config_captureread := 0\<rparr>"
  have "cap_out (files t') = concat (map (captured_bytes Big hdr0) rs)"
    using live_then_replay [OF args, where evs = "map (\<lambda>_. Recv_Error) rs" and u = ?u0 and rest = "[]"] assms(5)
    by (simp add: shows_same_def)
  then show ?thesis
    using live_then_replay [OF args assms(6-8), of "[]" hdr1] assms(9) by simp
qed

definition big_demo :: captured where
  "big_demo = \<lparr>c_data = [0x13, 0x53], c_from = \<lparr>sll_protocol = 0x0017, sll_ifindex = 3, sll_hatype = 783,
     sll_pkttype = 4, sll_halen = 4, sll_addr = [1, 2, 3, 4, 0, 0, 0, 0]\<rparr>,
     c_time = \<lparr>tv_sec = 1000000000, tv_usec = 250000\<rparr>\<rparr>"

definition live_demo :: tool where
  "live_demo = tool_start (\<lambda>_. 0)\<lparr>config_capturewrite := 4\<rparr>"

theorem replay_repeats_live_session_witness:
  "\<exists>t' u'. main_loop demo_libc Big zero_sll [Recv (packet_of big_demo)] live_demo = Inr ((), t') \<and>
     main_loop demo_libc Big zero_sll [Recv_Error] (live_demo\<lparr>config_captureread := 5, files := \<lparr>cap_in = cap_out (files t'),
       cap_out = [], write_results = []\<rparr>\<rparr>) = Inr ((), u') \<and>
     screen t' = [''01:46:40.250000 disc:cmd > ca=0x12 pf=1 (2) ''] \<and> screen u' = screen t'"
proof -
  have "case main_loop demo_libc Big zero_sll [Recv (packet_of big_demo)] live_demo of
      Inl f \<Rightarrow> False | Inr (x, t') \<Rightarrow> screen t' = [''01:46:40.250000 disc:cmd > ca=0x12 pf=1 (2) '']" by code_simp
  then obtain t' where t': "main_loop demo_libc Big zero_sll [Recv (packet_of big_demo)] live_demo = Inr ((), t')"
    "screen t' = [''01:46:40.250000 disc:cmd > ca=0x12 pf=1 (2) '']" by (auto split: sum.splits)
  then have m: "main_loop demo_libc Big zero_sll (map (\<lambda>r. Recv (packet_of r)) [big_demo]) live_demo = Inr ((), t')"
    by simp
  have pass: "list_all (passes Big (ifindex live_demo)) [big_demo]"
    by (simp add: passes_def storable_def big_demo_def live_demo_def tool_start_def htons_def ETH_P_IRDA_def)
  have rdy: "live_ready live_demo" "cap_out (files live_demo) = []"
    by (simp_all add: live_ready_def live_demo_def tool_start_def start_state_def frame_at_def default_config_def)
  have "\<exists>u'. main_loop demo_libc Big zero_sll [Recv_Error] (live_demo\<lparr>config_captureread := 5, files := \<lparr>cap_in = cap_out (files t'),
       cap_out = [], write_results = []\<rparr>\<rparr>) = Inr ((), u') \<and> shows_same t' u'"
    by (rule replay_repeats_live_session [OF pass _ rdy(1) m rdy(2)]) (simp_all add: shows_same_def zero_sll_def)
  with t' show ?thesis by (auto simp: shows_same_def)
qed


lemma little_protocol: "htons Little ETH_P_IRDA \<noteq> ETH_P_IRDA"
  by code_simp

lemma replay_drops_step:
  assumes "passes Little ix r" "length (h_addr hdr0) = 8"
    and "cap_in (files u) = captured_bytes Little hdr0 r @ rest" "0 \<le> config_captureread u"
    and "nb_truesize (buf (parser u)) = 2050"
  shows "\<exists>u'. irdadump_loop L Little hdr1 ev u = Inr (-1, u') \<and> cap_in (files u') = rest \<and>
    screen u' = screen u \<and> packets u' = packets u \<and> line (parser u') = line (parser u) \<and>
    config_captureread u' = config_captureread u \<and> nb_truesize (buf (parser u')) = 2050"
proof -
  have r: "storable r" "c_data r \<noteq> []" "sll_protocol (c_from r) \<noteq> ETH_P_IRDA"
    using assms(1) little_protocol by (auto simp: passes_def)
  show ?thesis
    using replay_run [OF r(1,2) assms(2-5), of L hdr1 ev] r(3) assms(5)
    by (simp add: g_netbuf_recycle_def)
qed

text \<open>C38: On a little-endian host the program does not read its own capture files. The protocol of a
  packet is stored in network byte order and compared with the host's constant when read back, so
  that every frame the live filter let through and wrote to the file is dropped by the replay: nothing
  is printed and no packet is counted.\<close>

theorem replay_drops_own_capture:
  assumes "list_all (passes Little ix) rs" "length (h_addr hdr0) = 8"
    and "cap_in (files u) = concat (map (captured_bytes Little hdr0) rs)" "0 \<le> config_captureread u"
    and "nb_truesize (buf (parser u)) = 2050" "length evs = length rs"
  shows "\<exists>u'. main_loop L Little hdr1 evs u = Inr ((), u') \<and> cap_in (files u') = [] \<and>
    screen u' = screen u \<and> packets u' = packets u"
  using assms
proof (induction rs arbitrary: u evs)
  case Nil
  then show ?case by (simp add: prog_defs)
next
  case (Cons r rs)
  obtain ev evs' where evs: "evs = ev # evs'" using Cons.prems(6) by (cases evs) auto
  obtain u1 where u1: "irdadump_loop L Little hdr1 ev u = Inr (-1, u1)"
    "cap_in (files u1) = concat (map (captured_bytes Little hdr0) rs)" "screen u1 = screen u" "packets u1 = packets u"
    "config_captureread u1 = config_captureread u" "nb_truesize (buf (parser u1)) = 2050"
    using replay_drops_step [of ix r hdr0 u "concat (map (captured_bytes Little hdr0) rs)" L hdr1 ev] Cons.prems
    by auto
  have "\<exists>u'. main_loop L Little hdr1 evs' u1 = Inr ((), u') \<and> cap_in (files u') = [] \<and>
      screen u' = screen u1 \<and> packets u' = packets u1"
    using Cons.prems u1 evs by (intro Cons.IH) auto
  with u1 show ?case by (auto simp: evs bnd_def seq_def whenc_def skip_def ret_def)
qed

definition replay_demo :: tool where
  "replay_demo = tool_start (\<lambda>_. 0)\<lparr>config_captureread := 5, files :=
     \<lparr>cap_in = captured_bytes Little zero_sll (hd demo_capture), cap_out = [], write_results = []\<rparr>\<rparr>"

theorem replay_drops_own_capture_witness:
  "\<exists>u'. main_loop demo_libc Little zero_sll [Recv_Error] replay_demo = Inr ((), u') \<and> screen u' = []"
proof -
  have "list_all (passes Little 0) [hd demo_capture]"
  proof -
    have "htons Little ETH_P_IRDA = 0x1700" by code_simp
    then show ?thesis by (simp add: passes_def storable_def demo_capture_def)
  qed
  from replay_drops_own_capture [OF this, of zero_sll replay_demo "[Recv_Error]" demo_libc zero_sll]
  show ?thesis
    by (auto simp: replay_demo_def zero_sll_def tool_start_def start_state_def frame_at_def)
qed

lemma clock_fields:
  fixes d :: int
  assumes d: "0 \<le> d" "d < 86400"
  shows "d = 3600 * (d div 3600) + 60 * (d mod 3600 div 60) + d mod 60"
    and "0 \<le> d div 3600" "d div 3600 < 24" "0 \<le> d mod 3600 div 60" "d mod 3600 div 60 < 60"
proof -
  show "0 \<le> d div 3600" "d div 3600 < 24" "0 \<le> d mod 3600 div 60" "d mod 3600 div 60 < 60"
    using d by (simp_all add: div_less_iff_less_mult pos_imp_zdiv_nonneg_iff)
  have m: "d mod 3600 mod 60 = d mod 60" by (rule mod_mod_cancel) simp
  show "d = 3600 * (d div 3600) + 60 * (d mod 3600 div 60) + d mod 60"
    using mult_div_mod_eq [of 3600 d] mult_div_mod_eq [of 60 "d mod 3600"] m by linarith
qed

text \<open>A time stamp is printed as the UTC time of day: hours below 24, minutes and seconds below 60, which
  give the seconds modulo one day also for times before 1970, and the microseconds with six digits.\<close>

theorem time_of_day_printed:
  "\<exists>h m s. print_time tv = fmt_0d 2 h @ '':'' @ fmt_0d 2 m @ '':'' @ fmt_0d 2 s @ ''.'' @
       fmt_0d 6 (tv_usec tv mod 2 ^ 32) @ '' '' \<and>
     tv_sec tv mod 86400 = 3600 * h + 60 * m + s \<and>
     0 \<le> h \<and> h < 24 \<and> 0 \<le> m \<and> m < 60 \<and> 0 \<le> s \<and> s < 60"
proof -
  define d where "d = tv_sec tv mod 86400"
  have d: "0 \<le> d" "d < 86400" by (simp_all add: d_def)
  note f = clock_fields [OF d]
  show ?thesis
    unfolding print_time_def day_seconds_mod d_def [symmetric] Let_def
    by (intro exI [of _ "d div 3600"] exI [of _ "d mod 3600 div 60"] exI [of _ "d mod 60"] conjI f refl)
      simp_all
qed

definition micros :: "timeval \<Rightarrow> int" where
  "micros tv = tv_sec tv * 1000000 + tv_usec tv"

text \<open>The time difference is exact before it is printed: the previous stamp becomes the difference
  in microseconds, with a microsecond part between 0 and 999999 when both stamps were normalised, and
  the current stamp still denotes the same instant.\<close>

theorem time_difference_exact:
  assumes "0 \<le> tv_usec a" "tv_usec a < 1000000" "0 \<le> tv_usec b" "tv_usec b < 1000000"
  shows "case print_diff_time a b of (c, p, x) \<Rightarrow>
    micros c = micros a \<and> micros p = micros a - micros b \<and> 0 \<le> tv_usec p \<and> tv_usec p < 1000000"
  using assms by (auto simp: print_diff_time_def Let_def micros_def)

theorem time_difference_exact_witness:
  "case print_diff_time \<lparr>tv_sec = 11, tv_usec = 100\<rparr> \<lparr>tv_sec = 9, tv_usec = 200\<rparr> of (c, p, x) \<Rightarrow>
    micros p = 1999900 \<and> tv_usec p = 999900"
  using time_difference_exact [of "\<lparr>tv_sec = 11, tv_usec = 100\<rparr>" "\<lparr>tv_sec = 9, tv_usec = 200\<rparr>"]
  by (auto simp: print_diff_time_def Let_def micros_def)

text \<open>With time differences on, a capture file gets the differences for time stamps. The two time
  stamp pointers are exchanged while the frame is parsed, and the record is written
  afterwards with the one that then holds the difference to the previous frame.\<close>

theorem capture_stamp_is_difference:
  assumes "passes e (ifindex t) r" "config_captureread t < 0" "0 \<le> config_capturewrite t"
    and "nb_truesize (buf (parser t)) = 2050" "write_results (files t) = []"
    and "config_print_diff (config (parser t))" "\<not> config_print_irlap (config (parser t))"
    and "\<not> config_dump_frame (config (parser t))" "\<not> config_dump_bytes (config (parser t))"
  shows "\<exists>t'. irdadump_loop L e hdr0 (Recv (packet_of r)) t = Inr (0, t') \<and>
    cap_out (files t') = cap_out (files t) @
      captured_bytes e hdr0 (r\<lparr>c_time := fst (snd (print_diff_time (c_time r) (prev_time t)))\<rparr>)"
proof -
  obtain c p x where pd: "print_diff_time (c_time r) (prev_time t) = (c, p, x)"
    by (cases "print_diff_time (c_time r) (prev_time t)")
  define d where "d = (parser t)\<lparr>buf := loaded (c_data r) (buf (parser t)),
    line := line (parser t) @ print_time (c_time r) @ x @ ''('' @ fmt_d (int (length (c_data r))) @ '') ''\<rparr>"
  have run: "parse_irda_frame (dir_of (c_from r)) (int (length (c_data r))) (load_tool r t) =
      Inr ((), t\<lparr>parser := d, curr_time := p, prev_time := c\<rparr>)"
    using assms(6-9) pd
    by (cases t) (simp add: parse_irda_frame_def load_tool_def cfg_def bnd_def seq_def gets_def out_def in_parser_def
        say_def modify_def whenc_def skip_def ret_def Let_def d_def)
  have n: "length (c_data r) \<le> 2050" using assms(1) by (simp add: passes_def storable_def)
  have "capwrite_dump e hdr0 (buf d) (int (length (c_data (r\<lparr>c_time := p\<rparr>)))) (c_from (r\<lparr>c_time := p\<rparr>))
      (c_time (r\<lparr>c_time := p\<rparr>)) (files t) =
      Inr (0, (files t)\<lparr>cap_out := cap_out (files t) @ captured_bytes e hdr0 (r\<lparr>c_time := p\<rparr>)\<rparr>)"
    using n assms(4,5) by (intro capwrite_dump_appends) (auto simp: d_def loaded_def intro: nth_equalityI)
  then show ?thesis
    using live_run [OF assms(1,2,4), of L hdr0] run pd assms(3)
    by (simp add: seq_def bnd_def gets_def whenc_def in_files_def skip_def ret_def)
qed

definition diff_demo :: tool where
  "diff_demo = (live_demo\<lparr>prev_time := \<lparr>tv_sec = 999999999, tv_usec = 0\<rparr>,
     parser := (parser live_demo)\<lparr>config := default_config\<lparr>config_print_diff := True, config_print_irlap := False\<rparr>\<rparr>\<rparr>)"

theorem capture_stamp_is_difference_witness:
  "\<exists>t'. irdadump_loop demo_libc Big zero_sll (Recv (packet_of big_demo)) diff_demo = Inr (0, t') \<and>
    cap_out (files t') = captured_bytes Big zero_sll (big_demo\<lparr>c_time := \<lparr>tv_sec = 1, tv_usec = 250000\<rparr>\<rparr>)"
proof -
  have "fst (snd (print_diff_time (c_time big_demo) (prev_time diff_demo))) = \<lparr>tv_sec = 1, tv_usec = 250000\<rparr>"
    by (simp add: print_diff_time_def Let_def big_demo_def diff_demo_def live_demo_def)
  moreover have "passes Big (ifindex diff_demo) big_demo"
    by (simp add: passes_def storable_def big_demo_def diff_demo_def live_demo_def tool_start_def htons_def
        ETH_P_IRDA_def)
  ultimately show ?thesis
    using capture_stamp_is_difference [of Big diff_demo big_demo demo_libc zero_sll]
    by (auto simp: diff_demo_def live_demo_def tool_start_def start_state_def frame_at_def default_config_def)
qed

text \<open>The option for the number of bytes shown also switches on the decoding of unknown connections as
  TinyTP: the case of \<^verbatim>\<open>-s\<close> runs on into the case of \<^verbatim>\<open>-t\<close>. A length that is not positive selects the whole
  frame.\<close>

theorem snaplen_option_forces_ttp:
  "\<exists>o2. main_option CHR ''s'' optarg o1 = Inr o2 \<and> config_force_ttp (o_config o2) \<and>
     config_snaplen (o_config o2) = (if atoi optarg \<le> 0 then 2050 else atoi optarg)"
  by (simp add: main_option_def set_config_def Let_def)


section \<open>Reachable states\<close>

text \<open>The states of the program between two packets: the start state and what each turn of the main loop leaves.\<close>

inductive reachable :: "libc \<Rightarrow> endian \<Rightarrow> sll_header \<Rightarrow> tool \<Rightarrow> tool \<Rightarrow> bool" for L e hdr0 t0 where
  start: "reachable L e hdr0 t0 t0"
| turn: "reachable L e hdr0 t0 t \<Longrightarrow> main_loop L e hdr0 [ev] t = Inr ((), t') \<Longrightarrow> reachable L e hdr0 t0 t'"

inductive_cases turnE: "reachable L e hdr0 t0 t"

text \<open>
  What holds between two packets: the connection table has its 15 entries and its cache points into it,
  the sequence counters are three-bit numbers, every counted packet has been printed as one line.
\<close>

definition tool_inv :: "tool \<Rightarrow> bool" where
  "tool_inv t \<longleftrightarrow> conn_wf (parser t) \<and> counters_ok (parser t) \<and> packets t = int (length (screen t))"

lemma preserves_in_parser:
  assumes "preserves conn_wf m" "preserves counters_ok m"
  shows "preserves tool_inv (in_parser m)"
  using assms unfolding preserves_def tool_inv_def in_parser_def by (auto split: sum.splits)

lemma preserves_tool_other:
  "preserves tool_inv (out x)" "preserves tool_inv (cfg f)" "preserves tool_inv (head_at i)"
  "preserves tool_inv (in_files k)" "preserves tool_inv (put_frame L len)" "preserves tool_inv (recvfrom bs)"
  by (auto simp: preserves_def tool_inv_def out_def in_parser_def say_def modify_def cfg_def gets_def head_at_def
      in_files_def put_frame_def seq_def bnd_def skip_def ret_def on_buf_def recvfrom_def Let_def conn_wf_def
      counters_ok_def split: if_splits sum.splits)

lemma preserves_for: "(\<And>i. preserves P (body i)) \<Longrightarrow> preserves P (for_upto i n body)"
  by (induction i n body rule: for_upto.induct) (simp_all add: preserves_intro)

lemma preserves_tool_modify:
  "(\<And>t. conn (parser (f t)) = conn (parser t) \<and> conn_cache (parser (f t)) = conn_cache (parser t) \<and>
     counters (parser (f t)) = counters (parser t) \<and> packets (f t) = packets t \<and> screen (f t) = screen t) \<Longrightarrow>
   preserves tool_inv (modify f)"
  by (auto simp: preserves_def modify_def tool_inv_def conn_wf_def counters_ok_alt split: prod.splits)

lemmas preserves_tool = preserves_intro preserves_option preserves_prod preserves_tool_other preserves_for
  preserves_tool_modify

lemma preserves_parse_irda_frame: "preserves tool_inv (parse_irda_frame type len)"
  unfolding parse_irda_frame_def Let_def
  by (intro preserves_tool preserves_in_parser preserves_irlap preserves_counters) simp

lemma preserves_irdadump_loop: "preserves tool_inv (irdadump_loop L e hdr0 ev)"
proof -
  have cap: "preserves tool_inv (loop_capture L e j)" for j
    unfolding loop_capture_def by (intro preserves_tool preserves_parse_irda_frame) simp
  have sock: "preserves tool_inv (loop_socket L e hdr0 ev)"
  proof (cases ev)
    case (Recv pk)
    show ?thesis
      unfolding loop_socket_def Recv event.case by (intro preserves_tool preserves_parse_irda_frame) simp
  qed (simp add: loop_socket_def preserves_intro)
  show ?thesis
    unfolding irdadump_loop_def by (intro preserves_tool cap sock) simp
qed

lemma tool_inv_start: "tool_inv (tool_start junk)"
  by (simp add: tool_inv_def tool_start_def start_wf) (simp add: counters_ok_def start_state_def)

text \<open>Start-up keeps the invariant, whatever the options and the answers of the system.\<close>

lemma preserves_main_start: "preserves tool_inv (main_start L e env args)"
proof -
  have "preserves conn_wf irlap_init" "preserves counters_ok irlap_init"
    by (auto simp: preserves_def irlap_init_def seq_def bnd_def ret_def modify_def conn_set_def conn_wf_def counters_ok_def split: if_splits)
  then have i: "preserves tool_inv (in_parser irlap_init)" by (rule preserves_in_parser)
  have init: "preserves tool_inv (irdadump_init L env ifdev)" for ifdev
    unfolding irdadump_init_def by (intro preserves_tool i) (simp_all add: counters_def)
  have sum: "preserves tool_inv (case r of Inl n \<Rightarrow> fault (Exit_With n) | Inr x \<Rightarrow> f x)" if "\<And>x. preserves tool_inv (f x)"
    for r :: "int + options" and f :: "options \<Rightarrow> (tool, int option) prog"
    using that by (cases r) (simp_all add: preserves_intro)
  show ?thesis
    unfolding main_start_def by (intro preserves_tool sum init) (simp_all add: counters_def)
qed

lemma preserves_turn: "tool_inv t \<Longrightarrow> main_loop L e hdr0 [ev] t = Inr ((), t') \<Longrightarrow> tool_inv t'"
proof -
  assume t: "tool_inv t" "main_loop L e hdr0 [ev] t = Inr ((), t')"
  then obtain x t1 where l: "irdadump_loop L e hdr0 ev t = Inr (x, t1)" by (auto simp: bnd_eq_Inr)
  have "tool_inv t1" using preservesD [OF preserves_irdadump_loop t(1) l] .
  with l t(2) show "tool_inv t'"
    by (auto simp: bnd_def seq_def whenc_def modify_def skip_def ret_def tool_inv_def conn_wf_def counters_ok_def
        split: if_splits)
qed

text \<open>C10: From its start-up on, whatever the options and whatever packets arrive, live or from a file, in every state the program
  reaches between two packets the connection table has 15 entries with the lookup cache inside it, the sequence counters are
  three-bit numbers, and each packet counted has been printed as one line.\<close>

theorem reachable_states_consistent:
  assumes "main_start L e env args (tool_start junk) = Inr (None, t0)" "reachable L e hdr0 t0 t"
  shows "tool_inv t"
  using assms(2)
proof (induction rule: reachable.induct)
  case start
  show ?case using preservesD [OF preserves_main_start tool_inv_start assms(1)] .
next
  case (turn t ev t')
  then show ?case using preserves_turn by blast
qed

definition start_env :: env where
  "start_env = \<lparr>open_write = (\<lambda>f. 4), open_read = (\<lambda>f. 5), contents = (\<lambda>f. []), socket_fd = 3, if_index = (\<lambda>d. Some 1),
     now = \<lparr>tv_sec = 0, tv_usec = 0\<rparr>\<rparr>"

theorem reachable_states_consistent_witness:
  "\<exists>t0 t'. main_start demo_libc Big start_env [(CHR ''w'', ''log'')] (tool_start (\<lambda>_. 0)) = Inr (None, t0) \<and>
     reachable demo_libc Big zero_sll t0 t' \<and> tool_inv t' \<and> packets t' = 1"
proof -
  have "case main_start demo_libc Big start_env [(CHR ''w'', ''log'')] (tool_start (\<lambda>_. 0)) of Inl f \<Rightarrow> False | Inr (r, t0) \<Rightarrow> r = None \<and>
      (case main_loop demo_libc Big zero_sll [Recv (packet_of big_demo)] t0 of Inl f \<Rightarrow> False | Inr (x, t') \<Rightarrow> packets t' = 1)"
    by code_simp
  then obtain t0 where m: "main_start demo_libc Big start_env [(CHR ''w'', ''log'')] (tool_start (\<lambda>_. 0)) = Inr (None, t0)"
    and l: "case main_loop demo_libc Big zero_sll [Recv (packet_of big_demo)] t0 of Inl f \<Rightarrow> False | Inr (x, t') \<Rightarrow> packets t' = 1"
    by (cases "main_start demo_libc Big start_env [(CHR ''w'', ''log'')] (tool_start (\<lambda>_. 0))") (auto simp del: main_loop.simps)
  from l obtain t' where "main_loop demo_libc Big zero_sll [Recv (packet_of big_demo)] t0 = Inr ((), t')" "packets t' = 1"
    by (cases "main_loop demo_libc Big zero_sll [Recv (packet_of big_demo)] t0") (auto simp del: main_loop.simps)
  note t = m this
  have "reachable demo_libc Big zero_sll t0 t'" by (rule reachable.turn [OF reachable.start t(2)])
  with reachable_states_consistent [OF t(1) this] t show ?thesis by blast
qed

end
