(* ===== verification/Findchip_Bus.thy ===== *)
theory Findchip_Bus
  imports C_Prelude
begin

text \<open>
  What the chip probes of \<^verbatim>\<open>irda-utils/findchip\<close> share: the I/O ports, the description of a chip and its
  printed form (\<^verbatim>\<open>findchip.h\<close>, \<^verbatim>\<open>print_info\<close> of \<^verbatim>\<open>findchip.c\<close>). The hardware is a parameter: a \<open>bus\<close> says what a
  port returns when it is read and what a write does to the devices, whose state is of any type. The
  program asks for the ports below 0x3ff; an access to another port ends the process. Every access is
  recorded in \<open>trace\<close>. Debug output is left out.
\<close>

datatype io = Out int byte | In int byte

record 'h bus =
  bus_read :: "int \<Rightarrow> 'h \<Rightarrow> byte \<times> 'h"
  bus_write :: "int \<Rightarrow> byte \<Rightarrow> 'h \<Rightarrow> 'h"

record 'h machine =
  hw :: 'h
  trace :: "io list"
  printed :: "string list"
  verbose :: bool

record chip_info =
  manufacturer :: string
  chip_name :: string
  chip_id :: int
  revision :: int
  cfg_base :: int
  sir_base :: int
  fir_base :: int
  irq :: int
  dma :: int
  uart_comp :: int
  enabled :: int
  suspended :: int
  delay :: int

definition zero_info :: chip_info where
  "zero_info = \<lparr>manufacturer = '''', chip_name = '''', chip_id = 0, revision = 0, cfg_base = 0,
     sir_base = 0, fir_base = 0, irq = 0, dma = 0, uart_comp = 0, enabled = 0, suspended = 0, delay = 0\<rparr>"

text \<open>\<^verbatim>\<open>%x\<close> of an \<^verbatim>\<open>int\<close>.\<close>

definition fmt_xi :: "int \<Rightarrow> string" where
  "fmt_xi n = fmt_x (n mod 2 ^ 32)"

definition yes_no :: "int \<Rightarrow> string" where
  "yes_no n = (if n \<noteq> 0 then ''yes'' else ''no'')"

definition nl :: string where
  "nl = [CHR 0x0A]"

definition print_info_text :: "bool \<Rightarrow> chip_info \<Rightarrow> string" where
  "print_info_text verb i =
     (if verb then
        ''Found '' @ manufacturer i @ '' '' @ chip_name i @ '' Controller at 0x'' @ fmt_xi (cfg_base i) @
        '', DevID=0x'' @ fmt_02x (chip_id i mod 2 ^ 32) @ '', Rev. '' @ fmt_d (revision i) @ nl @
        ''    SIR Base 0x'' @ fmt_xi (sir_base i) @ '', FIR Base 0x'' @ fmt_xi (fir_base i) @ nl @
        ''    IRQ = '' @ fmt_d (irq i) @ '', DMA = '' @ fmt_d (dma i) @ nl @
        ''    Enabled: '' @ yes_no (enabled i) @ '', Suspended: '' @ yes_no (suspended i) @ nl @
        ''    UART compatible: '' @ yes_no (uart_comp i) @ nl @
        ''    Half duplex delay = '' @ fmt_d (delay i) @ '' us'' @ nl
      else
        manufacturer i @ '','' @ chip_name i @ '','' @ fmt_d (chip_id i) @ ''.'' @ fmt_d (revision i) @
        '',0x'' @ fmt_xi (cfg_base i) @ '',0x'' @ fmt_xi (sir_base i) @ '',0x'' @ fmt_xi (fir_base i) @
        '','' @ fmt_d (irq i) @ '','' @ fmt_d (dma i) @ '','' @ fmt_d (enabled i) @ '','' @
        fmt_d (suspended i) @ '','' @ fmt_d (uart_comp i) @ nl)"

definition print_text :: "string \<Rightarrow> ('h machine, unit) prog" where
  "print_text x = modify (\<lambda>m. m\<lparr>printed := printed m @ [x]\<rparr>)"

definition print_info :: "chip_info \<Rightarrow> ('h machine, unit) prog" where
  "print_info i = bnd (gets verbose) (\<lambda>v. print_text (print_info_text v i))"

text \<open>\<^verbatim>\<open>ioperm(0x0, 0x3ff, 1)\<close> opens the ports 0 to 0x3fe.\<close>

definition permitted :: "int \<Rightarrow> bool" where
  "permitted p \<longleftrightarrow> 0 \<le> p \<and> p < 0x3ff"

definition inb :: "'h bus \<Rightarrow> int \<Rightarrow> ('h machine, byte) prog" where
  "inb B p = (\<lambda>m. if permitted p
     then (case bus_read B p (hw m) of (v, h) \<Rightarrow> Inr (v, m\<lparr>hw := h, trace := trace m @ [In p v]\<rparr>))
     else Inl (Port_Denied p))"

definition outb :: "'h bus \<Rightarrow> byte \<Rightarrow> int \<Rightarrow> ('h machine, unit) prog" where
  "outb B v p = (\<lambda>m. if permitted p
     then Inr ((), m\<lparr>hw := bus_write B p v (hw m), trace := trace m @ [Out p v]\<rparr>)
     else Inl (Port_Denied p))"

text \<open>\<^verbatim>\<open>outb(i, index); inb(data)\<close>: the way a configuration register is read.\<close>

definition cfg_read :: "'h bus \<Rightarrow> byte \<Rightarrow> int \<Rightarrow> int \<Rightarrow> ('h machine, int) prog" where
  "cfg_read B i ip dp = seq (outb B i ip) (bnd (inb B dp) (\<lambda>v. ret (uint v)))"

section \<open>Index and data registers\<close>

text \<open>
  The documented behaviour of a configuration port pair: after an index is written, the data port
  returns that register and the registers stay as they are.
\<close>

definition indexed :: "'h bus \<Rightarrow> int \<Rightarrow> int \<Rightarrow> ('h \<Rightarrow> byte \<Rightarrow> byte) \<Rightarrow> bool" where
  "indexed B ip dp regs \<longleftrightarrow>
     (\<forall>h i. case bus_read B dp (bus_write B ip i h) of (v, h') \<Rightarrow> v = regs h i \<and> regs h' = regs h)"

lemma wp_cfg_read:
  assumes "indexed B ip dp regs" "permitted ip" "permitted dp"
    and "\<And>h t. regs h = regs (hw m) \<Longrightarrow> Q (uint (regs (hw m) i)) (m\<lparr>hw := h, trace := t\<rparr>)"
  shows "wp (cfg_read B i ip dp) Q m"
proof -
  obtain v h' where r: "bus_read B dp (bus_write B ip i (hw m)) = (v, h')" by (cases "bus_read B dp (bus_write B ip i (hw m))")
  with assms(1) have "v = regs (hw m) i" "regs h' = regs (hw m)" by (auto simp: indexed_def split: prod.splits)
  then show ?thesis
    using assms(2-4) r by (simp add: wp_def cfg_read_def seq_def bnd_def outb_def inb_def ret_def)
qed

lemma cfg_read_run:
  assumes "indexed B ip dp regs" "permitted ip" "permitted dp"
  shows "\<exists>m'. cfg_read B i ip dp m = Inr (uint (regs (hw m) i), m') \<and> regs (hw m') = regs (hw m) \<and>
    printed m' = printed m \<and> verbose m' = verbose m"
proof -
  have "wp (cfg_read B i ip dp) (\<lambda>v m'. v = uint (regs (hw m) i) \<and> regs (hw m') = regs (hw m) \<and>
      printed m' = printed m \<and> verbose m' = verbose m) m"
    by (rule wp_cfg_read [OF assms]) simp
  from wpD [OF this] show ?thesis by blast
qed

lemma wp_print_info [wp_simps]:
  "wp (print_info i) Q m = Q () (m\<lparr>printed := printed m @ [print_info_text (verbose m) i]\<rparr>)"
  by (simp add: print_info_def print_text_def wp_simps)

lemma wp_print_text [wp_simps]: "wp (print_text x) Q m = Q () (m\<lparr>printed := printed m @ [x]\<rparr>)"
  by (simp add: print_text_def wp_simps)

section \<open>Runs on any hardware\<close>

text \<open>
  \<open>traced P m\<close>: on any hardware, \<open>m\<close> returns, and the accesses it adds to the trace satisfy \<open>P\<close>.
\<close>

definition traced :: "(io list \<Rightarrow> bool) \<Rightarrow> ('h machine, 'a) prog \<Rightarrow> bool" where
  "traced P p \<longleftrightarrow> (\<forall>m. \<exists>x m' t. p m = Inr (x, m') \<and> trace m' = trace m @ t \<and> P t)"

named_theorems traced_intro \<open>rules for runs that return on any hardware\<close>

abbreviation returns :: "('h machine, 'a) prog \<Rightarrow> bool" where
  "returns \<equiv> traced (\<lambda>_. True)"

lemma tracedD: "traced P p \<Longrightarrow> \<exists>x m' t. p m = Inr (x, m') \<and> trace m' = trace m @ t \<and> P t"
  by (simp add: traced_def)

lemma traced_mono: "traced P p \<Longrightarrow> (\<And>t. P t \<Longrightarrow> Q t) \<Longrightarrow> traced Q p"
  unfolding traced_def by blast

lemma traced_bnd:
  assumes "traced P p" "\<And>x. traced Q (f x)" "\<And>a b. P a \<Longrightarrow> Q b \<Longrightarrow> R (a @ b)"
  shows "traced R (bnd p f)"
  unfolding traced_def
proof
  fix m
  obtain x m1 t1 where 1: "p m = Inr (x, m1)" "trace m1 = trace m @ t1" "P t1"
    using tracedD [OF assms(1), of m] by blast
  obtain y m2 t2 where 2: "f x m1 = Inr (y, m2)" "trace m2 = trace m1 @ t2" "Q t2"
    using tracedD [OF assms(2), of x m1] by blast
  show "\<exists>y m' t. bnd p f m = Inr (y, m') \<and> trace m' = trace m @ t \<and> R t"
    using 1 2 assms(3) [of t1 t2] by (auto simp: bnd_def)
qed

lemma traced_seq: "traced P p \<Longrightarrow> traced Q q \<Longrightarrow> (\<And>a b. P a \<Longrightarrow> Q b \<Longrightarrow> R (a @ b)) \<Longrightarrow> traced R (seq p q)"
  unfolding seq_def by (rule traced_bnd)

lemma returns_bnd [traced_intro]: "returns p \<Longrightarrow> (\<And>x. returns (f x)) \<Longrightarrow> returns (bnd p f)"
  by (rule traced_bnd) simp_all

lemma returns_seq [traced_intro]: "returns p \<Longrightarrow> returns q \<Longrightarrow> returns (seq p q)"
  by (rule traced_seq) simp_all

lemma returns_basic [traced_intro]:
  "returns (ret x)" "returns (gets g)" "returns (print_text s)" "returns (print_info i)" "returns skip"
  by (auto simp: traced_def ret_def gets_def print_text_def print_info_def modify_def bnd_def skip_def)

lemma traced_outb: "permitted p \<Longrightarrow> traced (\<lambda>t. t = [Out p v]) (outb B v p)"
  by (simp add: traced_def outb_def)

lemma returns_io [traced_intro]: "permitted p \<Longrightarrow> returns (outb B v p)" "permitted p \<Longrightarrow> returns (inb B p)"
  by (auto simp: traced_def outb_def inb_def split: prod.splits)

lemma returns_cfg_read [traced_intro]: "permitted ip \<Longrightarrow> permitted dp \<Longrightarrow> returns (cfg_read B i ip dp)"
  unfolding cfg_read_def by (intro traced_intro)

lemma returns_if [traced_intro]: "returns p \<Longrightarrow> returns q \<Longrightarrow> returns (if b then p else q)"
  by simp

lemma returns_whenc [traced_intro]: "returns p \<Longrightarrow> returns (whenc b p)"
  by (simp add: whenc_def returns_basic)

section \<open>What a run adds to the trace\<close>

text \<open>\<open>adds P p\<close>: where \<open>p\<close> returns, the accesses it made satisfy \<open>P\<close>.\<close>

definition adds :: "(io list \<Rightarrow> bool) \<Rightarrow> ('h machine, 'a) prog \<Rightarrow> bool" where
  "adds P p \<longleftrightarrow> (\<forall>m x m'. p m = Inr (x, m') \<longrightarrow> (\<exists>t. trace m' = trace m @ t \<and> P t))"

named_theorems adds_intro \<open>rules for the accesses of a run\<close>

abbreviation extends :: "('h machine, 'a) prog \<Rightarrow> bool" where
  "extends \<equiv> adds (\<lambda>_. True)"

lemma addsD: "adds P p \<Longrightarrow> p m = Inr (x, m') \<Longrightarrow> \<exists>t. trace m' = trace m @ t \<and> P t"
  by (auto simp: adds_def)

lemma adds_bnd:
  assumes "adds P p" "\<And>x. adds Q (f x)" "\<And>a b. P a \<Longrightarrow> Q b \<Longrightarrow> R (a @ b)"
  shows "adds R (bnd p f)"
  unfolding adds_def
proof (intro allI impI)
  fix m y m2 assume "bnd p f m = Inr (y, m2)"
  then obtain x m1 where 1: "p m = Inr (x, m1)" "f x m1 = Inr (y, m2)" by (auto simp: bnd_eq_Inr)
  obtain a b where "trace m1 = trace m @ a" "P a" "trace m2 = trace m1 @ b" "Q b"
    using addsD [OF assms(1) 1(1)] addsD [OF assms(2) 1(2)] by auto
  then show "\<exists>t. trace m2 = trace m @ t \<and> R t" using assms(3) by auto
qed

lemma adds_seq: "adds P p \<Longrightarrow> adds Q q \<Longrightarrow> (\<And>a b. P a \<Longrightarrow> Q b \<Longrightarrow> R (a @ b)) \<Longrightarrow> adds R (seq p q)"
  unfolding seq_def by (rule adds_bnd)

lemma adds_outb: "adds (\<lambda>t. t = [Out p v]) (outb B v p)"
  by (auto simp: adds_def outb_def split: if_splits)

lemma adds_ret: "P [] \<Longrightarrow> adds P (ret x)"
  by (auto simp: adds_def ret_def)

lemma extends_bnd [adds_intro]: "extends p \<Longrightarrow> (\<And>x. extends (f x)) \<Longrightarrow> extends (bnd p f)"
  by (rule adds_bnd) simp_all

lemma extends_seq [adds_intro]: "extends p \<Longrightarrow> extends q \<Longrightarrow> extends (seq p q)"
  by (rule adds_seq) simp_all

lemma extends_basic [adds_intro]:
  "extends (ret x)" "extends (gets g)" "extends (print_text s)" "extends (print_info i)" "extends skip"
  "extends (outb B v p)" "extends (inb B p)"
  by (auto simp: adds_def ret_def gets_def print_text_def print_info_def modify_def bnd_def skip_def outb_def inb_def
      split: if_splits prod.splits)

lemma extends_cfg_read [adds_intro]: "extends (cfg_read B i ip dp)"
  unfolding cfg_read_def by (intro adds_intro)

lemma extends_if [adds_intro]: "extends p \<Longrightarrow> extends q \<Longrightarrow> extends (if b then p else q)"
  by simp

lemma extends_whenc [adds_intro]: "extends p \<Longrightarrow> extends (whenc b p)"
  by (simp add: whenc_def extends_basic)

text \<open>The last accesses of a run.\<close>

definition ends :: "io list \<Rightarrow> io list \<Rightarrow> bool" where
  "ends e t \<longleftrightarrow> (\<exists>io. t = io @ e)"

lemma ends_bnd: "extends p \<Longrightarrow> (\<And>x. adds (ends e) (f x)) \<Longrightarrow> adds (ends e) (bnd p f)"
  by (erule adds_bnd [where Q = "ends e"]) (auto simp: ends_def)

lemma ends_seq: "extends p \<Longrightarrow> adds (ends e) q \<Longrightarrow> adds (ends e) (seq p q)"
  unfolding seq_def by (rule ends_bnd)

lemma ends_outb: "adds (ends [Out p v]) (seq (outb B v p) (ret x))"
  by (rule adds_seq [OF adds_outb adds_ret, where Q = "\<lambda>t. t = []"]) (simp_all add: ends_def)

text \<open>A trace that consists of sessions, each of a given form.\<close>

definition in_sessions :: "(io list \<Rightarrow> bool) \<Rightarrow> io list \<Rightarrow> bool" where
  "in_sessions Q t \<longleftrightarrow> (\<exists>bs. t = concat bs \<and> list_all Q bs)"

lemma in_sessions_append: "in_sessions Q a \<Longrightarrow> in_sessions Q b \<Longrightarrow> in_sessions Q (a @ b)"
  unfolding in_sessions_def by (metis concat_append list_all_append)

lemma in_sessions_one: "Q a \<Longrightarrow> in_sessions Q a"
  unfolding in_sessions_def by (rule exI [of _ "[a]"]) simp

lemma in_sessions_empty: "in_sessions Q []"
  unfolding in_sessions_def by (rule exI [of _ "[]"]) simp

section \<open>A register file behind two ports\<close>

text \<open>
  A chip for examples: an index register and 256 configuration registers behind a pair of ports; other
  ports read as 0xff.
\<close>

record chip_regs =
  cur_index :: byte
  reg_file :: "byte \<Rightarrow> byte"

definition reg_chip :: "int \<Rightarrow> int \<Rightarrow> chip_regs bus" where
  "reg_chip ip dp = \<lparr>
     bus_read = (\<lambda>p h. if p = dp then (reg_file h (cur_index h), h) else if p = ip then (cur_index h, h) else (0xff, h)),
     bus_write = (\<lambda>p v h. if p = ip then h\<lparr>cur_index := v\<rparr>
       else if p = dp then h\<lparr>reg_file := (reg_file h)(cur_index h := v)\<rparr> else h)\<rparr>"

lemma reg_chip_indexed: "ip \<noteq> dp \<Longrightarrow> indexed (reg_chip ip dp) ip dp reg_file"
  by (simp add: indexed_def reg_chip_def)

definition chip_at_rest :: "(byte \<Rightarrow> byte) \<Rightarrow> chip_regs machine" where
  "chip_at_rest r = \<lparr>hw = \<lparr>cur_index = 0, reg_file = r\<rparr>, trace = [], printed = [], verbose = False\<rparr>"

end
