(* ===== verification/Nsc.thy ===== *)
theory Nsc
  imports Findchip_Bus
begin

text \<open>
  The probe for National Semiconductor chips, \<^verbatim>\<open>irda-utils/findchip/nsc.c\<close>. \<open>decode_108\<close> and \<open>decode_338\<close> state, from the
  register tables of the chips, what a probe has to report.
\<close>

section \<open>Model\<close>

record nsc_chip =
  nsc_name :: string
  nsc_cfg :: "int list"
  cid_index :: byte
  cid_value :: byte
  cid_mask :: byte
  is_108 :: bool

definition chips :: "nsc_chip list" where
  "chips =
     [\<lparr>nsc_name = ''PC87108'', nsc_cfg = [0x150, 0x398, 0xea], cid_index = 0x05, cid_value = 0x10,
        cid_mask = 0xf0, is_108 = True\<rparr>,
      \<lparr>nsc_name = ''PC87338'', nsc_cfg = [0x398, 0x15c, 0x2e], cid_index = 0x08, cid_value = 0xb0,
        cid_mask = 0xf0, is_108 = False\<rparr>]"

text \<open>The three \<^verbatim>\<open>switch\<close> statements of \<^verbatim>\<open>nsc_probe_108\<close>.\<close>

definition baic_base :: "int \<Rightarrow> int" where
  "baic_base reg = (let k = reg mod 4 in if k = 0 then 0x3e8 else if k = 1 then 0x2e8
     else if k = 2 then 0x3f8 else 0x2f8)"

definition csrt_irq :: "int \<Rightarrow> int" where
  "csrt_irq reg = (let q = reg mod 8 in if q = 0 then -1 else if q = 1 then 3 else if q = 2 then 4
     else if q = 3 then 5 else if q = 4 then 7 else if q = 5 then 9 else if q = 6 then 11 else 15)"

definition csrt_dma :: "int \<Rightarrow> int" where
  "csrt_dma reg = (let d = reg div 8 mod 4 in if d = 0 then -1 else if d = 1 then 0
     else if d = 2 then 1 else 3)"

definition nsc_probe_108 :: "'h bus \<Rightarrow> nsc_chip \<Rightarrow> int \<Rightarrow> int \<Rightarrow> int \<Rightarrow> ('h machine, unit) prog" where
  "nsc_probe_108 B chip base cid rv =
     bnd (cfg_read B 0x00 base (base + 1)) (\<lambda>baic.
     let info1 = zero_info\<lparr>sir_base := baic_base baic\<rparr>;
         info2 = info1\<lparr>fir_base := sir_base info1\<rparr>
     in bnd (cfg_read B 0x01 base (base + 1)) (\<lambda>csrt.
        let info3 = info2\<lparr>irq := csrt_irq csrt, dma := csrt_dma csrt\<rparr>
        in bnd (cfg_read B 0x02 base (base + 1)) (\<lambda>mctl.
           print_info (info3\<lparr>enabled := mctl mod 2, suspended := (if mctl div 2 mod 2 = 0 then 1 else 0),
             manufacturer := ''NSC'', chip_name := nsc_name chip, revision := rv, chip_id := cid,
             cfg_base := base, uart_comp := 1\<rparr>))))"

text \<open>The base address in plug-and-play mode from its two registers.\<close>

definition pnp_address :: "int \<Rightarrow> int \<Rightarrow> int" where
  "pnp_address lo hi = push_bit 2 (lo AND 0xfe) OR push_bit 8 (hi AND 0xfc)"

text \<open>The base address in legacy mode from the function address register.\<close>

definition legacy_base :: "int \<Rightarrow> int" where
  "legacy_base reg =
     (let s = reg div 16 mod 4; k = reg div 64 mod 4
      in if s = 0 then 0x3f8 else if s = 1 then 0x2f8
         else
           let com = (if s = 2 then 3 else 4 :: int)
           in if k = 0 then (if com = 3 then 0x3e8 else 0x2e8)
              else if k = 1 then (if com = 3 then 0x338 else 0x238)
              else if k = 2 then (if com = 3 then 0x2e8 else 0x2e0)
              else (if com = 3 then 0x220 else 0x228))"

text \<open>\<^verbatim>\<open>printf("reg=0x%03x\n", reg)\<close>.\<close>

definition reg_text :: "int \<Rightarrow> string" where
  "reg_text reg = ''reg=0x'' @ pad 3 (hex_int reg) @ nl"

definition nsc_probe_338 :: "'h bus \<Rightarrow> nsc_chip \<Rightarrow> int \<Rightarrow> int \<Rightarrow> int \<Rightarrow> ('h machine, unit) prog" where
  "nsc_probe_338 B chip base cid rv =
     bnd (cfg_read B 0x00 base (base + 1)) (\<lambda>fer.
     bnd (cfg_read B 0x1b base (base + 1)) (\<lambda>pnp0.
     bnd (if pnp0 div 16 mod 2 \<noteq> 0 then
            bnd (cfg_read B 0x46 base (base + 1)) (\<lambda>lo.
            bnd (cfg_read B 0x47 base (base + 1)) (\<lambda>hi.
            ret (pnp_address lo hi)))
          else
            bnd (cfg_read B 0x01 base (base + 1)) (\<lambda>far.
            seq (print_text (reg_text far))
            (ret (legacy_base far)))) (\<lambda>sir.
     bnd (cfg_read B 0x1c base (base + 1)) (\<lambda>pnp1.
     bnd (cfg_read B 0x4f base (base + 1)) (\<lambda>pnp3.
     bnd (cfg_read B 0x02 base (base + 1)) (\<lambda>ptr.
     print_info (zero_info\<lparr>enabled := fer div 4 mod 2, sir_base := sir, fir_base := sir,
       irq := pnp1 div 16, dma := pnp3 mod 8 - 1, suspended := ptr mod 2,
       manufacturer := ''NSC'', chip_name := nsc_name chip, revision := rv, chip_id := cid,
       uart_comp := 1, cfg_base := base\<rparr>)))))))"

definition nsc_try :: "'h bus \<Rightarrow> nsc_chip \<Rightarrow> int \<Rightarrow> ('h machine, unit) prog" where
  "nsc_try B chip base =
     (if base = 0 then skip
      else
        bnd (inb B base) (\<lambda>index.
        if index = 0xff then skip
        else
          seq (outb B (cid_index chip) base)
          (bnd (inb B (base + 1)) (\<lambda>cid.
          whenc (cid AND cid_mask chip = cid_value chip)
            ((if is_108 chip then nsc_probe_108 else nsc_probe_338) B chip base
              (uint (drop_bit 4 (cid AND cid_mask chip))) (uint (cid AND NOT (cid_mask chip))))))))"

fun for_each :: "('a \<Rightarrow> ('s, unit) prog) \<Rightarrow> 'a list \<Rightarrow> ('s, unit) prog" where
  "for_each f [] = skip"
| "for_each f (x # xs) = seq (f x) (for_each f xs)"

definition probe_nsc :: "'h bus \<Rightarrow> ('h machine, int) prog" where
  "probe_nsc B = seq (for_each (\<lambda>chip. for_each (nsc_try B chip) (nsc_cfg chip)) chips) (ret 0)"

section \<open>Properties\<close>

lemma returns_for_each [traced_intro]: "(\<And>x. x \<in> set xs \<Longrightarrow> returns (f x)) \<Longrightarrow> returns (for_each f xs)"
  by (induction xs) (auto intro!: traced_intro)

text \<open>What the registers of a PC87108 say: address and interrupt tables of its data sheet.\<close>

definition decode_108 :: "(byte \<Rightarrow> byte) \<Rightarrow> chip_info" where
  "decode_108 r = zero_info\<lparr>
     sir_base := [0x3e8, 0x2e8, 0x3f8, 0x2f8] ! (unat (r 0x00) mod 4),
     fir_base := [0x3e8, 0x2e8, 0x3f8, 0x2f8] ! (unat (r 0x00) mod 4),
     irq := [-1, 3, 4, 5, 7, 9, 11, 15] ! (unat (r 0x01) mod 8),
     dma := [-1, 0, 1, 3] ! (unat (r 0x01) div 8 mod 4),
     uart_comp := 1,
     enabled := (if bit (r 0x02) 0 then 1 else 0),
     suspended := (if bit (r 0x02) 1 then 0 else 1)\<rparr>"

text \<open>The sixteen settings of the function address register of a PC87338 in legacy mode.\<close>

definition decode_338_base :: "(byte \<Rightarrow> byte) \<Rightarrow> int" where
  "decode_338_base r =
     (if bit (r 0x1b) 4 then uint (drop_bit 1 (r 0x46)) * 8 + uint (drop_bit 2 (r 0x47)) * 1024
      else [0x3f8, 0x2f8, 0x3e8, 0x2e8, 0x3f8, 0x2f8, 0x338, 0x238,
            0x3f8, 0x2f8, 0x2e8, 0x2e0, 0x3f8, 0x2f8, 0x220, 0x228] ! (unat (r 0x01) div 16))"

lemma uint_mod_nat: "uint (b :: byte) mod int n = int (unat b mod n)" "uint b div int n = int (unat b div n)"
  by (simp_all add: zmod_int zdiv_int)

lemma less_4: "(n :: nat) < 4 \<Longrightarrow> n = 0 \<or> n = 1 \<or> n = 2 \<or> n = 3"
  by auto

lemma decode_tables:
  "baic_base (uint (b :: byte)) = [0x3e8, 0x2e8, 0x3f8, 0x2f8] ! (unat b mod 4)"
  "csrt_irq (uint b) = [-1, 3, 4, 5, 7, 9, 11, 15] ! (unat b mod 8)"
  "csrt_dma (uint b) = [-1, 0, 1, 3] ! (unat b div 8 mod 4)"
proof -
  have u: "uint b mod 4 = int (unat b mod 4)" "uint b mod 8 = int (unat b mod 8)"
    "uint b div 8 mod 4 = int (unat b div 8 mod 4)"
    by (simp_all add: zmod_int zdiv_int)
  show "baic_base (uint b) = [0x3e8, 0x2e8, 0x3f8, 0x2f8] ! (unat b mod 4)"
    unfolding baic_base_def u Let_def using less_4 [of "unat b mod 4"] by auto
  have "unat b mod 8 \<in> {0, 1, 2, 3, 4, 5, 6, 7}" using mod_less_divisor [of 8 "unat b"] by auto
  then show "csrt_irq (uint b) = [-1, 3, 4, 5, 7, 9, 11, 15] ! (unat b mod 8)"
    unfolding csrt_irq_def u Let_def by (elim insertE) (simp_all del: of_nat_mod)
  show "csrt_dma (uint b) = [-1, 0, 1, 3] ! (unat b div 8 mod 4)"
    unfolding csrt_dma_def u Let_def using less_4 [of "unat b div 8 mod 4"] by auto
qed

lemma bit_byte: "bit (b :: byte) n \<longleftrightarrow> odd (uint b div 2 ^ n)"
  by (metis bit_imp_le_length bit_iff_odd bit_uint_iff)

lemma bit_flags:
  "uint (b :: byte) mod 2 = (if bit b 0 then 1 else 0)"
  "(if uint b div 2 mod 2 = 0 then 1 else 0 :: int) = (if bit b 1 then 0 else 1)"
  using bit_byte [of b 0] bit_byte [of b 1] by (simp_all add: odd_iff_mod_2_eq_one)


text \<open>On a chip that answers through its index and data ports, the probe of the PC87108 prints one line
  that states the base address, the interrupt, the DMA channel and the two mode bits as the data sheet's tables give them for
  the contents of its registers, whatever those are; the registers are left as they were.\<close>

theorem nsc_108_reports_registers:
  assumes "indexed B base (base + 1) regs" "0 \<le> base" "base + 1 < 0x3ff"
  shows "\<exists>m'. nsc_probe_108 B chip base cid rv m = Inr ((), m') \<and> regs (hw m') = regs (hw m) \<and>
    printed m' = printed m @ [print_info_text (verbose m) ((decode_108 (regs (hw m)))
      \<lparr>manufacturer := ''NSC'', chip_name := nsc_name chip, chip_id := cid, revision := rv, cfg_base := base\<rparr>)]"
proof -
  have p: "permitted base" "permitted (base + 1)" using assms(2,3) by (simp_all add: permitted_def)
  let ?r = "regs (hw m)"
  have "wp (nsc_probe_108 B chip base cid rv) (\<lambda>_ m'. regs (hw m') = ?r \<and>
    printed m' = printed m @ [print_info_text (verbose m) ((decode_108 ?r)
      \<lparr>manufacturer := ''NSC'', chip_name := nsc_name chip, chip_id := cid, revision := rv, cfg_base := base\<rparr>)]) m"
    unfolding nsc_probe_108_def wp_bnd
    by (rule wp_cfg_read [OF assms(1) p], simp only: Let_def wp_bnd)+
      (rule wp_cfg_read [OF assms(1) p],
        simp add: wp_simps decode_108_def zero_info_def decode_tables bit_flags del: nth_Cons_numeral)
  from wpD [OF this] show ?thesis by auto
qed


definition regs_108 :: "byte \<Rightarrow> byte" where
  "regs_108 i = (if i = 0x00 then 0x03 else if i = 0x01 then 0x12 else if i = 0x02 then 0x03
     else if i = 0x05 then 0x12 else 0)"

theorem nsc_108_reports_registers_witness:
  "\<exists>m'. nsc_probe_108 (reg_chip 0x150 0x151) (hd chips) 0x150 1 2 (chip_at_rest regs_108) = Inr ((), m') \<and>
     printed m' = [''NSC,PC87108,1.2,0x150,0x2f8,0x2f8,4,1,1,0,1'' @ nl]"
proof -
  have p: "indexed (reg_chip 0x150 0x151) 0x150 (0x150 + 1) reg_file" using reg_chip_indexed [of "0x150" "0x151"] by simp
  have out: "print_info_text False ((decode_108 regs_108)
      \<lparr>manufacturer := ''NSC'', chip_name := nsc_name (hd chips), chip_id := 1, revision := 2, cfg_base := 0x150\<rparr>) =
      ''NSC,PC87108,1.2,0x150,0x2f8,0x2f8,4,1,1,0,1'' @ nl" by code_simp
  show ?thesis
    using nsc_108_reports_registers [OF p, where chip = "hd chips" and cid = 1 and rv = 2 and m = "chip_at_rest regs_108"] out
    by (auto simp: chip_at_rest_def)
qed

lemma legacy_table: "legacy_base (uint (b :: byte)) =
    [0x3f8, 0x2f8, 0x3e8, 0x2e8, 0x3f8, 0x2f8, 0x338, 0x238,
     0x3f8, 0x2f8, 0x2e8, 0x2e0, 0x3f8, 0x2f8, 0x220, 0x228] ! (unat b div 16)"
proof -
  define n where "n = unat b div 16"
  have n: "n < 16" by (simp add: n_def less_mult_imp_div_less)
  have "uint b div 64 < 4" "0 \<le> uint b div 64"
    using uint_lt2p [of b] by (simp_all add: div_less_iff_less_mult pos_imp_zdiv_nonneg_iff)
  then have "uint b div 64 mod 4 = uint b div 64" by simp
  then have u: "uint b div 16 mod 4 = int (n mod 4)" "uint b div 64 mod 4 = int (n div 4)"
    by (simp_all add: n_def zmod_int zdiv_int div_mult2_eq [symmetric] zdiv_zmult2_eq [symmetric])
  have "n \<in> {0, 1, 2, 3, 4, 5, 6, 7, 8, 9, 10, 11, 12, 13, 14, 15}"
    using n unfolding insert_iff empty_iff by presburger
  then show ?thesis
    unfolding legacy_base_def u Let_def n_def [symmetric] by (elim insertE) simp_all
qed


lemma pnp_base: "pnp_address (uint (a :: byte)) (uint (b :: byte)) =
    uint (drop_bit 1 a) * 8 + uint (drop_bit 2 b) * 1024"
proof -
  have a: "push_bit 2 (uint a AND 0xfe) = uint (drop_bit 1 a) * 8"
    by (rule all_bytes [where P = "\<lambda>a. push_bit 2 (uint a AND 0xfe) = uint (drop_bit 1 a) * 8"]) code_simp
  have b: "push_bit 8 (uint b AND 0xfc) = uint (drop_bit 2 b) * 1024"
    by (rule all_bytes [where P = "\<lambda>b. push_bit 8 (uint b AND 0xfc) = uint (drop_bit 2 b) * 1024"]) code_simp
  have "\<not> bit (push_bit 2 (uint a AND 0xfe)) n \<or> \<not> bit (push_bit 8 (uint b AND 0xfc)) n" for n
  proof (cases "n < 10")
    case True
    then have "n < 8 \<or> n = 8 \<or> n = 9" by auto
    then show ?thesis by (auto simp: bit_simps)
  next
    case False
    then have "8 \<le> n - 2" by simp
    then show ?thesis by (auto simp: bit_simps dest: bit_imp_le_length)
  qed
  then have "push_bit 2 (uint a AND 0xfe) OR push_bit 8 (uint b AND 0xfc) =
      push_bit 2 (uint a AND 0xfe) + push_bit 8 (uint b AND 0xfc)"
    by (rule disjunctive_add [symmetric])
  with a b show ?thesis unfolding pnp_address_def by simp
qed

text \<open>The probe of the PC87338 prints one line with the base address its registers select, in plug-and-play
  mode from the two address registers and in legacy mode from the table of the
  function address register, and with the interrupt, the DMA channel (one less than coded) and the mode bits.\<close>

theorem nsc_338_reports_registers:
  assumes "indexed B base (base + 1) regs" "0 \<le> base" "base + 1 < 0x3ff"
  shows "\<exists>m' pre. nsc_probe_338 B chip base cid rv m = Inr ((), m') \<and> regs (hw m') = regs (hw m) \<and>
    printed m' = printed m @ pre @ [print_info_text (verbose m) (let r = regs (hw m) in zero_info
      \<lparr>manufacturer := ''NSC'', chip_name := nsc_name chip, chip_id := cid, revision := rv, cfg_base := base,
       sir_base := decode_338_base r, fir_base := decode_338_base r, irq := uint (drop_bit 4 (r 0x1c)),
       dma := uint (r 0x4f AND 0x07) - 1, uart_comp := 1, enabled := (if bit (r 0x00) 2 then 1 else 0),
       suspended := (if bit (r 0x02) 0 then 1 else 0)\<rparr>)] \<and>
    length pre = (if bit (regs (hw m) 0x1b) 4 then 0 else 1)"
proof -
  have p: "permitted base" "permitted (base + 1)" using assms(2,3) by (simp_all add: permitted_def)
  let ?r = "regs (hw m)"
  have fl: "uint (b :: byte) div 16 mod 2 = 0 \<longleftrightarrow> \<not> bit b 4" "uint b div 4 mod 2 = (if bit b 2 then 1 else 0)" for b
    using bit_byte [of b 4] bit_byte [of b 2] by (simp_all add: odd_iff_mod_2_eq_one)
  have fd: "uint (b :: byte) div 16 = uint (drop_bit 4 b)" "uint b mod 8 = uint (b AND 0x07)" for b
    by (rule all_bytes [where P = "\<lambda>b. uint b div 16 = uint (drop_bit 4 b)"], code_simp)
      (rule all_bytes [where P = "\<lambda>b. uint b mod 8 = uint (b AND 0x07)"], code_simp)
  note rd = wp_cfg_read [OF assms(1) p]
  have "wp (nsc_probe_338 B chip base cid rv) (\<lambda>_ m'. regs (hw m') = ?r \<and> (\<exists>pre. printed m' = printed m @ pre @
      [print_info_text (verbose m) (let r = ?r in zero_info
      \<lparr>manufacturer := ''NSC'', chip_name := nsc_name chip, chip_id := cid, revision := rv, cfg_base := base,
       sir_base := decode_338_base r, fir_base := decode_338_base r, irq := uint (drop_bit 4 (r 0x1c)),
       dma := uint (r 0x4f AND 0x07) - 1, uart_comp := 1, enabled := (if bit (r 0x00) 2 then 1 else 0),
       suspended := (if bit (r 0x02) 0 then 1 else 0)\<rparr>)] \<and> length pre = (if bit (?r 0x1b) 4 then 0 else 1))) m"
    unfolding nsc_probe_338_def wp_bnd wp_if wp_seq wp_print_text wp_ret
    by (rule rd, rule rd, cases "bit (?r 0x1b) 4"; simp add: fl(1); (rule rd)+;
        simp add: wp_simps fl(2) fd bit_flags(1) decode_338_base_def pnp_base legacy_table zero_info_def Let_def)
  from wpD [OF this] show ?thesis by auto
qed


definition regs_338 :: "byte \<Rightarrow> byte" where
  "regs_338 i = (if i = 0x00 then 0x04 else if i = 0x01 then 0x6f else if i = 0x1c then 0x30
     else if i = 0x4f then 0x02 else if i = 0x08 then 0xb1 else 0)"

theorem nsc_338_reports_registers_witness:
  "\<exists>m' pre. nsc_probe_338 (reg_chip 0x398 0x399) (last chips) 0x398 11 1 (chip_at_rest regs_338) = Inr ((), m') \<and>
     printed m' = pre @ [''NSC,PC87338,11.1,0x398,0x338,0x338,3,1,1,0,1'' @ nl]"
proof -
  have p: "indexed (reg_chip 0x398 0x399) 0x398 (0x398 + 1) reg_file"
    using reg_chip_indexed [of "0x398" "0x399"] by simp
  have out: "print_info_text False (let r = regs_338 in zero_info
      \<lparr>manufacturer := ''NSC'', chip_name := nsc_name (last chips), chip_id := 11, revision := 1, cfg_base := 0x398,
       sir_base := decode_338_base r, fir_base := decode_338_base r, irq := uint (drop_bit 4 (r 0x1c)),
       dma := uint (r 0x4f AND 0x07) - 1, uart_comp := 1, enabled := (if bit (r 0x00) 2 then 1 else 0),
       suspended := (if bit (r 0x02) 0 then 1 else 0)\<rparr>) = ''NSC,PC87338,11.1,0x398,0x338,0x338,3,1,1,0,1'' @ nl"
    by code_simp
  show ?thesis
    using nsc_338_reports_registers [OF p, where chip = "last chips" and cid = 11 and rv = 1 and m = "chip_at_rest regs_338"] out
    by (auto simp: chip_at_rest_def)
qed

lemma returns_nsc_try: "base = 0 \<or> permitted base \<and> permitted (base + 1) \<Longrightarrow> returns (nsc_try B chip base)"
  unfolding nsc_try_def nsc_probe_108_def nsc_probe_338_def Let_def by (auto intro!: traced_intro)

text \<open>The National Semiconductor probe returns on any hardware: it only uses ports the process may access.\<close>

theorem probe_nsc_returns: "\<exists>m'. probe_nsc B m = Inr (0, m')"
proof -
  have "returns (nsc_try B chip base)" if "chip \<in> set chips" "base \<in> set (nsc_cfg chip)" for chip base
    using that by (intro returns_nsc_try) (auto simp: chips_def permitted_def)
  then have "returns (for_each (\<lambda>chip. for_each (nsc_try B chip) (nsc_cfg chip)) chips)"
    by (intro traced_intro)
  from tracedD [OF this, of m] show ?thesis by (auto simp: probe_nsc_def seq_def bnd_def ret_def)
qed

end
