(* ===== verification/Smc.thy ===== *)
theory Smc
  imports Findchip_Bus
begin

text \<open>
  The probe for SMC chips, \<^verbatim>\<open>irda-utils/findchip/smc.c\<close>: a chip is put into configuration mode, identified,
  reported and taken out of configuration mode again.
\<close>

section \<open>Model\<close>

record smc_chip =
  smc_name :: string
  smc_cfg :: "int list"
  entr1 :: byte
  entr2 :: byte
  smc_cid_index :: byte
  smc_cid_value :: byte
  is_69 :: bool

definition smc_chip_of :: "string \<Rightarrow> byte \<Rightarrow> byte \<Rightarrow> byte \<Rightarrow> bool \<Rightarrow> smc_chip" where
  "smc_chip_of n e2 ci cv p = \<lparr>smc_name = n, smc_cfg = [0x3f0, 0x370], entr1 = 0x55, entr2 = e2,
     smc_cid_index = ci, smc_cid_value = cv, is_69 = p\<rparr>"

definition smc_chips :: "smc_chip list" where
  "smc_chips =
     [smc_chip_of ''FDC37C669'' 0x55 0x0d 0x03 True,
      smc_chip_of ''FDC37C669FR'' 0x55 0x0d 0x04 True,
      smc_chip_of ''FDC37N869'' 0x00 0x0d 0x29 True,
      smc_chip_of ''FDC37C93xFR'' 0x55 0x20 0x03 False,
      smc_chip_of ''FDC37N957FR'' 0x55 0x20 0x07 False,
      smc_chip_of ''FDC37N958FR'' 0x55 0x20 0x09 False]"

definition register_bank :: "'h bus \<Rightarrow> int \<Rightarrow> byte \<Rightarrow> ('h machine, unit) prog" where
  "register_bank B port bank =
     bnd (inb B (port + 0x07)) (\<lambda>v. outb B ((v AND 0xf0) OR (bank AND 0x07)) (port + 0x07))"

text \<open>The part both probes run when there is a fast infrared block.\<close>

definition fir_block :: "'h bus \<Rightarrow> byte \<Rightarrow> int \<Rightarrow> int \<Rightarrow> chip_info \<Rightarrow> ('h machine, chip_info) prog" where
  "fir_block B delay_reg confreg fir info =
     (if fir \<noteq> 0 then
        bnd (cfg_read B delay_reg confreg (confreg + 1)) (\<lambda>d.
        seq (register_bank B fir 3)
        (bnd (inb B (fir + 0x02)) (\<lambda>c.
        bnd (inb B (fir + 0x03)) (\<lambda>r.
        ret (info\<lparr>delay := d, chip_id := uint (c AND 0x0f), revision := uint r\<rparr>)))))
      else ret info)"

definition probe_69 :: "'h bus \<Rightarrow> string \<Rightarrow> int \<Rightarrow> ('h machine, int) prog" where
  "probe_69 B name confreg =
     bnd (cfg_read B 0x25 confreg (confreg + 1)) (\<lambda>sir.
     bnd (cfg_read B 0x2c confreg (confreg + 1)) (\<lambda>d.
     bnd (cfg_read B 0x28 confreg (confreg + 1)) (\<lambda>q.
     bnd (cfg_read B 0x2b confreg (confreg + 1)) (\<lambda>f.
     let fir = push_bit 3 f;
         info = zero_info\<lparr>sir_base := push_bit 2 sir, dma := d, irq := q AND 0x0f\<rparr>
     in bnd (fir_block B 0x2d confreg fir info) (\<lambda>info.
        bnd (cfg_read B 0x02 confreg (confreg + 1)) (\<lambda>enb.
        seq (print_info (info\<lparr>manufacturer := ''SMC'', chip_name := name, cfg_base := confreg,
          fir_base := fir, enabled := enb AND 0x80, uart_comp := 1\<rparr>))
        (ret fir)))))))"

definition probe_58 :: "'h bus \<Rightarrow> string \<Rightarrow> int \<Rightarrow> ('h machine, int) prog" where
  "probe_58 B name confreg =
     seq (outb B 0x07 confreg)
     (seq (outb B 0x05 (confreg + 1))
     (bnd (cfg_read B 0x60 confreg (confreg + 1)) (\<lambda>s1.
     bnd (cfg_read B 0x61 confreg (confreg + 1)) (\<lambda>s0.
     bnd (cfg_read B 0x74 confreg (confreg + 1)) (\<lambda>d.
     bnd (cfg_read B 0x70 confreg (confreg + 1)) (\<lambda>q.
     bnd (cfg_read B 0x62 confreg (confreg + 1)) (\<lambda>f1.
     bnd (cfg_read B 0x63 confreg (confreg + 1)) (\<lambda>f0.
     let fir = push_bit 8 f1 OR f0;
         info = zero_info\<lparr>sir_base := push_bit 8 s1 OR s0, dma := d, irq := q AND 0x0f\<rparr>
     in bnd (fir_block B 0xf2 confreg fir info) (\<lambda>info.
        bnd (cfg_read B 0x22 confreg (confreg + 1)) (\<lambda>enb.
        seq (print_info (info\<lparr>manufacturer := ''SMC'', chip_name := name, cfg_base := confreg,
          fir_base := fir, enabled := enb AND 0x20, uart_comp := 1\<rparr>))
        (ret fir)))))))))))"

text \<open>One turn of the inner loop of \<^verbatim>\<open>probe_smc\<close>; the result is the new value of \<^verbatim>\<open>fir\<close>.\<close>

definition smc_try :: "'h bus \<Rightarrow> smc_chip \<Rightarrow> int \<Rightarrow> ('h machine, int) prog" where
  "smc_try B chp cfg =
     seq (outb B (entr1 chp) cfg)
     (seq (whenc (entr2 chp \<noteq> 0) (outb B (entr2 chp) cfg))
     (bnd (cfg_read B (smc_cid_index chp) cfg (cfg + 1)) (\<lambda>devid.
     bnd (if devid = uint (smc_cid_value chp)
          then (if is_69 chp then probe_69 else probe_58) B (smc_name chp) cfg
          else ret 0) (\<lambda>fir.
     seq (outb B 0xaa cfg)
     (ret fir)))))"

text \<open>\<^verbatim>\<open>for (...; ... && fir == 0; ...)\<close>.\<close>

fun until_found :: "('a \<Rightarrow> ('s, int) prog) \<Rightarrow> 'a list \<Rightarrow> ('s, int) prog" where
  "until_found f [] = ret 0"
| "until_found f (x # xs) = bnd (f x) (\<lambda>r. if r = 0 then until_found f xs else ret r)"

definition probe_smc :: "'h bus \<Rightarrow> ('h machine, int) prog" where
  "probe_smc B =
     seq (until_found (\<lambda>chp. until_found (smc_try B chp) (smc_cfg chp)) smc_chips) (ret 0)"

section \<open>Properties\<close>

text \<open>A chip whose fast infrared block is at 0x3f8 or above kills the probe: its bank register is at
  a port the process did not ask permission for, so the access faults while the chip is still
  in configuration mode and nothing is reported.\<close>

theorem smc_high_fir_base_faults:
  fixes B :: "'h bus"
  assumes "indexed B confreg (confreg + 1) regs" "permitted confreg" "permitted (confreg + 1)"
    and "0x7f \<le> regs (hw m) 0x2b"
  shows "\<exists>p. probe_69 B name confreg m = Inl (Port_Denied p) \<and> 0x3ff \<le> p"
proof -
  define P where "P m1 \<longleftrightarrow> regs (hw m1) = regs (hw m)" for m1 :: "'h machine"
  have step: "\<exists>m2. cfg_read B i confreg (confreg + 1) m1 = Inr (uint (regs (hw m) i), m2) \<and> P m2" if "P m1" for i m1
  proof -
    obtain m2 where "cfg_read B i confreg (confreg + 1) m1 = Inr (uint (regs (hw m1) i), m2)"
      "regs (hw m2) = regs (hw m1)" using cfg_read_run [OF assms(1-3), of i m1] by blast
    with that show ?thesis unfolding P_def by simp
  qed
  have 0: "P m" by (simp add: P_def)
  obtain m1 where 1: "cfg_read B 0x25 confreg (confreg + 1) m = Inr (uint (regs (hw m) 0x25), m1)" "P m1" using step [OF 0] by blast
  obtain m2 where 2: "cfg_read B 0x2c confreg (confreg + 1) m1 = Inr (uint (regs (hw m) 0x2c), m2)" "P m2" using step [OF 1(2)] by blast
  obtain m3 where 3: "cfg_read B 0x28 confreg (confreg + 1) m2 = Inr (uint (regs (hw m) 0x28), m3)" "P m3" using step [OF 2(2)] by blast
  obtain m4 where 4: "cfg_read B 0x2b confreg (confreg + 1) m3 = Inr (uint (regs (hw m) 0x2b), m4)" "P m4" using step [OF 3(2)] by blast
  obtain m5 where 5: "cfg_read B 0x2d confreg (confreg + 1) m4 = Inr (uint (regs (hw m) 0x2d), m5)" using step [OF 4(2)] by blast
  have f: "0x7f \<le> uint (regs (hw m) 0x2b)" using assms(4) by (simp add: word_le_def)
  then have "push_bit 3 (uint (regs (hw m) 0x2b)) \<noteq> 0" "\<not> permitted (push_bit 3 (uint (regs (hw m) 0x2b)) + 7)"
    "0x3ff \<le> push_bit 3 (uint (regs (hw m) 0x2b)) + 7"
    by (simp_all add: push_bit_eq_mult permitted_def)
  with 1 2 3 4 5 show ?thesis
    by (simp add: probe_69_def bnd_def Let_def fir_block_def seq_def register_bank_def inb_def)
qed


theorem smc_high_fir_base_faults_witness:
  "\<exists>p. probe_69 (reg_chip 0x3f0 0x3f1) ''FDC37C669'' 0x3f0 (chip_at_rest (\<lambda>i. 0x7f)) = Inl (Port_Denied p)"
proof -
  have "indexed (reg_chip 0x3f0 0x3f1) 0x3f0 (0x3f0 + 1) reg_file"
    using reg_chip_indexed [of "0x3f0" "0x3f1"] by simp
  from smc_high_fir_base_faults [OF this, of "chip_at_rest (\<lambda>i. 0x7f)" "''FDC37C669''"] show ?thesis
    by (auto simp: chip_at_rest_def permitted_def)
qed

text \<open>A session with an SMC chip: from the first entry key to the exit key on the same port.\<close>

definition smc_session :: "io list \<Rightarrow> bool" where
  "smc_session t \<longleftrightarrow> (\<exists>cfg io. t = Out cfg 0x55 # io @ [Out cfg 0xaa])"

lemma extends_probes [adds_intro]: "extends (probe_69 B n c)" "extends (probe_58 B n c)"
  unfolding probe_69_def probe_58_def fir_block_def register_bank_def Let_def by (intro adds_intro)+

lemma smc_try_session:
  assumes "entr1 chp = 0x55"
  shows "adds smc_session (smc_try B chp cfg)"
proof -
  have p: "extends ((if is_69 chp then probe_69 else probe_58) B (smc_name chp) cfg)"
    by (auto intro: adds_intro)
  have "adds (ends [Out cfg 0xaa]) (seq (whenc (entr2 chp \<noteq> 0) (outb B (entr2 chp) cfg))
     (bnd (cfg_read B (smc_cid_index chp) cfg (cfg + 1)) (\<lambda>devid.
     bnd (if devid = uint (smc_cid_value chp)
          then (if is_69 chp then probe_69 else probe_58) B (smc_name chp) cfg
          else ret 0) (\<lambda>fir. seq (outb B 0xaa cfg) (ret fir)))))"
    by (rule ends_seq, intro adds_intro, rule ends_bnd, intro adds_intro, rule ends_bnd)
      (intro adds_intro p, rule ends_outb)
  then show ?thesis
    unfolding smc_try_def assms by (rule adds_seq [OF adds_outb]) (auto simp: smc_session_def ends_def)
qed

lemma adds_until_found:
  assumes "\<And>x. x \<in> set xs \<Longrightarrow> adds (in_sessions Q) (f x)"
  shows "adds (in_sessions Q) (until_found f xs)"
  using assms
proof (induction xs)
  case Nil
  then show ?case by (simp add: adds_ret in_sessions_empty)
next
  case (Cons x xs)
  have "adds (in_sessions Q) (if r = 0 then until_found f xs else ret r)" for r :: int
    using Cons by (auto intro: adds_ret in_sessions_empty)
  then show ?case
    using Cons.prems by (auto intro!: adds_bnd [where P = "in_sessions Q"] in_sessions_append)
qed

lemma adds_mono: "adds P p \<Longrightarrow> (\<And>t. P t \<Longrightarrow> Q t) \<Longrightarrow> adds Q p"
  unfolding adds_def by blast

text \<open>On any hardware, when the SMC probe returns, every chip it put into configuration mode has been
  taken out of it again: the accesses it made are a sequence of sessions, each from an entry key
  to the exit key on the same port.\<close>

theorem probe_smc_closes_configuration:
  assumes "probe_smc B m = Inr (r, m')"
  shows "\<exists>bs. trace m' = trace m @ concat bs \<and> list_all smc_session bs"
proof -
  have "adds (in_sessions smc_session) (smc_try B chp c)" if "chp \<in> set smc_chips" for chp c
    using that by (intro adds_mono [OF smc_try_session in_sessions_one]) (auto simp: smc_chips_def smc_chip_of_def)
  then have "adds (in_sessions smc_session) (until_found (\<lambda>chp. until_found (smc_try B chp) (smc_cfg chp)) smc_chips)"
    by (intro adds_until_found)
  then have "adds (in_sessions smc_session) (probe_smc B)"
    unfolding probe_smc_def
    by (rule adds_seq [where Q = "\<lambda>t. t = []"]) (auto intro: adds_ret)
  from addsD [OF this assms] show ?thesis by (auto simp: in_sessions_def)
qed


theorem probe_smc_closes_configuration_witness:
  "\<exists>m' bs. probe_smc (reg_chip 0x3f0 0x3f1) (chip_at_rest (\<lambda>i. 0)) = Inr (0, m') \<and>
     trace m' = concat bs \<and> list_all smc_session bs"
proof -
  have "case probe_smc (reg_chip 0x3f0 0x3f1) (chip_at_rest (\<lambda>i. 0)) of Inl f \<Rightarrow> False | Inr (r, m') \<Rightarrow> r = 0"
    by code_simp
  then obtain m' where m': "probe_smc (reg_chip 0x3f0 0x3f1) (chip_at_rest (\<lambda>i. 0)) = Inr (0, m')"
    by (auto split: sum.splits)
  from probe_smc_closes_configuration [OF m'] m' show ?thesis by (auto simp: chip_at_rest_def)
qed

text \<open>The probe of the FDC37C669 reports what its configuration registers select: the serial
  base address four times the value of CR25, the interrupt in the low bits of CR28, the DMA channel of CR2C, the infrared base
  address eight times the value of CR2B. Without an infrared block (CR2B is 0) the identification
  registers are not touched and the result is 0.\<close>

theorem smc_69_without_fir_reports:
  fixes B :: "'h bus"
  assumes "indexed B confreg (confreg + 1) regs" "permitted confreg" "permitted (confreg + 1)"
    and "regs (hw m) 0x2b = 0"
  shows "\<exists>m'. probe_69 B name confreg m = Inr (0, m') \<and> regs (hw m') = regs (hw m) \<and>
    printed m' = printed m @ [print_info_text (verbose m) (zero_info\<lparr>sir_base := 4 * uint (regs (hw m) 0x25),
      dma := uint (regs (hw m) 0x2c), irq := uint (regs (hw m) 0x28) mod 16, manufacturer := ''SMC'', chip_name := name,
      cfg_base := confreg, fir_base := 0, enabled := uint (regs (hw m) 0x02) AND 0x80, uart_comp := 1\<rparr>)]"
proof -
  let ?r = "regs (hw m)"
  note rd = wp_cfg_read [OF assms(1-3)]
  have m: "push_bit 2 (uint (b :: byte)) = 4 * uint b" "uint b AND 0x0f = uint b mod 16" for b
    using take_bit_eq_mask [of 4 "uint b"] by (simp_all add: push_bit_eq_mult take_bit_eq_mod mask_eq_exp_minus_1)
  have "wp (probe_69 B name confreg) (\<lambda>x m'. x = 0 \<and> regs (hw m') = ?r \<and>
    printed m' = printed m @ [print_info_text (verbose m) (zero_info\<lparr>sir_base := 4 * uint (?r 0x25),
      dma := uint (?r 0x2c), irq := uint (?r 0x28) mod 16, manufacturer := ''SMC'', chip_name := name,
      cfg_base := confreg, fir_base := 0, enabled := uint (?r 0x02) AND 0x80, uart_comp := 1\<rparr>)]) m"
    unfolding probe_69_def wp_bnd Let_def
    by (rule rd)+ (simp add: fir_block_def wp_simps assms(4), rule rd, simp add: wp_simps m zero_info_def)
  from wpD [OF this] show ?thesis by auto
qed

theorem smc_69_without_fir_reports_witness:
  "\<exists>m'. probe_69 (reg_chip 0x3f0 0x3f1) ''FDC37C669'' 0x3f0 (chip_at_rest (\<lambda>i. if i = 0x25 then 0xbe else 0)) = Inr (0, m') \<and>
    printed m' = [''SMC,FDC37C669,0.0,0x3f0,0x2f8,0x0,0,0,0,0,1'' @ nl]"
proof -
  have p: "indexed (reg_chip 0x3f0 0x3f1) 0x3f0 (0x3f0 + 1) reg_file"
    using reg_chip_indexed [of "0x3f0" "0x3f1"] by simp
  have out: "print_info_text False (zero_info\<lparr>sir_base := 4 * uint (0xbe :: byte), manufacturer := ''SMC'',
      chip_name := ''FDC37C669'', cfg_base := 0x3f0, uart_comp := 1\<rparr>) = ''SMC,FDC37C669,0.0,0x3f0,0x2f8,0x0,0,0,0,0,1'' @ nl"
    by code_simp
  show ?thesis
    using smc_69_without_fir_reports [OF p, of "chip_at_rest (\<lambda>i. if i = 0x25 then 0xbe else 0)" "''FDC37C669''"]
    unfolding out [symmetric] by (fastforce simp: chip_at_rest_def permitted_def zero_info_def)
qed

end
