(* ===== verification/Winbond.thy ===== *)
theory Winbond
  imports Findchip_Bus
begin

text \<open>
  The probe for Winbond chips, \<^verbatim>\<open>irda-utils/findchip/winbond.c\<close>. The extended function registers of a chip are
  behind an enable register that has to be written a number of times with a key, and are left by writing an
  end flag.
\<close>

section \<open>Tables\<close>

datatype chip_type = W83977_PNP | W83977 | W83877

record winbond_chip =
  wb_name :: string
  wb_id :: int
  fir_support :: bool

record winbond_efer =
  chip_type :: chip_type
  efer_addr :: int
  writes :: nat
  start_flag :: byte
  end_flag :: byte
  efir_addr :: int
  efdr_addr :: int
  hefras_index :: int
  hefras_mask :: byte
  hefras :: int
  hefere_index :: int
  hefere_mask :: byte
  hefere :: int

definition wb_chips :: "winbond_chip list" where
  "wb_chips =
     [\<lparr>wb_name = ''W83977TF'', wb_id = 0x73, fir_support = False\<rparr>,
      \<lparr>wb_name = ''W83977ATF'', wb_id = 0x74, fir_support = True\<rparr>,
      \<lparr>wb_name = ''W83877AF'', wb_id = 0x0b, fir_support = True\<rparr>,
      \<lparr>wb_name = ''W83877TF'', wb_id = 0x0c, fir_support = False\<rparr>,
      \<lparr>wb_name = ''W83877ATF'', wb_id = 0x0d, fir_support = True\<rparr>]"

definition efer_of :: "chip_type \<Rightarrow> int \<Rightarrow> nat \<Rightarrow> byte \<Rightarrow> byte \<Rightarrow> int \<Rightarrow> int \<Rightarrow> int \<Rightarrow> byte \<Rightarrow> int \<Rightarrow> int \<Rightarrow> byte \<Rightarrow> int \<Rightarrow> winbond_efer" where
  "efer_of ty a w s e ix dx ri rm r ei em e1 = \<lparr>chip_type = ty, efer_addr = a, writes = w, start_flag = s,
     end_flag = e, efir_addr = ix, efdr_addr = dx, hefras_index = ri, hefras_mask = rm, hefras = r,
     hefere_index = ei, hefere_mask = em, hefere = e1\<rparr>"

definition efers :: "winbond_efer list" where
  "efers =
     [efer_of W83977 0x3F0 2 0x87 0xAA 0x3F0 0x3F1 0x26 0x40 0 (-1) 0 0,
      efer_of W83977 0x370 2 0x87 0xAA 0x370 0x371 0x26 0x40 1 (-1) 0 0,
      efer_of W83877 0x250 1 0x88 0x88 0x251 0x252 0x16 0x01 0 0x0C 0x20 0,
      efer_of W83877 0x250 1 0x89 0x89 0x251 0x252 0x16 0x01 0 0x0C 0x20 1,
      efer_of W83877 0x3F0 2 0x86 0xAA 0x3F0 0x3F1 0x16 0x01 1 0x0C 0x20 0,
      efer_of W83877 0x3F0 2 0x87 0xAA 0x3F0 0x3F1 0x16 0x01 1 0x0C 0x20 1]"

section \<open>Reading a chip\<close>

text \<open>A register of the chip behind the extended function index and data registers.\<close>

definition cr :: "'h bus \<Rightarrow> winbond_efer \<Rightarrow> byte \<Rightarrow> ('h machine, int) prog" where
  "cr B e i = cfg_read B i (efir_addr e) (efdr_addr e)"

text \<open>The search through the table of chips.\<close>

definition find_chip :: "int \<Rightarrow> winbond_chip option" where
  "find_chip n = find (\<lambda>c. n = wb_id c) wb_chips"

text \<open>\<open>info0\<close> is what the local \<^verbatim>\<open>info\<close> holds when the function is entered.\<close>

definition w83977_read_info :: "'h bus \<Rightarrow> chip_info \<Rightarrow> winbond_efer \<Rightarrow> ('h machine, bool) prog" where
  "w83977_read_info B info0 e =
     bnd (cr B e 0x20) (\<lambda>devid.
     bnd (cr B e 0x21) (\<lambda>rv.
     if devid \<noteq> 0x97 then ret False
     else (case find_chip rv of
       None \<Rightarrow> ret False
     | Some chip \<Rightarrow>
         seq (outb B 0x07 (efir_addr e))
         (seq (outb B 0x06 (efdr_addr e))
         (bnd (cr B e 0x74) (\<lambda>rx.
         bnd (cr B e 0x75) (\<lambda>tx.
         bnd (cr B e 0x70) (\<lambda>q.
         bnd (cr B e 0x60) (\<lambda>b1.
         bnd (cr B e 0x61) (\<lambda>b0.
         bnd (cr B e 0xf0) (\<lambda>misc.
         let base = push_bit 8 b1 OR (b0 AND 0xff)
         in seq (print_info (info0\<lparr>chip_id := devid, revision := rv, dma := (if rx > 3 then -1 else rx),
              irq := q AND 0x0f, sir_base := base, fir_base := base, manufacturer := ''WINBOND'',
              chip_name := wb_name chip, cfg_base := efer_addr e, uart_comp := 1,
              enabled := (if misc AND 0x01 \<noteq> 0 then 1 else 0), suspended := 0\<rparr>))
            (ret True))))))))))))"

text \<open>The DMA channel is set only when both directions use the same one.\<close>

definition w83877_dma :: "int \<Rightarrow> chip_info \<Rightarrow> chip_info" where
  "w83877_dma d info =
     (let txdma = drop_bit 4 (d AND 0xf0); rxdma = d AND 0x0f
      in if txdma = rxdma then info\<lparr>dma := txdma\<rparr> else info)"

text \<open>The flag \<^verbatim>\<open>disabled\<close> from CR0C, CR0D and CR2C.\<close>

definition w83877_disabled :: "int \<Rightarrow> int \<Rightarrow> int \<Rightarrow> bool" where
  "w83877_disabled misc_c misc_d misc_2c \<longleftrightarrow>
     (let mode = misc_d AND 0x07
      in misc_c AND 0x10 = 0 \<or> misc_c AND 0x08 = 0 \<or> mode \<noteq> 2 \<and> mode \<noteq> 3 \<or> misc_2c AND 0x08 = 0)"

definition w83877_read_info :: "'h bus \<Rightarrow> chip_info \<Rightarrow> winbond_efer \<Rightarrow> ('h machine, bool) prog" where
  "w83877_read_info B info0 e =
     bnd (cr B e 0x09) (\<lambda>v.
     let chipid = v AND 0x0f
     in case find_chip chipid of
       None \<Rightarrow> ret False
     | Some chip \<Rightarrow>
         bnd (cr B e 0x2a) (\<lambda>d.
         let info1 = w83877_dma d info0
         in bnd (cr B e 0x28) (\<lambda>q.
            bnd (cr B e 0x25) (\<lambda>b.
            let base = push_bit 2 (b AND 0xfe)
            in bnd (cr B e 0x0b) (\<lambda>misc_b.
               bnd (cr B e 0x0c) (\<lambda>misc_c.
               bnd (cr B e 0x0d) (\<lambda>misc_d.
               bnd (cr B e 0x2c) (\<lambda>misc_2c.
               seq (print_info (info1\<lparr>chip_id := chipid, irq := q AND 0x0f, sir_base := base, fir_base := base,
                 manufacturer := ''WINBOND'', chip_name := wb_name chip, cfg_base := efer_addr e, uart_comp := 1,
                 enabled := (if w83877_disabled misc_c misc_d misc_2c then 0 else 1), revision := -1,
                 suspended := 0\<rparr>))
               (ret True)))))))))"

section \<open>The probe\<close>

fun repeat :: "nat \<Rightarrow> ('s, unit) prog \<Rightarrow> ('s, unit) prog" where
  "repeat 0 p = skip"
| "repeat (Suc n) p = seq p (repeat n p)"

text \<open>A strap bit, checked only when it has a register.\<close>

definition strap_ok :: "'h bus \<Rightarrow> winbond_efer \<Rightarrow> int \<Rightarrow> byte \<Rightarrow> int \<Rightarrow> ('h machine, bool) prog" where
  "strap_ok B e ix msk val =
     (if 0 \<le> ix then bnd (cr B e (of_int ix)) (\<lambda>v. ret ((if v AND uint msk \<noteq> 0 then 1 else 0) = val))
      else ret True)"

definition probe_efer :: "'h bus \<Rightarrow> chip_info \<Rightarrow> winbond_efer \<Rightarrow> ('h machine, bool) prog" where
  "probe_efer B info0 e =
     seq (repeat (writes e) (outb B (start_flag e) (efer_addr e)))
     (bnd (strap_ok B e (hefras_index e) (hefras_mask e) (hefras e)) (\<lambda>ok1.
     bnd (if ok1 then strap_ok B e (hefere_index e) (hefere_mask e) (hefere e) else ret False) (\<lambda>ok2.
     bnd (if ok2 then
            (case chip_type e of
               W83877 \<Rightarrow> w83877_read_info B info0 e
             | W83977 \<Rightarrow> w83977_read_info B info0 e
             | W83977_PNP \<Rightarrow> ret False)
          else ret False) (\<lambda>found.
     seq (outb B (end_flag e) (efer_addr e))
     (ret found)))))"

fun probe_efers :: "'h bus \<Rightarrow> chip_info \<Rightarrow> winbond_efer list \<Rightarrow> ('h machine, unit) prog" where
  "probe_efers B info0 [] = skip"
| "probe_efers B info0 (e # es) =
     bnd (probe_efer B info0 e) (\<lambda>found. if found then skip else probe_efers B info0 es)"

definition probe_winbond :: "'h bus \<Rightarrow> chip_info \<Rightarrow> ('h machine, int) prog" where
  "probe_winbond B info0 = seq (probe_efers B info0 efers) (ret 0)"

section \<open>Properties\<close>

definition efer_ok :: "winbond_efer \<Rightarrow> bool" where
  "efer_ok e \<longleftrightarrow> permitted (efer_addr e) \<and> permitted (efir_addr e) \<and> permitted (efdr_addr e)"

lemma efers_ok: "e \<in> set efers \<Longrightarrow> efer_ok e"
  by (auto simp: efers_def efer_of_def efer_ok_def permitted_def)

lemma returns_cr [traced_intro]: "efer_ok e \<Longrightarrow> returns (cr B e i)"
  unfolding cr_def efer_ok_def by (intro traced_intro) auto

lemma returns_read_info:
  assumes "efer_ok e"
  shows "returns (w83977_read_info B info0 e)" "returns (w83877_read_info B info0 e)"
    "returns (strap_ok B e i k v)"
proof -
  have o: "returns (outb B x (efir_addr e))" "returns (outb B x (efdr_addr e))" for x
    using assms by (auto simp: efer_ok_def intro: traced_intro)
  note rules = traced_intro returns_cr [OF assms] o
  show "returns (w83977_read_info B info0 e)"
    unfolding w83977_read_info_def Let_def
    by (intro rules) (auto intro!: rules split: option.split)
  show "returns (w83877_read_info B info0 e)"
    unfolding w83877_read_info_def Let_def
    by (intro rules) (auto intro!: rules split: option.split)
  show "returns (strap_ok B e i k v)"
    unfolding strap_ok_def by (intro rules)
qed

text \<open>A session with one entry of the table: the keys first, the end flag last, whatever was found in between.\<close>

definition efer_session :: "winbond_efer \<Rightarrow> io list \<Rightarrow> bool" where
  "efer_session e t \<longleftrightarrow> (\<exists>io. t = replicate (writes e) (Out (efer_addr e) (start_flag e)) @ io @
     [Out (efer_addr e) (end_flag e)])"

lemma traced_repeat: "permitted p \<Longrightarrow> traced (\<lambda>t. t = replicate n (Out p v)) (repeat n (outb B v p))"
proof (induction n)
  case 0
  show ?case by (simp add: traced_def skip_def ret_def)
next
  case (Suc n)
  show ?case
    unfolding repeat.simps by (rule traced_seq [OF traced_outb Suc.IH]) (use Suc.prems in simp_all)
qed

lemma probe_efer_session:
  assumes "efer_ok e"
  shows "traced (efer_session e) (probe_efer B info0 e)"
proof -
  let ?E = "\<lambda>t. \<exists>io. t = io @ [Out (efer_addr e) (end_flag e)]"
  have p: "permitted (efer_addr e)" using assms by (simp add: efer_ok_def)
  have last: "traced ?E (seq (outb B (end_flag e) (efer_addr e)) (ret x))" for x
    using p by (auto simp: traced_def outb_def seq_def bnd_def ret_def)
  have ext: "returns q \<Longrightarrow> (\<And>x. traced ?E (f x)) \<Longrightarrow> traced ?E (bnd q f)" for q :: "('a machine, bool) prog" and f :: "bool \<Rightarrow> ('a machine, bool) prog"
    by (rule traced_bnd [where P = "\<lambda>_. True" and Q = ?E]) auto
  have mid: "traced ?E (bnd (strap_ok B e (hefras_index e) (hefras_mask e) (hefras e)) (\<lambda>ok1.
     bnd (if ok1 then strap_ok B e (hefere_index e) (hefere_mask e) (hefere e) else ret False) (\<lambda>ok2.
     bnd (if ok2 then
            (case chip_type e of
               W83877 \<Rightarrow> w83877_read_info B info0 e
             | W83977 \<Rightarrow> w83977_read_info B info0 e
             | W83977_PNP \<Rightarrow> ret False)
          else ret False) (\<lambda>found.
     seq (outb B (end_flag e) (efer_addr e)) (ret found)))))"
    by (intro ext last) (auto intro: returns_read_info [OF assms] traced_intro split: chip_type.split)
  show ?thesis
    unfolding probe_efer_def
    by (rule traced_seq [OF traced_repeat [OF p] mid]) (auto simp: efer_session_def)
qed

text \<open>\<open>reports p\<close>: \<open>p\<close> prints one line when it returns \<open>True\<close>, and nothing otherwise.\<close>

definition reports :: "('h machine, bool) prog \<Rightarrow> bool" where
  "reports p \<longleftrightarrow> (\<forall>m x m'. p m = Inr (x, m') \<longrightarrow> (if x then \<exists>l. printed m' = printed m @ [l] else printed m' = printed m))"

lemma reports_bnd: "keeps printed q \<Longrightarrow> (\<And>x. reports (f x)) \<Longrightarrow> reports (bnd q f)"
proof -
  assume k: "keeps printed q" and f: "\<And>x. reports (f x)"
  have "if x then \<exists>l. printed m' = printed m @ [l] else printed m' = printed m" if b: "bnd q f m = Inr (x, m')" for m x m'
  proof -
    obtain y m1 where "q m = Inr (y, m1)" "f y m1 = Inr (x, m')" using b by (auto simp: bnd_eq_Inr)
    then show ?thesis using keepsD [OF k] f [of y] by (fastforce simp: reports_def)
  qed
  then show "reports (bnd q f)" by (simp add: reports_def)
qed

lemma reports_seq: "keeps printed q \<Longrightarrow> reports n \<Longrightarrow> reports (seq q n)"
  by (simp add: seq_def reports_bnd)

lemma reports_ret: "reports (ret False)" "reports (seq (print_info i) (ret True))"
  by (auto simp: reports_def ret_def seq_def bnd_def print_info_def gets_def print_text_def modify_def)

lemma reports_option: "reports m \<Longrightarrow> (\<And>y. reports (f y)) \<Longrightarrow> reports (case x of None \<Rightarrow> m | Some y \<Rightarrow> f y)"
  by (cases x) simp_all

lemma reports_if: "reports m \<Longrightarrow> reports n \<Longrightarrow> reports (if b then m else n)"
  by simp

lemma keeps_printed: "keeps printed (outb B v p)" "keeps printed (cr B e i)"
  by (auto simp: keeps_def outb_def cr_def cfg_read_def inb_def seq_def bnd_def ret_def split: if_splits prod.splits)

lemma probe_efer_reports: "reports (probe_efer B info0 e)"
proof -
  note rules = reports_seq reports_bnd reports_ret reports_option reports_if keeps_printed
  have chip: "reports (w83977_read_info B info0 e)" "reports (w83877_read_info B info0 e)"
    unfolding w83977_read_info_def w83877_read_info_def Let_def by (intro rules)+
  have last: "reports (bnd q (\<lambda>found. seq (outb B v p) (ret found)))" if "reports q" for q v p
  proof -
    have "if x then \<exists>l. printed m' = printed m @ [l] else printed m' = printed m"
      if b: "bnd q (\<lambda>found. seq (outb B v p) (ret found)) m = Inr (x, m')" for m x m'
    proof -
      obtain m1 where "q m = Inr (x, m1)" "printed m' = printed m1"
        using b by (auto simp: bnd_eq_Inr seq_def outb_def ret_def split: if_splits)
      then show ?thesis using \<open>reports q\<close> by (simp add: reports_def split: if_splits)
    qed
    then show ?thesis by (simp add: reports_def)
  qed
  have strap: "keeps printed (strap_ok B e i k v)" for i k v
    unfolding strap_ok_def by (intro keeps_intro keeps_printed)
  have rep: "keeps printed (repeat n (outb B v p))" for n v p by (induction n) (auto intro: keeps_intro keeps_printed)
  show ?thesis
    unfolding probe_efer_def
    by (intro reports_seq rep reports_bnd strap last)
      (auto intro: keeps_intro strap chip reports_ret split: chip_type.split)
qed

text \<open>Either no chip is found and every entry has had its session, or one line has been printed.\<close>

definition found_at_most_one :: "'h machine \<Rightarrow> 'h machine \<Rightarrow> nat \<Rightarrow> nat \<Rightarrow> bool" where
  "found_at_most_one m m' n k \<longleftrightarrow> printed m' = printed m \<and> k = n \<or> (\<exists>l. printed m' = printed m @ [l]) \<and> 0 < k \<and> k \<le> n"

lemma probe_efers_sessions:
  assumes "\<And>e. e \<in> set es \<Longrightarrow> efer_ok e"
  shows "\<exists>m' ts. probe_efers B info0 es m = Inr ((), m') \<and> trace m' = trace m @ concat ts \<and>
    found_at_most_one m m' (length es) (length ts) \<and> (\<forall>i < length ts. efer_session (es ! i) (ts ! i))"
  using assms
proof (induction es arbitrary: m)
  case Nil
  then show ?case by (auto simp: skip_def ret_def found_at_most_one_def)
next
  case (Cons e es)
  obtain found m1 t where 1: "probe_efer B info0 e m = Inr (found, m1)" "trace m1 = trace m @ t" "efer_session e t"
    using tracedD [OF probe_efer_session [of e B info0], of m] Cons.prems by auto
  obtain m2 ts where 2: "probe_efers B info0 es m1 = Inr ((), m2)" "trace m2 = trace m1 @ concat ts"
    "found_at_most_one m1 m2 (length es) (length ts)" "\<forall>i < length ts. efer_session (es ! i) (ts ! i)"
    using Cons.IH [of m1] Cons.prems by auto
  have p: "if found then \<exists>l. printed m1 = printed m @ [l] else printed m1 = printed m"
    using probe_efer_reports 1(1) unfolding reports_def by blast
  show ?case
  proof (cases found)
    case True
    with 1 p show ?thesis
      by (intro exI [of _ m1] exI [of _ "[t]"]) (auto simp: bnd_def skip_def ret_def found_at_most_one_def)
  next
    case False
    have "efer_session ((e # es) ! i) ((t # ts) ! i)" if "i < length (t # ts)" for i
      using that 1(3) 2(4) by (cases i) auto
    with False 1 2 p show ?thesis
      by (intro exI [of _ m2] exI [of _ "t # ts"]) (auto simp: bnd_def found_at_most_one_def)
  qed
qed

lemma probe_winbond_closes: "\<exists>m' ts. probe_winbond B info0 m = Inr (0, m') \<and> trace m' = trace m @ concat ts \<and>
     found_at_most_one m m' (length efers) (length ts) \<and> (\<forall>i < length ts. efer_session (efers ! i) (ts ! i))"
proof -
  obtain m' ts where "probe_efers B info0 efers m = Inr ((), m')" "trace m' = trace m @ concat ts"
    "found_at_most_one m m' (length efers) (length ts)" "\<forall>i < length ts. efer_session (efers ! i) (ts ! i)"
    using probe_efers_sessions [of efers B info0 m] efers_ok by blast
  then show ?thesis
    by (intro exI [of _ m'] exI [of _ ts]) (auto simp: probe_winbond_def seq_def bnd_def ret_def)
qed

text \<open>C33: On any hardware the Winbond probe returns, and it leaves no chip in extended function mode: the accesses
  it makes are sessions with the entries of the table, in the order of the table, each beginning with the entry's keys and ending with its
  end flag, also when a strap bit does not match and the entry is skipped. Either nothing is printed and every entry of the table has had its
  session, or the probe has stopped at an entry with one chip reported, in exactly one line.\<close>

theorem probe_winbond_closes_sessions:
  "\<exists>m' ts. probe_winbond B info0 m = Inr (0, m') \<and> trace m' = trace m @ concat ts \<and>
     list_all (\<lambda>i. efer_session (efers ! i) (ts ! i)) [0..<length ts] \<and>
     (printed m' = printed m \<and> length ts = length efers \<or>
      (\<exists>l. printed m' = printed m @ [l]) \<and> 0 < length ts \<and> length ts \<le> length efers)"
proof -
  obtain m' ts where "probe_winbond B info0 m = Inr (0, m')" "trace m' = trace m @ concat ts"
    "found_at_most_one m m' (length efers) (length ts)" "\<forall>i < length ts. efer_session (efers ! i) (ts ! i)"
    using probe_winbond_closes [of B info0 m] by blast
  then show ?thesis
    by (intro exI [of _ m'] exI [of _ ts]) (simp add: list_all_iff found_at_most_one_def)
qed

text \<open>When the two DMA channels of a W83877 differ, the line printed shows whatever the uninitialised local
  structure held for the channel: two runs on the same chip that differ only in that value print
  different lines.\<close>

theorem w83877_dual_dma_uninitialised:
  assumes "indexed B (efir_addr e) (efdr_addr e) regs" "efer_ok e" "find_chip (uint (regs (hw m) 0x09) AND 0x0f) = Some chip"
    and "drop_bit 4 (uint (regs (hw m) 0x2a) AND 0xf0) \<noteq> uint (regs (hw m) 0x2a) AND 0x0f"
  shows "\<exists>m' i. w83877_read_info B info0 e m = Inr (True, m') \<and>
    printed m' = printed m @ [print_info_text (verbose m) i] \<and> dma i = dma info0"
proof -
  have p: "permitted (efir_addr e)" "permitted (efdr_addr e)" using assms(2) by (auto simp: efer_ok_def)
  note rd = wp_cfg_read [OF assms(1) p]
  have P: "\<exists>i. print_info_text v (w83877_dma (uint (regs (hw m) 0x2a)) info0
      \<lparr>chip_id := c, irq := q, sir_base := b, fir_base := b, manufacturer := ''WINBOND'', chip_name := n,
       cfg_base := a, uart_comp := 1, enabled := en, revision := -1, suspended := 0\<rparr>) =
      print_info_text v i \<and> dma i = dma info0" for v c q b n a en
    by (intro exI conjI, rule refl) (use assms(4) in \<open>simp add: w83877_dma_def Let_def\<close>)
  have "wp (w83877_read_info B info0 e) (\<lambda>x m'. x \<and> (\<exists>i. printed m' = printed m @ [print_info_text (verbose m) i] \<and>
      dma i = dma info0)) m"
    unfolding w83877_read_info_def wp_bnd cr_def Let_def
    by (rule rd, simp only: assms(3) option.case wp_bnd, (rule rd, (simp only: wp_bnd)?)+)
      (simp add: wp_simps P del: if_split)
  from wpD [OF this] show ?thesis by auto
qed


definition regs_877 :: "byte \<Rightarrow> byte" where
  "regs_877 i = (if i = 0x09 then 0x0b else if i = 0x2a then 0x12 else 0)"

theorem w83877_dual_dma_uninitialised_witness:
  "\<exists>m' i. w83877_read_info (reg_chip 0x251 0x252) (zero_info\<lparr>dma := 4711\<rparr>) (efers ! 2) (chip_at_rest regs_877) = Inr (True, m') \<and>
    printed m' = [print_info_text False i] \<and> dma i = 4711"
proof -
  have e: "efir_addr (efers ! 2) = 0x251" "efdr_addr (efers ! 2) = 0x252" "efers ! 2 \<in> set efers"
    by (simp_all add: efers_def efer_of_def)
  have p: "indexed (reg_chip 0x251 0x252) (efir_addr (efers ! 2)) (efdr_addr (efers ! 2)) reg_file"
    unfolding e using reg_chip_indexed [of "0x251" "0x252"] by simp
  have f: "find_chip (uint (reg_file (hw (chip_at_rest regs_877)) 0x09) AND 0x0f) = Some (wb_chips ! 2)"
    "drop_bit 4 (uint (reg_file (hw (chip_at_rest regs_877)) 0x2a) AND 0xf0) \<noteq> uint (reg_file (hw (chip_at_rest regs_877)) 0x2a) AND 0x0f"
    by code_simp+
  show ?thesis
    using w83877_dual_dma_uninitialised [OF p efers_ok [OF e(3)] f, of "zero_info\<lparr>dma := 4711\<rparr>"]
    by (simp add: chip_at_rest_def)
qed

text \<open>A W83977 is identified by its device identification register: if that does not read 0x97, or the revision is
  not one of the table, the probe reports nothing and says the chip was not found.\<close>

theorem w83977_unknown_not_reported:
  assumes "indexed B (efir_addr e) (efdr_addr e) regs" "efer_ok e"
    and "regs (hw m) 0x20 \<noteq> 0x97 \<or> find_chip (uint (regs (hw m) 0x21)) = None"
  shows "\<exists>m'. w83977_read_info B info0 e m = Inr (False, m') \<and> printed m' = printed m"
proof -
  have p: "permitted (efir_addr e)" "permitted (efdr_addr e)" using assms(2) by (auto simp: efer_ok_def)
  note rd = wp_cfg_read [OF assms(1) p]
  have d: "uint (b :: byte) = 0x97 \<longleftrightarrow> b = 0x97" for b by (simp add: word_uint_eq_iff)
  have "wp (w83977_read_info B info0 e) (\<lambda>x m'. \<not> x \<and> printed m' = printed m) m"
    unfolding w83977_read_info_def wp_bnd cr_def
    by (rule rd)+ (use assms(3) in \<open>auto simp: wp_simps d\<close>)
  from wpD [OF this] show ?thesis by auto
qed

theorem w83977_unknown_not_reported_witness:
  "\<exists>m'. w83977_read_info (reg_chip 0x3f0 0x3f1) zero_info (efers ! 0) (chip_at_rest (\<lambda>i. 0)) = Inr (False, m') \<and> printed m' = []"
proof -
  have e: "efir_addr (efers ! 0) = 0x3f0" "efdr_addr (efers ! 0) = 0x3f1" "efers ! 0 \<in> set efers"
    by (simp_all add: efers_def efer_of_def)
  have p: "indexed (reg_chip 0x3f0 0x3f1) (efir_addr (efers ! 0)) (efdr_addr (efers ! 0)) reg_file"
    unfolding e using reg_chip_indexed [of "0x3f0" "0x3f1"] by simp
  show ?thesis
    using w83977_unknown_not_reported [OF p efers_ok [OF e(3)], of "chip_at_rest (\<lambda>i. 0)" zero_info]
    by (simp add: chip_at_rest_def)
qed

end
