(* ===== verification/Findchip.thy ===== *)
theory Findchip
  imports Nsc Smc Winbond
begin

text \<open>
  The program \<^verbatim>\<open>findchip\<close>, \<^verbatim>\<open>irda-utils/findchip/findchip.c\<close>: the options and the loop over the chip sets named on the
  command line.
\<close>

section \<open>Model\<close>

datatype chipset = SMC | NSC | WINBOND

definition allchips :: "(string \<times> chipset) list" where
  "allchips = [(''SMC'', SMC), (''NSC'', NSC), (''WINBOND'', WINBOND)]"

definition list_chips :: "('h machine, unit) prog" where
  "list_chips = for_each (\<lambda>(name, c). print_text (name @ nl)) allchips"

definition probe_func :: "'h bus \<Rightarrow> chip_info \<Rightarrow> chipset \<Rightarrow> ('h machine, int) prog" where
  "probe_func B info0 c = (case c of SMC \<Rightarrow> probe_smc B | NSC \<Rightarrow> probe_nsc B | WINBOND \<Rightarrow> probe_winbond B info0)"

text \<open>\<^verbatim>\<open>strcasecmp\<close> for ASCII letters.\<close>

definition lower :: "char \<Rightarrow> char" where
  "lower c = (if 65 \<le> (of_char c :: nat) \<and> (of_char c :: nat) \<le> 90 then char_of ((of_char c :: nat) + 32) else c)"

definition same_nocase :: "string \<Rightarrow> string \<Rightarrow> bool" where
  "same_nocase a b \<longleftrightarrow> map lower a = map lower b"

text \<open>One turn of the outer loop: the chip sets that match the argument, all of them when there is none.\<close>

definition probe_arg :: "'h bus \<Rightarrow> chip_info \<Rightarrow> string option \<Rightarrow> ('h machine, unit) prog" where
  "probe_arg B info0 arg =
     for_each (\<lambda>(name, c). whenc (case arg of None \<Rightarrow> True | Some a \<Rightarrow> same_nocase a name)
       (seq (probe_func B info0 c) skip)) allchips"

text \<open>\<^verbatim>\<open>do ... while (++optind < argc)\<close>: one turn for each argument, and one when there is no argument.\<close>

definition probe_args :: "'h bus \<Rightarrow> chip_info \<Rightarrow> string list \<Rightarrow> ('h machine, unit) prog" where
  "probe_args B info0 args =
     (if args = [] then probe_arg B info0 None else for_each (\<lambda>a. probe_arg B info0 (Some a)) args)"

text \<open>The options, as returned by \<^verbatim>\<open>getopt\<close>; \<open>perm\<close> is whether \<^verbatim>\<open>ioperm\<close> succeeds.\<close>

fun findchip_options :: "char list \<Rightarrow> ('h machine, unit) prog" where
  "findchip_options [] = skip"
| "findchip_options (c # cs) =
     (if c = CHR ''v'' then seq (modify (\<lambda>m. m\<lparr>verbose := True\<rparr>)) (findchip_options cs)
      else if c = CHR ''h'' then fault (Exit_With 0)
      else if c = CHR ''l'' then seq list_chips (fault (Exit_With 0))
      else findchip_options cs)"

definition findchip_main :: "'h bus \<Rightarrow> chip_info \<Rightarrow> bool \<Rightarrow> char list \<Rightarrow> string list \<Rightarrow> ('h machine, int) prog" where
  "findchip_main B info0 perm opts args =
     seq (findchip_options opts)
     (if \<not> perm then fault (Exit_With 0)
      else seq (probe_args B info0 args) (ret 0))"

section \<open>Properties\<close>

text \<open>Naming a chip set selects it whatever the case of its letters: \<^verbatim>\<open>findchip\<close> with one argument that
  equals \<^verbatim>\<open>winbond\<close> up to case runs the Winbond probe only, on any hardware to the end.\<close>

theorem winbond_argument_probes_winbond:
  assumes "map lower arg = ''winbond''"
  shows "findchip_main B info0 True [] [arg] m = probe_winbond B info0 m"
proof -
  have l: "map lower ''SMC'' = ''smc''" "map lower ''NSC'' = ''nsc''" "map lower ''WINBOND'' = ''winbond''"
    by code_simp+
  obtain m' where "probe_winbond B info0 m = Inr (0, m')"
    using probe_winbond_closes [of B info0 m] by blast
  with assms l show ?thesis
    by (simp add: findchip_main_def probe_args_def probe_arg_def allchips_def probe_func_def same_nocase_def
        prog_defs)
qed

theorem winbond_argument_probes_winbond_witness:
  "findchip_main (reg_chip 0x3f0 0x3f1) zero_info True [] [''WinBond''] (chip_at_rest (\<lambda>i. 0)) =
     probe_winbond (reg_chip 0x3f0 0x3f1) zero_info (chip_at_rest (\<lambda>i. 0))"
proof (rule winbond_argument_probes_winbond)
  show "map lower ''WinBond'' = ''winbond''" by code_simp
qed

end
