(* ===== verification/Irkbd.thy ===== *)
theory Irkbd
  imports C_Prelude
begin

text \<open>
  The daemon for the Tekram infrared keyboard, \<^verbatim>\<open>irda-utils/tekram/irkbd.c\<close>: the control block, the two signal
  handlers (data on the socket, expiry of the watchdog timer) and the connect loop of \<^verbatim>\<open>main\<close>. What the program
  tells the system is a trace of calls; what the system answers is an argument. Each handler is one
  step: the arrival of a second signal while a handler runs is not modelled.
\<close>

section \<open>Model\<close>

datatype kbd_state = IRKBD_IDLE | IRKBD_INIT_KBD | IRKBD_INIT_MOUSE | IRKBD_READY | IRKBD_POLLING

datatype kbd_cmd = IRKBD_CMD_ENABLE | IRKBD_CMD_INIT_KBD | IRKBD_CMD_INIT_MOUSE

fun cmd_byte :: "kbd_cmd \<Rightarrow> byte" where
  "cmd_byte IRKBD_CMD_INIT_KBD = 0xfe"
| "cmd_byte IRKBD_CMD_INIT_MOUSE = 0xff"
| "cmd_byte IRKBD_CMD_ENABLE = 0x41"

text \<open>The calls of the system a handler makes.\<close>

datatype call = Send byte | Fifo byte | Tiocsti byte | Setitimer int int | Puts string

text \<open>
  \<open>armed\<close> is the timer of the kernel: set by \<^verbatim>\<open>setitimer\<close>, cleared when it expires. The fields \<^verbatim>\<open>head\<close> and \<^verbatim>\<open>tail\<close>
  of the control block are never used. \<open>os h c\<close>: does call \<open>c\<close> succeed after the calls \<open>h\<close>?
\<close>

record kbd =
  state :: kbd_state
  sock :: int
  fifo :: int
  con_fd :: int
  connected :: bool
  saddr :: u32
  daddr :: u32
  mtu_tx :: int
  watchdog_timer :: "int \<times> int"
  frame :: "byte list"
  power_save :: int
  armed :: bool
  calls :: "call list"

type_synonym kprog = "(kbd, unit) prog"
type_synonym os = "call list \<Rightarrow> call \<Rightarrow> bool"

definition IRKBD_BUF_SIZE :: nat where
  "IRKBD_BUF_SIZE = 4096"

definition sys :: "call \<Rightarrow> kprog" where
  "sys c = modify (\<lambda>s. s\<lparr>calls := calls s @ [c]\<rparr>)"

definition printf :: "string \<Rightarrow> kprog" where
  "printf t = sys (Puts t)"

definition frame_byte :: "nat \<Rightarrow> (kbd, byte) prog" where
  "frame_byte n s = (if n < IRKBD_BUF_SIZE then Inr (frame s ! n, s) else Inl (Frame_Bounds n))"

subsection \<open>Start-up\<close>

text \<open>What the system answers at start: descriptors or errors. Errors of \<^verbatim>\<open>mknod\<close> other than \<^verbatim>\<open>EEXIST\<close> are fatal.\<close>

record init_env =
  r_socket :: int
  r_setfl :: int
  mknod_fails :: bool
  r_fifo :: int
  r_console :: int

definition zero_kbd :: kbd where
  "zero_kbd = \<lparr>state = IRKBD_IDLE, sock = 0, fifo = 0, con_fd = 0, connected = False, saddr = 0, daddr = 0, mtu_tx = 0,
     watchdog_timer = (0, 0), frame = replicate IRKBD_BUF_SIZE 0, power_save = 0, armed = False, calls = []\<rparr>"

text \<open>The control block is cleared; \<^verbatim>\<open>power_save\<close> and the world are not part of it.\<close>

definition irkbd_init :: "init_env \<Rightarrow> kprog" where
  "irkbd_init v =
     seq (modify (\<lambda>s. zero_kbd\<lparr>power_save := power_save s, armed := armed s, calls := calls s\<rparr>))
     (if r_socket v < 0 then fault (Exit_With (-1))
      else if r_setfl v < 0 then fault (Exit_With (-1))
      else
        seq (modify (\<lambda>s. s\<lparr>sock := r_socket v\<rparr>))
        (if mknod_fails v then fault (Exit_With (-1))
         else if r_fifo v < 0 then fault (Exit_With (-1))
         else
           seq (modify (\<lambda>s. s\<lparr>fifo := r_fifo v\<rparr>))
           (if r_console v < 0 then skip
            else
              seq (modify (\<lambda>s. s\<lparr>con_fd := r_console v\<rparr>))
              (modify (\<lambda>s. s\<lparr>state := IRKBD_IDLE\<rparr>)))))"

subsection \<open>Connecting\<close>

record device =
  d_info :: string
  d_daddr :: u32
  d_saddr :: u32

text \<open>\<open>r_devices\<close>: the list the kernel returns, \<open>None\<close> for an error; \<open>r_len\<close> the length in bytes it reports.\<close>

record conn_env =
  r_devices :: "device list option"
  r_len :: int
  r_setsdu :: int
  r_connect :: int
  r_getsdu :: "int option"

definition eol :: string where
  "eol = [CHR 0x0a]"

definition device_text :: "device \<Rightarrow> string list" where
  "device_text d = [''  name:  '' @ d_info d @ eol, ''  daddr: '' @ fmt_08x (uint (d_daddr d)) @ eol,
     ''  saddr: '' @ fmt_08x (uint (d_saddr d)) @ eol, eol]"

fun print_all :: "string list \<Rightarrow> kprog" where
  "print_all [] = skip"
| "print_all (t # ts) = seq (printf t) (print_all ts)"

fun try_devices :: "device list \<Rightarrow> (kbd, bool) prog" where
  "try_devices [] = ret False"
| "try_devices (d # ds) =
     seq (print_all (device_text d))
     (seq (modify (\<lambda>s. s\<lparr>daddr := d_daddr d, saddr := d_saddr d\<rparr>))
     (if d_info d = ''IR-660'' then seq (printf (''This one looks good!'' @ eol)) (ret True)
      else try_devices ds))"

definition irkbd_discover_devices :: "conn_env \<Rightarrow> (kbd, int) prog" where
  "irkbd_discover_devices v =
     (case r_devices v of
        None \<Rightarrow> fault (Exit_With (-1))
      | Some ds \<Rightarrow>
          bnd (if 0 < r_len v then
                 seq (printf (''Discovered: (list len='' @ fmt_d (int (length ds)) @ '')'' @ eol)) (try_devices ds)
               else ret False) (\<lambda>found.
          if found then ret 0
          else seq (printf (''Hmm, didn'' @ [CHR 0x27] @ ''t find any! retry?'' @ eol)) (ret (-1))))"

definition irkbd_connect_request :: "conn_env \<Rightarrow> (kbd, int) prog" where
  "irkbd_connect_request v =
     bnd (irkbd_discover_devices v) (\<lambda>r.
     if r = -1 then ret (-1)
     else if r_setsdu v \<noteq> 0 then fault (Exit_With (-1))
     else if r_connect v \<noteq> 0 then ret (-1)
     else
       (case r_getsdu v of
          None \<Rightarrow> fault (Exit_With (-1))
        | Some mtu \<Rightarrow> seq (modify (\<lambda>s. s\<lparr>mtu_tx := mtu, connected := True\<rparr>)) (ret 0)))"

subsection \<open>The handlers\<close>

definition irkbd_start_watchdog_timer :: "int \<Rightarrow> int \<Rightarrow> kprog" where
  "irkbd_start_watchdog_timer sec usec =
     seq (modify (\<lambda>s. s\<lparr>watchdog_timer := (sec, usec), armed := (sec, usec) \<noteq> (0, 0)\<rparr>))
     (sys (Setitimer sec usec))"

definition irkbd_data_request :: "os \<Rightarrow> kbd_cmd \<Rightarrow> kprog" where
  "irkbd_data_request os cmd =
     bnd (gets calls) (\<lambda>h.
     seq (sys (Send (cmd_byte cmd)))
     (whenc (\<not> os h (Send (cmd_byte cmd))) (printf (''Disconnected2!'' @ eol))))"

definition IRKBD_RATE :: int where
  "IRKBD_RATE = 15000"

definition IRKBD_IDLE_RATE :: int where
  "IRKBD_IDLE_RATE = 100000"

definition IRKBD_TIMEOUT :: int where
  "IRKBD_TIMEOUT = 1"

definition set_state :: "kbd_state \<Rightarrow> kprog" where
  "set_state q = modify (\<lambda>s. s\<lparr>state := q\<rparr>)"

definition irkbd_handle_response :: "byte \<Rightarrow> kprog" where
  "irkbd_handle_response rsp =
     (if rsp = 0x41 then
        bnd (gets power_save) (\<lambda>p.
        seq (modify (\<lambda>s. s\<lparr>power_save := p + 1\<rparr>))
        (irkbd_start_watchdog_timer 0 (if p > 100 then IRKBD_IDLE_RATE else IRKBD_RATE)))
      else if rsp = 0x11 then
        seq (printf (''OK!'' @ eol)) (seq (set_state IRKBD_INIT_MOUSE) (irkbd_start_watchdog_timer 0 IRKBD_RATE))
      else if rsp = 0x12 then
        seq (printf (''Error!'' @ eol)) (seq (set_state IRKBD_INIT_MOUSE) (irkbd_start_watchdog_timer 0 IRKBD_RATE))
      else if rsp = 0x21 then
        seq (printf (''OK!'' @ eol)) (seq (set_state IRKBD_READY) (irkbd_start_watchdog_timer 0 100000))
      else if rsp = 0x22 then
        seq (printf (''Error!'' @ eol)) (seq (set_state IRKBD_READY) (irkbd_start_watchdog_timer 0 100000))
      else if rsp = 0x31 then skip
      else if rsp = 0x33 then skip
      else printf (''irkbd_handle_response(), unknown response '' @ fmt_02x (uint rsp) @ eol))"

definition irkbd_handle_mouse :: "byte \<Rightarrow> kprog" where
  "irkbd_handle_mouse scancode = sys (Fifo scancode)"

text \<open>An error of the \<^verbatim>\<open>ioctl\<close> goes to the standard error only.\<close>

definition handle_scancode :: "byte \<Rightarrow> kprog" where
  "handle_scancode scancode = sys (Tiocsti scancode)"

text \<open>\<^verbatim>\<open>for (i=0;i<k;i++) f(frame[n++])\<close>\<close>

fun feed :: "nat \<Rightarrow> nat \<Rightarrow> (byte \<Rightarrow> kprog) \<Rightarrow> kprog" where
  "feed 0 n f = skip"
| "feed (Suc k) n f = bnd (frame_byte n) (\<lambda>b. seq (f b) (feed k (n + 1) f))"

definition reset_power_save :: kprog where
  "reset_power_save = seq (modify (\<lambda>s. s\<lparr>power_save := 0\<rparr>)) (irkbd_start_watchdog_timer 0 IRKBD_RATE)"

text \<open>
  One subframe from its type and length, with the bytes it takes from the frame: three for each record of
  the mouse. The two-bit type has no fifth value, and so the \<^verbatim>\<open>default\<close> branch, which takes no bytes, is never
  taken.
\<close>

definition taken :: "byte \<Rightarrow> nat" where
  "taken b =
     (let sublen = unat (b AND 0x3f); subtype = b AND 0xc0
      in if subtype = 0x80 \<or> subtype = 0xc0 then 3 * sublen
         else if subtype = 0x40 then sublen
         else if subtype = 0x00 then sublen
         else 0)"

definition parse_subframe :: "byte \<Rightarrow> nat \<Rightarrow> kprog" where
  "parse_subframe b n =
     (let sublen = unat (b AND 0x3f); subtype = b AND 0xc0
      in if subtype = 0x80 \<or> subtype = 0xc0 then
           seq (feed (sublen * 3) n irkbd_handle_mouse) reset_power_save
         else if subtype = 0x40 then
           seq (printf (''Test!'' @ eol)) (seq (feed sublen n handle_scancode) reset_power_save)
         else if subtype = 0x00 then feed sublen n irkbd_handle_response
         else printf (''Test2'' @ eol))"

text \<open>What is subtracted from \<^verbatim>\<open>len\<close>, also in the \<^verbatim>\<open>default\<close> branch.\<close>

definition counted :: "byte \<Rightarrow> byte" where
  "counted b =
     (let sublen = b AND 0x3f; subtype = b AND 0xc0
      in if subtype = 0x80 \<or> subtype = 0xc0 then sublen * 3 else sublen)"

text \<open>
  The parse loop. \<^verbatim>\<open>len\<close> is an unsigned byte and wraps. The loop ends because the read of \<^verbatim>\<open>frame[n]\<close> is
  beyond the array at the latest when \<open>n\<close> is its size.
\<close>

function parse_frame :: "nat \<Rightarrow> byte \<Rightarrow> kprog" where
  "parse_frame n len =
     (if len = 0 then skip
      else if IRKBD_BUF_SIZE \<le> n then fault (Frame_Bounds n)
      else
        bnd (frame_byte n) (\<lambda>b.
        seq (parse_subframe b (n + 1))
        (parse_frame (n + 1 + taken b) (len - 1 - counted b))))"
  by pat_completeness auto
termination by (relation "measure (\<lambda>(n, len). IRKBD_BUF_SIZE - n)") auto

declare parse_frame.simps [simp del]

text \<open>\<open>None\<close> is an error of \<^verbatim>\<open>recv\<close>; the call writes at most 2048 bytes to the front of the buffer.\<close>

definition recv :: "byte list option \<Rightarrow> (kbd, int) prog" where
  "recv r =
     (case r of
        None \<Rightarrow> ret (-1)
      | Some bs \<Rightarrow>
          seq (modify (\<lambda>s. s\<lparr>frame := bs @ drop (length bs) (frame s)\<rparr>)) (ret (int (length bs))))"

definition irkbd_data_indication :: "byte list option \<Rightarrow> kprog" where
  "irkbd_data_indication r =
     bnd (recv r) (\<lambda>actual.
     seq (whenc (actual \<le> 0)
       (seq (printf (''Disconnected!'' @ eol)) (modify (\<lambda>s. s\<lparr>connected := False\<rparr>))))
     (bnd (frame_byte 0) (\<lambda>len. parse_frame 1 len)))"

text \<open>What the watchdog does in a state, and the handler of its signal.\<close>

definition watchdog_action :: "os \<Rightarrow> kbd_state \<Rightarrow> kprog" where
  "watchdog_action os q =
     (case q of
       IRKBD_POLLING \<Rightarrow> seq (irkbd_data_request os IRKBD_CMD_ENABLE) (irkbd_start_watchdog_timer IRKBD_TIMEOUT 0)
     | IRKBD_IDLE \<Rightarrow> skip
     | IRKBD_INIT_KBD \<Rightarrow> seq (printf ''Initializing keyboard: '') (irkbd_data_request os IRKBD_CMD_INIT_KBD)
     | IRKBD_INIT_MOUSE \<Rightarrow> seq (printf ''Initializing mouse: '') (irkbd_data_request os IRKBD_CMD_INIT_MOUSE)
     | IRKBD_READY \<Rightarrow>
         seq (printf (''Running ...'' @ eol))
         (seq (irkbd_data_request os IRKBD_CMD_ENABLE) (set_state IRKBD_POLLING)))"

definition irkbd_watchdog_timer_expired :: "os \<Rightarrow> kprog" where
  "irkbd_watchdog_timer_expired os = bnd (gets state) (watchdog_action os)"

subsection \<open>The main program\<close>

text \<open>One turn of the loop up to the wait; \<open>True\<close> when connected.\<close>

definition main_connect :: "conn_env \<Rightarrow> (kbd, bool) prog" where
  "main_connect v =
     bnd (irkbd_connect_request v) (\<lambda>err.
     if err \<noteq> 0 then ret False
     else
       seq (set_state IRKBD_INIT_KBD)
       (seq (set_state IRKBD_INIT_MOUSE)
       (seq (irkbd_start_watchdog_timer IRKBD_TIMEOUT 0)
       (ret True))))"

section \<open>Handlers of single bytes\<close>

definition after :: "kprog \<Rightarrow> kbd \<Rightarrow> kbd" where
  "after m s = (case m s of Inl e \<Rightarrow> s | Inr (x, s') \<Rightarrow> s')"

text \<open>
  What the parse loop needs of a handler it hands the bytes of a subframe to: it returns, and it leaves the
  receive buffer alone. Then a run of bytes is handled one by one in the order of the frame.
\<close>

locale byte_handler =
  fixes f :: "byte \<Rightarrow> kprog"
  assumes returns: "f b s = Inr ((), after (f b) s)"
    and same_frame: "frame (after (f b) s) = frame s"
begin

lemma fold_frame: "frame (fold (\<lambda>b. after (f b)) bs s) = frame s"
  by (induction bs arbitrary: s) (simp_all add: same_frame)

lemma feed_fold:
  "length (frame s) = IRKBD_BUF_SIZE \<Longrightarrow> n + k \<le> IRKBD_BUF_SIZE \<Longrightarrow>
   feed k n f s = Inr ((), fold (\<lambda>b. after (f b)) (take k (drop n (frame s))) s)"
proof (induction k arbitrary: n s)
  case (Suc k)
  then have d: "drop n (frame s) = frame s ! n # drop (Suc n) (frame s)"
    by (simp add: Cons_nth_drop_Suc)
  have "feed k (n + 1) f (after (f (frame s ! n)) s) =
      Inr ((), fold (\<lambda>b. after (f b)) (take k (drop (n + 1) (frame s))) (after (f (frame s ! n)) s))"
    using Suc.IH [of "after (f (frame s ! n)) s" "n + 1"] Suc.prems by (simp add: same_frame)
  with Suc.prems show ?case
    by (simp add: d bnd_def seq_def frame_byte_def returns [of "frame s ! n" s])
qed (simp add: skip_def ret_def)

end

lemma timer_run [simp]: "irkbd_start_watchdog_timer a b s =
  Inr ((), s\<lparr>watchdog_timer := (a, b), armed := (a, b) \<noteq> (0, 0), calls := calls s @ [Setitimer a b]\<rparr>)"
  by (simp add: irkbd_start_watchdog_timer_def seq_def bnd_def modify_def sys_def)

lemma sys_run [simp]: "sys c s = Inr ((), s\<lparr>calls := calls s @ [c]\<rparr>)"
  by (simp add: sys_def modify_def)

lemma after_sys [simp]: "after (sys c) s = s\<lparr>calls := calls s @ [c]\<rparr>"
  by (simp add: after_def)

lemma reset_run: "reset_power_save s = Inr ((), s\<lparr>power_save := 0, watchdog_timer := (0, IRKBD_RATE), armed := True,
    calls := calls s @ [Setitimer 0 IRKBD_RATE]\<rparr>)"
  by (simp add: reset_power_save_def seq_def bnd_def modify_def IRKBD_RATE_def)

lemma response_run:
  "\<exists>s'. irkbd_handle_response rsp s = Inr ((), s') \<and> frame s' = frame s \<and> connected s' = connected s"
  by (simp add: irkbd_handle_response_def seq_def bnd_def modify_def gets_def set_state_def printf_def skip_def ret_def)

lemma after_run: "m s = Inr ((), s') \<Longrightarrow> m s = Inr ((), after m s) \<and> after m s = s'"
  by (simp add: after_def)

interpretation mouse: byte_handler irkbd_handle_mouse
  by unfold_locales (simp_all add: after_def irkbd_handle_mouse_def)

interpretation key: byte_handler handle_scancode
  by unfold_locales (simp_all add: after_def handle_scancode_def)

interpretation response: byte_handler irkbd_handle_response
proof
  fix b s
  show "irkbd_handle_response b s = Inr ((), after (irkbd_handle_response b) s)"
    "frame (after (irkbd_handle_response b) s) = frame s"
    using response_run [of b s] after_run by metis+
qed


section \<open>Decoding of frames\<close>

text \<open>The subframes as the device forms them, and what the daemon has to do for each of them.\<close>

datatype subframe = Mouse bool "byte list" | Keys "byte list" | Responses "byte list"

fun sub_ok :: "subframe \<Rightarrow> bool" where
  "sub_ok (Mouse second bs) \<longleftrightarrow> 3 dvd length bs \<and> length bs < 192"
| "sub_ok (Keys bs) \<longleftrightarrow> length bs < 64"
| "sub_ok (Responses bs) \<longleftrightarrow> length bs < 64"

fun sub_bytes :: "subframe \<Rightarrow> byte list" where
  "sub_bytes (Mouse second bs) = ((if second then 0xc0 else 0x80) OR of_nat (length bs div 3)) # bs"
| "sub_bytes (Keys bs) = (0x40 OR of_nat (length bs)) # bs"
| "sub_bytes (Responses bs) = of_nat (length bs) # bs"

definition frame_bytes :: "subframe list \<Rightarrow> byte list" where
  "frame_bytes fs = concat (map sub_bytes fs)"

definition kbd_frame :: "subframe list \<Rightarrow> byte list" where
  "kbd_frame fs = of_nat (length (frame_bytes fs)) # frame_bytes fs"

fun sub_effect :: "subframe \<Rightarrow> kbd \<Rightarrow> kbd" where
  "sub_effect (Mouse second bs) s = after reset_power_save (fold (\<lambda>b. after (irkbd_handle_mouse b)) bs s)"
| "sub_effect (Keys bs) s =
     after reset_power_save (fold (\<lambda>b. after (handle_scancode b)) bs (after (printf (''Test!'' @ eol)) s))"
| "sub_effect (Responses bs) s = fold (\<lambda>b. after (irkbd_handle_response b)) bs s"

lemma sub_head:
  fixes t :: byte
  assumes "k < 64" "t \<in> {0, 0x40, 0x80, 0xc0}"
  shows "(t OR of_nat k) AND 0x3f = of_nat k" "(t OR of_nat k) AND 0xc0 = t"
proof -
  have "list_all (\<lambda>k. list_all (\<lambda>t. (t OR of_nat k) AND 0x3f = (of_nat k :: byte) \<and> (t OR of_nat k) AND 0xc0 = t)
      [0, 0x40, 0x80, 0xc0]) [0..<64]"
    by code_simp
  then show "(t OR of_nat k) AND 0x3f = of_nat k" "(t OR of_nat k) AND 0xc0 = t"
    using assms unfolding list_all_iff by auto
qed

lemma unat_small: "k < 256 \<Longrightarrow> unat (of_nat k :: byte) = k"
  by (simp add: unat_of_nat)

lemma parse_sub:
  assumes "sub_ok f" "length (frame s) = IRKBD_BUF_SIZE" "n + length (sub_bytes f) \<le> IRKBD_BUF_SIZE"
    and "take (length (sub_bytes f)) (drop n (frame s)) = sub_bytes f"
  shows "parse_subframe (hd (sub_bytes f)) (n + 1) s = Inr ((), sub_effect f s)"
    and "taken (hd (sub_bytes f)) = length (sub_bytes f) - 1"
    and "counted (hd (sub_bytes f)) = of_nat (length (sub_bytes f) - 1)"
    and "frame (sub_effect f s) = frame s"
    and "connected (sub_effect f s) = connected s"
proof -
  have t: "take (length (sub_bytes f) - 1) (drop (Suc n) (frame s)) = tl (sub_bytes f)"
    using arg_cong [OF assms(4), of tl] by (simp add: tl_take tl_drop drop_Suc)
  have c: "connected (fold (\<lambda>b. after (irkbd_handle_response b)) bs s) = connected s" for bs s
  proof (induction bs arbitrary: s)
    case (Cons b bs)
    have "connected (after (irkbd_handle_response b) s) = connected s"
      using response_run [of b s] after_run by metis
    with Cons show ?case by simp
  qed simp
  have c2: "connected (fold (\<lambda>b. after (irkbd_handle_mouse b)) bs s) = connected s"
    "connected (fold (\<lambda>b. after (handle_scancode b)) bs s) = connected s" for bs s
    by (induction bs arbitrary: s) (simp_all add: after_def irkbd_handle_mouse_def handle_scancode_def)
  note defs = parse_subframe_def taken_def counted_def Let_def
  have "parse_subframe (hd (sub_bytes f)) (n + 1) s = Inr ((), sub_effect f s) \<and>
    taken (hd (sub_bytes f)) = length (sub_bytes f) - 1 \<and>
    counted (hd (sub_bytes f)) = of_nat (length (sub_bytes f) - 1) \<and> frame (sub_effect f s) = frame s \<and>
    connected (sub_effect f s) = connected s"
  proof (cases f)
    case (Mouse second bs)
    then obtain k where k: "length bs = 3 * k" "k < 64" using assms(1) by auto
    show ?thesis
      using assms(2,3) t Mouse k sub_head [of k "0x80"] sub_head [of k "0xc0"] mouse.feed_fold [of s "Suc n" "3 * k"]
      by (cases second) (auto simp: defs unat_small seq_def bnd_def reset_run after_def [of reset_power_save]
          mouse.fold_frame c2 mult.commute)
  next
    case (Keys bs)
    then show ?thesis
      using assms(1-3) t sub_head [of "length bs" "0x40"] key.feed_fold [of "after (printf (''Test!'' @ eol)) s" "Suc n" "length bs"]
      by (auto simp: defs unat_small seq_def bnd_def reset_run after_def [of reset_power_save]
          printf_def key.fold_frame c2)
  next
    case (Responses bs)
    then show ?thesis
      using assms(1-3) t sub_head [of "length bs" 0] response.feed_fold [of s "Suc n" "length bs"]
      by (auto simp: defs unat_small response.fold_frame c)
  qed
  then show "parse_subframe (hd (sub_bytes f)) (n + 1) s = Inr ((), sub_effect f s)"
    "taken (hd (sub_bytes f)) = length (sub_bytes f) - 1"
    "counted (hd (sub_bytes f)) = of_nat (length (sub_bytes f) - 1)"
    "frame (sub_effect f s) = frame s"
    "connected (sub_effect f s) = connected s" by blast+
qed


lemma parse_subframes:
  "list_all sub_ok fs \<Longrightarrow> length (frame s) = IRKBD_BUF_SIZE \<Longrightarrow> n + length (frame_bytes fs) \<le> IRKBD_BUF_SIZE \<Longrightarrow>
   length (frame_bytes fs) < 256 \<Longrightarrow> take (length (frame_bytes fs)) (drop n (frame s)) = frame_bytes fs \<Longrightarrow>
   parse_frame n (of_nat (length (frame_bytes fs))) s = Inr ((), fold sub_effect fs s) \<and>
   frame (fold sub_effect fs s) = frame s \<and> connected (fold sub_effect fs s) = connected s"
proof (induction fs arbitrary: n s)
  case Nil
  then show ?case by (simp add: parse_frame.simps frame_bytes_def skip_def ret_def)
next
  case (Cons f fs)
  let ?k = "length (sub_bytes f)" and ?r = "length (frame_bytes fs)"
  have e: "frame_bytes (f # fs) = sub_bytes f @ frame_bytes fs" by (simp add: frame_bytes_def)
  have k: "0 < ?k" by (cases f) auto
  have t: "take ?k (drop n (frame s)) = sub_bytes f" "take ?r (drop (n + ?k) (frame s)) = frame_bytes fs"
    using arg_cong [OF Cons.prems(5), of "take ?k"] arg_cong [OF Cons.prems(5), of "drop ?k"]
    by (simp_all add: e drop_take add.commute min_absorb1)
  have n: "n < IRKBD_BUF_SIZE" using Cons.prems(3) k unfolding e length_append by linarith
  then have hd: "frame s ! n = hd (sub_bytes f)"
    using k Cons.prems(2) arg_cong [OF t(1), of hd] by (simp add: hd_drop_conv_nth)
  note p = parse_sub [of f s n, OF _ Cons.prems(2) _ t(1)]
  have len: "(of_nat (?k + ?r) :: byte) \<noteq> 0"
    using Cons.prems(4) k unat_small [of "?k + ?r"] unfolding e length_append by fastforce
  have sub: "of_nat (?k + ?r) - 1 - of_nat (?k - 1) = (of_nat ?r :: byte)"
    using k by (cases ?k) simp_all
  have nx: "Suc (n + (?k - Suc 0)) = n + ?k" using k by simp
  have IH: "parse_frame (n + ?k) (of_nat ?r) (sub_effect f s) = Inr ((), fold sub_effect fs (sub_effect f s)) \<and>
      frame (fold sub_effect fs (sub_effect f s)) = frame (sub_effect f s) \<and>
      connected (fold sub_effect fs (sub_effect f s)) = connected (sub_effect f s)"
    by (rule Cons.IH) (use Cons.prems t p in \<open>simp_all add: e\<close>)
  show ?case
    using n IH p Cons.prems k
    by (subst parse_frame.simps)
      (simp add: e len [unfolded of_nat_add] sub hd nx frame_byte_def bnd_def seq_def)
qed

text \<open>The bytes that reach the console, the mouse fifo and the device, from the trace of calls.\<close>

definition typed :: "call list \<Rightarrow> byte list" where
  "typed cs = List.map_filter (\<lambda>c. case c of Tiocsti b \<Rightarrow> Some b | _ \<Rightarrow> None) cs"

definition moved :: "call list \<Rightarrow> byte list" where
  "moved cs = List.map_filter (\<lambda>c. case c of Fifo b \<Rightarrow> Some b | _ \<Rightarrow> None) cs"

definition sent :: "call list \<Rightarrow> byte list" where
  "sent cs = List.map_filter (\<lambda>c. case c of Send b \<Rightarrow> Some b | _ \<Rightarrow> None) cs"

fun sub_keys :: "subframe \<Rightarrow> byte list" where
  "sub_keys (Keys bs) = bs"
| "sub_keys f = []"

fun sub_moves :: "subframe \<Rightarrow> byte list" where
  "sub_moves (Mouse second bs) = bs"
| "sub_moves f = []"

text \<open>The state a list of response codes leads to.\<close>

definition next_state :: "byte \<Rightarrow> kbd_state \<Rightarrow> kbd_state" where
  "next_state b q = (if b \<in> {0x11, 0x12} then IRKBD_INIT_MOUSE else if b \<in> {0x21, 0x22} then IRKBD_READY else q)"

fun sub_state :: "subframe \<Rightarrow> kbd_state \<Rightarrow> kbd_state" where
  "sub_state (Responses bs) q = fold next_state bs q"
| "sub_state f q = q"

lemma proj_append [simp]:
  "typed (xs @ ys) = typed xs @ typed ys" "moved (xs @ ys) = moved xs @ moved ys" "sent (xs @ ys) = sent xs @ sent ys"
  by (simp_all add: typed_def moved_def sent_def List.map_filter_def)

lemma proj_simps [simp]:
  "typed [] = []" "typed (c # cs) = (case c of Tiocsti b \<Rightarrow> b # typed cs | _ \<Rightarrow> typed cs)"
  "moved [] = []" "moved (c # cs) = (case c of Fifo b \<Rightarrow> b # moved cs | _ \<Rightarrow> moved cs)"
  "sent [] = []" "sent (c # cs) = (case c of Send b \<Rightarrow> b # sent cs | _ \<Rightarrow> sent cs)"
  by (simp_all add: typed_def moved_def sent_def List.map_filter_simps split: call.split)

lemma response_calls:
  "typed (calls (after (irkbd_handle_response b) s)) = typed (calls s)"
  "moved (calls (after (irkbd_handle_response b) s)) = moved (calls s)"
  "sent (calls (after (irkbd_handle_response b) s)) = sent (calls s)"
  "state (after (irkbd_handle_response b) s) = next_state b (state s)"
  by (simp_all add: after_def irkbd_handle_response_def seq_def bnd_def modify_def gets_def set_state_def printf_def
      skip_def ret_def next_state_def)

lemma sub_effect_calls:
  "typed (calls (sub_effect f s)) = typed (calls s) @ sub_keys f \<and>
   moved (calls (sub_effect f s)) = moved (calls s) @ sub_moves f \<and>
   sent (calls (sub_effect f s)) = sent (calls s) \<and>
   state (sub_effect f s) = sub_state f (state s)"
proof (cases f)
  case (Mouse second bs)
  have "typed (calls (fold (\<lambda>b. after (irkbd_handle_mouse b)) bs s)) = typed (calls s) \<and>
     moved (calls (fold (\<lambda>b. after (irkbd_handle_mouse b)) bs s)) = moved (calls s) @ bs \<and>
     sent (calls (fold (\<lambda>b. after (irkbd_handle_mouse b)) bs s)) = sent (calls s) \<and>
     state (fold (\<lambda>b. after (irkbd_handle_mouse b)) bs s) = state s" for s
    by (induction bs arbitrary: s) (simp_all add: irkbd_handle_mouse_def)
  with Mouse show ?thesis by (simp add: after_def [of reset_power_save] reset_run)
next
  case (Keys bs)
  have "typed (calls (fold (\<lambda>b. after (handle_scancode b)) bs s)) = typed (calls s) @ bs \<and>
     moved (calls (fold (\<lambda>b. after (handle_scancode b)) bs s)) = moved (calls s) \<and>
     sent (calls (fold (\<lambda>b. after (handle_scancode b)) bs s)) = sent (calls s) \<and>
     state (fold (\<lambda>b. after (handle_scancode b)) bs s) = state s" for s
    by (induction bs arbitrary: s) (simp_all add: handle_scancode_def)
  with Keys show ?thesis by (simp add: after_def [of reset_power_save] reset_run printf_def)
next
  case (Responses bs)
  have "typed (calls (fold (\<lambda>b. after (irkbd_handle_response b)) bs s)) = typed (calls s) \<and>
     moved (calls (fold (\<lambda>b. after (irkbd_handle_response b)) bs s)) = moved (calls s) \<and>
     sent (calls (fold (\<lambda>b. after (irkbd_handle_response b)) bs s)) = sent (calls s) \<and>
     state (fold (\<lambda>b. after (irkbd_handle_response b)) bs s) = fold next_state bs (state s)" for s
    by (induction bs arbitrary: s) (simp_all add: response_calls)
  with Responses show ?thesis by simp
qed

lemma subs_calls:
  "typed (calls (fold sub_effect fs s)) = typed (calls s) @ concat (map sub_keys fs)"
  "moved (calls (fold sub_effect fs s)) = moved (calls s) @ concat (map sub_moves fs)"
  "sent (calls (fold sub_effect fs s)) = sent (calls s)"
  "state (fold sub_effect fs s) = fold sub_state fs (state s)"
  by (induction fs arbitrary: s) (simp_all add: sub_effect_calls)


lemma data_run:
  assumes "list_all sub_ok fs" "length (frame_bytes fs) < 256" "length (frame s) = IRKBD_BUF_SIZE"
    and "take (length (kbd_frame fs)) (frame s) = kbd_frame fs"
  shows "bnd (frame_byte 0) (parse_frame 1) s = Inr ((), fold sub_effect fs s)"
    and "frame (fold sub_effect fs s) = frame s" and "connected (fold sub_effect fs s) = connected s"
proof -
  let ?r = "length (frame_bytes fs)"
  obtain b bs where f: "frame s = b # bs" using assms(3) by (cases "frame s") (auto simp: IRKBD_BUF_SIZE_def)
  have b: "b = of_nat ?r" "take ?r bs = frame_bytes fs"
    using assms(4) f by (auto simp: kbd_frame_def)
  have t: "take ?r (drop 1 (frame s)) = frame_bytes fs" using b f by simp
  have n: "1 + ?r \<le> IRKBD_BUF_SIZE" using assms(2) by (simp add: IRKBD_BUF_SIZE_def)
  note p = parse_subframes [OF assms(1,3) n assms(2) t]
  show "bnd (frame_byte 0) (parse_frame 1) s = Inr ((), fold sub_effect fs s)"
    using p f b(1) by (simp add: bnd_def frame_byte_def IRKBD_BUF_SIZE_def)
  show "frame (fold sub_effect fs s) = frame s" "connected (fold sub_effect fs s) = connected s"
    using p by blast+
qed

lemma indication_run:
  assumes "list_all sub_ok fs" "length (frame_bytes fs) < 256" "length (frame s) = IRKBD_BUF_SIZE"
  shows "irkbd_data_indication (Some (kbd_frame fs)) s =
      Inr ((), fold sub_effect fs (s\<lparr>frame := kbd_frame fs @ drop (length (kbd_frame fs)) (frame s)\<rparr>))"
    (is "_ = Inr ((), fold _ _ ?s)")
proof -
  have l: "length (frame ?s) = IRKBD_BUF_SIZE" "take (length (kbd_frame fs)) (frame ?s) = kbd_frame fs"
    using assms(2,3) by (auto simp: kbd_frame_def IRKBD_BUF_SIZE_def)
  have r: "recv (Some (kbd_frame fs)) s = Inr (int (length (kbd_frame fs)), ?s)"
    by (simp add: recv_def seq_def bnd_def modify_def ret_def)
  have k: "\<not> int (length (kbd_frame fs)) \<le> 0" by (simp add: kbd_frame_def)
  show ?thesis
    unfolding irkbd_data_indication_def bnd_def [of "recv _"] r
    using data_run(1) [OF assms(1,2) l] k by (simp add: seq_def whenc_def skip_def)
qed

text \<open>C12: A frame made of well-formed subframes that fits its length byte is handled completely: the key codes reach
  the console and the mouse records the fifo, each in the order of the frame and nothing else, no
  command is sent, the responses move the state machine one after the other, and the connection is kept.\<close>

theorem subframes_delivered:
  assumes "list_all sub_ok fs" "length (frame_bytes fs) < 256" "length (frame s) = IRKBD_BUF_SIZE"
  shows "\<exists>s'. irkbd_data_indication (Some (kbd_frame fs)) s = Inr ((), s') \<and>
    typed (calls s') = typed (calls s) @ concat (map sub_keys fs) \<and>
    moved (calls s') = moved (calls s) @ concat (map sub_moves fs) \<and>
    sent (calls s') = sent (calls s) \<and>
    state s' = fold sub_state fs (state s) \<and> connected s' = connected s"
proof -
  let ?s = "s\<lparr>frame := kbd_frame fs @ drop (length (kbd_frame fs)) (frame s)\<rparr>"
  have "length (frame ?s) = IRKBD_BUF_SIZE" "take (length (kbd_frame fs)) (frame ?s) = kbd_frame fs"
    using assms(2,3) by (auto simp: kbd_frame_def IRKBD_BUF_SIZE_def)
  from data_run(3) [OF assms(1,2) this] indication_run [OF assms] show ?thesis
    by (simp add: subs_calls)
qed

definition demo_subs :: "subframe list" where
  "demo_subs = [Keys [0x1e, 0x9e], Mouse True [8, 1, 0xff], Responses [0x41]]"

theorem subframes_delivered_witness:
  "kbd_frame demo_subs = [9, 0x42, 0x1e, 0x9e, 0xc1, 8, 1, 0xff, 0x01, 0x41] \<and>
   (\<exists>s'. irkbd_data_indication (Some (kbd_frame demo_subs)) zero_kbd = Inr ((), s') \<and>
     typed (calls s') = [0x1e, 0x9e] \<and> moved (calls s') = [8, 1, 0xff] \<and> state s' = IRKBD_IDLE)"
proof -
  have "list_all sub_ok demo_subs" "length (frame_bytes demo_subs) < 256" "length (frame zero_kbd) = IRKBD_BUF_SIZE"
    by (simp_all add: demo_subs_def frame_bytes_def zero_kbd_def numeral_3_eq_3 [symmetric])
  from subframes_delivered [OF this] have
    "\<exists>s'. irkbd_data_indication (Some (kbd_frame demo_subs)) zero_kbd = Inr ((), s') \<and>
     typed (calls s') = [0x1e, 0x9e] \<and> moved (calls s') = [8, 1, 0xff] \<and> state s' = IRKBD_IDLE"
    by (elim exE) (auto simp: demo_subs_def zero_kbd_def next_state_def)
  moreover have "kbd_frame demo_subs = [9, 0x42, 0x1e, 0x9e, 0xc1, 8, 1, 0xff, 0x01, 0x41]" by code_simp
  ultimately show ?thesis by blast
qed

lemma indication_None: "irkbd_data_indication None s =
  bnd (frame_byte 0) (parse_frame 1) (s\<lparr>calls := calls s @ [Puts (''Disconnected!'' @ eol)], connected := False\<rparr>)"
  by (simp add: irkbd_data_indication_def recv_def ret_def bnd_def seq_def whenc_def printf_def modify_def)

text \<open>When the connection is lost the last frame is handled a second time: the handler marks the connection as
  closed but goes on with what the buffer still holds, so that the keys of the last frame are typed again.\<close>

theorem lost_connection_repeats_keys:
  assumes "list_all sub_ok fs" "length (frame_bytes fs) < 256" "length (frame s) = IRKBD_BUF_SIZE"
  shows "\<exists>s' s''. irkbd_data_indication (Some (kbd_frame fs)) s = Inr ((), s') \<and>
    irkbd_data_indication None s' = Inr ((), s'') \<and> \<not> connected s'' \<and>
    typed (calls s'') = typed (calls s) @ concat (map sub_keys fs) @ concat (map sub_keys fs)"
proof -
  let ?s = "s\<lparr>frame := kbd_frame fs @ drop (length (kbd_frame fs)) (frame s)\<rparr>"
  let ?s1 = "fold sub_effect fs ?s"
  let ?t = "?s1\<lparr>calls := calls ?s1 @ [Puts (''Disconnected!'' @ eol)], connected := False\<rparr>"
  have l: "length (frame ?s) = IRKBD_BUF_SIZE" "take (length (kbd_frame fs)) (frame ?s) = kbd_frame fs"
    using assms(2,3) by (auto simp: kbd_frame_def IRKBD_BUF_SIZE_def)
  have f: "frame ?t = frame ?s" using data_run(2) [OF assms(1,2) l] by simp
  have l': "length (frame ?t) = IRKBD_BUF_SIZE" "take (length (kbd_frame fs)) (frame ?t) = kbd_frame fs"
    using l unfolding f by simp_all
  have "irkbd_data_indication None ?s1 = Inr ((), fold sub_effect fs ?t)"
    unfolding indication_None by (rule data_run(1) [OF assms(1,2) l'])
  with indication_run [OF assms] data_run(3) [OF assms(1,2) l'] show ?thesis
    by (simp add: subs_calls)
qed

theorem lost_connection_repeats_keys_witness:
  "\<exists>s' s''. irkbd_data_indication (Some [3, 0x42, 0x1e, 0x9e]) zero_kbd = Inr ((), s') \<and>
    irkbd_data_indication None s' = Inr ((), s'') \<and> \<not> connected s'' \<and>
    typed (calls s'') = [0x1e, 0x9e, 0x1e, 0x9e]"
proof -
  have "list_all sub_ok [Keys [0x1e, 0x9e]]" "length (frame_bytes [Keys [0x1e, 0x9e]]) < 256"
    "length (frame zero_kbd) = IRKBD_BUF_SIZE"
    by (simp_all add: frame_bytes_def zero_kbd_def)
  moreover have "kbd_frame [Keys [0x1e, 0x9e]] = [3, 0x42, 0x1e, 0x9e]" by code_simp
  ultimately show ?thesis
    using lost_connection_repeats_keys [of "[Keys [0x1e, 0x9e]]" zero_kbd] by (simp add: zero_kbd_def)
qed


section \<open>Reachable states\<close>

text \<open>
  The daemon as a transition system: the control point of \<^verbatim>\<open>main\<close> and the state. Data may arrive at any time, the
  alarm only while the timer of the kernel runs.
\<close>

datatype main_pc = Connecting | Waiting

definition recv_ok :: "byte list option \<Rightarrow> bool" where
  "recv_ok r = (case r of None \<Rightarrow> True | Some bs \<Rightarrow> length bs \<le> 2048)"

inductive kbd_step :: "main_pc \<times> kbd \<Rightarrow> main_pc \<times> kbd \<Rightarrow> bool" where
  connect_fails: "main_connect v s = Inr (False, s') \<Longrightarrow> kbd_step (Connecting, s) (Connecting, s')"
| connects: "main_connect v s = Inr (True, s') \<Longrightarrow> kbd_step (Connecting, s) (Waiting, s')"
| lost: "\<not> connected s \<Longrightarrow> printf (''Disconnected!'' @ eol) s = Inr ((), s') \<Longrightarrow> kbd_step (Waiting, s) (Connecting, s')"
| data: "recv_ok r \<Longrightarrow> irkbd_data_indication r s = Inr ((), s') \<Longrightarrow> kbd_step (pc, s) (pc, s')"
| alarm: "armed s \<Longrightarrow> irkbd_watchdog_timer_expired os (s\<lparr>armed := False\<rparr>) = Inr ((), s') \<Longrightarrow> kbd_step (pc, s) (pc, s')"

inductive kbd_reach :: "main_pc \<times> kbd \<Rightarrow> bool" where
  init: "irkbd_init v zero_kbd = Inr ((), s) \<Longrightarrow> kbd_reach (Connecting, s)"
| step: "kbd_reach c \<Longrightarrow> kbd_step c c' \<Longrightarrow> kbd_reach c'"

text \<open>The upper half of the receive buffer is never written.\<close>

definition upper_zero :: "byte list \<Rightarrow> bool" where
  "upper_zero fr \<longleftrightarrow> length fr = IRKBD_BUF_SIZE \<and> drop 2048 fr = replicate 2048 0"

lemma upper_zero_nth: "upper_zero fr \<Longrightarrow> 2048 \<le> n \<Longrightarrow> n < IRKBD_BUF_SIZE \<Longrightarrow> fr ! n = 0"
proof -
  assume u: "upper_zero fr" and n: "2048 \<le> n" "n < IRKBD_BUF_SIZE"
  have "drop 2048 fr ! (n - 2048) = fr ! n" using u n by (subst nth_drop) (auto simp: upper_zero_def)
  then show ?thesis using u n by (simp add: upper_zero_def IRKBD_BUF_SIZE_def)
qed

lemma upper_zero_recv: "upper_zero fr \<Longrightarrow> length bs \<le> 2048 \<Longrightarrow> upper_zero (bs @ drop (length bs) fr)"
  by (simp add: upper_zero_def IRKBD_BUF_SIZE_def)

lemma byte_le: "unat (b :: byte) \<le> 255"
  using unat_byte_less [of b] by linarith

lemma taken_le: "taken b \<le> 189"
  by (rule all_bytes [where P = "\<lambda>b. taken b \<le> 189"]) code_simp

lemma subframe_run:
  assumes "length (frame s) = IRKBD_BUF_SIZE" "n + taken b \<le> IRKBD_BUF_SIZE"
  shows "\<exists>s'. parse_subframe b n s = Inr ((), s') \<and> frame s' = frame s"
proof -
  have k: "b AND 0xc0 \<in> {0, 0x40, 0x80, 0xc0}"
    by (rule all_bytes [where P = "\<lambda>b. b AND 0xc0 \<in> {0, 0x40, 0x80, 0xc0}"]) code_simp
  have p: "printf t s = Inr ((), s\<lparr>calls := calls s @ [Puts t]\<rparr>)" for t s by (simp add: printf_def)
  show ?thesis
    using k assms mouse.feed_fold [of s n "3 * unat (b AND 0x3f)"] response.feed_fold [of s n "unat (b AND 0x3f)"]
      key.feed_fold [of "s\<lparr>calls := calls s @ [Puts (''Test!'' @ eol)]\<rparr>" n "unat (b AND 0x3f)"]
    by (auto simp: parse_subframe_def taken_def Let_def seq_def bnd_def reset_run p mouse.fold_frame key.fold_frame
        response.fold_frame mult.commute)
qed

text \<open>
  Below 2048 a subframe ends at 2237 at the latest. From there on the buffer holds zeros, which the loop takes for
  empty response subframes, one less of \<open>len\<close> each.
\<close>

lemma parse_in_bounds:
  "upper_zero (frame s) \<Longrightarrow> n < 2048 \<or> n + unat len \<le> 2492 \<Longrightarrow>
   \<exists>s'. parse_frame n len s = Inr ((), s') \<and> frame s' = frame s"
proof (induction n len arbitrary: s rule: parse_frame.induct)
  case (1 n len)
  show ?case
  proof (cases "len = 0")
    case True
    then show ?thesis by (simp add: parse_frame.simps skip_def ret_def)
  next
    case False
    let ?b = "frame s ! n"
    have len: "0 < unat len" "unat (len - 1) = unat len - 1" using False by (simp_all add: unat_gt_0 unat_minus_one)
    have n: "n < IRKBD_BUF_SIZE" using "1.prems"(2) len(1) byte_le [of len] by (auto simp: IRKBD_BUF_SIZE_def)
    have z: "taken ?b = 0 \<and> counted ?b = 0" if "2048 \<le> n"
      using upper_zero_nth [OF "1.prems"(1) that n] by (simp add: taken_def counted_def)
    have nx: "n + 1 + taken ?b < 2048 \<or> n + 1 + taken ?b + unat (len - 1 - counted ?b) \<le> 2492"
    proof (cases "n < 2048")
      case True
      have "unat (len - 1 - counted ?b) \<le> 255" using byte_le [of "len - 1 - counted ?b"] .
      with True taken_le [of ?b] show ?thesis by linarith
    next
      case False
      with z len "1.prems"(2) show ?thesis by simp
    qed
    have "n + 1 + taken ?b \<le> IRKBD_BUF_SIZE"
      using nx taken_le [of ?b] n by (auto simp: IRKBD_BUF_SIZE_def)
    with "1.prems"(1) obtain s1 where s1: "parse_subframe ?b (n + 1) s = Inr ((), s1)" "frame s1 = frame s"
      using subframe_run [of s "n + 1" ?b] by (auto simp: upper_zero_def)
    obtain s2 where "parse_frame (n + 1 + taken ?b) (len - 1 - counted ?b) s1 = Inr ((), s2)" "frame s2 = frame s1"
      using "1.IH" [where x = ?b and s = s1] False n nx s1(2) "1.prems"(1) by auto
    with s1 n False show ?thesis
      by (subst parse_frame.simps) (simp add: frame_byte_def bnd_def seq_def)
  qed
qed

lemma indication_in_bounds:
  assumes "upper_zero (frame s)" "recv_ok r"
  shows "\<exists>s'. irkbd_data_indication r s = Inr ((), s') \<and> upper_zero (frame s')"
proof -
  have run: "\<exists>s'. bnd (frame_byte 0) (parse_frame 1) s = Inr ((), s') \<and> upper_zero (frame s')"
    if "upper_zero (frame s)" for s
    using parse_in_bounds [OF that, of 1 "frame s ! 0"] that
    by (auto simp: bnd_def frame_byte_def IRKBD_BUF_SIZE_def)
  show ?thesis
  proof (cases r)
    case None
    with run assms(1) show ?thesis by (simp add: indication_None)
  next
    case (Some bs)
    let ?s = "s\<lparr>frame := bs @ drop (length bs) (frame s)\<rparr>"
    let ?t = "if bs = [] then ?s\<lparr>calls := calls s @ [Puts (''Disconnected!'' @ eol)], connected := False\<rparr> else ?s"
    have "upper_zero (frame ?t)" using assms Some by (simp add: recv_ok_def upper_zero_recv)
    moreover have "irkbd_data_indication r s = bnd (frame_byte 0) (parse_frame 1) ?t"
      using Some by (simp add: irkbd_data_indication_def recv_def ret_def bnd_def seq_def whenc_def printf_def modify_def
          skip_def)
    ultimately show ?thesis using run [of ?t] by simp
  qed
qed


text \<open>The keyboard has not been told to initialise and the state machine is not about to.\<close>

definition quiet :: "kbd \<Rightarrow> bool" where
  "quiet s \<longleftrightarrow> state s \<noteq> IRKBD_INIT_KBD \<and> Send 0xfe \<notin> set (calls s)"

lemma quiet_sys: "c \<noteq> Send 0xfe \<Longrightarrow> preserves quiet (sys c)"
  by (auto simp: preserves_def quiet_def)

lemma quiet_modify: "(\<And>s. state (f s) = state s \<and> calls (f s) = calls s) \<Longrightarrow> preserves quiet (modify f)"
  by (auto simp: preserves_def quiet_def modify_def)

lemma quiet_state: "q \<noteq> IRKBD_INIT_KBD \<Longrightarrow> preserves quiet (set_state q)"
  by (auto simp: preserves_def quiet_def set_state_def modify_def)

lemma quiet_frame_byte: "preserves quiet (frame_byte n)"
  by (auto simp: preserves_def frame_byte_def split: if_splits)

lemma quiet_timer: "preserves quiet (irkbd_start_watchdog_timer a b)"
  by (auto simp: preserves_def quiet_def)

lemmas quiet_basic = preserves_intro quiet_sys quiet_modify quiet_state quiet_frame_byte quiet_timer

lemma quiet_feed: "(\<And>b. preserves quiet (f b)) \<Longrightarrow> preserves quiet (feed k n f)"
  by (induction k arbitrary: n) (simp_all add: quiet_basic)

lemma quiet_response: "preserves quiet (irkbd_handle_response b)"
  unfolding irkbd_handle_response_def printf_def by (intro quiet_basic) simp_all

lemma quiet_subframe: "preserves quiet (parse_subframe b n)"
  unfolding parse_subframe_def Let_def irkbd_handle_mouse_def handle_scancode_def printf_def reset_power_save_def
  by (intro quiet_basic quiet_feed quiet_response) simp_all

lemma quiet_parse_frame: "preserves quiet (parse_frame n len)"
proof (induction n len rule: parse_frame.induct)
  case (1 n len)
  then show ?case
    by (subst parse_frame.simps) (intro quiet_basic quiet_subframe, simp_all)
qed

lemma quiet_indication: "preserves quiet (irkbd_data_indication r)"
proof -
  have "preserves quiet (recv r)"
    unfolding recv_def by (cases r) (auto intro!: quiet_basic)
  then show ?thesis
    unfolding irkbd_data_indication_def printf_def by (intro quiet_basic quiet_parse_frame) simp_all
qed

lemma quiet_request: "cmd \<noteq> IRKBD_CMD_INIT_KBD \<Longrightarrow> preserves quiet (irkbd_data_request os cmd)"
  unfolding irkbd_data_request_def printf_def by (intro quiet_basic) (cases cmd; simp)+

lemma quiet_alarm: "quiet s \<Longrightarrow> irkbd_watchdog_timer_expired os s = Inr ((), s') \<Longrightarrow> quiet s'"
proof -
  assume q: "quiet s" and r: "irkbd_watchdog_timer_expired os s = Inr ((), s')"
  have w: "watchdog_action os (state s) s = Inr ((), s')"
    using r by (simp add: irkbd_watchdog_timer_expired_def bnd_def gets_def)
  have "preserves quiet (watchdog_action os (state s))"
    using q unfolding printf_def watchdog_action_def
    by (cases "state s"; simp only: kbd_state.case; intro quiet_basic quiet_request) (simp_all add: quiet_def)
  from preservesD [OF this q w] show ?thesis .
qed

lemma quiet_devices: "preserves quiet (try_devices ds)"
proof (induction ds)
  case (Cons d ds)
  have "preserves quiet (print_all ts)" for ts
    by (induction ts) (auto simp: printf_def intro!: quiet_basic)
  with Cons show ?case unfolding try_devices.simps printf_def by (intro quiet_basic) simp_all
qed (simp add: quiet_basic)

lemma quiet_request_conn: "preserves quiet (irkbd_connect_request v)"
  unfolding irkbd_connect_request_def irkbd_discover_devices_def printf_def
  by (intro quiet_basic quiet_devices preserves_option) simp_all

lemma set_state_twice: "seq (set_state p) (seq (set_state q) m) = seq (set_state q) m"
  by (rule ext) (simp add: set_state_def seq_def bnd_def modify_def)

lemma quiet_main_connect: "preserves quiet (main_connect v)"
  unfolding main_connect_def set_state_twice by (intro quiet_basic quiet_request_conn) simp_all

text \<open>The receive buffer is written by \<^verbatim>\<open>recv\<close> only.\<close>

lemma frame_modify: "(\<And>s. frame (f s) = frame s) \<Longrightarrow> keeps frame (modify f)"
  by (rule keeps_modify)

lemma keeps_frame_basic: "keeps frame (sys c)" "keeps frame (printf t)" "keeps frame (set_state q)"
  "keeps frame (irkbd_start_watchdog_timer a b)"
  by (auto simp: keeps_def printf_def set_state_def modify_def)

lemma keeps_option: "keeps g m \<Longrightarrow> (\<And>y. keeps g (f y)) \<Longrightarrow> keeps g (case x of None \<Rightarrow> m | Some y \<Rightarrow> f y)"
  by (cases x) simp_all

lemmas keeps_kbd = keeps_intro keeps_option keeps_frame_basic frame_modify

lemma frame_devices: "keeps frame (try_devices ds)"
proof (induction ds)
  case (Cons d ds)
  have "keeps frame (print_all ts)" for ts
    by (induction ts) (auto intro!: keeps_kbd)
  with Cons show ?case unfolding try_devices.simps by (intro keeps_kbd) simp_all
qed (simp add: keeps_intro)

lemma frame_main_connect: "keeps frame (main_connect v)"
  unfolding main_connect_def irkbd_connect_request_def irkbd_discover_devices_def
  by (intro keeps_kbd frame_devices) simp_all

lemma frame_alarm: "keeps frame (irkbd_watchdog_timer_expired os)"
proof -
  have "keeps frame (irkbd_data_request os c)" for c
    unfolding irkbd_data_request_def by (intro keeps_kbd)
  then show ?thesis
    unfolding irkbd_watchdog_timer_expired_def watchdog_action_def
    by (intro keeps_bnd keeps_gets) (auto intro!: keeps_kbd split: kbd_state.split)
qed

lemma init_run: "irkbd_init v zero_kbd = Inr ((), s) \<Longrightarrow> frame s = replicate IRKBD_BUF_SIZE 0 \<and> quiet s"
  by (auto simp: irkbd_init_def zero_kbd_def seq_def bnd_def modify_def fault_def skip_def ret_def quiet_def
      split: if_splits)

lemma kbd_reach_inv: "kbd_reach c \<Longrightarrow> upper_zero (frame (snd c)) \<and> quiet (snd c)"
proof (induction rule: kbd_reach.induct)
  case (init v s)
  then show ?case using init_run by (auto simp: upper_zero_def IRKBD_BUF_SIZE_def)
next
  case (step c c')
  obtain pc s pc' s' where c: "c = (pc, s)" "c' = (pc', s')" by (cases c, cases c') blast
  with step have I: "upper_zero (frame s)" "quiet s" and "kbd_step (pc, s) (pc', s')" by auto
  from this(3) have "upper_zero (frame s') \<and> quiet s'"
  proof (cases rule: kbd_step.cases)
    case (data r)
    with I show ?thesis using indication_in_bounds [of s r] preservesD [OF quiet_indication] by force
  next
    case (alarm os)
    with I show ?thesis using keepsD [OF frame_alarm] quiet_alarm [of "s\<lparr>armed := False\<rparr>" os s'] by (auto simp: quiet_def)
  next
    case lost
    with I show ?thesis by (auto simp: printf_def quiet_def)
  qed (use I keepsD [OF frame_main_connect] preservesD [OF quiet_main_connect] in \<open>metis\<close>)+
  with c show ?case by simp
qed

text \<open>C7: No received data, however malformed, makes the daemon read beyond its receive buffer. In every state the
  daemon can reach the handler for data returns, whatever up to 2048 bytes the peer sends: although the
  length byte wraps and the parse loop can run past the frame into old contents, the half of the buffer that
  \<^verbatim>\<open>recv\<close> never writes stops it.\<close>

theorem kbd_data_never_faults:
  assumes "kbd_reach (pc, s)" "recv_ok r"
  shows "\<exists>s'. irkbd_data_indication r s = Inr ((), s')"
  using indication_in_bounds [of s r] kbd_reach_inv [OF assms(1)] assms(2) by auto

definition kbd_env :: init_env where
  "kbd_env = \<lparr>r_socket = 3, r_setfl = 0, mknod_fails = False, r_fifo = 4, r_console = 5\<rparr>"

definition ready_kbd :: kbd where
  "ready_kbd = zero_kbd\<lparr>sock := 3, fifo := 4, con_fd := 5\<rparr>"

lemma ready_reach: "kbd_reach (Connecting, ready_kbd)"
proof -
  have "irkbd_init kbd_env zero_kbd = Inr ((), ready_kbd)"
    by (simp add: irkbd_init_def kbd_env_def zero_kbd_def seq_def bnd_def modify_def ready_kbd_def)
  then show ?thesis by (rule kbd_reach.init)
qed

theorem kbd_data_never_faults_witness:
  "\<exists>s'. irkbd_data_indication (Some (replicate 2048 0xbf)) ready_kbd = Inr ((), s')"
  using kbd_data_never_faults [OF ready_reach, of "Some (replicate 2048 0xbf)"] by (simp add: recv_ok_def)

text \<open>The keyboard is never initialised. The main program sets the state for it and overwrites it in the next
  statement, so that in no reachable state is the command for it due, and none is ever sent.\<close>

theorem keyboard_never_initialised:
  assumes "kbd_reach (pc, s)"
  shows "state s \<noteq> IRKBD_INIT_KBD \<and> 0xfe \<notin> set (sent (calls s))"
proof -
  have "b \<in> set (sent cs) \<Longrightarrow> Send b \<in> set cs" for b cs
    by (induction cs) (auto split: call.splits)
  then show ?thesis using kbd_reach_inv [OF assms] by (auto simp: quiet_def)
qed

theorem keyboard_never_initialised_witness:
  "state ready_kbd \<noteq> IRKBD_INIT_KBD \<and> 0xfe \<notin> set (sent (calls ready_kbd))"
  using keyboard_never_initialised [OF ready_reach] .


section \<open>Start-up and polling\<close>

lemma request_run: "\<exists>t. irkbd_data_request os c s = Inr ((), s\<lparr>calls := calls s @ Send (cmd_byte c) # t\<rparr>) \<and> sent t = []"
proof (intro exI conjI)
  let ?t = "if os (calls s) (Send (cmd_byte c)) then [] else [Puts (''Disconnected2!'' @ eol)]"
  show "irkbd_data_request os c s = Inr ((), s\<lparr>calls := calls s @ Send (cmd_byte c) # ?t\<rparr>)" "sent ?t = []"
    by (simp_all add: irkbd_data_request_def bnd_def seq_def gets_def whenc_def printf_def skip_def ret_def)
qed

lemma main_connect_run:
  "main_connect v s = Inr (True, s1) \<Longrightarrow> armed s1 \<and> state s1 = IRKBD_INIT_MOUSE"
  by (auto simp: main_connect_def bnd_def seq_def set_state_def modify_def ret_def IRKBD_TIMEOUT_def
      split: sum.splits if_splits prod.splits)

lemma frame_of_response: "kbd_frame [Responses [b]] = [2, 1, b]"
  by (simp add: kbd_frame_def frame_bytes_def)

lemma response_indication:
  assumes "length (frame s) = IRKBD_BUF_SIZE"
  shows "irkbd_data_indication (Some [2, 1, b]) s =
    Inr ((), after (irkbd_handle_response b) (s\<lparr>frame := [2, 1, b] @ drop 3 (frame s)\<rparr>))"
  using indication_run [of "[Responses [b]]" s] assms frame_of_response [of b]
  by (simp add: frame_bytes_def numeral_3_eq_3)

text \<open>From a new connection the daemon gets to polling: the alarm set on connecting sends the command for the mouse,
  the answer that it is ready sets the alarm again, and that alarm sends the first poll and enters the
  polling state. After each of the two commands no timer runs, so that a lost answer is not noticed: no
  alarm can follow and nothing is sent again.\<close>

theorem start_up_reaches_polling:
  assumes "main_connect v s = Inr (True, s1)" "length (frame s) = IRKBD_BUF_SIZE"
  shows "armed s1 \<and> (\<exists>s2 s3 s4. irkbd_watchdog_timer_expired os (s1\<lparr>armed := False\<rparr>) = Inr ((), s2) \<and> \<not> armed s2 \<and>
    irkbd_data_indication (Some [2, 1, 0x21]) s2 = Inr ((), s3) \<and> armed s3 \<and>
    irkbd_watchdog_timer_expired os (s3\<lparr>armed := False\<rparr>) = Inr ((), s4) \<and> \<not> armed s4 \<and>
    state s4 = IRKBD_POLLING \<and> sent (calls s4) = sent (calls s1) @ [0xff, 0x41])"
proof -
  note c = main_connect_run [OF assms(1)]
  let ?s = "s1\<lparr>armed := False, calls := calls s1 @ [Puts ''Initializing mouse: '']\<rparr>"
  obtain t where t: "irkbd_data_request os IRKBD_CMD_INIT_MOUSE ?s =
      Inr ((), ?s\<lparr>calls := calls ?s @ Send 0xff # t\<rparr>)" "sent t = []"
    using request_run [of os IRKBD_CMD_INIT_MOUSE ?s] by auto
  define s2 where "s2 = ?s\<lparr>calls := calls ?s @ Send 0xff # t\<rparr>"
  have s2: "irkbd_watchdog_timer_expired os (s1\<lparr>armed := False\<rparr>) = Inr ((), s2)"
    using c t by (simp add: irkbd_watchdog_timer_expired_def watchdog_action_def bnd_def seq_def gets_def printf_def s2_def)
  have f: "length (frame s2) = IRKBD_BUF_SIZE"
    using keepsD [OF frame_main_connect assms(1)] assms(2) by (simp add: s2_def)
  define s3 where "s3 = after (irkbd_handle_response 0x21) (s2\<lparr>frame := [2, 1, 0x21] @ drop 3 (frame s2)\<rparr>)"
  have s3: "state s3 = IRKBD_READY" "armed s3" "sent (calls s3) = sent (calls s2)"
    by (simp_all add: s3_def after_def irkbd_handle_response_def printf_def seq_def bnd_def set_state_def modify_def)
  let ?r = "s3\<lparr>armed := False, calls := calls s3 @ [Puts (''Running ...'' @ eol)]\<rparr>"
  obtain u where u: "irkbd_data_request os IRKBD_CMD_ENABLE ?r =
      Inr ((), ?r\<lparr>calls := calls ?r @ Send 0x41 # u\<rparr>)" "sent u = []"
    using request_run [of os IRKBD_CMD_ENABLE ?r] by auto
  have i: "irkbd_data_indication (Some [2, 1, 0x21]) s2 = Inr ((), s3)"
    unfolding s3_def by (rule response_indication [OF f])
  have s2': "\<not> armed s2" "sent (calls s2) = sent (calls s1) @ [0xff]" using t(2) by (simp_all add: s2_def)
  have "irkbd_watchdog_timer_expired os (s3\<lparr>armed := False\<rparr>) =
      Inr ((), ?r\<lparr>calls := calls ?r @ Send 0x41 # u, state := IRKBD_POLLING\<rparr>)"
    using s3 u by (simp add: irkbd_watchdog_timer_expired_def watchdog_action_def bnd_def seq_def gets_def printf_def
        set_state_def modify_def)
  then show ?thesis
    using c s2 s2' s3 u(2) i by simp
qed

definition demo_conn :: conn_env where
  "demo_conn = \<lparr>r_devices = Some [\<lparr>d_info = ''IR-660'', d_daddr = 7, d_saddr = 9\<rparr>], r_len = 40, r_setsdu = 0,
     r_connect = 0, r_getsdu = Some 2045\<rparr>"

theorem start_up_reaches_polling_witness:
  "\<exists>s1 s2 s3 s4. main_connect demo_conn ready_kbd = Inr (True, s1) \<and>
    irkbd_watchdog_timer_expired (\<lambda>h c. True) (s1\<lparr>armed := False\<rparr>) = Inr ((), s2) \<and>
    irkbd_data_indication (Some [2, 1, 0x21]) s2 = Inr ((), s3) \<and>
    irkbd_watchdog_timer_expired (\<lambda>h c. True) (s3\<lparr>armed := False\<rparr>) = Inr ((), s4) \<and> state s4 = IRKBD_POLLING"
proof -
  have "case main_connect demo_conn ready_kbd of Inl e \<Rightarrow> False | Inr (ok, s1) \<Rightarrow> ok" by code_simp
  then obtain s1 where "main_connect demo_conn ready_kbd = Inr (True, s1)"
    by (auto split: sum.splits prod.splits)
  moreover have "length (frame ready_kbd) = IRKBD_BUF_SIZE" by (simp add: ready_kbd_def zero_kbd_def)
  ultimately show ?thesis using start_up_reaches_polling [of demo_conn ready_kbd s1 "\<lambda>h c. True"] by blast
qed

text \<open>Polling continues: in the polling state every alarm sends a poll and sets the timer to one second; the answer
  to a poll shortens it to 15 ms, and to 100 ms once the counter of answers without data has passed 100.\<close>

theorem polling_continues:
  assumes "state s = IRKBD_POLLING" "length (frame s) = IRKBD_BUF_SIZE"
  shows "\<exists>s1 s2. irkbd_watchdog_timer_expired os s = Inr ((), s1) \<and> state s1 = IRKBD_POLLING \<and> armed s1 \<and>
    watchdog_timer s1 = (1, 0) \<and> sent (calls s1) = sent (calls s) @ [0x41] \<and>
    irkbd_data_indication (Some [2, 1, 0x41]) s1 = Inr ((), s2) \<and> state s2 = IRKBD_POLLING \<and> armed s2 \<and>
    watchdog_timer s2 = (0, if power_save s > 100 then 100000 else 15000) \<and> power_save s2 = power_save s + 1"
proof -
  obtain t where t: "irkbd_data_request os IRKBD_CMD_ENABLE s = Inr ((), s\<lparr>calls := calls s @ Send 0x41 # t\<rparr>)" "sent t = []"
    using request_run [of os IRKBD_CMD_ENABLE s] by auto
  define s1 where "s1 = s\<lparr>calls := calls s @ Send 0x41 # t @ [Setitimer 1 0], watchdog_timer := (1, 0), armed := True\<rparr>"
  have e: "irkbd_watchdog_timer_expired os s = Inr ((), s1)"
    using assms(1) t by (simp add: irkbd_watchdog_timer_expired_def watchdog_action_def bnd_def seq_def gets_def
        IRKBD_TIMEOUT_def s1_def)
  have f: "length (frame s1) = IRKBD_BUF_SIZE" using assms(2) by (simp add: s1_def)
  define s2 where "s2 = after (irkbd_handle_response 0x41) (s1\<lparr>frame := [2, 1, 0x41] @ drop 3 (frame s1)\<rparr>)"
  have i: "irkbd_data_indication (Some [2, 1, 0x41]) s1 = Inr ((), s2)"
    unfolding s2_def by (rule response_indication [OF f])
  have "state s2 = state s1 \<and> armed s2 \<and> power_save s2 = power_save s1 + 1 \<and>
      watchdog_timer s2 = (0, if power_save s1 > 100 then 100000 else 15000)"
    by (simp add: s2_def after_def irkbd_handle_response_def seq_def bnd_def gets_def modify_def IRKBD_IDLE_RATE_def
        IRKBD_RATE_def)
  moreover have "state s1 = IRKBD_POLLING \<and> armed s1 \<and> power_save s1 = power_save s \<and> watchdog_timer s1 = (1, 0) \<and>
      sent (calls s1) = sent (calls s) @ [0x41]"
    using assms(1) t(2) by (simp add: s1_def)
  ultimately show ?thesis using e i by simp
qed

theorem polling_continues_witness:
  "\<exists>s1. irkbd_watchdog_timer_expired (\<lambda>h c. True) (ready_kbd\<lparr>state := IRKBD_POLLING\<rparr>) = Inr ((), s1) \<and>
     watchdog_timer s1 = (1, 0) \<and> sent (calls s1) = [0x41]"
  using polling_continues [of "ready_kbd\<lparr>state := IRKBD_POLLING\<rparr>" "\<lambda>h c. True"]
  by (auto simp: ready_kbd_def zero_kbd_def)

end
