(* ===== verification/Psion.thy ===== *)
theory Psion
  imports C_Prelude
begin

text \<open>
  The file transfer with the Psion 5, \<^verbatim>\<open>irda-utils/psion/irpsion5.c\<close>: the choice of a device, sending and receiving
  of files, the command line. The peer is the list of results the reads on a connection give; the
  file system is part of the state; the other answers of the system are fields of an environment.
  The messages of the debug option and those to the standard error are left out, and of the progress display
  only the numbers are kept. Numbers are those of a 64-bit system (\<^verbatim>\<open>long\<close> has 64 bits).
\<close>

section \<open>Model\<close>

record ir_device =
  d_info :: string
  d_daddr :: int

text \<open>\<^verbatim>\<open>getsockopt\<close> for the list of devices: \<^verbatim>\<open>EAGAIN\<close>, another error, or a length in bytes and the list.\<close>

datatype enum_result = Enum_Again | Enum_Error | Enum_Ok int "ir_device list"

text \<open>\<^verbatim>\<open>read\<close> on the socket: an error (\<open>True\<close> for \<^verbatim>\<open>EPERM\<close>) or the bytes; no bytes is the end of the stream.\<close>

datatype rd_result = Rd_Err bool | Rd_Data string

text \<open>What is written on the standard output: device chosen, progress, warning about a changed size, final report.\<close>

datatype message =
    Sending_To string
  | Progress int int int
  | Size_Changed int int
  | Sent string int int
  | Received string int int

record psion =
  slot_timeout :: int
  debug_level :: int
  verbose :: bool
  proc_slot :: "int option"
  peers :: "rd_result list list"
  rx :: "rd_result list"
  tx :: "string list"
  files :: "string \<Rightarrow> string option"
  mtimes :: "string \<Rightarrow> int option"
  ticks :: nat
  messages :: "message list"

text \<open>
  \<open>e_enum i len\<close>: the \<open>i\<close>-th attempt with a buffer of \<open>len\<close> bytes. \<open>e_heap\<close>: the device list that fresh memory
  happens to hold. \<open>e_write\<close>: the result of a write after the writes before. \<open>e_time\<close>: the clock, by number of
  calls. \<open>e_stat\<close>: size, modification time and write permission. \<open>e_short\<close>: is a short read of the file an
  error?
\<close>

record psion_env =
  e_socket :: int
  e_proc :: bool
  e_enum :: "int \<Rightarrow> int \<Rightarrow> enum_result"
  e_heap :: "ir_device list"
  e_write :: "string list \<Rightarrow> string \<Rightarrow> int"
  e_time :: "nat \<Rightarrow> int"
  e_stat :: "string \<Rightarrow> (int \<times> int \<times> bool) option"
  e_short :: "string \<Rightarrow> bool"
  e_create :: "string \<Rightarrow> bool"
  e_fwrite :: bool
  e_fclose :: int
  e_utime :: bool
  e_bind :: int
  e_listen :: int

type_synonym 'a pprog = "(psion, 'a) prog"

definition buflen :: nat where
  "buflen = 2044"

definition say :: "message \<Rightarrow> unit pprog" where
  "say x = modify (\<lambda>s. s\<lparr>messages := messages s @ [x]\<rparr>)"

definition time :: "psion_env \<Rightarrow> int pprog" where
  "time E = bnd (gets ticks) (\<lambda>n. seq (modify (\<lambda>s. s\<lparr>ticks := n + 1\<rparr>)) (ret (e_time E n)))"

definition sock_write :: "psion_env \<Rightarrow> string \<Rightarrow> int pprog" where
  "sock_write E t =
     bnd (gets tx) (\<lambda>h. seq (modify (\<lambda>s. s\<lparr>tx := h @ [t]\<rparr>)) (ret (e_write E h t)))"

text \<open>A read of at most \<open>n\<close> bytes: what it returns and what is left for the next reads.\<close>

fun take_read :: "nat \<Rightarrow> rd_result list \<Rightarrow> rd_result \<times> rd_result list" where
  "take_read n [] = (Rd_Data [], [])"
| "take_read n (Rd_Err p # rs) = (Rd_Err p, rs)"
| "take_read n (Rd_Data t # rs) =
     (if length t \<le> n then (Rd_Data t, rs) else (Rd_Data (take n t), Rd_Data (drop n t) # rs))"

definition sock_read :: "nat \<Rightarrow> rd_result pprog" where
  "sock_read n = bnd (gets (\<lambda>s. take_read n (rx s))) (\<lambda>(r, rest). seq (modify (\<lambda>s. s\<lparr>rx := rest\<rparr>)) (ret r))"

subsection \<open>Choice of a device\<close>

definition set_slot_timeout :: "psion_env \<Rightarrow> int \<Rightarrow> int pprog" where
  "set_slot_timeout E ms =
     (if e_proc E then seq (modify (\<lambda>s. s\<lparr>proc_slot := Some ms\<rparr>)) (ret 0) else ret 1)"

text \<open>
  The loop over at most five attempts. It gives the length and the list: of the last good answer, or, when
  every attempt was to be repeated, the initial length and what the memory held.
\<close>

function enum_loop :: "psion_env \<Rightarrow> int \<Rightarrow> int \<Rightarrow> ir_device list \<Rightarrow> (int \<times> ir_device list) pprog" where
  "enum_loop E i len buf =
     (if i < 5 then
        (case e_enum E i len of
           Enum_Ok len' ds \<Rightarrow>
             if i = 0 \<and> len' = 4 then enum_loop E (i + 1) len' ds else ret (len', ds)
         | Enum_Again \<Rightarrow> enum_loop E (i + 1) len buf
         | Enum_Error \<Rightarrow> fault (Exit_With (-1)))
      else ret (len, buf))"
  by pat_completeness auto
termination by (relation "measure (\<lambda>(E, i, len, buf). nat (5 - i))") auto

declare enum_loop.simps [simp del]

text \<open>The first device of each preferred kind, else the first.\<close>

definition select_device :: "ir_device list \<Rightarrow> ir_device" where
  "select_device ds =
     (case find (\<lambda>d. is_prefix ''Symbian EPOC'' (d_info d)) ds of
        Some d \<Rightarrow> d
      | None \<Rightarrow>
          (case find (\<lambda>d. is_prefix ''Psion Series 5'' (d_info d)) ds of
             Some d \<Rightarrow> d
           | None \<Rightarrow> hd ds))"

text \<open>\<open>sizeof(struct irda_device_list)\<close> is 40 bytes with one device, each further device takes 36.\<close>

definition discover_devices :: "psion_env \<Rightarrow> int pprog" where
  "discover_devices E =
     bnd (gets slot_timeout) (\<lambda>ms.
     seq (whenc (ms > 0) (seq (set_slot_timeout E ms) skip))
     (bnd (enum_loop E 0 (40 + 36 * 9) (e_heap E)) (\<lambda>(len, ds).
     if len < 4 then fault (Exit_With 1)
     else if ds = [] then ret 0
     else
       let d = select_device ds
       in bnd (gets verbose) (\<lambda>v. seq (whenc v (say (Sending_To (d_info d)))) (ret (d_daddr d))))))"

subsection \<open>Sending\<close>

definition epoch :: int where
  "epoch = 62168263200000000"

text \<open>The date of the header: microseconds in 64-bit arithmetic, its two halves.\<close>

definition file_date :: "int \<Rightarrow> int" where
  "file_date mtime = (epoch + 1000000 * (mtime mod 2 ^ 32)) mod 2 ^ 64"

text \<open>\<^verbatim>\<open>(int) st_size\<close>.\<close>

definition to_int32 :: "int \<Rightarrow> int" where
  "to_int32 n = (n + 2 ^ 31) mod 2 ^ 32 - 2 ^ 31"

definition file_header :: "int \<Rightarrow> int \<Rightarrow> bool \<Rightarrow> string \<Rightarrow> string" where
  "file_header sz mtime writable name =
     ''FILE '' @ fmt_d (to_int32 sz) @ '' '' @ fmt_d (if writable then 32 else 33) @ '' '' @
     dec_int (file_date mtime div 2 ^ 32) @ '' '' @ dec_int (file_date mtime mod 2 ^ 32) @ '' '' @ name"

text \<open>The progress display: at most one line a second. The result is the time of the last line.\<close>

definition progress :: "psion_env \<Rightarrow> int \<Rightarrow> int \<Rightarrow> int \<Rightarrow> int \<Rightarrow> int pprog" where
  "progress E cnt whole t0 tx1 =
     bnd (gets verbose) (\<lambda>v.
     if \<not> v then ret tx1
     else
       bnd (time E) (\<lambda>t.
       if t - t0 = 0 \<or> cnt = 0 \<or> tx1 = t then ret tx1
       else seq (say (Progress cnt whole (t - t0))) (ret t)))"

text \<open>
  The loop over the file in pieces of \<^verbatim>\<open>buflen\<close>. A read that gives less than asked for sets the end-of-file or the
  error indicator, which ends the loop.
\<close>

function send_loop :: "psion_env \<Rightarrow> int \<Rightarrow> string \<Rightarrow> int \<Rightarrow> int \<Rightarrow> int \<Rightarrow> int pprog" where
  "send_loop E sz data cnt t0 tx1 =
     (let chunk = take buflen data; rest = drop buflen data; stop = length data < buflen
      in if chunk = [] then ret cnt
         else
           bnd (sock_write E chunk) (\<lambda>wrc.
           if wrc < 0 then fault (Exit_With 1)
           else if wrc < int (length chunk) then fault (Exit_With 1)
           else
             bnd (progress E (cnt + int (length chunk)) sz t0 tx1) (\<lambda>tx2.
             if stop then ret (cnt + int (length chunk))
             else send_loop E sz rest (cnt + int (length chunk)) t0 tx2)))"
  by pat_completeness auto
termination by (relation "measure (\<lambda>(E, sz, data, cnt, t0, tx1). length data)") (auto simp: buflen_def)

declare send_loop.simps [simp del]

definition connect :: "bool pprog" where
  "connect =
     bnd (gets peers) (\<lambda>ps.
     case ps of [] \<Rightarrow> ret False | p # ps' \<Rightarrow> seq (modify (\<lambda>s. s\<lparr>peers := ps', rx := p\<rparr>)) (ret True))"

text \<open>The report at the end; a transfer within a second counts as one second.\<close>

definition send_report :: "psion_env \<Rightarrow> string \<Rightarrow> int \<Rightarrow> int \<Rightarrow> int pprog" where
  "send_report E filename cnt t0 =
     bnd (gets verbose) (\<lambda>v.
     if v then bnd (time E) (\<lambda>t. seq (say (Sent filename cnt (if t = t0 then 1 else t - t0))) (ret 0))
     else ret 0)"

text \<open>After the acknowledgement: the data, then the end of the connection from the other side.\<close>

definition send_data :: "psion_env \<Rightarrow> string \<Rightarrow> int \<Rightarrow> string \<Rightarrow> int pprog" where
  "send_data E filename sz data =
     bnd (time E) (\<lambda>t0.
     bnd (send_loop E sz data 0 t0 t0) (\<lambda>cnt.
     if e_short E filename then fault (Exit_With 1)
     else
       seq (whenc (cnt \<noteq> sz) (say (Size_Changed sz cnt)))
       (bnd (sock_read buflen) (\<lambda>r.
       case r of
         Rd_Err p \<Rightarrow> if p then send_report E filename cnt t0 else fault (Exit_With 1)
       | Rd_Data t \<Rightarrow> if t \<noteq> [] then fault (Exit_With 1) else send_report E filename cnt t0))))"

text \<open>The header is formatted into the buffer with its terminator.\<close>

definition send_header :: "psion_env \<Rightarrow> string \<Rightarrow> unit pprog" where
  "send_header E hdr =
     seq (guard (length hdr < buflen) (Local_Bounds ''buf'' (length hdr)))
     (bnd (sock_write E hdr) (\<lambda>rc.
     if rc \<noteq> int (length hdr) then fault (Exit_With 1)
     else
       bnd (sock_read (buflen - 1)) (\<lambda>r.
       case r of
         Rd_Err p \<Rightarrow> fault (Exit_With 1)
       | Rd_Data reply \<Rightarrow>
           if reply = [] then fault (Exit_With 1)
           else if c_str reply = ''ACK N'' then fault (Exit_With 1)
           else if c_str reply \<noteq> ''ACK Y'' then fault (Exit_With 1)
           else skip)))"

definition sendfile :: "psion_env \<Rightarrow> string \<Rightarrow> int pprog" where
  "sendfile E filename =
     (if e_socket E < 0 then fault (Exit_With (-1))
      else
        bnd (discover_devices E) (\<lambda>daddr.
        if daddr = 0 then fault (Exit_With 1)
        else
          bnd connect (\<lambda>ok.
          if \<not> ok then fault (Exit_With (-1))
          else
            bnd (gets (\<lambda>s. files s filename)) (\<lambda>f.
            case f of
              None \<Rightarrow> fault (Exit_With 1)
            | Some data \<Rightarrow>
                (case e_stat E filename of
                   None \<Rightarrow> fault (Exit_With 1)
                 | Some (sz, mtime, writable) \<Rightarrow>
                     seq (send_header E (file_header sz mtime writable filename))
                     (send_data E filename sz data))))))"

subsection \<open>Receiving\<close>

text \<open>
  \<^verbatim>\<open>sscanf(buf, "FILE %u %u %u %u %n", ...)\<close> on a text that begins with \<^verbatim>\<open>"FILE "\<close>: size, mode, the two halves of
  the date and the number of characters read, white space behind the last number included.
\<close>

definition scan_file :: "string \<Rightarrow> (u32 \<times> u32 \<times> u32 \<times> u32 \<times> nat) option" where
  "scan_file buf =
     Option.bind (scan_u (drop 4 buf)) (\<lambda>(fsize, t1).
     Option.bind (scan_u t1) (\<lambda>(fmode, t2).
     Option.bind (scan_u t2) (\<lambda>(fdate1, t3).
     Option.bind (scan_u t3) (\<lambda>(fdate2, t4).
     Some (fsize, fmode, fdate1, fdate2, length buf - length (dropWhile isspace t4))))))"

text \<open>The date of the file, in unsigned 64-bit arithmetic, cut to 32 bits.\<close>

definition unix_date :: "u32 \<Rightarrow> u32 \<Rightarrow> u32" where
  "unix_date fdate1 fdate2 =
     (let fdatell = push_bit 32 (ucast fdate1) + ucast fdate2 :: 64 word
      in ucast ((fdatell - word_of_int epoch) div 1000000))"

definition fopen_wb :: "psion_env \<Rightarrow> string \<Rightarrow> unit pprog" where
  "fopen_wb E name =
     (if e_create E name then modify (\<lambda>s. s\<lparr>files := (files s)(name \<mapsto> [])\<rparr>) else fault (Exit_With 1))"

definition fwrite :: "psion_env \<Rightarrow> string \<Rightarrow> string \<Rightarrow> unit pprog" where
  "fwrite E name t =
     (if e_fwrite E then
        modify (\<lambda>s. s\<lparr>files := (files s)(name := map_option (\<lambda>d. d @ t) (files s name))\<rparr>)
      else fault (Exit_With 1))"

text \<open>The header: name, size and date (0 for plain data) of what follows, with the file opened.\<close>

definition parse_header :: "psion_env \<Rightarrow> string \<Rightarrow> (string \<times> u32 \<times> u32) pprog" where
  "parse_header E buf =
     (if is_prefix ''FILE '' buf then
        (case scan_file buf of
           None \<Rightarrow> fault (Exit_With 1)
         | Some (fsize, fmode, fdate1, fdate2, cnt) \<Rightarrow>
             seq (guard (cnt < buflen) Abort)
             (seq (fopen_wb E (drop cnt buf))
             (ret (drop cnt buf, fsize, unix_date fdate1 fdate2))))
      else if is_prefix ''DATA '' buf then
        (case scan_d (drop 4 buf) of
           None \<Rightarrow> fault (Exit_With 1)
         | Some (fsize, t) \<Rightarrow> seq (fopen_wb E ''/tmp/psion5-data'') (ret (''/tmp/psion5-data'', fsize, 0)))
      else fault (Exit_With 1))"

text \<open>
  The loop over the data. \<^verbatim>\<open>cnt\<close> is compared with the unsigned size; \<open>rs\<close> is what the peer still has to send.
  The result is the count and the time of the last reading of the clock.
\<close>

fun weight :: "rd_result \<Rightarrow> nat" where
  "weight (Rd_Err p) = 1"
| "weight (Rd_Data t) = Suc (length t)"

lemma take_read_weight:
  "take_read n rs = (Rd_Data t, rs') \<Longrightarrow> t \<noteq> [] \<Longrightarrow> sum_list (map weight rs') < sum_list (map weight rs)"
  by (cases "(n, rs)" rule: take_read.cases) (auto split: if_splits)

definition recv_progress :: "psion_env \<Rightarrow> int \<Rightarrow> int \<Rightarrow> int \<Rightarrow> int \<Rightarrow> int \<Rightarrow> (int \<times> int) pprog" where
  "recv_progress E cnt whole t0 tx1 t1 =
     bnd (gets verbose) (\<lambda>v.
     if \<not> v then ret (tx1, t1)
     else
       bnd (time E) (\<lambda>t.
       if t - t0 = 0 \<or> cnt = 0 \<or> tx1 = t then ret (tx1, t)
       else seq (say (Progress cnt whole (t - t0))) (ret (t, t))))"

function recv_loop :: "psion_env \<Rightarrow> string \<Rightarrow> u32 \<Rightarrow> rd_result list \<Rightarrow> u32 \<Rightarrow> int \<Rightarrow> int \<Rightarrow> int \<Rightarrow> (u32 \<times> int) pprog" where
  "recv_loop E name fsize rs cnt t0 tx1 t1 =
     (if cnt < fsize then
        (case take_read buflen rs of
           (Rd_Err p, rs') \<Rightarrow> fault (Exit_With 1)
         | (Rd_Data t, rs') \<Rightarrow>
             if t = [] then fault (Exit_With 1)
             else
               seq (fwrite E name t)
               (bnd (recv_progress E (sint (cnt + of_nat (length t))) (uint fsize) t0 tx1 t1) (\<lambda>(tx2, t2).
               recv_loop E name fsize rs' (cnt + of_nat (length t)) t0 tx2 t2)))
      else seq (modify (\<lambda>s. s\<lparr>rx := rs\<rparr>)) (ret (cnt, t1)))"
  by pat_completeness auto
termination
  by (relation "measure (\<lambda>(E, name, fsize, rs, cnt, t0, tx1, t1). sum_list (map weight rs))")
    (auto dest: take_read_weight [OF sym])

declare recv_loop.simps [simp del]

definition finish_file :: "psion_env \<Rightarrow> string \<Rightarrow> u32 \<Rightarrow> u32 \<Rightarrow> u32 \<Rightarrow> int \<Rightarrow> int \<Rightarrow> int pprog" where
  "finish_file E name fsize fdate cnt t0 t =
     seq (whenc (cnt \<noteq> fsize) (say (Size_Changed (uint fsize) (sint cnt))))
     (bnd (gets verbose) (\<lambda>v.
     seq (whenc v (say (Received name (sint cnt) (if t = t0 then 1 else t - t0))))
     (if e_fclose E \<noteq> 0 then fault (Exit_With 1)
      else
        seq (whenc (fdate \<noteq> 0 \<and> e_utime E) (modify (\<lambda>s. s\<lparr>mtimes := (mtimes s)(name \<mapsto> uint fdate)\<rparr>)))
        (ret 0))))"

definition handle_client :: "psion_env \<Rightarrow> int pprog" where
  "handle_client E =
     bnd (sock_read buflen) (\<lambda>r.
     case r of
       Rd_Err p \<Rightarrow> fault (Exit_With 1)
     | Rd_Data t \<Rightarrow>
         if t = [] then fault (Exit_With 1)
         else
           seq (guard (length t < buflen) Abort)
           (bnd (parse_header E (c_str t)) (\<lambda>(name, fsize, fdate).
           bnd (sock_write E ''ACK Y'') (\<lambda>rc.
           if rc \<noteq> 5 then fault (Exit_With 1)
           else
             bnd (time E) (\<lambda>t0.
             bnd (gets rx) (\<lambda>rs.
             bnd (recv_loop E name fsize rs 0 t0 t0 t0) (\<lambda>(cnt, t1).
             finish_file E name fsize fdate cnt t0 t1)))))))"

text \<open>The loop over the clients that connect; the mode 1 takes one only.\<close>

fun accept_loop :: "psion_env \<Rightarrow> int \<Rightarrow> rd_result list list \<Rightarrow> int pprog" where
  "accept_loop E mode [] = seq (modify (\<lambda>s. s\<lparr>peers := []\<rparr>)) (ret (-1))"
| "accept_loop E mode (p # ps) =
     seq (modify (\<lambda>s. s\<lparr>peers := ps, rx := p\<rparr>))
     (bnd (handle_client E) (\<lambda>rc.
     if rc \<noteq> 0 then ret 0
     else if mode = 1 then ret 0
     else accept_loop E mode ps))"

definition receivefile :: "psion_env \<Rightarrow> int \<Rightarrow> int pprog" where
  "receivefile E mode =
     (if e_socket E < 0 then fault (Exit_With (-1))
      else if e_bind E \<noteq> 0 then ret (-1)
      else if e_listen E \<noteq> 0 then ret (-1)
      else bnd (gets peers) (accept_loop E mode))"

subsection \<open>The command line\<close>

fun send_all :: "psion_env \<Rightarrow> string list \<Rightarrow> unit pprog" where
  "send_all E [] = skip"
| "send_all E (f # fs) = seq (sendfile E f) (send_all E fs)"

definition not_switch :: "string \<Rightarrow> bool" where
  "not_switch a \<longleftrightarrow> (case a of [] \<Rightarrow> True | c # cs \<Rightarrow> c \<noteq> CHR ''-'')"

text \<open>
  The loop of \<^verbatim>\<open>main\<close> over \<^verbatim>\<open>argv\<close>, whose end is a null pointer. After \<^verbatim>\<open>-s --\<close> the pointer is moved on by two and the
  files behind it are sent, so that the first one is left out; with no file named it is moved past the
  null pointer. \<^verbatim>\<open>argc\<close> is at least the number of arguments left, so that the null pointer ends the loop.
\<close>

function main_args :: "psion_env \<Rightarrow> string list \<Rightarrow> unit pprog" where
  "main_args E args =
     (case args of
        [] \<Rightarrow> skip
      | a # rest \<Rightarrow>
          if a = ''-s'' then
            (if rest \<noteq> [] \<and> hd rest = ''--'' then
               (if tl rest = [] then fault (Local_Bounds ''argv'' (length args + 1))
                else send_all E (tl (tl rest)))
             else
               seq (send_all E (takeWhile not_switch rest)) (main_args E (dropWhile not_switch rest)))
          else if a = ''-D'' then
            (case rest of
               [] \<Rightarrow> fault Null_Pointer
             | n # rest' \<Rightarrow> seq (modify (\<lambda>s. s\<lparr>debug_level := atoi n\<rparr>)) (main_args E rest'))
          else if a = ''-S'' then
            (case rest of
               [] \<Rightarrow> fault Null_Pointer
             | n # rest' \<Rightarrow> seq (modify (\<lambda>s. s\<lparr>slot_timeout := atoi n\<rparr>)) (main_args E rest'))
          else if a = ''-r'' then seq (receivefile E 1) (main_args E rest)
          else if a = ''-b'' then seq (receivefile E 0) (main_args E rest)
          else if a = ''-v'' then seq (modify (\<lambda>s. s\<lparr>verbose := True\<rparr>)) (main_args E rest)
          else if a = ''-q'' then seq (modify (\<lambda>s. s\<lparr>verbose := False\<rparr>)) (main_args E rest)
          else fault (Exit_With 1))"
  by pat_completeness auto
termination
  by (relation "measure (\<lambda>(E, args). length args)") (auto simp: less_Suc_eq_le length_dropWhile_le)

declare main_args.simps [simp del]

definition psion_main :: "psion_env \<Rightarrow> string list \<Rightarrow> int pprog" where
  "psion_main E args = (if args = [] then fault (Exit_With 1) else seq (main_args E args) (ret 0))"


section \<open>The header\<close>

lemma hex_digit_dec: "0 \<le> n \<Longrightarrow> n < 10 \<Longrightarrow> isdigit (hex_digit n) \<and> \<not> isspace (hex_digit n)"
proof -
  assume "0 \<le> n" "n < 10"
  then have "nat n \<in> set [0..<10]" by auto
  moreover have "list_all (\<lambda>k. isdigit (''0123456789abcdef'' ! k) \<and> \<not> isspace (''0123456789abcdef'' ! k)) [0..<10]"
    by code_simp
  ultimately show ?thesis unfolding hex_digit_def list_all_iff by blast
qed

lemma dec_digits: "0 \<le> n \<Longrightarrow> list_all (\<lambda>c. isdigit c \<and> \<not> isspace c) (dec_int n)"
proof (induction "10 :: int" n rule: digits_base.induct)
  case (1 n)
  show ?case
  proof (cases "n < 10")
    case True
    with 1 show ?thesis by (simp add: dec_int_def digits_base.simps [of 10 n] hex_digit_dec)
  next
    case False
    with 1 show ?thesis
      by (simp add: dec_int_def digits_base.simps [of 10 n] hex_digit_dec pos_imp_zdiv_nonneg_iff)
  qed
qed

lemma dec_nonempty: "dec_int n \<noteq> []"
  by (simp add: dec_int_def digits_base.simps [of 10 n])

lemma digit_no_sign: "isdigit c \<Longrightarrow> c \<noteq> CHR ''-'' \<and> c \<noteq> CHR ''+'' \<and> c \<noteq> CHR 0x00"
  by (auto simp: isdigit_def less_eq_char_def)

lemma scan_dec:
  assumes "0 \<le> n" "n < 2 ^ 64"
  shows "scan_u (CHR '' '' # dec_int n @ CHR '' '' # r) = Some (word_of_int n, CHR '' '' # r)"
proof -
  obtain c cs where c: "dec_int n = c # cs" using dec_nonempty [of n] by (cases "dec_int n") auto
  have d: "isdigit c" "\<not> isspace c" "\<forall>x \<in> set (dec_int n). isdigit x"
    using dec_digits [OF assms(1)] by (auto simp: c list_all_iff)
  have b: "\<not> isdigit CHR '' ''" "isspace CHR '' ''" by code_simp+
  have w: "dropWhile isspace (CHR '' '' # dec_int n @ CHR '' '' # r) = dec_int n @ CHR '' '' # r"
    using d b by (simp add: c)
  have g: "scan_sign (dec_int n @ CHR '' '' # r) = (False, dec_int n @ CHR '' '' # r)"
    using digit_no_sign [OF d(1)] by (simp add: c)
  have t: "takeWhile isdigit (dec_int n @ CHR '' '' # r) = dec_int n"
    "dropWhile isdigit (dec_int n @ CHR '' '' # r) = CHR '' '' # r"
    using d(3) b(1) by (simp_all add: takeWhile_append2 dropWhile_append2)
  show ?thesis
    unfolding scan_u_def scan_number_def Let_def w g
    using assms dec_nonempty [of n] by (simp add: t strtoul_def)
qed

lemma file_date_exact: "0 \<le> m \<Longrightarrow> m < 2 ^ 32 \<Longrightarrow> file_date m = epoch + 1000000 * m \<and> 0 \<le> file_date m \<and> file_date m < 2 ^ 64"
  by (simp add: file_date_def epoch_def)

text \<open>The date of a file survives the two conversions.\<close>

lemma date_roundtrip:
  assumes "0 \<le> m" "m < 2 ^ 32"
  shows "unix_date (word_of_int (file_date m div 2 ^ 32)) (word_of_int (file_date m mod 2 ^ 32)) = word_of_int m"
proof -
  let ?F = "file_date m"
  have F: "?F = epoch + 1000000 * m" "0 \<le> ?F" "?F < 2 ^ 64" using file_date_exact [OF assms] by auto
  have h: "0 \<le> ?F div 2 ^ 32" "?F div 2 ^ 32 < 2 ^ 32" using F(2,3) by (simp_all add: div_int_pos_less)
  have l: "0 \<le> ?F mod 2 ^ 32" "?F mod 2 ^ 32 < 2 ^ 32" by simp_all
  have u: "(ucast (word_of_int k :: u32) :: 64 word) = word_of_int k" if "0 \<le> k" "k < 2 ^ 32" for k
    using that by (intro word_uint_eqI) (simp add: unsigned_ucast_eq take_bit_int_eq_self uint_word_of_int_eq)
  have w: "push_bit 32 (word_of_int (?F div 2 ^ 32)) + word_of_int (?F mod 2 ^ 32) = (word_of_int ?F :: 64 word)"
    using arg_cong [OF div_mult_mod_eq [of ?F "2 ^ 32"], of "word_of_int :: int \<Rightarrow> 64 word"]
    by (simp only: push_bit_eq_mult of_int_add of_int_mult of_int_power of_int_numeral)
  have s: "(word_of_int ?F :: 64 word) - word_of_int epoch = word_of_int (1000000 * m)"
    using F(1) by (simp flip: wi_hom_sub)
  have q: "(word_of_int (1000000 * m) :: 64 word) div 1000000 = word_of_int m"
  proof (rule word_uint_eqI)
    have "uint (word_of_int (1000000 * m) :: 64 word) = 1000000 * m" "uint (word_of_int m :: 64 word) = m"
      using assms by (simp_all only: uint_word_of_int) simp_all
    then show "uint ((word_of_int (1000000 * m) :: 64 word) div 1000000) = uint (word_of_int m :: 64 word)"
      by (simp add: uint_div)
  qed
  show ?thesis
    unfolding unix_date_def Let_def u [OF h] u [OF l] w s q
    by (intro word_uint_eqI) (simp add: unsigned_ucast_eq uint_word_of_int_eq)
qed

definition good_name :: "string \<Rightarrow> bool" where
  "good_name name \<longleftrightarrow> CHR 0x00 \<notin> set name \<and> (name = [] \<or> \<not> isspace (hd name))"

lemma scan_header:
  assumes "0 \<le> sz" "sz < 2 ^ 31" "0 \<le> m" "m < 2 ^ 32" "good_name name"
  shows "\<exists>mode cnt. scan_file (file_header sz m w name) =
     Some (word_of_int sz, mode, word_of_int (file_date m div 2 ^ 32), word_of_int (file_date m mod 2 ^ 32), cnt) \<and>
     drop cnt (file_header sz m w name) = name \<and> cnt \<le> length (file_header sz m w name)"
proof -
  let ?h = "file_header sz m w name" and ?k = "if w then 32 else 33 :: int"
  let ?hi = "file_date m div 2 ^ 32" and ?lo = "file_date m mod 2 ^ 32"
  have F: "0 \<le> file_date m" "file_date m < 2 ^ 64" using file_date_exact [OF assms(3,4)] by auto
  have r: "0 \<le> ?hi" "?hi < 2 ^ 64" "0 \<le> ?lo" "?lo < 2 ^ 64"
    using F by (simp_all add: pos_imp_zdiv_nonneg_iff div_int_pos_less)
  have i: "to_int32 sz = sz" using assms(1,2) by (simp add: to_int32_def)
  have n: "dropWhile isspace name = name" "isspace CHR '' ''"
    using assms(5) by (cases name; simp add: good_name_def) (simp add: isspace_def)
  have h: "drop 4 ?h = CHR '' '' # dec_int sz @ CHR '' '' # dec_int ?k @ CHR '' '' # dec_int ?hi @ CHR '' '' #
      dec_int ?lo @ CHR '' '' # name"
    using assms(1) by (simp add: file_header_def i fmt_d_def)
  have s: "scan_file ?h = Some (word_of_int sz, word_of_int ?k, word_of_int ?hi, word_of_int ?lo, length ?h - length name)"
    unfolding scan_file_def h using assms(1,2) r by (simp add: scan_dec n)
  have "?h = (''FILE '' @ fmt_d (to_int32 sz) @ '' '' @ fmt_d ?k @ '' '' @ dec_int ?hi @ '' '' @ dec_int ?lo @ '' '') @ name"
    (is "_ = ?p @ _") by (simp add: file_header_def)
  then have "drop (length ?h - length name) ?h = name" by (metis append_eq_conv_conj diff_add_inverse2 length_append)
  with s show ?thesis by fastforce
qed


section \<open>The transfer\<close>

text \<open>What a transfer is about; the clock and the messages are left out.\<close>

definition core :: "psion \<Rightarrow> rd_result list \<times> string list \<times> (string \<Rightarrow> string option) \<times> (string \<Rightarrow> int option)" where
  "core s = (rx s, tx s, files s, mtimes s)"

lemma coreD: "core s' = core s \<Longrightarrow> rx s' = rx s \<and> tx s' = tx s \<and> files s' = files s \<and> mtimes s' = mtimes s"
  by (simp add: core_def)

lemma time_run: "\<exists>x s'. time E s = Inr (x, s') \<and> core s' = core s"
  by (simp add: time_def bnd_def gets_def seq_def modify_def ret_def core_def)

lemma say_run: "\<exists>s'. whenc b (say x) s = Inr ((), s') \<and> core s' = core s"
  by (simp add: whenc_def say_def modify_def skip_def ret_def core_def)

lemma progress_run: "\<exists>x s'. progress E cnt n t0 tx1 s = Inr (x, s') \<and> core s' = core s"
  by (simp add: progress_def time_def say_def bnd_def gets_def seq_def modify_def ret_def core_def)

lemma recv_progress_run: "\<exists>a b s'. recv_progress E cnt n t0 tx1 t1 s = Inr ((a, b), s') \<and> core s' = core s"
  by (simp add: recv_progress_def time_def say_def bnd_def gets_def seq_def modify_def ret_def core_def)

text \<open>The file in pieces of at most 2044 bytes.\<close>

function pieces :: "string \<Rightarrow> string list" where
  "pieces data = (if data = [] then [] else take buflen data # pieces (drop buflen data))"
  by pat_completeness auto
termination by (relation "measure length") (auto simp: buflen_def)

declare pieces.simps [simp del]

lemma concat_pieces: "concat (pieces data) = data"
proof (induction data rule: pieces.induct)
  case (1 data)
  then show ?case by (simp add: pieces.simps [of data])
qed

lemma pieces_ok: "list_all (\<lambda>t. t \<noteq> [] \<and> length t \<le> buflen) (pieces data)"
proof (induction data rule: pieces.induct)
  case (1 data)
  then show ?case by (simp add: pieces.simps [of data]) (simp add: buflen_def)
qed

definition writes_all :: "psion_env \<Rightarrow> bool" where
  "writes_all E \<longleftrightarrow> (\<forall>h t. e_write E h t = int (length t))"

lemma write_run: "writes_all E \<Longrightarrow> sock_write E t s = Inr (int (length t), s\<lparr>tx := tx s @ [t]\<rparr>)"
  by (simp add: sock_write_def bnd_def gets_def seq_def modify_def ret_def writes_all_def)

lemma send_loop_run:
  "writes_all E \<Longrightarrow> \<exists>s'. send_loop E sz data cnt t0 tx1 s = Inr (cnt + int (length data), s') \<and>
     tx s' = tx s @ pieces data \<and> rx s' = rx s \<and> files s' = files s \<and> mtimes s' = mtimes s"
proof (induction E sz data cnt t0 tx1 arbitrary: s rule: send_loop.induct)
  case (1 E sz data cnt t0 tx1)
  let ?c = "take buflen data" and ?r = "drop buflen data"
  show ?case
  proof (cases "data = []")
    case True
    then show ?thesis by (simp add: send_loop.simps pieces.simps ret_def)
  next
    case False
    then have c: "?c \<noteq> []" by (simp add: buflen_def)
    let ?s = "s\<lparr>tx := tx s @ [?c]\<rparr>" and ?n = "cnt + int (length ?c)"
    obtain x s1 where p: "progress E ?n sz t0 tx1 ?s = Inr (x, s1)" "core s1 = core ?s"
      using progress_run [of E ?n sz t0 tx1 ?s] by blast
    note w = write_run [OF "1.prems", of ?c s]
    note k = coreD [OF p(2)]
    have pc: "pieces data = ?c # pieces ?r" using False by (simp add: pieces.simps [of data])
    show ?thesis
    proof (cases "length data < buflen")
      case True
      then have "pieces ?r = []" "length ?c = length data" by (simp_all add: pieces.simps)
      with True c k pc w p show ?thesis
        by (subst send_loop.simps) (simp add: Let_def bnd_def ret_def)
    next
      case F: False
      have "\<exists>s'. send_loop E sz ?r ?n t0 x s1 = Inr (?n + int (length ?r), s') \<and>
          tx s' = tx s1 @ pieces ?r \<and> rx s' = rx s1 \<and> files s' = files s1 \<and> mtimes s' = mtimes s1"
        by (rule "1.IH" [where xc = "int (length ?c)"]) (use c F "1.prems" in simp_all)
      then obtain s' where s': "send_loop E sz ?r ?n t0 x s1 = Inr (?n + int (length ?r), s')"
        "tx s' = tx s1 @ pieces ?r" "rx s' = rx s1" "files s' = files s1" "mtimes s' = mtimes s1" by blast
      have e: "send_loop E sz data cnt t0 tx1 s = send_loop E sz ?r ?n t0 x s1"
        using c F w p(1) by (subst send_loop.simps) (simp add: Let_def bnd_def del: take_eq_Nil)
      have "?n + int (length ?r) = cnt + int (length data)" by simp
      with e s' k pc show ?thesis by simp
    qed
  qed
qed

text \<open>The receiver, on data that comes in any pieces.\<close>

lemma recv_loop_run:
  "e_fwrite E \<Longrightarrow> list_all (\<lambda>t. t \<noteq> [] \<and> length t \<le> buflen) ds \<Longrightarrow> files s name = Some old \<Longrightarrow>
   unat cnt + length (concat ds) = unat fsize \<Longrightarrow>
   \<exists>t s'. recv_loop E name fsize (map Rd_Data ds @ rs) cnt t0 tx1 t1 s = Inr ((fsize, t), s') \<and>
     files s' = (files s)(name \<mapsto> old @ concat ds) \<and> tx s' = tx s \<and> mtimes s' = mtimes s \<and> rx s' = rs"
proof (induction ds arbitrary: s cnt tx1 t1 old)
  case Nil
  then have "cnt = fsize" by (simp add: word_unat_eq_iff)
  with Nil show ?case
    by (subst recv_loop.simps) (simp add: seq_def bnd_def modify_def ret_def fun_upd_idem)
next
  case (Cons d ds)
  have d: "d \<noteq> []" "length d \<le> buflen" using Cons.prems(2) by simp_all
  have len: "unat cnt + length d \<le> unat fsize" using Cons.prems(4) by simp
  also have "\<dots> < 2 ^ 32" using unsigned_less [of fsize] by simp
  finally have u: "unat (cnt + of_nat (length d)) = unat cnt + length d"
    by (simp add: unat_word_ariths unat_of_nat)
  have lt: "cnt < fsize" using len d(1) by (cases d) (auto simp: word_less_nat_alt)
  let ?s = "s\<lparr>files := (files s)(name \<mapsto> old @ d)\<rparr>"
  have w: "fwrite E name d s = Inr ((), ?s)"
    using Cons.prems(1,3) by (simp add: fwrite_def modify_def)
  let ?n = "cnt + of_nat (length d)"
  obtain a b s1 where p: "recv_progress E (sint ?n) (uint fsize) t0 tx1 t1 ?s = Inr ((a, b), s1)" "core s1 = core ?s"
    using recv_progress_run [of E "sint ?n" "uint fsize" t0 tx1 t1 ?s] by blast
  note k = coreD [OF p(2)]
  have "\<exists>t s'. recv_loop E name fsize (map Rd_Data ds @ rs) ?n t0 a b s1 = Inr ((fsize, t), s') \<and>
     files s' = (files s1)(name \<mapsto> (old @ d) @ concat ds) \<and> tx s' = tx s1 \<and> mtimes s' = mtimes s1 \<and> rx s' = rs"
    by (rule Cons.IH) (use Cons.prems u k in simp_all)
  with k lt d w p(1) show ?case
    by (subst recv_loop.simps) (simp add: seq_def bnd_def)
qed


definition send_ready :: "psion_env \<Rightarrow> psion \<Rightarrow> string \<Rightarrow> string \<Rightarrow> int \<Rightarrow> bool \<Rightarrow> bool" where
  "send_ready E s f data m w \<longleftrightarrow>
     0 \<le> e_socket E \<and>
     (\<exists>len ds. e_enum E 0 364 = Enum_Ok len ds \<and> 4 < len \<and> ds \<noteq> [] \<and> d_daddr (select_device ds) \<noteq> 0) \<and>
     (\<exists>ps. peers s = [Rd_Data ''ACK Y''] # ps) \<and>
     files s f = Some data \<and> e_stat E f = Some (int (length data), m, w) \<and> \<not> e_short E f \<and> writes_all E \<and>
     length (file_header (int (length data)) m w f) < buflen"

definition recv_ready :: "psion_env \<Rightarrow> string \<Rightarrow> bool" where
  "recv_ready E f \<longleftrightarrow> e_create E f \<and> e_fwrite E \<and> writes_all E \<and> e_fclose E = 0 \<and> e_utime E"

lemma read_run: "take_read n (rx s) = (r, rest) \<Longrightarrow> sock_read n s = Inr (r, s\<lparr>rx := rest\<rparr>)"
  by (simp add: sock_read_def bnd_def gets_def seq_def modify_def ret_def)

lemma discover_run:
  assumes "e_enum E 0 364 = Enum_Ok len ds" "4 < len" "ds \<noteq> []"
  shows "\<exists>s'. discover_devices E s = Inr (d_daddr (select_device ds), s') \<and> core s' = core s \<and> peers s' = peers s"
proof -
  have e: "enum_loop E 0 364 b s = Inr ((len, ds), s)" for b s
    using assms by (subst enum_loop.simps) (simp add: ret_def)
  show ?thesis
    using assms(2,3) e
    by (simp add: discover_devices_def bnd_def gets_def seq_def whenc_def set_slot_timeout_def modify_def skip_def ret_def
        Let_def say_def core_def)
qed

lemma send_header_run:
  assumes "writes_all E" "length hdr < buflen" "rx s = Rd_Data ''ACK Y'' # rs"
  shows "send_header E hdr s = Inr ((), s\<lparr>tx := tx s @ [hdr], rx := rs\<rparr>)"
  using assms read_run [of "buflen - 1" "s\<lparr>tx := tx s @ [hdr]\<rparr>" "Rd_Data ''ACK Y''" rs]
  by (simp add: send_header_def seq_def bnd_def guard_def skip_def ret_def write_run c_str_def buflen_def)

lemma send_data_run:
  assumes "writes_all E" "\<not> e_short E f" "rx s = []"
  shows "\<exists>s'. send_data E f (int (length data)) data s = Inr (0, s') \<and> tx s' = tx s @ pieces data"
proof -
  obtain t0 s1 where t: "time E s = Inr (t0, s1)" "core s1 = core s" using time_run by blast
  obtain s2 where l: "send_loop E (int (length data)) data 0 t0 t0 s1 = Inr (int (length data), s2)"
    "tx s2 = tx s1 @ pieces data" "rx s2 = rx s1"
    using send_loop_run [OF assms(1), of "int (length data)" data 0 t0 t0 s1] by auto
  have r: "sock_read buflen s2 = Inr (Rd_Data [], s2\<lparr>rx := []\<rparr>)"
    using l(3) coreD [OF t(2)] assms(3) by (intro read_run) simp
  obtain s3 where "send_report E f (int (length data)) t0 (s2\<lparr>rx := []\<rparr>) = Inr (0, s3)" "tx s3 = tx s2"
    by (cases "verbose s2")
      (simp_all add: send_report_def bnd_def gets_def time_def seq_def modify_def ret_def say_def)
  with t l r assms(2) coreD [OF t(2)] show ?thesis
    by (simp add: send_data_def bnd_def seq_def whenc_def skip_def ret_def)
qed

lemma sendfile_run:
  assumes "send_ready E s f data m w"
  shows "\<exists>s'. sendfile E f s = Inr (0, s') \<and> tx s' = tx s @ file_header (int (length data)) m w f # pieces data"
proof -
  let ?h = "file_header (int (length data)) m w f"
  obtain len ds ps where e: "e_enum E 0 364 = Enum_Ok len ds" "4 < len" "ds \<noteq> []" "d_daddr (select_device ds) \<noteq> 0"
    "peers s = [Rd_Data ''ACK Y''] # ps" and x: "0 \<le> e_socket E" "files s f = Some data"
    "e_stat E f = Some (int (length data), m, w)" "\<not> e_short E f" "writes_all E" "length ?h < buflen"
    using assms unfolding send_ready_def by blast
  obtain s1 where d: "discover_devices E s = Inr (d_daddr (select_device ds), s1)" "core s1 = core s" "peers s1 = peers s"
    using discover_run [OF e(1-3), of s] by blast
  let ?s2 = "s1\<lparr>peers := ps, rx := [Rd_Data ''ACK Y'']\<rparr>"
  have c: "connect s1 = Inr (True, ?s2)"
    using d(3) e(5) by (simp add: connect_def bnd_def gets_def seq_def modify_def ret_def)
  have h: "send_header E ?h ?s2 = Inr ((), ?s2\<lparr>tx := tx s1 @ [?h], rx := []\<rparr>)"
    using send_header_run [OF x(5,6), of ?s2 "[]"] by simp
  obtain s' where "send_data E f (int (length data)) data (?s2\<lparr>tx := tx s1 @ [?h], rx := []\<rparr>) = Inr (0, s')"
    "tx s' = (tx s1 @ [?h]) @ pieces data"
    using send_data_run [OF x(5,4), of "?s2\<lparr>tx := tx s1 @ [?h], rx := []\<rparr>" data] by auto
  with x e(4) d c h coreD [OF d(2)] show ?thesis
    by (simp add: sendfile_def bnd_def seq_def gets_def)
qed

lemma no_nul_header:
  assumes "0 \<le> sz" "sz < 2 ^ 31" "0 \<le> m" "m < 2 ^ 32" "good_name name"
  shows "c_str (file_header sz m w name) = file_header sz m w name"
proof -
  have F: "0 \<le> file_date m" "file_date m < 2 ^ 64" using file_date_exact [OF assms(3,4)] by auto
  have d: "CHR 0x00 \<notin> set (dec_int n)" if "0 \<le> n" for n
    using dec_digits [OF that] digit_no_sign by (auto simp: list_all_iff)
  have i: "to_int32 sz = sz" using assms(1,2) by (simp add: to_int32_def)
  have "0 \<le> file_date m div 2 ^ 32" "0 \<le> file_date m mod 2 ^ 32" using F(1) by (simp_all add: pos_imp_zdiv_nonneg_iff)
  then have k: "CHR 0x00 \<notin> set (dec_int (file_date m div 2 ^ 32))" "CHR 0x00 \<notin> set (dec_int (file_date m mod 2 ^ 32))"
    "CHR 0x00 \<notin> set (fmt_d sz)" "CHR 0x00 \<notin> set (fmt_d (if w then 32 else 33))"
    using d assms(1) by (simp_all add: fmt_d_def)
  have "CHR 0x00 \<notin> set (file_header sz m w name)"
    using k assms(5) unfolding file_header_def i good_name_def set_append Un_iff by simp
  then show ?thesis unfolding c_str_def by (simp add: takeWhile_eq_all_conv) metis
qed

lemma parse_header_run:
  assumes "0 \<le> sz" "sz < 2 ^ 31" "0 \<le> m" "m < 2 ^ 32" "good_name name" "e_create E name"
    and "length (file_header sz m w name) < buflen"
  shows "parse_header E (file_header sz m w name) s =
    Inr ((name, word_of_int sz, word_of_int m), s\<lparr>files := (files s)(name \<mapsto> [])\<rparr>)"
proof -
  obtain mode cnt where c: "scan_file (file_header sz m w name) =
     Some (word_of_int sz, mode, word_of_int (file_date m div 2 ^ 32), word_of_int (file_date m mod 2 ^ 32), cnt)"
     "drop cnt (file_header sz m w name) = name" "cnt \<le> length (file_header sz m w name)"
    using scan_header [OF assms(1-5), of w] by blast
  have p: "is_prefix ''FILE '' (file_header sz m w name)" by (simp add: is_prefix_def file_header_def)
  show ?thesis
    unfolding parse_header_def using c p assms(6,7) date_roundtrip [OF assms(3,4)]
    by (simp add: seq_def bnd_def guard_def skip_def ret_def fopen_wb_def modify_def)
qed

lemma handle_client_run:
  assumes "int (length data) < 2 ^ 31" "0 < m" "m < 2 ^ 32" "good_name f" "recv_ready E f"
    and "length (file_header (int (length data)) m w f) < buflen"
    and "rx r = Rd_Data (file_header (int (length data)) m w f) # map Rd_Data ds @ rs"
    and "list_all (\<lambda>t. t \<noteq> [] \<and> length t \<le> buflen) ds" "concat ds = data"
  shows "\<exists>r'. handle_client E r = Inr (0, r') \<and> files r' = (files r)(f \<mapsto> data) \<and> mtimes r' = (mtimes r)(f \<mapsto> m) \<and>
    tx r' = tx r @ [''ACK Y''] \<and> rx r' = rs"
proof -
  let ?h = "file_header (int (length data)) m w f" and ?n = "word_of_int (int (length data)) :: u32"
  have R: "e_create E f" "e_fwrite E" "writes_all E" "e_fclose E = 0" "e_utime E"
    using assms(5) by (simp_all add: recv_ready_def)
  have rd: "sock_read buflen r = Inr (Rd_Data ?h, r\<lparr>rx := map Rd_Data ds @ rs\<rparr>)"
    using assms(6,7) by (intro read_run) simp
  have ne: "?h \<noteq> []" by (simp add: file_header_def)
  let ?r1 = "r\<lparr>rx := map Rd_Data ds @ rs, files := (files r)(f \<mapsto> [])\<rparr>"
  have ph: "parse_header E (c_str ?h) (r\<lparr>rx := map Rd_Data ds @ rs\<rparr>) = Inr ((f, ?n, word_of_int m), ?r1)"
    using parse_header_run [OF _ assms(1) _ assms(3,4) R(1) assms(6)] no_nul_header [OF _ assms(1) _ assms(3,4)] assms(2)
    by simp
  let ?r2 = "?r1\<lparr>tx := tx r @ [''ACK Y'']\<rparr>"
  have wr: "sock_write E ''ACK Y'' ?r1 = Inr (5, ?r2)" using write_run [OF R(3), of "''ACK Y''" ?r1] by simp
  obtain t0 r3 where t: "time E ?r2 = Inr (t0, r3)" "core r3 = core ?r2" using time_run by blast
  note k = coreD [OF t(2)]
  have u: "unat ?n = length data" using assms(1) by (simp add: unat_of_nat)
  have "\<exists>t s'. recv_loop E f ?n (map Rd_Data ds @ rs) 0 t0 t0 t0 r3 = Inr ((?n, t), s') \<and>
     files s' = (files r3)(f \<mapsto> [] @ concat ds) \<and> tx s' = tx r3 \<and> mtimes s' = mtimes r3 \<and> rx s' = rs"
    by (rule recv_loop_run [OF R(2) assms(8)]) (use k u assms(9) in simp_all)
  then obtain t1 r4 where l: "recv_loop E f ?n (map Rd_Data ds @ rs) 0 t0 t0 t0 r3 = Inr ((?n, t1), r4)"
     "files r4 = (files r3)(f \<mapsto> data)" "tx r4 = tx r3" "mtimes r4 = mtimes r3" "rx r4 = rs"
    using assms(9) by auto
  have m: "(word_of_int m :: u32) \<noteq> 0 \<and> uint (word_of_int m :: u32) = m"
    using assms(2,3) by (simp add: word_uint_eq_iff uint_word_of_int)
  obtain r5 where "finish_file E f ?n (word_of_int m) ?n t0 t1 r4 = Inr (0, r5)" "files r5 = files r4" "tx r5 = tx r4"
    "mtimes r5 = (mtimes r4)(f \<mapsto> m)" "rx r5 = rx r4"
    using R m by (cases "verbose r4")
      (simp_all add: finish_file_def seq_def bnd_def gets_def whenc_def skip_def ret_def modify_def say_def)
  with rd ne assms(6) ph wr t(1) k l show ?thesis
    by (simp add: handle_client_def bnd_def seq_def guard_def skip_def ret_def gets_def)
qed


text \<open>C3: A file sent by the program and received by the program arrives as it was. Take a file below 2 GB, modified after the start of 1970 and
  before 2106, with a name that does not begin with white space and a header that fits the buffer; it may be empty or a multiple of the buffer
  size. When discovery finds a device, the file can be read, no call fails and the other side acknowledges, the sender returns with the header and the data
  written; and a receiver on which no call fails, reading what was written, creates the file under the name it was sent by, with the same
  contents and the same modification time, and acknowledges once.\<close>

theorem file_transfer_roundtrip:
  assumes "send_ready E s f data m w" "recv_ready E' f"
    and "int (length data) < 2 ^ 31" "0 < m" "m < 2 ^ 32" "good_name f"
  shows "\<exists>s' sent r'. sendfile E f s = Inr (0, s') \<and> tx s' = tx s @ sent \<and>
    handle_client E' (r\<lparr>rx := map Rd_Data sent\<rparr>) = Inr (0, r') \<and>
    files r' f = Some data \<and> mtimes r' f = Some m \<and> tx r' = tx r @ [''ACK Y'']"
proof -
  let ?h = "file_header (int (length data)) m w f"
  obtain s' where s: "sendfile E f s = Inr (0, s')" "tx s' = tx s @ ?h # pieces data"
    using sendfile_run [OF assms(1)] by blast
  have h: "length ?h < buflen" using assms(1) unfolding send_ready_def by blast
  obtain r' where "handle_client E' (r\<lparr>rx := map Rd_Data (?h # pieces data)\<rparr>) = Inr (0, r')"
    "files r' = (files r)(f \<mapsto> data)" "mtimes r' = (mtimes r)(f \<mapsto> m)" "tx r' = tx r @ [''ACK Y'']"
    using handle_client_run [OF assms(3-6,2) h, of "r\<lparr>rx := map Rd_Data (?h # pieces data)\<rparr>" "pieces data" "[]"]
      pieces_ok concat_pieces by auto
  with s show ?thesis by (intro exI [of _ s'] exI [of _ "?h # pieces data"] exI [of _ r']) simp
qed

definition demo_env :: psion_env where
  "demo_env = \<lparr>e_socket = 3, e_proc = True,
     e_enum = (\<lambda>i len. Enum_Ok 40 [\<lparr>d_info = ''Psion Series 5'', d_daddr = 0x1234\<rparr>]), e_heap = [],
     e_write = (\<lambda>h t. int (length t)), e_time = (\<lambda>n. 0), e_stat = (\<lambda>f. Some (5, 938811671, True)),
     e_short = (\<lambda>f. False), e_create = (\<lambda>f. True), e_fwrite = True, e_fclose = 0, e_utime = True,
     e_bind = 0, e_listen = 0\<rparr>"

definition demo_psion :: psion where
  "demo_psion = \<lparr>slot_timeout = 120, debug_level = 0, verbose = True, proc_slot = None,
     peers = [[Rd_Data ''ACK Y'']], rx = [], tx = [], files = [''Data'' \<mapsto> ''hello''], mtimes = Map.empty,
     ticks = 0, messages = []\<rparr>"

lemma demo_ready: "send_ready demo_env demo_psion ''Data'' ''hello'' 938811671 True" "recv_ready demo_env ''Data''"
proof -
  have h: "length (file_header 5 938811671 True ''Data'') < buflen" by code_simp
  show "send_ready demo_env demo_psion ''Data'' ''hello'' 938811671 True"
    using h by (simp add: send_ready_def demo_env_def demo_psion_def writes_all_def select_device_def is_prefix_def)
  show "recv_ready demo_env ''Data''" by (simp add: recv_ready_def demo_env_def writes_all_def)
qed

theorem file_transfer_roundtrip_witness:
  "\<exists>s' sent r'. sendfile demo_env ''Data'' demo_psion = Inr (0, s') \<and> tx s' = tx demo_psion @ sent \<and>
    handle_client demo_env (demo_psion\<lparr>files := Map.empty, rx := map Rd_Data sent\<rparr>) = Inr (0, r') \<and>
    files r' ''Data'' = Some ''hello'' \<and> mtimes r' ''Data'' = Some 938811671 \<and>
    tx r' = tx (demo_psion\<lparr>files := Map.empty\<rparr>) @ [''ACK Y'']"
proof -
  have "good_name ''Data''" by (simp add: good_name_def isspace_def)
  then show ?thesis by (intro file_transfer_roundtrip [OF demo_ready]) simp_all
qed

section \<open>Errors\<close>

definition sent_bytes :: "rd_result list \<Rightarrow> nat" where
  "sent_bytes rs = sum_list (map (\<lambda>r. case r of Rd_Err p \<Rightarrow> 0 | Rd_Data t \<Rightarrow> length t) rs)"

lemma take_read_sent: "take_read n rs = (Rd_Data t, rs') \<Longrightarrow> sent_bytes rs = length t + sent_bytes rs'"
  by (cases "(n, rs)" rule: take_read.cases) (auto simp: sent_bytes_def split: if_splits)

lemma recv_loop_short:
  "unat cnt + sent_bytes rs < unat fsize \<Longrightarrow> recv_loop E name fsize rs cnt t0 tx1 t1 s = Inl (Exit_With 1)"
proof (induction E name fsize rs cnt t0 tx1 t1 arbitrary: s rule: recv_loop.induct)
  case (1 E name fsize rs cnt t0 tx1 t1)
  have lt: "cnt < fsize" using "1.prems" by (simp add: word_less_nat_alt)
  obtain r rs' where r: "take_read buflen rs = (r, rs')" by fastforce
  show ?case
  proof (cases r)
    case (Rd_Err p)
    with lt r show ?thesis by (subst recv_loop.simps) (simp add: fault_def)
  next
    case (Rd_Data t)
    show ?thesis
    proof (cases "t \<noteq> [] \<and> e_fwrite E")
      case True
      let ?n = "cnt + of_nat (length t)"
      have b: "unat cnt + length t + sent_bytes rs' < unat fsize"
        using "1.prems" take_read_sent r Rd_Data by fastforce
      also have "\<dots> < 2 ^ 32" using unsigned_less [of fsize] by simp
      finally have u: "unat ?n = unat cnt + length t" by (simp add: unat_word_ariths unat_of_nat)
      obtain s1 where w: "fwrite E name t s = Inr ((), s1)" using True by (simp add: fwrite_def modify_def)
      obtain a d s2 where p: "recv_progress E (sint ?n) (uint fsize) t0 tx1 t1 s1 = Inr ((a, d), s2)"
        using recv_progress_run by blast
      have "recv_loop E name fsize rs' ?n t0 a d s2 = Inl (Exit_With 1)"
        by (rule "1.IH" [OF lt r [symmetric] Rd_Data]) (use True b u in auto)
      with lt r Rd_Data True w p show ?thesis by (subst recv_loop.simps) (simp add: seq_def bnd_def)
    next
      case False
      with lt r Rd_Data show ?thesis
        by (subst recv_loop.simps) (auto simp: fwrite_def fault_def seq_def bnd_def)
    qed
  qed
qed

lemma parse_header_rx: "keeps rx (parse_header E t)"
  unfolding parse_header_def fopen_wb_def
  by (auto intro!: keeps_intro keeps_modify split: option.split)

text \<open>A transfer that breaks off is not taken for complete: when the peer closes the connection, or it fails, before
  the announced number of bytes has come, the receiver ends with exit status 1, whatever the rest of the
  system does.\<close>

theorem truncated_transfer_exits:
  assumes "take_read buflen (rx s) = (Rd_Data t, rs)" "t \<noteq> []" "length t < buflen"
    and "parse_header E (c_str t) (s\<lparr>rx := rs\<rparr>) = Inr ((name, fsize, fdate), s1)" "sent_bytes rs < unat fsize"
  shows "handle_client E s = Inl (Exit_With 1)"
proof -
  have x: "rx s1 = rs" using keepsD [OF parse_header_rx assms(4)] by simp
  have l: "recv_loop E name fsize rs 0 t0 t0 t0 s2 = Inl (Exit_With 1)" for t0 s2
    using recv_loop_short [of 0 rs fsize] assms(5) by simp
  show ?thesis
    using assms(2-4) x l read_run [OF assms(1)]
    by (simp add: handle_client_def bnd_def seq_def guard_def skip_def ret_def gets_def sock_write_def modify_def
        time_def fault_def)
qed

theorem truncated_transfer_exits_witness:
  "handle_client demo_env (demo_psion\<lparr>rx := [Rd_Data ''FILE 55175 32 14689800 2691219200 Data'', Rd_Data ''abc'', Rd_Err True]\<rparr>) =
     Inl (Exit_With 1)"
proof -
  let ?t = "''FILE 55175 32 14689800 2691219200 Data''" and ?rs = "[Rd_Data ''abc'', Rd_Err True]"
  have "case parse_header demo_env (c_str ?t) (demo_psion\<lparr>rx := ?rs\<rparr>) of
      Inl e \<Rightarrow> False | Inr ((name, fsize, fdate), s1) \<Rightarrow> name = ''Data'' \<and> fsize = 55175"
    by code_simp
  then obtain fdate s1 where p: "parse_header demo_env (c_str ?t) (demo_psion\<lparr>rx := ?rs\<rparr>) = Inr ((''Data'', 55175, fdate), s1)"
    by (auto split: sum.splits prod.splits)
  have "unat (55175 :: u32) = 55175" using unat_of_nat [of 55175, where ?'a = 32] by simp
  then have u: "sent_bytes ?rs < unat (55175 :: u32)" by (simp add: sent_bytes_def)
  show ?thesis
    by (rule truncated_transfer_exits [where t = ?t, OF _ _ _ _ u])
      (use p in \<open>simp_all add: buflen_def demo_psion_def\<close>)
qed

text \<open>A file whose header does not fit the buffer of 2044 bytes overruns it: with a path that long the sender,
  connected and with the file open, formats the header past the end of the allocated block.\<close>

theorem long_name_overruns_buffer:
  assumes "0 \<le> e_socket E" "e_enum E 0 364 = Enum_Ok len ds" "4 < len" "ds \<noteq> []" "d_daddr (select_device ds) \<noteq> 0"
    and "peers s = p # ps" "files s f = Some data" "e_stat E f = Some (sz, m, w)" "2044 \<le> length f"
  shows "sendfile E f s = Inl (Local_Bounds ''buf'' (length (file_header sz m w f)))"
proof -
  obtain s1 where d: "discover_devices E s = Inr (d_daddr (select_device ds), s1)" "core s1 = core s" "peers s1 = peers s"
    using discover_run [OF assms(2-4), of s] by blast
  have "\<not> length (file_header sz m w f) < buflen" using assms(9) by (simp add: file_header_def buflen_def)
  with d assms coreD [OF d(2)] show ?thesis
    by (simp add: sendfile_def bnd_def seq_def gets_def connect_def modify_def ret_def send_header_def guard_def fault_def)
qed

theorem long_name_overruns_buffer_witness:
  "\<exists>i. sendfile demo_env (replicate 2044 CHR ''a'') (demo_psion\<lparr>files := (\<lambda>f. Some [])\<rparr>) = Inl (Local_Bounds ''buf'' i)"
proof -
  have "d_daddr (select_device [\<lparr>d_info = ''Psion Series 5'', d_daddr = 0x1234\<rparr>]) \<noteq> 0"
    by (simp add: select_device_def is_prefix_def)
  then show ?thesis
    using long_name_overruns_buffer [of demo_env 40 "[\<lparr>d_info = ''Psion Series 5'', d_daddr = 0x1234\<rparr>]"
      "demo_psion\<lparr>files := (\<lambda>f. Some [])\<rparr>" "[Rd_Data ''ACK Y'']" "[]" "replicate 2044 CHR ''a''" "[]" 5 938811671 True]
    by (simp add: demo_env_def demo_psion_def)
qed

text \<open>With \<^verbatim>\<open>-s --\<close>, which is meant to allow any file name, the first file named is not sent.\<close>

theorem first_file_left_out: "psion_main E (''-s'' # ''--'' # f # fs) = seq (send_all E fs) (ret 0)"
  by (simp add: psion_main_def) (subst main_args.simps, simp)

text \<open>A first message that fills the buffer ends the receiver by a failed assertion.\<close>

lemma full_header_aborts:
  assumes "rx s = Rd_Data t # rs" "buflen \<le> length t"
  shows "handle_client E s = Inl Abort"
proof -
  obtain t' rs' where r: "take_read buflen (rx s) = (Rd_Data t', rs')" "length t' = buflen"
    using assms by (cases "length t = buflen") (auto simp: buflen_def)
  then have "t' \<noteq> []" by (auto simp: buflen_def)
  with r read_run [OF r(1)] show ?thesis
    by (simp add: handle_client_def bnd_def seq_def guard_def fault_def)
qed

end
