(* ===== verification/Smcinit.thy ===== *)
theory Smcinit
  imports Smc
begin

text \<open>
  The set-up of SMSC infrared chips on laptops whose firmware leaves them off, \<^verbatim>\<open>irda-utils/smcinit/smcinit.c\<close>: the I/O hub
  is programmed through its PCI configuration space, then the chip through its configuration ports. The
  hardware, the PCI library and the serial driver are parameters. What goes to the standard error is left
  out.
\<close>

section \<open>Model\<close>

text \<open>The configuration space of the I/O hub as the PCI library reads and writes it.\<close>

record 'h pci =
  pci_read_word :: "int \<Rightarrow> 'h \<Rightarrow> u16"
  pci_write_word :: "int \<Rightarrow> u16 \<Rightarrow> 'h \<Rightarrow> 'h"
  pci_write_byte :: "int \<Rightarrow> byte \<Rightarrow> 'h \<Rightarrow> 'h"

datatype hw_access = Port io | Pci_Word int u16 | Pci_Byte int byte

text \<open>\<open>granted\<close>: the ports the process has asked permission for; \<open>serial_type\<close>: what the serial driver takes the port for.\<close>

record 'h sm =
  sm_hw :: 'h
  granted :: "int list"
  log :: "hw_access list"
  shown :: "string list"
  serial_type :: int

type_synonym ('h, 'a) smprog = "('h sm, 'a) prog"

definition sm_inb :: "'h bus \<Rightarrow> int \<Rightarrow> ('h, int) smprog" where
  "sm_inb B p = (\<lambda>s. if p \<in> set (granted s)
     then (case bus_read B p (sm_hw s) of (v, h) \<Rightarrow> Inr (uint v, s\<lparr>sm_hw := h, log := log s @ [Port (In p v)]\<rparr>))
     else Inl (Port_Denied p))"

text \<open>The value is cut to a byte.\<close>

definition sm_outb :: "'h bus \<Rightarrow> int \<Rightarrow> int \<Rightarrow> ('h, unit) smprog" where
  "sm_outb B n p = (\<lambda>s. if p \<in> set (granted s)
     then Inr ((), s\<lparr>sm_hw := bus_write B p (word_of_int n) (sm_hw s), log := log s @ [Port (Out p (word_of_int n))]\<rparr>)
     else Inl (Port_Denied p))"

definition ioperm :: "int \<Rightarrow> int \<Rightarrow> ('h, unit) smprog" where
  "ioperm from num = modify (\<lambda>s. s\<lparr>granted := granted s @ [from..from + num - 1]\<rparr>)"

definition hub_read :: "'h pci \<Rightarrow> int \<Rightarrow> ('h, u16) smprog" where
  "hub_read P r = gets (\<lambda>s. pci_read_word P r (sm_hw s))"

definition hub_write :: "'h pci \<Rightarrow> int \<Rightarrow> u16 \<Rightarrow> ('h, unit) smprog" where
  "hub_write P r v = modify (\<lambda>s. s\<lparr>sm_hw := pci_write_word P r v (sm_hw s), log := log s @ [Pci_Word r v]\<rparr>)"

definition hub_write_byte :: "'h pci \<Rightarrow> int \<Rightarrow> byte \<Rightarrow> ('h, unit) smprog" where
  "hub_write_byte P r v = modify (\<lambda>s. s\<lparr>sm_hw := pci_write_byte P r v (sm_hw s), log := log s @ [Pci_Byte r v]\<rparr>)"

definition tell :: "bool \<Rightarrow> string \<Rightarrow> ('h, unit) smprog" where
  "tell verb t = whenc verb (modify (\<lambda>s. s\<lparr>shown := shown s @ [t]\<rparr>))"

definition tab :: string where
  "tab = [CHR 0x09]"

subsection \<open>The I/O hub\<close>

text \<open>
  The first half of \<^verbatim>\<open>set_smc\<close>; \<open>False\<close> where the function returns 1. The value read from the DMA register is masked
  and then overwritten.
\<close>

definition set_hub :: "'h pci \<Rightarrow> bool \<Rightarrow> ('h, bool) smprog" where
  "set_hub P verb =
     bnd (hub_read P 0x00) (\<lambda>vid.
     if vid \<noteq> 0x8086 then ret False
     else
       seq (tell verb (''Detected IO hub vendor id: 0x'' @ fmt_x (uint vid) @ nl))
       (bnd (hub_read P 0x02) (\<lambda>did.
       if did \<noteq> 0x24cc \<and> did \<noteq> 0x248c then ret False
       else
         seq (tell verb (''Detected IO hub device id: 0x'' @ fmt_x (uint did) @ nl))
         (seq (hub_write_byte P 0xe0 0x10)
         (bnd (hub_read P 0xe6) (\<lambda>en.
         seq (hub_write P 0xe6 ((en AND 0xfffd) OR 0x0001))
         (bnd (hub_read P 0x90) (\<lambda>d.
         seq (hub_write P 0x90 0xc0c0)
         (seq (hub_write P 0xec 0x131)
         (ret True))))))))))"

subsection \<open>The chip\<close>

text \<open>The loop over the two addresses a chip may be configured at: the address and the identification, or the last one read.\<close>

fun find_base :: "'h bus \<Rightarrow> int list \<Rightarrow> int \<Rightarrow> ('h, (int \<times> int) option \<times> int) smprog" where
  "find_base B [] last_id = ret (None, last_id)"
| "find_base B (base # bases) last_id =
     seq (ioperm base 2)
     (seq (sm_outb B 0x55 base)
     (seq (sm_outb B 0x0d base)
     (bnd (sm_inb B (base + 1)) (\<lambda>i.
     if i = 0x5a \<or> i = 0x7a then ret (Some (base, i), i) else find_base B bases i))))"

text \<open>
  A setting: the value is written to the selected register, read back, shown and compared. \<open>prep\<close> is a read before it.
\<close>

definition set_checked :: "'h bus \<Rightarrow> int \<Rightarrow> int \<Rightarrow> bool \<Rightarrow> int \<Rightarrow> bool \<Rightarrow> (int \<Rightarrow> string) \<Rightarrow> ('h, bool) smprog" where
  "set_checked B base r prep val verb text =
     seq (sm_outb B r base)
     (seq (if prep then seq (sm_inb B (base + 1)) skip else skip)
     (seq (sm_outb B val (base + 1))
     (bnd (sm_inb B (base + 1)) (\<lambda>i.
     seq (tell verb (text i))
     (ret (i = val))))))"

text \<open>Read, change and write back a register.\<close>

definition update_reg :: "'h bus \<Rightarrow> int \<Rightarrow> int \<Rightarrow> (int \<Rightarrow> int) \<Rightarrow> ('h, unit) smprog" where
  "update_reg B base r f =
     seq (sm_outb B r base)
     (bnd (sm_inb B (base + 1)) (\<lambda>i.
     sm_outb B (f i) (base + 1)))"

definition checked_text :: "string \<Rightarrow> (int \<Rightarrow> string) \<Rightarrow> int \<Rightarrow> int \<Rightarrow> string" where
  "checked_text what fmt val i = what @ tab @ '' write: 0x'' @ fmt val @ '' '' @ tab @ '' read: 0x'' @ fmt i @ '' '' @ nl"

text \<open>The tail of \<^verbatim>\<open>set_smc\<close> once the four settings are in: mode, power and the end of the configuration.\<close>

definition finish_chip :: "'h bus \<Rightarrow> int \<Rightarrow> ('h, unit) smprog" where
  "finish_chip B base =
     seq (update_reg B base 0x0c (\<lambda>i. (i AND 0xc7) OR 0x88))
     (seq (update_reg B base 0x07 (\<lambda>i. i OR 0x20))
     (seq (update_reg B base 0x0a (\<lambda>i. i OR 0x40))
     (seq (update_reg B base 0x02 (\<lambda>i. 0x80))
     (seq (update_reg B base 0x00 (\<lambda>i. i OR 0x80))
     (sm_outb B 0xaa base)))))"

text \<open>The settings in the order of the code, each only when the one before could be read back.\<close>

definition program_chip :: "'h bus \<Rightarrow> int \<Rightarrow> int \<Rightarrow> int \<Rightarrow> int \<Rightarrow> int \<Rightarrow> bool \<Rightarrow> ('h, int) smprog" where
  "program_chip B base sir fir irq_no dma_no verb =
     seq (sm_outb B 0x24 base)
     (seq (sm_outb B 0x00 (base + 1))
     (bnd (set_checked B base 0x25 False sir verb (checked_text ''SIR ioport register '' fmt_xi sir)) (\<lambda>ok1.
     if \<not> ok1 then ret 1
     else
       bnd (set_checked B base 0x28 True irq_no verb (checked_text ''FIR interrupt register'' fmt_d irq_no)) (\<lambda>ok2.
       if \<not> ok2 then ret 1
       else
         bnd (set_checked B base 0x2b False fir verb (checked_text ''FIR ioport register'' fmt_xi fir)) (\<lambda>ok3.
         if \<not> ok3 then ret 1
         else
           bnd (set_checked B base 0x2c False dma_no verb (checked_text ''FIR dma register'' fmt_xi dma_no)) (\<lambda>ok4.
           if \<not> ok4 then ret 1
           else
             seq (finish_chip B base)
             (seq (tell verb nl)
             (seq (tell verb (''Initialization of the SMC 47Nxxx succeeded'' @ nl))
             (ret 0)))))))))"

text \<open>The two I/O addresses as the registers hold them.\<close>

definition sir_field :: "int \<Rightarrow> int" where
  "sir_field sir_io = drop_bit 2 (sir_io AND 0xff8)"

definition fir_field :: "int \<Rightarrow> int" where
  "fir_field fir_io = drop_bit 3 (fir_io AND 0xff8)"

definition set_smc :: "'h bus \<Rightarrow> 'h pci \<Rightarrow> bool \<Rightarrow> int \<Rightarrow> int \<Rightarrow> int \<Rightarrow> int \<Rightarrow> bool \<Rightarrow> ('h, int) smprog" where
  "set_smc B P is_root sir_io fir_io fir_irq fir_dma verb =
     (if \<not> is_root then fault (Exit_With 1)
      else
        bnd (set_hub P verb) (\<lambda>ok.
        if \<not> ok then ret 1
        else
          bnd (find_base B [0x2e, 0x4e] 0) (\<lambda>(found, i).
          case found of
            None \<Rightarrow> ret 1
          | Some (base, chip) \<Rightarrow>
              seq (tell verb (''Detected smc_base: 0x'' @ fmt_xi base @ '' '' @ nl @ '' '' @ nl))
              (seq (tell verb (''Detected Chip id: 0x'' @ fmt_xi chip @ '' '' @ nl @ '' '' @ nl))
              (program_chip B base (sir_field sir_io) (fir_field fir_io) fir_irq fir_dma verb)))))"


subsection \<open>The serial port\<close>

text \<open>The answers of the system. \<^verbatim>\<open>PORT_UNKNOWN\<close> is 0.\<close>

record tty_env =
  t_open :: int
  t_get :: int
  t_set :: int

definition unbind_from_serial :: "tty_env \<Rightarrow> ('h, int) smprog" where
  "unbind_from_serial T =
     (if t_open T < 0 then fault (Exit_With 201)
      else if t_get T < 0 then fault (Exit_With 1)
      else if t_set T < 0 then fault (Exit_With 1)
      else seq (modify (\<lambda>s. s\<lparr>serial_type := 0\<rparr>)) (ret 0))"

subsection \<open>The command line\<close>

text \<open>An argument is used when it is not empty and read to its end; it is stored as an \<^verbatim>\<open>unsigned int\<close>.\<close>

definition number_arg :: "string \<Rightarrow> u32 option" where
  "number_arg nptr = (case strtoul_0 64 nptr of (v, endptr) \<Rightarrow>
     if nptr = [] \<or> endptr \<noteq> [] then None else Some (word_of_int v))"

record settings =
  verb_opt :: bool
  tty_device :: string
  sir_io :: u32
  fir_io :: u32
  fir_irq :: u32
  fir_dma :: u32

definition default_settings :: settings where
  "default_settings = \<lparr>verb_opt = False, tty_device = [], sir_io = 0x3f8, fir_io = 0x130, fir_irq = 3, fir_dma = 3\<rparr>"

definition PATH_MAX :: nat where
  "PATH_MAX = 4096"

text \<open>
  The \<^verbatim>\<open>switch\<close> on an option and its argument. \<^verbatim>\<open>strncpy\<close> copies at most \<^verbatim>\<open>PATH_MAX\<close> characters, with no terminator for a longer
  argument; what was in the array behind a shorter one is cleared.
\<close>

definition set_number :: "(u32 \<Rightarrow> settings \<Rightarrow> settings) \<Rightarrow> string \<Rightarrow> settings \<Rightarrow> c_fault + settings" where
  "set_number f optarg o1 = (case number_arg optarg of None \<Rightarrow> Inl (Exit_With 1) | Some v \<Rightarrow> Inr (f v o1))"

definition smc_option :: "char \<Rightarrow> string \<Rightarrow> settings \<Rightarrow> c_fault + settings" where
  "smc_option opt optarg o1 =
     (if opt = CHR ''V'' then Inl (Exit_With 0)
      else if opt = CHR ''h'' then Inl (Exit_With 0)
      else if opt = CHR ''v'' then Inr (o1\<lparr>verb_opt := True\<rparr>)
      else if opt = CHR ''t'' then Inr (o1\<lparr>tty_device := take PATH_MAX optarg\<rparr>)
      else if opt = CHR ''s'' then set_number (\<lambda>v o1. o1\<lparr>sir_io := v\<rparr>) optarg o1
      else if opt = CHR ''f'' then set_number (\<lambda>v o1. o1\<lparr>fir_io := v\<rparr>) optarg o1
      else if opt = CHR ''i'' then set_number (\<lambda>v o1. o1\<lparr>fir_irq := v\<rparr>) optarg o1
      else if opt = CHR ''d'' then set_number (\<lambda>v o1. o1\<lparr>fir_dma := v\<rparr>) optarg o1
      else Inr o1)"

fun smc_options :: "(char \<times> string) list \<Rightarrow> settings \<Rightarrow> c_fault + settings" where
  "smc_options [] o1 = Inr o1"
| "smc_options ((opt, optarg) # os) o1 =
     (case smc_option opt optarg o1 of Inl e \<Rightarrow> Inl e | Inr o2 \<Rightarrow> smc_options os o2)"

definition VERSION :: string where
  "VERSION = ''0.5cvs''"

definition settings_text :: "settings \<Rightarrow> string" where
  "settings_text o1 =
     ''smcinit '' @ VERSION @ nl @ nl @ ''SIR ioport: 0x'' @ fmt_x (uint (sir_io o1)) @ nl @
     ''FIR ioport: 0x'' @ fmt_x (uint (fir_io o1)) @ nl @ ''FIR interupt: '' @ fmt_d (sint (fir_irq o1)) @ nl @
     ''FIR DMA: '' @ fmt_d (sint (fir_dma o1)) @ nl @ nl"

definition smcinit_main :: "'h bus \<Rightarrow> 'h pci \<Rightarrow> tty_env \<Rightarrow> bool \<Rightarrow> (char \<times> string) list \<Rightarrow> ('h, int) smprog" where
  "smcinit_main B P T is_root opts =
     (case smc_options opts default_settings of
        Inl e \<Rightarrow> fault e
      | Inr o1 \<Rightarrow>
          seq (tell (verb_opt o1) (settings_text o1))
          (bnd (if tty_device o1 = [] then ret 0
                else
                  seq (guard (length (tty_device o1) < PATH_MAX) (Local_Bounds ''tty_device'' PATH_MAX))
                  (unbind_from_serial T)) (\<lambda>r1.
          bnd (set_smc B P is_root (sint (sir_io o1)) (sint (fir_io o1)) (sint (fir_irq o1)) (sint (fir_dma o1)) (verb_opt o1)) (\<lambda>r2.
          ret (r1 + r2)))))"


section \<open>Programming a chip\<close>

text \<open>
  The documented behaviour of the configuration ports of a chip. It answers on them in configuration mode only: the
  key 0x55 written to the first port enters it, 0xaa ends it. In this mode any other value written to the first
  port selects a register and the second port gives access to the selected one; the registers the programs set hold what is
  written to them. Outside this mode nothing changes the registers and what a read gives is open.
\<close>

definition cfg_regs :: "byte list" where
  "cfg_regs = [0x00, 0x02, 0x07, 0x0a, 0x0c, 0x24, 0x25, 0x28, 0x2b, 0x2c]"

definition reg_port :: "'h bus \<Rightarrow> int \<Rightarrow> ('h \<Rightarrow> byte \<Rightarrow> byte) \<Rightarrow> ('h \<Rightarrow> byte) \<Rightarrow> ('h \<Rightarrow> bool) \<Rightarrow> bool" where
  "reg_port B base regs sel opened \<longleftrightarrow>
     (\<forall>h v. let h' = bus_write B base v h in
       regs h' = regs h \<and> opened h' = (if opened h then v \<noteq> 0xaa else v = 0x55) \<and> (opened h \<and> v \<noteq> 0xaa \<longrightarrow> sel h' = v)) \<and>
     (\<forall>h v. let h' = bus_write B (base + 1) v h in
       opened h' = opened h \<and> sel h' = sel h \<and> (\<not> opened h \<longrightarrow> regs h' = regs h) \<and>
       (opened h \<and> sel h \<in> set cfg_regs \<longrightarrow> regs h' = (regs h)(sel h := v))) \<and>
     (\<forall>h. case bus_read B (base + 1) h of (x, h') \<Rightarrow>
       regs h' = regs h \<and> sel h' = sel h \<and> opened h' = opened h \<and> (opened h \<longrightarrow> x = regs h (sel h)))"

lemma cfg_regs_not_exit: "i \<in> set cfg_regs \<Longrightarrow> i \<noteq> 0xaa"
  by (auto simp: cfg_regs_def)

text \<open>The accesses of a run so far, and that none of them ends the configuration at \<open>base\<close>.\<close>

definition still_open :: "int \<Rightarrow> 'h sm \<Rightarrow> 'h sm \<Rightarrow> bool" where
  "still_open base s s' \<longleftrightarrow> (\<exists>t. log s' = log s @ t \<and> Port (Out base 0xaa) \<notin> set t)"

lemma still_open_refl: "still_open base s s"
  by (simp add: still_open_def)

lemma still_open_trans [trans]: "still_open base s s' \<Longrightarrow> still_open base s' s'' \<Longrightarrow> still_open base s s''"
  by (auto simp: still_open_def)

lemma key_run:
  assumes "reg_port B base regs sel opened" "base \<in> set (granted s)"
  shows "\<exists>s'. sm_outb B 0x55 base s = Inr ((), s') \<and> regs (sm_hw s') = regs (sm_hw s) \<and> opened (sm_hw s') \<and>
    granted s' = granted s \<and> still_open base s s'"
  using assms by (simp add: sm_outb_def reg_port_def still_open_def Let_def)

lemma close_run:
  assumes "reg_port B base regs sel opened" "base \<in> set (granted s)" "opened (sm_hw s)"
  shows "\<exists>s'. sm_outb B 0xaa base s = Inr ((), s') \<and> regs (sm_hw s') = regs (sm_hw s) \<and> \<not> opened (sm_hw s') \<and>
    granted s' = granted s \<and> log s' = log s @ [Port (Out base 0xaa)]"
  using assms by (simp add: sm_outb_def reg_port_def Let_def)

lemma select_run:
  assumes "reg_port B base regs sel opened" "base \<in> set (granted s)" "opened (sm_hw s)" "(word_of_int n :: byte) \<noteq> 0xaa"
  shows "\<exists>s'. sm_outb B n base s = Inr ((), s') \<and> regs (sm_hw s') = regs (sm_hw s) \<and> sel (sm_hw s') = word_of_int n \<and>
    opened (sm_hw s') \<and> granted s' = granted s \<and> still_open base s s'"
  using assms by (simp add: sm_outb_def reg_port_def still_open_def Let_def)

lemma port_write_run:
  assumes "reg_port B base regs sel opened" "base + 1 \<in> set (granted s)" "opened (sm_hw s)" "sel (sm_hw s) \<in> set cfg_regs"
  shows "\<exists>s'. sm_outb B n (base + 1) s = Inr ((), s') \<and> regs (sm_hw s') = (regs (sm_hw s))(sel (sm_hw s) := word_of_int n) \<and>
    sel (sm_hw s') = sel (sm_hw s) \<and> opened (sm_hw s') \<and> granted s' = granted s \<and> still_open base s s'"
  using assms by (simp add: sm_outb_def reg_port_def still_open_def Let_def)

lemma port_read_run:
  assumes "reg_port B base regs sel opened" "base + 1 \<in> set (granted s)" "opened (sm_hw s)"
  shows "\<exists>s'. sm_inb B (base + 1) s = Inr (uint (regs (sm_hw s) (sel (sm_hw s))), s') \<and> regs (sm_hw s') = regs (sm_hw s) \<and>
    sel (sm_hw s') = sel (sm_hw s) \<and> opened (sm_hw s') \<and> granted s' = granted s \<and> still_open base s s'"
proof -
  obtain x h' where r: "bus_read B (base + 1) (sm_hw s) = (x, h')" by fastforce
  with assms have "x = regs (sm_hw s) (sel (sm_hw s))" "regs h' = regs (sm_hw s)" "sel h' = sel (sm_hw s)" "opened h'"
    by (fastforce simp: reg_port_def split: prod.splits)+
  with r assms(2) show ?thesis by (simp add: sm_inb_def still_open_def)
qed

lemma tell_run: "\<exists>s'. tell v t s = Inr ((), s') \<and> sm_hw s' = sm_hw s \<and> granted s' = granted s \<and> log s' = log s"
  by (simp add: tell_def whenc_def modify_def skip_def ret_def)

lemma set_checked_run:
  assumes P: "reg_port B base regs sel opened" and g: "base \<in> set (granted s)" "base + 1 \<in> set (granted s)" "opened (sm_hw s)"
    and r: "(word_of_int r :: byte) \<in> set cfg_regs"
  shows "\<exists>s'. set_checked B base r prep val verb text s = Inr (uint (word_of_int val :: byte) = val, s') \<and>
    regs (sm_hw s') = (regs (sm_hw s))(word_of_int r := word_of_int val) \<and> opened (sm_hw s') \<and> granted s' = granted s \<and>
    still_open base s s'"
proof -
  obtain s1 where 1: "sm_outb B r base s = Inr ((), s1)" "regs (sm_hw s1) = regs (sm_hw s)" "sel (sm_hw s1) = word_of_int r"
    "opened (sm_hw s1)" "granted s1 = granted s" "still_open base s s1"
    using select_run [OF P g(1,3) cfg_regs_not_exit [OF r]] by blast
  obtain s2 where 2: "(if prep then seq (sm_inb B (base + 1)) skip else skip) s1 = Inr ((), s2)"
    "regs (sm_hw s2) = regs (sm_hw s)" "sel (sm_hw s2) = word_of_int r" "opened (sm_hw s2)" "granted s2 = granted s"
    "still_open base s1 s2"
    using port_read_run [OF P, of s1] g(2) 1 still_open_refl
    by (cases prep) (auto simp: seq_def bnd_def skip_def ret_def)
  obtain s3 where 3: "sm_outb B val (base + 1) s2 = Inr ((), s3)"
    "regs (sm_hw s3) = (regs (sm_hw s))(word_of_int r := word_of_int val)" "sel (sm_hw s3) = word_of_int r"
    "opened (sm_hw s3)" "granted s3 = granted s" "still_open base s2 s3"
    using port_write_run [OF P, of s2 val] g(2) r 2 by auto
  obtain s4 where 4: "sm_inb B (base + 1) s3 = Inr (uint (word_of_int val :: byte), s4)"
    "regs (sm_hw s4) = regs (sm_hw s3)" "opened (sm_hw s4)" "granted s4 = granted s" "still_open base s3 s4"
    using port_read_run [OF P, of s3] g(2) 3 by auto
  obtain s5 where 5: "tell verb (text (uint (word_of_int val :: byte))) s4 = Inr ((), s5)" "sm_hw s5 = sm_hw s4"
    "granted s5 = granted s4" "log s5 = log s4"
    using tell_run by blast
  have "still_open base s s5"
    using 1(6) 2(6) 3(6) 4(5) 5(4) unfolding still_open_def by auto
  with 1 2 3 4 5 show ?thesis by (simp add: set_checked_def seq_def bnd_def ret_def)
qed

lemma update_run:
  assumes P: "reg_port B base regs sel opened" and g: "base \<in> set (granted s)" "base + 1 \<in> set (granted s)" "opened (sm_hw s)"
    and r: "(word_of_int r :: byte) \<in> set cfg_regs"
  shows "\<exists>s'. update_reg B base r f s = Inr ((), s') \<and>
    regs (sm_hw s') = (regs (sm_hw s))(word_of_int r := word_of_int (f (uint (regs (sm_hw s) (word_of_int r))))) \<and>
    opened (sm_hw s') \<and> granted s' = granted s \<and> still_open base s s'"
proof -
  obtain s1 where 1: "sm_outb B r base s = Inr ((), s1)" "regs (sm_hw s1) = regs (sm_hw s)" "sel (sm_hw s1) = word_of_int r"
    "opened (sm_hw s1)" "granted s1 = granted s" "still_open base s s1"
    using select_run [OF P g(1,3) cfg_regs_not_exit [OF r]] by blast
  obtain s2 where 2: "sm_inb B (base + 1) s1 = Inr (uint (regs (sm_hw s) (word_of_int r)), s2)"
    "regs (sm_hw s2) = regs (sm_hw s)" "sel (sm_hw s2) = word_of_int r" "opened (sm_hw s2)" "granted s2 = granted s"
    "still_open base s1 s2"
    using port_read_run [OF P, of s1] g(2) 1 by auto
  obtain s3 where 3: "sm_outb B (f (uint (regs (sm_hw s) (word_of_int r)))) (base + 1) s2 = Inr ((), s3)"
    "regs (sm_hw s3) = (regs (sm_hw s))(word_of_int r := word_of_int (f (uint (regs (sm_hw s) (word_of_int r)))))"
    "opened (sm_hw s3)" "granted s3 = granted s" "still_open base s2 s3"
    using port_write_run [OF P, of s2] g(2) r 2 by auto
  have "still_open base s s3" using 1(6) 2(6) 3(5) still_open_trans by blast
  with 1 2 3 show ?thesis by (simp add: update_reg_def seq_def bnd_def)
qed


text \<open>What the registers of a chip are to hold in the end.\<close>

definition programmed :: "(byte \<Rightarrow> byte) \<Rightarrow> int \<Rightarrow> int \<Rightarrow> int \<Rightarrow> int \<Rightarrow> byte \<Rightarrow> byte" where
  "programmed r sir fir irq_no dma_no = r(0x24 := 0, 0x25 := word_of_int sir, 0x28 := word_of_int irq_no,
     0x2b := word_of_int fir, 0x2c := word_of_int dma_no, 0x0c := (r 0x0c AND 0xc7) OR 0x88, 0x07 := r 0x07 OR 0x20,
     0x0a := r 0x0a OR 0x40, 0x02 := 0x80, 0x00 := r 0x00 OR 0x80)"

lemma byte_ops: "word_of_int ((uint b AND 0xc7) OR 0x88) = ((b :: byte) AND 0xc7) OR 0x88"
  "word_of_int (uint b OR 0x20) = b OR 0x20" "word_of_int (uint b OR 0x40) = b OR 0x40"
  "word_of_int (uint b OR 0x80) = b OR 0x80"
  by (simp_all add: of_int_and_eq of_int_or_eq)

lemma finish_run:
  assumes P: "reg_port B base regs sel opened" and g: "base \<in> set (granted s)" "base + 1 \<in> set (granted s)" "opened (sm_hw s)"
  shows "\<exists>s'. finish_chip B base s = Inr ((), s') \<and>
    regs (sm_hw s') = (regs (sm_hw s))(0x0c := (regs (sm_hw s) 0x0c AND 0xc7) OR 0x88, 0x07 := regs (sm_hw s) 0x07 OR 0x20,
     0x0a := regs (sm_hw s) 0x0a OR 0x40, 0x02 := 0x80, 0x00 := regs (sm_hw s) 0x00 OR 0x80) \<and>
    \<not> opened (sm_hw s') \<and> granted s' = granted s \<and> last (log s') = Port (Out base 0xaa)"
proof -
  obtain s1 where 1: "update_reg B base 0x0c (\<lambda>i. (i AND 0xc7) OR 0x88) s = Inr ((), s1)"
    "regs (sm_hw s1) = (regs (sm_hw s))(0x0c := (regs (sm_hw s) 0x0c AND 0xc7) OR 0x88)" "granted s1 = granted s" "opened (sm_hw s1)"
    using update_run [OF P g, of "0x0c" "\<lambda>i. (i AND 0xc7) OR 0x88"] by (auto simp: byte_ops cfg_regs_def)
  obtain s2 where 2: "update_reg B base 0x07 (\<lambda>i. i OR 0x20) s1 = Inr ((), s2)"
    "regs (sm_hw s2) = (regs (sm_hw s1))(0x07 := regs (sm_hw s) 0x07 OR 0x20)" "granted s2 = granted s" "opened (sm_hw s2)"
    using update_run [OF P, of s1 "0x07" "\<lambda>i. i OR 0x20"] g 1 by (auto simp: byte_ops cfg_regs_def)
  obtain s3 where 3: "update_reg B base 0x0a (\<lambda>i. i OR 0x40) s2 = Inr ((), s3)"
    "regs (sm_hw s3) = (regs (sm_hw s2))(0x0a := regs (sm_hw s) 0x0a OR 0x40)" "granted s3 = granted s" "opened (sm_hw s3)"
    using update_run [OF P, of s2 "0x0a" "\<lambda>i. i OR 0x40"] g 1 2 by (auto simp: byte_ops cfg_regs_def)
  obtain s4 where 4: "update_reg B base 0x02 (\<lambda>i. 0x80) s3 = Inr ((), s4)"
    "regs (sm_hw s4) = (regs (sm_hw s3))(0x02 := 0x80)" "granted s4 = granted s" "opened (sm_hw s4)"
    using update_run [OF P, of s3 "0x02" "\<lambda>i. 0x80"] g 3 by (auto simp: cfg_regs_def)
  obtain s5 where 5: "update_reg B base 0x00 (\<lambda>i. i OR 0x80) s4 = Inr ((), s5)"
    "regs (sm_hw s5) = (regs (sm_hw s4))(0x00 := regs (sm_hw s) 0x00 OR 0x80)" "granted s5 = granted s" "opened (sm_hw s5)"
    using update_run [OF P, of s4 "0x00" "\<lambda>i. i OR 0x80"] g 1 2 3 4 by (auto simp: byte_ops cfg_regs_def)
  obtain s6 where 6: "sm_outb B 0xaa base s5 = Inr ((), s6)" "regs (sm_hw s6) = regs (sm_hw s5)" "granted s6 = granted s"
    "\<not> opened (sm_hw s6)" "log s6 = log s5 @ [Port (Out base 0xaa)]"
    using close_run [OF P, of s5] g 5 by auto
  show ?thesis
    using 1(1) 2(1) 3(1) 4(1) 5(1) 6 unfolding 5(2) 4(2) 3(2) 2(2) 1(2)
    by (simp add: finish_chip_def seq_def bnd_def)
qed

lemma in_byte: "0 \<le> n \<Longrightarrow> n < 256 \<Longrightarrow> uint (word_of_int n :: byte) = n"
  by (simp add: uint_word_of_int)

lemma program_start:
  assumes P: "reg_port B base regs sel opened" and g: "base \<in> set (granted s)" "base + 1 \<in> set (granted s)" "opened (sm_hw s)"
  shows "\<exists>s'. seq (sm_outb B 0x24 base) (sm_outb B 0x00 (base + 1)) s = Inr ((), s') \<and>
    regs (sm_hw s') = (regs (sm_hw s))(0x24 := 0) \<and> opened (sm_hw s') \<and> granted s' = granted s \<and> still_open base s s'"
proof -
  obtain s1 where 1: "sm_outb B 0x24 base s = Inr ((), s1)" "regs (sm_hw s1) = regs (sm_hw s)" "sel (sm_hw s1) = 0x24"
    "opened (sm_hw s1)" "granted s1 = granted s" "still_open base s s1"
    using select_run [OF P g(1,3), of "0x24"] by auto
  obtain s2 where "sm_outb B 0x00 (base + 1) s1 = Inr ((), s2)" "regs (sm_hw s2) = (regs (sm_hw s))(0x24 := 0)"
    "opened (sm_hw s2)" "granted s2 = granted s" "still_open base s1 s2"
    using port_write_run [OF P, of s1 "0x00"] g(2) 1 by (auto simp: cfg_regs_def)
  then show ?thesis using 1(1,6) still_open_trans by (fastforce simp: seq_def bnd_def)
qed

lemma seq_assoc: "seq (seq a b) c = seq a (seq b c)"
  by (simp add: seq_def bnd_assoc)

lemma program_run:
  assumes P: "reg_port B base regs sel opened" and g: "base \<in> set (granted s)" "base + 1 \<in> set (granted s)" "opened (sm_hw s)"
    and v: "0 \<le> sir" "sir < 256" "0 \<le> fir" "fir < 256" "0 \<le> irq_no" "irq_no < 256" "0 \<le> dma_no" "dma_no < 256"
  shows "\<exists>s'. program_chip B base sir fir irq_no dma_no verb s = Inr (0, s') \<and>
    regs (sm_hw s') = programmed (regs (sm_hw s)) sir fir irq_no dma_no \<and> \<not> opened (sm_hw s') \<and>
    last (log s') = Port (Out base 0xaa)"
proof -
  obtain s0 where 0: "seq (sm_outb B 0x24 base) (sm_outb B 0x00 (base + 1)) s = Inr ((), s0)"
    "regs (sm_hw s0) = (regs (sm_hw s))(0x24 := 0)" "granted s0 = granted s" "opened (sm_hw s0)"
    using program_start [OF P g] by blast
  obtain s1 where 1: "set_checked B base 0x25 False sir verb (checked_text ''SIR ioport register '' fmt_xi sir) s0 = Inr (True, s1)"
    "regs (sm_hw s1) = (regs (sm_hw s0))(0x25 := word_of_int sir)" "granted s1 = granted s" "opened (sm_hw s1)"
    using set_checked_run [OF P, of s0 "0x25" False sir verb "checked_text ''SIR ioport register '' fmt_xi sir"] g 0 v
    by (auto simp: in_byte cfg_regs_def)
  obtain s2 where 2: "set_checked B base 0x28 True irq_no verb (checked_text ''FIR interrupt register'' fmt_d irq_no) s1 = Inr (True, s2)"
    "regs (sm_hw s2) = (regs (sm_hw s1))(0x28 := word_of_int irq_no)" "granted s2 = granted s" "opened (sm_hw s2)"
    using set_checked_run [OF P, of s1 "0x28" True irq_no verb "checked_text ''FIR interrupt register'' fmt_d irq_no"] g 1 v
    by (auto simp: in_byte cfg_regs_def)
  obtain s3 where 3: "set_checked B base 0x2b False fir verb (checked_text ''FIR ioport register'' fmt_xi fir) s2 = Inr (True, s3)"
    "regs (sm_hw s3) = (regs (sm_hw s2))(0x2b := word_of_int fir)" "granted s3 = granted s" "opened (sm_hw s3)"
    using set_checked_run [OF P, of s2 "0x2b" False fir verb "checked_text ''FIR ioport register'' fmt_xi fir"] g 2 v
    by (auto simp: in_byte cfg_regs_def)
  obtain s4 where 4: "set_checked B base 0x2c False dma_no verb (checked_text ''FIR dma register'' fmt_xi dma_no) s3 = Inr (True, s4)"
    "regs (sm_hw s4) = (regs (sm_hw s3))(0x2c := word_of_int dma_no)" "granted s4 = granted s" "opened (sm_hw s4)"
    using set_checked_run [OF P, of s3 "0x2c" False dma_no verb "checked_text ''FIR dma register'' fmt_xi dma_no"] g 3 v
    by (auto simp: in_byte cfg_regs_def)
  obtain s5 where 5: "finish_chip B base s4 = Inr ((), s5)" "last (log s5) = Port (Out base 0xaa)" "\<not> opened (sm_hw s5)"
    "regs (sm_hw s5) = programmed (regs (sm_hw s)) sir fir irq_no dma_no"
    using finish_run [OF P, of s4] g 4(3,4) unfolding 4(2) 3(2) 2(2) 1(2) 0(2) by (auto simp: programmed_def)
  obtain s6 where 6: "tell verb nl s5 = Inr ((), s6)" "sm_hw s6 = sm_hw s5" "log s6 = log s5" using tell_run by blast
  obtain s7 where 7: "tell verb (''Initialization of the SMC 47Nxxx succeeded'' @ nl) s6 = Inr ((), s7)"
    "sm_hw s7 = sm_hw s6" "log s7 = log s6" using tell_run by blast
  show ?thesis
    unfolding program_chip_def seq_assoc [symmetric, of "sm_outb B 0x24 base"]
    using 0(1) 1(1) 2(1) 3(1) 4(1) 5 6 7
    by (simp add: bnd_def seq_def [of "seq _ _"] seq_def [of "finish_chip _ _"] seq_def [of "tell _ _"] ret_def)
qed


section \<open>Properties\<close>

subsection \<open>What is set up can be read back by the chip detection\<close>

text \<open>What the configuration ports show of a chip: its registers and whether it is in configuration mode.\<close>

definition cfg_view :: "('h \<Rightarrow> byte \<Rightarrow> byte) \<Rightarrow> ('h \<Rightarrow> bool) \<Rightarrow> 'h \<Rightarrow> (byte \<Rightarrow> byte) \<times> bool" where
  "cfg_view regs opened h = (regs h, opened h)"

text \<open>Accesses to a port leave a view of the hardware alone.\<close>

definition apart :: "'h bus \<Rightarrow> ('h \<Rightarrow> 'v) \<Rightarrow> int \<Rightarrow> bool" where
  "apart B view p \<longleftrightarrow> (\<forall>h. view (snd (bus_read B p h)) = view h) \<and> (\<forall>h v. view (bus_write B p v h) = view h)"

lemma wp_inb_apart:
  assumes "apart B view p" "permitted p" "\<And>v h t. view h = view (hw m) \<Longrightarrow> Q v (m\<lparr>hw := h, trace := t\<rparr>)"
  shows "wp (inb B p) Q m"
proof -
  obtain v h where "bus_read B p (hw m) = (v, h)" by fastforce
  with assms show ?thesis by (auto simp: wp_def inb_def apart_def dest: spec [of _ "hw m"])
qed

lemma wp_outb_apart:
  assumes "apart B view p" "permitted p" "\<And>h t. view h = view (hw m) \<Longrightarrow> Q () (m\<lparr>hw := h, trace := t\<rparr>)"
  shows "wp (outb B v p) Q m"
  using assms by (simp add: wp_def outb_def apart_def)

definition fir_ports :: "'h bus \<Rightarrow> ('h \<Rightarrow> 'v) \<Rightarrow> int \<Rightarrow> bool" where
  "fir_ports B view fir \<longleftrightarrow> list_all (\<lambda>p. apart B view p \<and> permitted p) [fir + 2, fir + 3, fir + 7]"

lemma wp_read_open:
  assumes "reg_port B base regs sel opened" "permitted base" "permitted (base + 1)"
    and "cfg_view regs opened (hw m) = (r, True)" "i \<noteq> 0xaa"
    and "\<And>h t. cfg_view regs opened h = (r, True) \<Longrightarrow> Q (uint (r i)) (m\<lparr>hw := h, trace := t\<rparr>)"
  shows "wp (cfg_read B i base (base + 1)) Q m"
proof -
  let ?h = "bus_write B base i (hw m)"
  have r: "regs (hw m) = r" "opened (hw m)" using assms(4) by (simp_all add: cfg_view_def)
  have w: "regs ?h = r" "opened ?h" "sel ?h = i"
    using assms(1,5) r by (simp_all add: reg_port_def Let_def)
  obtain v h' where b: "bus_read B (base + 1) ?h = (v, h')" by fastforce
  have "v = r i" "cfg_view regs opened h' = (r, True)"
    using assms(1) b w by (fastforce simp: reg_port_def cfg_view_def)+
  then show ?thesis
    using assms(2,3,6) b by (simp add: wp_def cfg_read_def seq_def bnd_def outb_def inb_def ret_def)
qed

lemma wp_key:
  assumes "reg_port B base regs sel opened" "permitted base" "regs (hw m) = r"
    and "\<And>h t. cfg_view regs opened h = (r, True) \<Longrightarrow> Q () (m\<lparr>hw := h, trace := t\<rparr>)"
  shows "wp (outb B 0x55 base) Q m"
  using assms by (simp add: wp_def outb_def reg_port_def Let_def cfg_view_def)

lemma wp_exit_key:
  assumes "reg_port B base regs sel opened" "permitted base" "cfg_view regs opened (hw m) = (r, True)"
    and "\<And>h t. cfg_view regs opened h = (r, False) \<Longrightarrow> Q () (m\<lparr>hw := h, trace := t\<rparr>)"
  shows "wp (outb B 0xaa base) Q m"
  using assms by (simp add: wp_def outb_def reg_port_def Let_def cfg_view_def)

lemma fir_block_wp:
  assumes "reg_port B base regs sel opened" "permitted base" "permitted (base + 1)"
    and v: "cfg_view regs opened (hw m) = (r, True)" and "d \<noteq> 0xaa"
    and f: "fir = 0 \<or> fir_ports B (cfg_view regs opened) fir"
    and Q: "\<And>i h t. cfg_view regs opened h = (r, True) \<Longrightarrow> sir_base i = sir_base info \<Longrightarrow> dma i = dma info \<Longrightarrow>
      irq i = irq info \<Longrightarrow> Q i (m\<lparr>hw := h, trace := t\<rparr>)"
  shows "wp (fir_block B d base fir info) Q m"
proof (cases "fir = 0")
  case True
  then show ?thesis using Q [of "hw m" info "trace m"] v by (simp add: fir_block_def wp_simps)
next
  case False
  let ?v = "cfg_view regs opened"
  have p: "apart B ?v (fir + 2)" "permitted (fir + 2)" "apart B ?v (fir + 3)" "permitted (fir + 3)"
    "apart B ?v (fir + 7)" "permitted (fir + 7)"
    using f False by (simp_all add: fir_ports_def)
  show ?thesis
    unfolding fir_block_def register_bank_def if_P [OF False] wp_bnd
    by (rule wp_read_open [OF assms(1-5)], simp only: wp_seq wp_bnd,
        rule wp_inb_apart [OF p(5,6)], rule wp_outb_apart [OF p(5,6)], (simp only: wp_bnd)?,
        rule wp_inb_apart [OF p(1,2)], (simp only: wp_bnd)?, rule wp_inb_apart [OF p(3,4)])
      (simp add: wp_simps Q)
qed

text \<open>What is printed of a chip whose registers hold \<open>r\<close>.\<close>

definition shows_regs :: "(byte \<Rightarrow> byte) \<Rightarrow> chip_info \<Rightarrow> bool" where
  "shows_regs r i \<longleftrightarrow> sir_base i = 4 * uint (r 0x25) \<and> fir_base i = 8 * uint (r 0x2b) \<and> irq i = uint (r 0x28) AND 0x0f \<and>
     dma i = uint (r 0x2c) \<and> enabled i = uint (r 0x02) AND 0x80"

lemma probe_69_wp:
  assumes P: "reg_port B base regs sel opened" "permitted base" "permitted (base + 1)"
    and v: "cfg_view regs opened (hw m) = (r, True)"
    and f: "r 0x2b = 0 \<or> fir_ports B (cfg_view regs opened) (8 * uint (r 0x2b))"
    and Q: "\<And>i h t. cfg_view regs opened h = (r, True) \<Longrightarrow> shows_regs r i \<Longrightarrow>
      Q (8 * uint (r 0x2b)) (m\<lparr>hw := h, trace := t, printed := printed m @ [print_info_text (verbose m) i]\<rparr>)"
  shows "wp (probe_69 B name base) Q m"
proof -
  note rd = wp_read_open [OF P]
  have s: "push_bit 2 (uint (b :: byte)) = 4 * uint b" "push_bit 3 (uint b) = 8 * uint b" for b
    by (simp_all add: push_bit_eq_mult)
  have f': "8 * uint (r 0x2b) = 0 \<or> fir_ports B (cfg_view regs opened) (8 * uint (r 0x2b))"
    using f by auto
  show ?thesis
    unfolding probe_69_def wp_bnd Let_def
    by (rule rd, simp add: v, simp)+
      (simp only: s, rule fir_block_wp [OF P _ _ f'], simp, simp, rule rd, simp, simp,
       simp add: wp_simps, rule Q, assumption, simp add: shows_regs_def)
qed

text \<open>
  An entry of the table of \<^verbatim>\<open>smc.c\<close> for a chip of the family of the FDC37C669 with the identification \<open>v\<close>.
\<close>

definition family_entry :: "smc_chip \<Rightarrow> byte \<Rightarrow> bool" where
  "family_entry chp v \<longleftrightarrow> entr1 chp = 0x55 \<and> entr2 chp \<in> {0, 0x55} \<and> smc_cid_index chp = 0x0d \<and> smc_cid_value chp = v \<and> is_69 chp"

lemma smc_try_reads:
  fixes B :: "'h bus" and m :: "'h machine"
  assumes P: "reg_port B base regs sel opened" "permitted base" "permitted (base + 1)"
    and e: "family_entry chp (regs (hw m) 0x0d)"
    and f: "regs (hw m) 0x2b = 0 \<or> fir_ports B (cfg_view regs opened) (8 * uint (regs (hw m) 0x2b))"
  shows "\<exists>m' i. smc_try B chp base m = Inr (8 * uint (regs (hw m) 0x2b), m') \<and>
    printed m' = printed m @ [print_info_text (verbose m) i] \<and> shows_regs (regs (hw m)) i \<and>
    regs (hw m') = regs (hw m) \<and> \<not> opened (hw m')"
proof -
  let ?r = "regs (hw m)"
  let ?Q = "\<lambda>x m'. x = 8 * uint (?r 0x2b) \<and> (\<exists>i. printed m' = printed m @ [print_info_text (verbose m) i] \<and> shows_regs ?r i) \<and>
    regs (hw m') = ?r \<and> \<not> opened (hw m')"
  have e': "entr1 chp = 0x55" "smc_cid_index chp = 0x0d" "smc_cid_value chp = ?r 0x0d" "is_69 chp" "entr2 chp = 0 \<or> entr2 chp = 0x55"
    using e by (auto simp: family_entry_def)
  have body: "wp (bnd (cfg_read B 0x0d base (base + 1)) (\<lambda>devid.
     bnd (if devid = uint (?r 0x0d) then probe_69 B (smc_name chp) base else ret 0) (\<lambda>fir.
     seq (outb B 0xaa base) (ret fir)))) ?Q m1"
    if v: "cfg_view regs opened (hw m1) = (?r, True)" and p: "printed m1 = printed m" "verbose m1 = verbose m" for m1
    unfolding wp_bnd
    by (rule wp_read_open [OF P v], simp, simp, rule probe_69_wp [where r = ?r, OF P _ f], simp, simp only: wp_seq,
        rule wp_exit_key [OF P(1,2)], simp)
      (auto simp: wp_simps cfg_view_def p)
  have "wp (smc_try B chp base) ?Q m"
    unfolding smc_try_def e'(1-3) if_P [OF e'(4)] wp_seq wp_whenc
  proof (rule wp_key [OF P(1,2) refl])
    fix h t
    let ?m1 = "m\<lparr>hw := h, trace := t\<rparr>"
    let ?body = "bnd (cfg_read B 0x0d base (base + 1)) (\<lambda>devid.
     bnd (if devid = uint (?r 0x0d) then probe_69 B (smc_name chp) base else ret 0) (\<lambda>fir.
     seq (outb B 0xaa base) (ret fir)))"
    assume v: "cfg_view regs opened h = (?r, True)"
    have 1: "wp ?body ?Q ?m1" by (rule body) (simp_all add: v)
    have "wp (outb B 0x55 base) (\<lambda>_. wp ?body ?Q) ?m1"
      by (rule wp_key [OF P(1,2)], use v in \<open>simp add: cfg_view_def\<close>, rule body) simp_all
    with 1 e'(5) show "if entr2 chp \<noteq> 0 then wp (outb B (entr2 chp) base) (\<lambda>_. wp ?body ?Q) ?m1 else wp ?body ?Q ?m1"
      by auto
  qed
  from wpD [OF this] show ?thesis by auto
qed


lemma address_mask: "n AND 0xff8 = 8 * (n div 8 mod 512)" for n :: int
proof -
  have k: "0xff8 = push_bit 3 (mask 9 :: int)" by (simp add: mask_eq_exp_minus_1 push_bit_eq_mult)
  have "n AND push_bit 3 (mask 9) = push_bit 3 (take_bit 9 (drop_bit 3 n))"
    by (rule bit_eqI) (auto simp: bit_simps)
  then show ?thesis unfolding k by (simp add: push_bit_eq_mult take_bit_eq_mod drop_bit_eq_div)
qed

lemma fields: "4 * sir_field n = n AND 0xff8" "8 * fir_field n = n AND 0xff8" "0 \<le> sir_field n" "0 \<le> fir_field n"
  by (simp_all add: sir_field_def fir_field_def address_mask drop_bit_eq_div)

lemma find_base_found:
  assumes P: "reg_port B base regs sel opened" and d: "regs (sm_hw s) 0x0d = 0x5a \<or> regs (sm_hw s) 0x0d = 0x7a"
  shows "\<exists>s'. find_base B (base # bases) l s = Inr ((Some (base, uint (regs (sm_hw s) 0x0d)), uint (regs (sm_hw s) 0x0d)), s') \<and>
    regs (sm_hw s') = regs (sm_hw s) \<and> opened (sm_hw s') \<and> base \<in> set (granted s') \<and> base + 1 \<in> set (granted s')"
proof -
  define s0 where "s0 = s\<lparr>granted := granted s @ [base..base + 2 - 1]\<rparr>"
  have g: "base \<in> set (granted s0)" "base + 1 \<in> set (granted s0)" by (simp_all add: s0_def)
  have 0: "ioperm base 2 s = Inr ((), s0)" "regs (sm_hw s0) = regs (sm_hw s)" by (simp_all add: ioperm_def modify_def s0_def)
  obtain s1 where 1: "sm_outb B 0x55 base s0 = Inr ((), s1)" "regs (sm_hw s1) = regs (sm_hw s)" "opened (sm_hw s1)" "granted s1 = granted s0"
    using key_run [OF P g(1)] 0(2) by auto
  obtain s2 where 2: "sm_outb B 0x0d base s1 = Inr ((), s2)" "regs (sm_hw s2) = regs (sm_hw s)" "sel (sm_hw s2) = 0x0d"
    "opened (sm_hw s2)" "granted s2 = granted s0" using select_run [OF P, of s1 "0x0d"] g 1 by auto
  obtain s3 where 3: "sm_inb B (base + 1) s2 = Inr (uint (regs (sm_hw s) 0x0d), s3)" "regs (sm_hw s3) = regs (sm_hw s)"
    "opened (sm_hw s3)" "granted s3 = granted s0"
    using port_read_run [OF P, of s2] g 2 by auto
  have "uint (regs (sm_hw s) 0x0d) = 0x5a \<or> uint (regs (sm_hw s) 0x0d) = 0x7a" using d by auto
  with 0 1 2 3 g show ?thesis by (auto simp: seq_def bnd_def ret_def)
qed


text \<open>The entries of the table, for comparison: none has an address \<^verbatim>\<open>smcinit\<close> tries or an identification it accepts.\<close>

lemma table_lacks_these_chips:
  "list_all (\<lambda>c. set (smc_cfg c) \<inter> {0x2e, 0x4e} = {} \<and> \<not> family_entry c 0x5a \<and> \<not> family_entry c 0x7a) smc_chips"
  by (simp add: smc_chips_def smc_chip_of_def family_entry_def)

text \<open>A chip with a configuration mode, for examples.\<close>

record moded_regs = chip_regs + in_mode :: bool

definition mode_chip :: "int \<Rightarrow> moded_regs bus" where
  "mode_chip base = \<lparr>
     bus_read = (\<lambda>p h. if p = base + 1 \<and> in_mode h then (reg_file h (cur_index h), h) else (0xff, h)),
     bus_write = (\<lambda>p v h.
       if p = base then
         (if \<not> in_mode h then h\<lparr>in_mode := v = 0x55\<rparr>
          else if v = 0xaa then h\<lparr>in_mode := False\<rparr>
          else h\<lparr>cur_index := v\<rparr>)
       else if p = base + 1 \<and> in_mode h then h\<lparr>reg_file := (reg_file h)(cur_index h := v)\<rparr>
       else h)\<rparr>"

definition moded :: "bool \<Rightarrow> (byte \<Rightarrow> byte) \<Rightarrow> moded_regs" where
  "moded on r = \<lparr>cur_index = 0, reg_file = r, in_mode = on\<rparr>"

definition new_sm :: "'h \<Rightarrow> int list \<Rightarrow> 'h sm" where
  "new_sm h ps = \<lparr>sm_hw = h, granted = ps, log = [], shown = [], serial_type = 1\<rparr>"

definition new_machine :: "'h \<Rightarrow> 'h machine" where
  "new_machine h = \<lparr>hw = h, trace = [], printed = [], verbose = False\<rparr>"

lemma mode_chip_port: "reg_port (mode_chip base) base reg_file cur_index in_mode"
  by (simp add: reg_port_def mode_chip_def Let_def)

lemma mode_chip_apart: "p \<noteq> base \<Longrightarrow> p \<noteq> base + 1 \<Longrightarrow> apart (mode_chip base) view p"
  by (simp add: apart_def mode_chip_def)


subsection \<open>Errors\<close>

text \<open>On a machine with another I/O hub nothing is touched: the program returns 1 with no write to the configuration
  space and no access to a port.\<close>

theorem foreign_hub_untouched:
  assumes "pci_read_word P 0x00 (sm_hw s) \<noteq> 0x8086 \<or>
    pci_read_word P 0x02 (sm_hw s) \<noteq> 0x24cc \<and> pci_read_word P 0x02 (sm_hw s) \<noteq> 0x248c"
  shows "\<exists>s'. set_smc B P True sio fio q d verb s = Inr (1, s') \<and> sm_hw s' = sm_hw s \<and> log s' = log s"
  using assms
  by (auto simp: set_smc_def set_hub_def hub_read_def bnd_def gets_def seq_def tell_def whenc_def modify_def skip_def
      ret_def)

theorem foreign_hub_untouched_witness:
  "\<exists>s'. set_smc (reg_chip 0x2e 0x2f) \<lparr>pci_read_word = (\<lambda>r h. 0x1106), pci_write_word = (\<lambda>r v h. h), pci_write_byte = (\<lambda>r v h. h)\<rparr>
     True 0x3f8 0x130 3 3 True (new_sm (hw (chip_at_rest (\<lambda>i. 0))) []) = Inr (1, s') \<and> log s' = []"
  using foreign_hub_untouched [of "\<lparr>pci_read_word = (\<lambda>r h. 0x1106), pci_write_word = (\<lambda>r v h. h), pci_write_byte = (\<lambda>r v h. h)\<rparr>"
    "new_sm (hw (chip_at_rest (\<lambda>i. 0))) []" "reg_chip 0x2e 0x2f" "0x3f8" "0x130" 3 3 True]
  by (auto simp: new_sm_def)

text \<open>A setting that does not fit is noticed, but the chip is left in configuration mode: for a serial address of
  0x400 or above the register holds the low bits only, the comparison fails and the function returns 1
  without the write that ends the configuration.\<close>

theorem refused_setting_leaves_configuration:
  fixes B :: "'h bus"
  assumes "reg_port B base regs sel opened" "base \<in> set (granted s)" "base + 1 \<in> set (granted s)" "opened (sm_hw s)"
    "0x400 \<le> sio AND 0xff8"
  shows "\<exists>s'. program_chip B base (sir_field sio) fir q d verb s = Inr (1, s') \<and> opened (sm_hw s') \<and> still_open base s s'"
proof -
  obtain s0 where 0: "seq (sm_outb B 0x24 base) (sm_outb B 0x00 (base + 1)) s = Inr ((), s0)"
    "granted s0 = granted s" "still_open base s s0" "opened (sm_hw s0)"
    using program_start [OF assms(1-4)] by blast
  have "256 \<le> sir_field sio" using fields(1) [of sio] assms(5) by linarith
  moreover have "uint (word_of_int (sir_field sio) :: byte) < 256"
    using unsigned_less [of "word_of_int (sir_field sio) :: byte", where ?'a = int] by simp
  ultimately have n: "uint (word_of_int (sir_field sio) :: byte) \<noteq> sir_field sio" by linarith
  obtain s1 where "set_checked B base 0x25 False (sir_field sio) verb (checked_text ''SIR ioport register '' fmt_xi (sir_field sio)) s0 = Inr (False, s1)"
    "still_open base s0 s1" "opened (sm_hw s1)"
    using set_checked_run [OF assms(1), of s0 "0x25" False "sir_field sio" verb
      "checked_text ''SIR ioport register '' fmt_xi (sir_field sio)"] assms(2,3) 0(2,4) n by (auto simp: cfg_regs_def)
  then show ?thesis
    unfolding program_chip_def seq_assoc [symmetric, of "sm_outb B 0x24 base"]
    using 0 still_open_trans [OF 0(3)] by (auto simp: bnd_def seq_def [of "seq _ _"] ret_def)
qed

theorem refused_setting_leaves_configuration_witness:
  "\<exists>s'. program_chip (mode_chip 0x4e) 0x4e (sir_field 0x6f8) 0x26 3 3 False (new_sm (moded True (\<lambda>i. 0)) [0x4e, 0x4f]) = Inr (1, s') \<and>
     in_mode (sm_hw s') \<and> still_open 0x4e (new_sm (moded True (\<lambda>i. 0)) [0x4e, 0x4f]) s'"
proof -
  have "(0x400 :: int) \<le> 0x6f8 AND 0xff8" by code_simp
  then show ?thesis
    by (intro refused_setting_leaves_configuration [OF mode_chip_port [of "0x4e"]]) (simp_all add: new_sm_def moded_def)
qed


subsection \<open>Permissions\<close>

text \<open>
  \<open>runs ps p\<close>: with permission for the ports \<open>ps\<close> the command returns on any hardware, and no permission is given back.
\<close>

definition runs :: "int set \<Rightarrow> ('h, 'a) smprog \<Rightarrow> bool" where
  "runs ps p \<longleftrightarrow> (\<forall>s. ps \<subseteq> set (granted s) \<longrightarrow> (\<exists>x s'. p s = Inr (x, s') \<and> set (granted s) \<subseteq> set (granted s')))"

lemma runs_basic:
  "runs ps (ret x)" "runs ps skip" "runs ps (tell v t)" "runs ps (hub_read P r)" "runs ps (hub_write P r w)"
  "runs ps (hub_write_byte P r b)"
  by (auto simp: runs_def ret_def skip_def tell_def whenc_def modify_def hub_read_def gets_def hub_write_def
      hub_write_byte_def)

lemma runs_port: "p \<in> ps \<Longrightarrow> runs ps (sm_inb B p)" "p \<in> ps \<Longrightarrow> runs ps (sm_outb B n p)"
  by (auto simp: runs_def sm_inb_def sm_outb_def split: prod.split)

lemma runs_bnd: "runs ps m \<Longrightarrow> (\<And>x. runs ps (f x)) \<Longrightarrow> runs ps (bnd m f)"
proof -
  assume m: "runs ps m" and f: "\<And>x. runs ps (f x)"
  show ?thesis
    unfolding runs_def
  proof (intro allI impI)
    fix s :: "'a sm"
    assume s: "ps \<subseteq> set (granted s)"
    obtain x s1 where 1: "m s = Inr (x, s1)" "set (granted s) \<subseteq> set (granted s1)"
      using m s unfolding runs_def by blast
    then obtain y s2 where 2: "f x s1 = Inr (y, s2)" "set (granted s1) \<subseteq> set (granted s2)"
      using f [of x] subset_trans [OF s 1(2)] unfolding runs_def by blast
    show "\<exists>x s'. bnd m f s = Inr (x, s') \<and> set (granted s) \<subseteq> set (granted s')"
      using 1(1) 2(1) subset_trans [OF 1(2) 2(2)] by (simp add: bnd_def)
  qed
qed

lemma runs_seq: "runs ps m \<Longrightarrow> runs ps n \<Longrightarrow> runs ps (seq m n)"
  by (simp add: seq_def runs_bnd)

lemma runs_if: "(b \<Longrightarrow> runs ps m) \<Longrightarrow> (\<not> b \<Longrightarrow> runs ps n) \<Longrightarrow> runs ps (if b then m else n)"
  by simp

lemmas runs_intro = runs_basic runs_port runs_bnd runs_seq runs_if

lemma runs_program: "runs {base, base + 1} (program_chip B base sir fir q d verb)"
  unfolding program_chip_def set_checked_def finish_chip_def update_reg_def by (intro runs_intro) simp_all

lemma runs_hub: "runs {} (set_hub P verb)"
  unfolding set_hub_def by (intro runs_intro)

lemma find_base_run:
  "\<exists>f i s'. find_base B bases l s = Inr ((f, i), s') \<and> (\<forall>b c. f = Some (b, c) \<longrightarrow> {b, b + 1} \<subseteq> set (granted s'))"
proof (induction bases arbitrary: l s)
  case (Cons base bases)
  let ?s = "s\<lparr>granted := granted s @ [base..base + 2 - 1]\<rparr>"
  have "runs {base, base + 1} (seq (sm_outb B 0x55 base) (seq (sm_outb B 0x0d base) (sm_inb B (base + 1))))"
    by (intro runs_intro) simp_all
  moreover have sub: "{base, base + 1} \<subseteq> set (granted ?s)" by auto
  ultimately obtain i s1 where r: "seq (sm_outb B 0x55 base) (seq (sm_outb B 0x0d base) (sm_inb B (base + 1))) ?s = Inr (i, s1)"
    "{base, base + 1} \<subseteq> set (granted s1)"
    using sub unfolding runs_def by (meson subset_trans)
  have e: "find_base B (base # bases) l s =
      (if i = 0x5a \<or> i = 0x7a then ret (Some (base, i), i) else find_base B bases i) s1"
    using r(1) by (auto simp: seq_def bnd_def ioperm_def modify_def split: sum.splits)
  show ?case
  proof (cases "i = 0x5a \<or> i = 0x7a")
    case True
    with e r(2) show ?thesis by (auto simp: ret_def)
  next
    case False
    with e Cons.IH [of i s1] show ?thesis by simp
  qed
qed (simp add: ret_def)

text \<open>C34: The set-up only uses ports it has asked permission for: run by root it returns on any hardware, whatever the
  hub and the chips answer.\<close>

theorem set_smc_returns: "\<exists>r s'. set_smc B P True sio fio q d verb s = Inr (r, s')"
proof -
  obtain ok s1 where h: "set_hub P verb s = Inr (ok, s1)" using runs_hub unfolding runs_def by blast
  obtain f i s2 where b: "find_base B [0x2e, 0x4e] 0 s1 = Inr ((f, i), s2)"
    "\<And>base c. f = Some (base, c) \<Longrightarrow> {base, base + 1} \<subseteq> set (granted s2)"
    using find_base_run [of B "[0x2e, 0x4e]" 0 s1] by blast
  show ?thesis
  proof (cases f)
    case None
    with h b show ?thesis by (cases ok) (simp_all add: set_smc_def bnd_def ret_def)
  next
    case (Some p)
    then obtain base c where p: "f = Some (base, c)" by (cases p) simp
    have "runs {base, base + 1} (seq (tell verb (''Detected smc_base: 0x'' @ fmt_xi base @ '' '' @ nl @ '' '' @ nl))
        (seq (tell verb (''Detected Chip id: 0x'' @ fmt_xi c @ '' '' @ nl @ '' '' @ nl))
        (program_chip B base (sir_field sio) (fir_field fio) q d verb)))"
      by (intro runs_intro runs_program)
    then obtain r s3 where "seq (tell verb (''Detected smc_base: 0x'' @ fmt_xi base @ '' '' @ nl @ '' '' @ nl))
        (seq (tell verb (''Detected Chip id: 0x'' @ fmt_xi c @ '' '' @ nl @ '' '' @ nl))
        (program_chip B base (sir_field sio) (fir_field fio) q d verb)) s2 = Inr (r, s3)"
      using b(2) [OF p] unfolding runs_def by blast
    with h b(1) p show ?thesis by (cases ok) (simp_all add: set_smc_def bnd_def ret_def)
  qed
qed

subsection \<open>Numbers on the command line\<close>

text \<open>The numbers the program prints for its settings are accepted as arguments and give the same settings: the
  I/O addresses in hexadecimal with their prefix, interrupt and DMA channel in decimal.\<close>

theorem printed_number_read_back:
  "number_arg (''0x'' @ fmt_x (uint w)) = Some w \<and> number_arg (fmt_d (uint w)) = Some w"
proof -
  have "0 \<le> uint w" "uint w < 2 ^ 32" using unsigned_less [of w, where ?'a = int] by simp_all
  then have "strtoul_0 64 (''0x'' @ fmt_x (uint w)) = (uint w, [])" "strtoul_0 64 (fmt_d (uint w)) = (uint w, [])"
    by (intro strtoul_0_hex strtoul_0_dec; simp)+
  then show ?thesis by (simp add: number_arg_def fmt_d_not_Nil)
qed

end
