(* ===== verification/Toshiba.thy ===== *)
theory Toshiba
  imports Smcinit
begin

text \<open>
  The set-up program for laptops with an ALi 1533 bridge, \<^verbatim>\<open>irda-utils/smcinit/tosh1800-smcinit.c\<close>: the chip is configured through its
  ports as in \<open>Smcinit\<close>, then the bridge is told to decode the ports. The last section has \<^verbatim>\<open>tosh2450-smcinit.c\<close>, which writes fixed
  settings to hub and chip. The PCI library, the permission for ports and the hardware are parameters. Messages to the
  system log and on the standard error, the usage text and debug messages are left out.
\<close>

section \<open>Model\<close>

subsection \<open>The bridge\<close>

record port_info =
  pi_port :: int
  pi_reg :: byte
  pi_mask :: byte

definition ali1533_ports :: "port_info list" where
  "ali1533_ports =
     [\<lparr>pi_port = 0x130, pi_reg = 0xb0, pi_mask = 0x80\<rparr>, \<lparr>pi_port = 0x178, pi_reg = 0xb0, pi_mask = 0x80\<rparr>,
      \<lparr>pi_port = 0x3f8, pi_reg = 0xb4, pi_mask = 0x80\<rparr>, \<lparr>pi_port = 0x2f8, pi_reg = 0xb4, pi_mask = 0x30\<rparr>,
      \<lparr>pi_port = 0x2e8, pi_reg = 0xb4, pi_mask = 0x08\<rparr>]"

text \<open>\<^verbatim>\<open>pci_read_byte\<close> and \<^verbatim>\<open>pci_write_byte\<close> for one device.\<close>

record 'h bridge =
  br_read :: "byte \<Rightarrow> 'h \<Rightarrow> byte"
  br_write :: "byte \<Rightarrow> byte \<Rightarrow> 'h \<Rightarrow> 'h"

definition br_get :: "'h bridge \<Rightarrow> byte \<Rightarrow> ('h, byte) smprog" where
  "br_get D r = gets (\<lambda>s. br_read D r (sm_hw s))"

definition br_put :: "'h bridge \<Rightarrow> byte \<Rightarrow> byte \<Rightarrow> ('h, unit) smprog" where
  "br_put D r v = modify (\<lambda>s. s\<lparr>sm_hw := br_write D r v (sm_hw s), log := log s @ [Pci_Byte (uint r) v]\<rparr>)"

definition find_ali1533_port_access_info :: "int \<Rightarrow> port_info option" where
  "find_ali1533_port_access_info port = find (\<lambda>p. pi_port p = port) ali1533_ports"

fun print_ports :: "'h bridge \<Rightarrow> port_info list \<Rightarrow> ('h, unit) smprog" where
  "print_ports D [] = skip"
| "print_ports D (p # ps) =
     bnd (br_get D (pi_reg p)) (\<lambda>onebyte.
     seq (tell True (''port 0x'' @ fmt_xi (pi_port p) @ '' '' @ (if onebyte AND pi_mask p \<noteq> 0 then ''enabled'' else ''disabled'') @ nl))
     (print_ports D ps))"

definition print_ali1533_port_status :: "'h bridge \<Rightarrow> ('h, int) smprog" where
  "print_ali1533_port_status D =
     seq (tell True (''ALi 1533 Decoding status:'' @ nl))
     (seq (print_ports D ali1533_ports)
     (ret 0))"

definition set_ali1533_port :: "'h bridge \<Rightarrow> int \<Rightarrow> bool \<Rightarrow> ('h, int) smprog" where
  "set_ali1533_port D port decode =
     (case find_ali1533_port_access_info port of
        None \<Rightarrow> ret (-1)
      | Some info \<Rightarrow>
          bnd (br_get D (pi_reg info)) (\<lambda>previousval.
          seq (br_put D (pi_reg info)
            (if decode then (previousval AND NOT (pi_mask info)) OR pi_mask info else previousval AND NOT (pi_mask info)))
          (ret (if previousval AND pi_mask info \<noteq> 0 then 1 else 0))))"

text \<open>The first device the filter of the PCI library matches. \<open>alloc\<close>: is there access to the bus?\<close>

definition find_pci_device :: "('d \<Rightarrow> bool) \<Rightarrow> 'd list \<Rightarrow> 'd option" where
  "find_pci_device matches devices = find matches devices"

definition configure_ali1533_smc_ports_decoding ::
  "bool \<Rightarrow> (int \<Rightarrow> int \<Rightarrow> 'h bridge \<Rightarrow> bool) \<Rightarrow> 'h bridge list \<Rightarrow> int \<Rightarrow> int \<Rightarrow> int \<Rightarrow> int \<Rightarrow> bool \<Rightarrow> ('h, int) smprog" where
  "configure_ali1533_smc_ports_decoding alloc matches devices vendor_id device_id firbase sirbase print =
     (if \<not> alloc then ret 0
      else
        case find_pci_device (matches vendor_id device_id) devices of
          None \<Rightarrow> ret 0
        | Some D \<Rightarrow>
            if print then seq (print_ali1533_port_status D) (ret 1)
            else seq (set_ali1533_port D sirbase True) (seq (set_ali1533_port D firbase True) (ret 1)))"

subsection \<open>The chip\<close>

definition set_reg :: "'h bus \<Rightarrow> int \<Rightarrow> int \<Rightarrow> int \<Rightarrow> ('h, unit) smprog" where
  "set_reg B base r v = seq (sm_outb B r base) (sm_outb B v (base + 1))"

text \<open>\<open>perm\<close>: is the permission for the ports given?\<close>

definition configure_47N227_smc_ircc :: "'h bus \<Rightarrow> bool \<Rightarrow> int \<Rightarrow> int \<Rightarrow> int \<Rightarrow> int \<Rightarrow> int \<Rightarrow> ('h, int) smprog" where
  "configure_47N227_smc_ircc B perm cfgbase sirbase firbase dma_no irq_no =
     (if \<not> perm then ret 0
      else
        seq (ioperm cfgbase 2)
        (seq (sm_outb B 0x55 cfgbase)
        (seq (set_reg B cfgbase 0x25 (drop_bit 2 sirbase))
        (seq (set_reg B cfgbase 0x2b (drop_bit 3 firbase))
        (seq (set_reg B cfgbase 0x2c (dma_no AND 0x0f))
        (seq (update_reg B cfgbase 0x28 (\<lambda>i. (i AND 0xf0) OR (irq_no AND 0x0f)))
        (seq (update_reg B cfgbase 0x0c (\<lambda>i. i AND (NOT 0x38 OR 0x08)))
        (seq (update_reg B cfgbase 0x07 (\<lambda>i. i OR 0x20))
        (seq (update_reg B cfgbase 0x02 (\<lambda>i. i OR 0x80))
        (seq (update_reg B cfgbase 0x00 (\<lambda>i. i OR 0x80))
        (seq (sm_outb B 0xaa cfgbase)
        (ret 1))))))))))))"

record 'h smc_chip_model =
  chip_name :: string
  version_id :: int
  config_function :: "'h bus \<Rightarrow> bool \<Rightarrow> int \<Rightarrow> int \<Rightarrow> int \<Rightarrow> int \<Rightarrow> int \<Rightarrow> ('h, int) smprog"

definition smc_chips :: "'h smc_chip_model list" where
  "smc_chips = [\<lparr>chip_name = ''LPC47N227'', version_id = 0x5a, config_function = configure_47N227_smc_ircc\<rparr>]"

definition find_smc_chip_model :: "'h smc_chip_model list \<Rightarrow> int \<Rightarrow> 'h smc_chip_model option" where
  "find_smc_chip_model chips v = find (\<lambda>c. version_id c = v) chips"

definition configure_smc_ircc :: "'h bus \<Rightarrow> bool \<Rightarrow> int \<Rightarrow> int \<Rightarrow> int \<Rightarrow> int \<Rightarrow> int \<Rightarrow> ('h, int) smprog" where
  "configure_smc_ircc B perm cfgbase sirbase firbase dma_no irq_no =
     (if \<not> perm then ret 0
      else
        seq (ioperm cfgbase 2)
        (seq (sm_outb B 0x55 cfgbase)
        (seq (sm_outb B 0x0d cfgbase)
        (bnd (sm_inb B (cfgbase + 1)) (\<lambda>v.
        seq (sm_outb B 0x0e cfgbase)
        (bnd (sm_inb B (cfgbase + 1)) (\<lambda>revision.
        seq (sm_outb B 0xaa cfgbase)
        (case find_smc_chip_model smc_chips v of
           None \<Rightarrow> ret 0
         | Some c \<Rightarrow> seq (config_function c B perm cfgbase sirbase firbase dma_no irq_no) (ret 1)))))))))"

subsection \<open>Main program\<close>

record tosh_opts =
  t_cfgbase :: int
  t_sirbase :: int
  t_firbase :: int
  t_dma :: int
  t_irq :: int
  t_vendor :: int
  t_device :: int
  t_actions :: int

definition tosh_default :: tosh_opts where
  "tosh_default = \<lparr>t_cfgbase = 0x2e, t_sirbase = 0x2e8, t_firbase = 0x2f8, t_dma = 3, t_irq = 7, t_vendor = 0x10b9,
     t_device = 0x1533, t_actions = 1 OR 2\<rparr>"

text \<open>\<^verbatim>\<open>strtoul(optarg, NULL, 0)\<close> stored as an \<^verbatim>\<open>int\<close>.\<close>

definition int_arg :: "string \<Rightarrow> int" where
  "int_arg optarg = sint (word_of_int (fst (strtoul_0 64 optarg)) :: u32)"

definition tosh_option :: "char \<Rightarrow> string \<Rightarrow> tosh_opts \<Rightarrow> c_fault + tosh_opts" where
  "tosh_option opt optarg o1 =
     (if opt = CHR ''a'' then Inr (o1\<lparr>t_actions := t_actions o1 AND NOT 1\<rparr>)
      else if opt = CHR ''b'' then Inr (o1\<lparr>t_actions := t_actions o1 AND NOT 2\<rparr>)
      else if opt = CHR ''p'' then Inr (o1\<lparr>t_actions := t_actions o1 OR 4\<rparr>)
      else if opt = CHR ''v'' then Inr (o1\<lparr>t_vendor := int_arg optarg\<rparr>)
      else if opt = CHR ''x'' then Inr (o1\<lparr>t_device := int_arg optarg\<rparr>)
      else if opt = CHR ''c'' then Inr (o1\<lparr>t_cfgbase := int_arg optarg\<rparr>)
      else if opt = CHR ''s'' then Inr (o1\<lparr>t_sirbase := int_arg optarg\<rparr>)
      else if opt = CHR ''f'' then Inr (o1\<lparr>t_firbase := int_arg optarg\<rparr>)
      else if opt = CHR ''m'' then Inr (o1\<lparr>t_dma := int_arg optarg\<rparr>)
      else if opt = CHR ''i'' then Inr (o1\<lparr>t_irq := int_arg optarg\<rparr>)
      else if opt = CHR ''V'' then Inl (Exit_With 0)
      else if opt = CHR ''h'' then Inl (Exit_With 0)
      else Inr o1)"

fun tosh_options :: "(char \<times> string) list \<Rightarrow> tosh_opts \<Rightarrow> c_fault + tosh_opts" where
  "tosh_options [] o1 = Inr o1"
| "tosh_options ((c, optarg) # os) o1 = (case tosh_option c optarg o1 of Inl e \<Rightarrow> Inl e | Inr o2 \<Rightarrow> tosh_options os o2)"

text \<open>The result is the exit status.\<close>

definition tosh_main ::
  "'h bus \<Rightarrow> bool \<Rightarrow> bool \<Rightarrow> (int \<Rightarrow> int \<Rightarrow> 'h bridge \<Rightarrow> bool) \<Rightarrow> 'h bridge list \<Rightarrow> bool \<Rightarrow> (char \<times> string) list \<Rightarrow> ('h, int) smprog" where
  "tosh_main B perm alloc matches devices is_root opts =
     (case tosh_options opts tosh_default of
        Inl e \<Rightarrow> fault e
      | Inr o1 \<Rightarrow>
          if \<not> is_root then fault (Exit_With 1)
          else
            bnd (if t_actions o1 AND 2 \<noteq> 0
                 then configure_smc_ircc B perm (t_cfgbase o1) (t_sirbase o1) (t_firbase o1) (t_dma o1) (t_irq o1)
                 else ret 0) (\<lambda>r1.
            bnd (if t_actions o1 AND 1 \<noteq> 0 \<and> r1 \<noteq> 0
                 then configure_ali1533_smc_ports_decoding alloc matches devices (t_vendor o1) (t_device o1)
                   (t_firbase o1) (t_sirbase o1) (t_actions o1 AND 4 \<noteq> 0)
                 else ret r1) (\<lambda>r2.
            ret (if r2 = 0 then 1 else 0))))"

section \<open>The bridge decodes the ports\<close>

text \<open>The documented behaviour of the configuration space: a write changes the register written to.\<close>

definition byte_regs :: "'h bridge \<Rightarrow> bool" where
  "byte_regs D \<longleftrightarrow> (\<forall>r v h q. br_read D q (br_write D r v h) = (if q = r then v else br_read D q h))"

lemma set_port_run:
  assumes "byte_regs D" "find_ali1533_port_access_info port = Some i"
  shows "\<exists>s'. set_ali1533_port D port True s = Inr (if br_read D (pi_reg i) (sm_hw s) AND pi_mask i \<noteq> 0 then 1 else 0, s') \<and>
    (\<forall>q. br_read D q (sm_hw s') = (if q = pi_reg i then br_read D q (sm_hw s) OR pi_mask i else br_read D q (sm_hw s)))"
proof -
  have "(a AND NOT m) OR m = a OR m" for a m :: byte by (rule bit_word_eqI) (auto simp: bit_simps)
  then show ?thesis
    using assms by (simp add: set_ali1533_port_def br_get_def br_put_def seq_def bnd_def gets_def modify_def ret_def byte_regs_def)
qed
text \<open>With the bridge found and both addresses known to it, decoding of both is enabled and nothing else of its
  registers changes.\<close>

theorem bridge_decodes_ports:
  assumes "byte_regs D" "find_pci_device (matches v d) devices = Some D"
    "find_ali1533_port_access_info sirbase = Some i" "find_ali1533_port_access_info firbase = Some j"
  shows "\<exists>s'. configure_ali1533_smc_ports_decoding True matches devices v d firbase sirbase False s = Inr (1, s') \<and>
    (\<forall>q. br_read D q (sm_hw s') = br_read D q (sm_hw s) OR (if q = pi_reg i then pi_mask i else 0) OR (if q = pi_reg j then pi_mask j else 0))"
proof -
  obtain r1 s1 where 1: "set_ali1533_port D sirbase True s = Inr (r1, s1)"
    "\<And>q. br_read D q (sm_hw s1) = (if q = pi_reg i then br_read D q (sm_hw s) OR pi_mask i else br_read D q (sm_hw s))"
    using set_port_run [OF assms(1,3)] by blast
  obtain r2 s2 where 2: "set_ali1533_port D firbase True s1 = Inr (r2, s2)"
    "\<And>q. br_read D q (sm_hw s2) = (if q = pi_reg j then br_read D q (sm_hw s1) OR pi_mask j else br_read D q (sm_hw s1))"
    using set_port_run [OF assms(1,4)] by blast
  show ?thesis
    using 1 2 assms(2) by (simp add: configure_ali1533_smc_ports_decoding_def seq_def bnd_def ret_def or.assoc)
qed

definition array_bridge :: "(byte \<Rightarrow> byte) bridge" where
  "array_bridge = \<lparr>br_read = (\<lambda>r h. h r), br_write = (\<lambda>r v h. h(r := v))\<rparr>"

theorem bridge_decodes_ports_witness:
  "\<exists>s'. configure_ali1533_smc_ports_decoding True (\<lambda>v d D. v = 0x10b9 \<and> d = 0x1533) [array_bridge] 0x10b9 0x1533 0x2f8 0x2e8 False
      (new_sm (\<lambda>r. 0x80) []) = Inr (1, s') \<and> br_read array_bridge 0xb4 (sm_hw s') = 0xb8"
proof -
  have i: "find_ali1533_port_access_info 0x2e8 = Some \<lparr>pi_port = 0x2e8, pi_reg = 0xb4, pi_mask = 0x08\<rparr>"
    "find_ali1533_port_access_info 0x2f8 = Some \<lparr>pi_port = 0x2f8, pi_reg = 0xb4, pi_mask = 0x30\<rparr>"
    by (simp_all add: find_ali1533_port_access_info_def ali1533_ports_def)
  have "byte_regs array_bridge" by (simp add: byte_regs_def array_bridge_def)
  from bridge_decodes_ports [OF this _ i, of "\<lambda>v d D. v = 0x10b9 \<and> d = 0x1533" "0x10b9" "0x1533" "[array_bridge]" "new_sm (\<lambda>r. 0x80) []"]
  show ?thesis by (auto simp: find_pci_device_def new_sm_def array_bridge_def)
qed

section \<open>The chip is configured\<close>

lemma set_reg_run:
  assumes P: "reg_port B base regs sel opened" and g: "base \<in> set (granted s)" "base + 1 \<in> set (granted s)" "opened (sm_hw s)"
    and r: "(word_of_int r :: byte) \<in> set cfg_regs"
  shows "\<exists>s'. set_reg B base r v s = Inr ((), s') \<and> regs (sm_hw s') = (regs (sm_hw s))(word_of_int r := word_of_int v) \<and>
    granted s' = granted s \<and> opened (sm_hw s')"
proof -
  obtain s1 where 1: "sm_outb B r base s = Inr ((), s1)" "regs (sm_hw s1) = regs (sm_hw s)" "sel (sm_hw s1) = word_of_int r"
    "granted s1 = granted s" "opened (sm_hw s1)" using select_run [OF P g(1,3) cfg_regs_not_exit [OF r]] by auto
  obtain s2 where "sm_outb B v (base + 1) s1 = Inr ((), s2)" "regs (sm_hw s2) = (regs (sm_hw s))(word_of_int r := word_of_int v)"
    "granted s2 = granted s" "opened (sm_hw s2)" using port_write_run [OF P, of s1 v] g(2) r 1 by auto
  then show ?thesis using 1(1) by (simp add: set_reg_def seq_def bnd_def)
qed

text \<open>What the registers hold in the end.\<close>

definition tosh_regs :: "(byte \<Rightarrow> byte) \<Rightarrow> int \<Rightarrow> int \<Rightarrow> int \<Rightarrow> int \<Rightarrow> byte \<Rightarrow> byte" where
  "tosh_regs r sirbase firbase dma_no irq_no = r(0x25 := word_of_int (drop_bit 2 sirbase), 0x2b := word_of_int (drop_bit 3 firbase),
     0x2c := word_of_int (dma_no AND 0x0f), 0x28 := (r 0x28 AND 0xf0) OR word_of_int (irq_no AND 0x0f),
     0x0c := r 0x0c AND 0xcf, 0x07 := r 0x07 OR 0x20, 0x02 := r 0x02 OR 0x80, 0x00 := r 0x00 OR 0x80)"

lemma tosh_ops:
  "word_of_int ((uint b AND 0xf0) OR n) = ((b :: byte) AND 0xf0) OR word_of_int n"
  "word_of_int (uint b AND (NOT 0x38 OR 0x08)) = (b :: byte) AND 0xcf"
proof -
  have e: "(- 49 :: byte) = 0xcf" by code_simp
  show "word_of_int (uint b AND (NOT 0x38 OR 0x08)) = (b :: byte) AND 0xcf"
    by (simp add: of_int_and_eq) (simp only: e)
qed (simp add: of_int_and_eq of_int_or_eq)

lemma configure_run:
  assumes P: "reg_port B base regs sel opened"
  shows "\<exists>s'. configure_47N227_smc_ircc B True base sirbase firbase dma_no irq_no s = Inr (1, s') \<and>
    regs (sm_hw s') = tosh_regs (regs (sm_hw s)) sirbase firbase dma_no irq_no \<and> \<not> opened (sm_hw s') \<and>
    last (log s') = Port (Out base 0xaa)"
proof -
  define s0 where "s0 = s\<lparr>granted := granted s @ [base..base + 2 - 1]\<rparr>"
  have g: "base \<in> set (granted s0)" "base + 1 \<in> set (granted s0)" by (simp_all add: s0_def)
  obtain s1 where 1: "sm_outb B 0x55 base s0 = Inr ((), s1)" "regs (sm_hw s1) = regs (sm_hw s)" "granted s1 = granted s0" "opened (sm_hw s1)"
    using key_run [OF P g(1)] by (auto simp: s0_def)
  obtain s2 where 2: "set_reg B base 0x25 (drop_bit 2 sirbase) s1 = Inr ((), s2)"
    "regs (sm_hw s2) = (regs (sm_hw s1))(0x25 := word_of_int (drop_bit 2 sirbase))" "granted s2 = granted s0" "opened (sm_hw s2)"
    using set_reg_run [OF P, of s1 "0x25"] g 1(3,4) by (auto simp: cfg_regs_def)
  obtain s3 where 3: "set_reg B base 0x2b (drop_bit 3 firbase) s2 = Inr ((), s3)"
    "regs (sm_hw s3) = (regs (sm_hw s2))(0x2b := word_of_int (drop_bit 3 firbase))" "granted s3 = granted s0" "opened (sm_hw s3)"
    using set_reg_run [OF P, of s2 "0x2b"] g 2(3,4) by (auto simp: cfg_regs_def)
  obtain s4 where 4: "set_reg B base 0x2c (dma_no AND 0x0f) s3 = Inr ((), s4)"
    "regs (sm_hw s4) = (regs (sm_hw s3))(0x2c := word_of_int (dma_no AND 0x0f))" "granted s4 = granted s0" "opened (sm_hw s4)"
    using set_reg_run [OF P, of s3 "0x2c"] g 3(3,4) by (auto simp: cfg_regs_def)
  obtain s5 where 5: "update_reg B base 0x28 (\<lambda>i. (i AND 0xf0) OR (irq_no AND 0x0f)) s4 = Inr ((), s5)"
    "regs (sm_hw s5) = (regs (sm_hw s4))(0x28 := (regs (sm_hw s) 0x28 AND 0xf0) OR word_of_int (irq_no AND 0x0f))" "granted s5 = granted s0" "opened (sm_hw s5)"
    using update_run [OF P, of s4 "0x28" "\<lambda>i. (i AND 0xf0) OR (irq_no AND 0x0f)"] g 1(2) 2(2) 3(2) 4 by (auto simp: tosh_ops cfg_regs_def)
  obtain s6 where 6: "update_reg B base 0x0c (\<lambda>i. i AND (NOT 0x38 OR 0x08)) s5 = Inr ((), s6)"
    "regs (sm_hw s6) = (regs (sm_hw s5))(0x0c := regs (sm_hw s) 0x0c AND 0xcf)" "granted s6 = granted s0" "opened (sm_hw s6)"
    using update_run [OF P, of s5 "0x0c" "\<lambda>i. i AND (NOT 0x38 OR 0x08)"] g 1(2) 2(2) 3(2) 4(2) 5 unfolding tosh_ops by (auto simp: cfg_regs_def)
  obtain s7 where 7: "update_reg B base 0x07 (\<lambda>i. i OR 0x20) s6 = Inr ((), s7)"
    "regs (sm_hw s7) = (regs (sm_hw s6))(0x07 := regs (sm_hw s) 0x07 OR 0x20)" "granted s7 = granted s0" "opened (sm_hw s7)"
    using update_run [OF P, of s6 "0x07" "\<lambda>i. i OR 0x20"] g 1(2) 2(2) 3(2) 4(2) 5(2) 6 by (auto simp: byte_ops cfg_regs_def)
  obtain s8 where 8: "update_reg B base 0x02 (\<lambda>i. i OR 0x80) s7 = Inr ((), s8)"
    "regs (sm_hw s8) = (regs (sm_hw s7))(0x02 := regs (sm_hw s) 0x02 OR 0x80)" "granted s8 = granted s0" "opened (sm_hw s8)"
    using update_run [OF P, of s7 "0x02" "\<lambda>i. i OR 0x80"] g 1(2) 2(2) 3(2) 4(2) 5(2) 6(2) 7 by (auto simp: byte_ops cfg_regs_def)
  obtain s9 where 9: "update_reg B base 0x00 (\<lambda>i. i OR 0x80) s8 = Inr ((), s9)"
    "regs (sm_hw s9) = (regs (sm_hw s8))(0x00 := regs (sm_hw s) 0x00 OR 0x80)" "granted s9 = granted s0" "opened (sm_hw s9)"
    using update_run [OF P, of s8 "0x00" "\<lambda>i. i OR 0x80"] g 1(2) 2(2) 3(2) 4(2) 5(2) 6(2) 7(2) 8 by (auto simp: byte_ops cfg_regs_def)
  obtain s10 where 10: "sm_outb B 0xaa base s9 = Inr ((), s10)" "regs (sm_hw s10) = regs (sm_hw s9)" "\<not> opened (sm_hw s10)"
    "log s10 = log s9 @ [Port (Out base 0xaa)]"
    using close_run [OF P, of s9] g 9(3,4) by auto
  have "regs (sm_hw s10) = tosh_regs (regs (sm_hw s)) sirbase firbase dma_no irq_no"
    unfolding 10(2) 9(2) 8(2) 7(2) 6(2) 5(2) 4(2) 3(2) 2(2) 1(2) tosh_regs_def ..
  moreover have "ioperm base 2 s = Inr ((), s0)" by (simp add: ioperm_def modify_def s0_def)
  ultimately show ?thesis
    using 1(1) 2(1) 3(1) 4(1) 5(1) 6(1) 7(1) 8(1) 9(1) 10
    by (simp add: configure_47N227_smc_ircc_def seq_def bnd_def ret_def del: of_int_not_eq)
qed

lemma configure_smc_run:
  assumes P: "reg_port B base regs sel opened" and v: "regs (sm_hw s) 0x0d = 0x5a"
  shows "\<exists>s'. configure_smc_ircc B True base sirbase firbase dma_no irq_no s = Inr (1, s') \<and>
    regs (sm_hw s') = tosh_regs (regs (sm_hw s)) sirbase firbase dma_no irq_no \<and> \<not> opened (sm_hw s') \<and>
    last (log s') = Port (Out base 0xaa)"
proof -
  define s0 where "s0 = s\<lparr>granted := granted s @ [base..base + 2 - 1]\<rparr>"
  have g: "base \<in> set (granted s0)" "base + 1 \<in> set (granted s0)" by (simp_all add: s0_def)
  have p: "ioperm base 2 s = Inr ((), s0)" by (simp add: ioperm_def modify_def s0_def)
  obtain s1 where 1: "sm_outb B 0x55 base s0 = Inr ((), s1)" "regs (sm_hw s1) = regs (sm_hw s)" "granted s1 = granted s0" "opened (sm_hw s1)"
    using key_run [OF P g(1)] by (auto simp: s0_def)
  obtain s2 where 2: "sm_outb B 0x0d base s1 = Inr ((), s2)" "regs (sm_hw s2) = regs (sm_hw s)" "sel (sm_hw s2) = 0x0d"
    "granted s2 = granted s0" "opened (sm_hw s2)" using select_run [OF P, of s1 "0x0d"] g 1 by auto
  obtain s3 where 3: "sm_inb B (base + 1) s2 = Inr (0x5a, s3)" "regs (sm_hw s3) = regs (sm_hw s)" "granted s3 = granted s0" "opened (sm_hw s3)"
    using port_read_run [OF P, of s2] g 2 v by auto
  obtain s4 where 4: "sm_outb B 0x0e base s3 = Inr ((), s4)" "regs (sm_hw s4) = regs (sm_hw s)" "granted s4 = granted s0" "opened (sm_hw s4)"
    using select_run [OF P, of s3 "0x0e"] g 3 by auto
  obtain x s5 where 5: "sm_inb B (base + 1) s4 = Inr (x, s5)" "regs (sm_hw s5) = regs (sm_hw s)" "granted s5 = granted s0" "opened (sm_hw s5)"
    using port_read_run [OF P, of s4] g 4 by auto
  obtain s6 where 6: "sm_outb B 0xaa base s5 = Inr ((), s6)" "regs (sm_hw s6) = regs (sm_hw s)"
    using close_run [OF P, of s5] g 5 by auto
  obtain s7 where 7: "configure_47N227_smc_ircc B True base sirbase firbase dma_no irq_no s6 = Inr (1, s7)"
    "regs (sm_hw s7) = tosh_regs (regs (sm_hw s)) sirbase firbase dma_no irq_no" "\<not> opened (sm_hw s7)"
    "last (log s7) = Port (Out base 0xaa)"
    using configure_run [OF P, of sirbase firbase dma_no irq_no s6] 6(2) by auto
  show ?thesis
    using p 1(1) 2(1) 3(1) 4(1) 5(1) 6(1) 7
    by (simp add: configure_smc_ircc_def find_smc_chip_model_def smc_chips_def seq_def bnd_def ret_def)
qed

lemma low_bits: "0 \<le> n \<Longrightarrow> n < 16 \<Longrightarrow> n AND 0x0f = (n :: int)"
  using take_bit_eq_mask [of 4 n] take_bit_int_eq_self [of n 4] by (simp add: mask_eq_exp_minus_1)

lemma irq_field:
  assumes "0 \<le> n" "n < 16"
  shows "uint (((b :: byte) AND 0xf0) OR word_of_int (n AND 0x0f)) AND 0x0f = n"
proof -
  have "(b AND 0xf0 OR w) AND 0x0f = w AND 0x0f" for w
    by (simp add: bit.conj_disj_distrib2 and.assoc)
  moreover have "uint (w AND 0x0f) = uint w AND 0x0f" for w :: byte by (simp add: unsigned_and_eq)
  ultimately have "uint (b AND 0xf0 OR w) AND 0x0f = uint w AND 0x0f" for w by metis
  then show ?thesis using assms by (simp add: low_bits in_byte)
qed



text \<open>The mode of the second serial port, which the program means to set to infrared, is only masked: unless its infrared
  bit is set already the port stays an ordinary serial port.\<close>

theorem infrared_mode_not_set:
  fixes B :: "'h bus"
  assumes "reg_port B base regs sel opened" "regs (sm_hw s) 0x0d = 0x5a" "regs (sm_hw s) 0x0c AND 0x08 = 0"
  shows "\<exists>s'. configure_smc_ircc B True base sirbase firbase dma_no irq_no s = Inr (1, s') \<and> regs (sm_hw s') 0x0c AND 0x38 = 0"
proof -
  have m: "((b :: byte) AND 0xcf) AND 0x38 = b AND 0x08" for b by (simp add: and.assoc)
  show ?thesis
    using configure_smc_run [OF assms(1,2), of sirbase firbase dma_no irq_no] assms(3)
    by (auto simp: tosh_regs_def m)
qed

theorem infrared_mode_not_set_witness:
  "\<exists>s'. configure_smc_ircc (mode_chip 0x2e) True 0x2e 0x2e8 0x2f8 3 7
      (new_sm (moded False (\<lambda>i. if i = 0x0d then 0x5a else 0)) []) = Inr (1, s') \<and> reg_file (sm_hw s') 0x0c AND 0x38 = 0"
  using infrared_mode_not_set [OF mode_chip_port [of "0x2e"], of "new_sm (moded False (\<lambda>i. if i = 0x0d then 0x5a else 0)) []"]
  by (simp add: new_sm_def moded_def)

text \<open>When the set-up of the chip is skipped the bridge is not configured either: the program ends with a failure and
  without any access to the hardware.\<close>

theorem skipping_chip_skips_bridge:
  assumes "tosh_options opts tosh_default = Inr o1" "t_actions o1 AND 2 = 0"
  shows "tosh_main B perm alloc matches devices True opts s = Inr (1, s)"
  using assms by (simp add: tosh_main_def bnd_def ret_def)

theorem skipping_chip_skips_bridge_witness:
  "tosh_main (reg_chip 0x2e 0x2f) True True (\<lambda>v d D. True) [] True [(CHR ''b'', [])] (new_sm (hw (chip_at_rest (\<lambda>i. 0))) []) =
     Inr (1, new_sm (hw (chip_at_rest (\<lambda>i. 0))) [])"
proof -
  have "tosh_options [(CHR ''b'', [])] tosh_default = Inr (tosh_default\<lparr>t_actions := 1\<rparr>)"
    by (simp add: tosh_option_def tosh_default_def)
  from skipping_chip_skips_bridge [OF this] show ?thesis by (simp add: tosh_default_def)
qed

section \<open>The program for the Satellite 2450\<close>

text \<open>
  \<^verbatim>\<open>tosh2450-smcinit.c\<close>: the hub as in \<^verbatim>\<open>smcinit\<close>, but with the identification of another hub and one more DMA channel switched
  on instead of a constant; then a chip at a fixed address, with fixed settings that are not read back.
\<close>

definition hub_2450 :: "'h pci \<Rightarrow> ('h, bool) smprog" where
  "hub_2450 P =
     bnd (hub_read P 0x00) (\<lambda>vid.
     if vid \<noteq> 0x8086 then ret False
     else
       bnd (hub_read P 0x02) (\<lambda>did.
       if did \<noteq> 0x24c0 then ret False
       else
         seq (hub_write_byte P 0xe0 0x10)
         (bnd (hub_read P 0xe6) (\<lambda>en.
         seq (hub_write P 0xe6 ((en AND 0xfffd) OR 0x0001))
         (bnd (hub_read P 0x90) (\<lambda>d.
         seq (hub_write P 0x90 (d OR 0xc00c))
         (seq (hub_write P 0xec 0x131)
         (ret True))))))))"

definition chip_2450 :: "'h bus \<Rightarrow> ('h, unit) smprog" where
  "chip_2450 B =
     seq (set_reg B 0x2e 0x24 0x00)
     (seq (set_reg B 0x2e 0x25 0xfe)
     (seq (update_reg B 0x2e 0x28 (\<lambda>i. (i AND 0x00) OR 0x07))
     (seq (set_reg B 0x2e 0x2b 0x26)
     (seq (set_reg B 0x2e 0x2c 0x01)
     (finish_chip B 0x2e)))))"

definition main_2450 :: "'h bus \<Rightarrow> 'h pci \<Rightarrow> ('h, int) smprog" where
  "main_2450 B P =
     bnd (hub_2450 P) (\<lambda>ok.
     if \<not> ok then ret 1
     else
       seq (ioperm 0x2e 2)
       (seq (sm_outb B 0x55 0x2e)
       (seq (sm_outb B 0x0d 0x2e)
       (bnd (sm_inb B (0x2e + 1)) (\<lambda>i.
       if i = 0x5a then seq (chip_2450 B) (ret 0) else ret 1)))))"

text \<open>C37: On a chip in configuration mode this program does what \<^verbatim>\<open>smcinit\<close> does when asked for the addresses 0x3f8 and 0x130, interrupt 7 and DMA
  channel 1: both leave every configuration register with the same value and end the
  configuration mode.\<close>

theorem satellite_2450_is_smcinit:
  fixes B :: "'h bus"
  assumes P: "reg_port B 0x2e regs sel opened" and g: "0x2e \<in> set (granted s)" "0x2f \<in> set (granted s)" "opened (sm_hw s)"
  shows "\<exists>s1 s2. chip_2450 B s = Inr ((), s1) \<and> program_chip B 0x2e (sir_field 0x3f8) (fir_field 0x130) 7 1 verb s = Inr (0, s2) \<and>
    regs (sm_hw s1) = regs (sm_hw s2) \<and> \<not> opened (sm_hw s1) \<and> \<not> opened (sm_hw s2) \<and> last (log s1) = last (log s2)"
proof -
  have g1: "0x2e + 1 \<in> set (granted s)" using g(2) by simp
  have f: "sir_field 0x3f8 = 0xfe" "fir_field 0x130 = 0x26" by code_simp+
  obtain s2 where s2: "program_chip B 0x2e 0xfe 0x26 7 1 verb s = Inr (0, s2)"
    "regs (sm_hw s2) = programmed (regs (sm_hw s)) 0xfe 0x26 7 1" "last (log s2) = Port (Out 0x2e 0xaa)" "\<not> opened (sm_hw s2)"
    using program_run [OF P g(1) g1 g(3), of "0xfe" "0x26" 7 1 verb] by auto
  obtain a1 where 1: "set_reg B 0x2e 0x24 0x00 s = Inr ((), a1)" "regs (sm_hw a1) = (regs (sm_hw s))(0x24 := 0)" "granted a1 = granted s" "opened (sm_hw a1)"
    using set_reg_run [OF P g(1) g1 g(3), of "0x24" 0] by (auto simp: cfg_regs_def)
  obtain a2 where 2: "set_reg B 0x2e 0x25 0xfe a1 = Inr ((), a2)" "regs (sm_hw a2) = (regs (sm_hw a1))(0x25 := 0xfe)" "granted a2 = granted s" "opened (sm_hw a2)"
    using set_reg_run [OF P, of a1 "0x25" "0xfe"] g(1) g1 1(3,4) by (auto simp: cfg_regs_def)
  obtain a3 where 3: "update_reg B 0x2e 0x28 (\<lambda>i. (i AND 0x00) OR 0x07) a2 = Inr ((), a3)"
    "regs (sm_hw a3) = (regs (sm_hw a2))(0x28 := 7)" "granted a3 = granted s" "opened (sm_hw a3)"
    using update_run [OF P, of a2 "0x28" "\<lambda>i. (i AND 0x00) OR 0x07"] g(1) g1 2(3,4) by (auto simp: cfg_regs_def)
  obtain a4 where 4: "set_reg B 0x2e 0x2b 0x26 a3 = Inr ((), a4)" "regs (sm_hw a4) = (regs (sm_hw a3))(0x2b := 0x26)" "granted a4 = granted s" "opened (sm_hw a4)"
    using set_reg_run [OF P, of a3 "0x2b" "0x26"] g(1) g1 3(3,4) by (auto simp: cfg_regs_def)
  obtain a5 where 5: "set_reg B 0x2e 0x2c 0x01 a4 = Inr ((), a5)" "regs (sm_hw a5) = (regs (sm_hw a4))(0x2c := 1)" "granted a5 = granted s" "opened (sm_hw a5)"
    using set_reg_run [OF P, of a4 "0x2c" 1] g(1) g1 4(3,4) by (auto simp: cfg_regs_def)
  obtain a6 where 6: "finish_chip B 0x2e a5 = Inr ((), a6)" "last (log a6) = Port (Out 0x2e 0xaa)" "\<not> opened (sm_hw a6)"
    "regs (sm_hw a6) = programmed (regs (sm_hw s)) 0xfe 0x26 7 1"
    using finish_run [OF P, of a5] g(1) g1 5(3,4) unfolding 5(2) 4(2) 3(2) 2(2) 1(2) by (auto simp: programmed_def)
  have "chip_2450 B s = Inr ((), a6)"
    using 1(1) 2(1) 3(1) 4(1) 5(1) 6(1) by (simp add: chip_2450_def seq_def bnd_def)
  then show ?thesis using s2 6(2-4) unfolding f by simp
qed

theorem satellite_2450_is_smcinit_witness:
  "\<exists>s1 s2. chip_2450 (mode_chip 0x2e) (new_sm (moded True (\<lambda>i. 0x33)) [0x2e, 0x2f]) = Inr ((), s1) \<and>
     program_chip (mode_chip 0x2e) 0x2e (sir_field 0x3f8) (fir_field 0x130) 7 1 False
       (new_sm (moded True (\<lambda>i. 0x33)) [0x2e, 0x2f]) = Inr (0, s2) \<and> reg_file (sm_hw s1) = reg_file (sm_hw s2)"
  using satellite_2450_is_smcinit [OF mode_chip_port [of "0x2e"], of "new_sm (moded True (\<lambda>i. 0x33)) [0x2e, 0x2f]" False]
  by (auto simp: new_sm_def moded_def)

end
