(* ===== verification/C_Exit.thy ===== *)
theory C_Exit
  imports C_Prelude
begin

text \<open>
  Programs that may end the process and keep the state they end it in: a command returns \<open>Inr\<close> of its value, or \<open>Inl\<close> of how the
  process has ended. A fault, as before, has no final state.
\<close>

type_synonym ('s, 'e, 'a) eprog = "('s, 'e + 'a) prog"

definition val :: "'a \<Rightarrow> ('s, 'e, 'a) eprog" where
  "val x = ret (Inr x)"

definition andthen :: "('s, 'e, 'a) eprog \<Rightarrow> ('a \<Rightarrow> ('s, 'e, 'b) eprog) \<Rightarrow> ('s, 'e, 'b) eprog" where
  "andthen m f = bnd m (\<lambda>r. case r of Inl e \<Rightarrow> ret (Inl e) | Inr x \<Rightarrow> f x)"

definition thenc :: "('s, 'e, 'a) eprog \<Rightarrow> ('s, 'e, 'b) eprog \<Rightarrow> ('s, 'e, 'b) eprog" where
  "thenc m n = andthen m (\<lambda>_. n)"

definition get :: "('s \<Rightarrow> 'a) \<Rightarrow> ('s, 'e, 'a) eprog" where
  "get f = (\<lambda>s. Inr (Inr (f s), s))"

definition upd :: "('s \<Rightarrow> 's) \<Rightarrow> ('s, 'e, unit) eprog" where
  "upd f = (\<lambda>s. Inr (Inr (), f s))"

definition check :: "bool \<Rightarrow> c_fault \<Rightarrow> ('s, 'e, unit) eprog" where
  "check b e = (if b then val () else fault e)"

lemmas aprog_defs = thenc_def andthen_def bnd_def check_def upd_def get_def val_def ret_def

lemma andthen_assoc: "andthen (andthen m f) g = andthen m (\<lambda>x. andthen (f x) g)"
  by (rule ext) (auto simp: andthen_def bnd_def ret_def split: sum.splits)

lemma andthen_thenc: "andthen (thenc m n) f = thenc m (andthen n f)"
  by (simp add: thenc_def andthen_assoc)

lemma andthen_get: "andthen (get g) f s = f (g s) s"
  by (simp add: andthen_def bnd_def get_def)

lemma thenc_upd: "thenc (upd f) m s = m (f s)"
  by (simp add: thenc_def andthen_def bnd_def upd_def)

end
