(* ===== verification/Irattach.thy ===== *)
theory Irattach
  imports C_Exit
begin

text \<open>
  The daemon that turns a serial port or a driver into an infrared interface, \<^verbatim>\<open>irda-utils/irattach\<close>: \<^verbatim>\<open>irattach.c\<close>,
  \<^verbatim>\<open>util.c\<close> and \<^verbatim>\<open>dongle_attach.c\<close>. Serial port, interfaces, pid file and executed commands are part of the state.
  Each system call is answered by the environment: it succeeds, it fails, or a signal arrives before it.
  Messages are left out, but for what an executed command prints.
\<close>

section \<open>Model\<close>

subsection \<open>State and system calls\<close>

record termios =
  c_iflag :: int
  c_oflag :: int
  c_cflag :: int
  c_lflag :: int
  c_cc :: "int list"

text \<open>
  The variables of the program; then, from \<open>t_flags\<close> on, what the kernel has: status flags of the open serial
  port, its line discipline and settings, the dongle on it, open descriptors, interfaces with their
  flags and dongles, the pid file, the commands executed and the lines they have printed. \<open>stray\<close>: stores behind
  the end of a global array.
\<close>

record att =
  devfd :: int
  fdflags :: int
  initfdflags :: int
  initdisc :: int
  termsave :: termios
  termvalid :: int
  device :: string
  trapped :: bool
  calls :: nat
  restores :: nat
  forks :: nat
  t_flags :: int
  t_disc :: int
  t_term :: termios
  t_cloexec :: bool
  t_dongle :: "int option"
  fds :: "int list"
  ifs :: "string \<Rightarrow> u16 option"
  if_dongle :: "string \<Rightarrow> int option"
  pid_file :: bool
  cmds :: "string list"
  log_lines :: "string list"
  stray :: "(string \<times> nat) list"

text \<open>A call succeeds or fails, or a signal comes before it, one that ends a process unless it is handled.\<close>

datatype answer = Ok | Fail | Sig int

datatype wait_status = Exited int | Signaled int

text \<open>
  \<open>e_ans n\<close>: the \<open>n\<close>-th call; \<open>e_restore n\<close>: does the \<open>n\<close>-th call of the clean-up succeed; \<open>e_fork n\<close>: the \<open>n\<close>-th fork. \<open>e_cmd\<close>: what a
  shell command prints and how it ends. \<open>e_netdev\<close>: \<^verbatim>\<open>/proc/net/dev\<close> before and after a module is loaded. \<open>e_ifname\<close>: the name of the
  interface of the serial port.
\<close>

record env =
  e_ans :: "nat \<Rightarrow> answer"
  e_restore :: "nat \<Rightarrow> bool"
  e_fork :: "nat \<Rightarrow> int"
  e_fd :: int
  e_cmd :: "string \<Rightarrow> string \<times> wait_status"
  e_netdev :: "nat \<Rightarrow> string option"
  e_ifname :: string
  e_node :: string

text \<open>A program returns a value or ends the process, by \<^verbatim>\<open>exit\<close> or by a signal that is not trapped.\<close>

datatype ended = Exit int | Killed

type_synonym 'a aprog = "(att, ended + 'a) prog"

definition quit :: "int \<Rightarrow> 'a aprog" where
  "quit n = ret (Inl (Exit n))"

text \<open>A call of the clean-up: its effect, or none when it fails.\<close>

definition rcall :: "env \<Rightarrow> (att \<Rightarrow> att) \<Rightarrow> bool aprog" where
  "rcall E f = (\<lambda>s. if e_restore E (restores s) then Inr (Inr True, f (s\<lparr>restores := restores s + 1\<rparr>))
     else Inr (Inr False, s\<lparr>restores := restores s + 1\<rparr>))"

subsection \<open>Interface flags\<close>

text \<open>Interface names are cut to \<^verbatim>\<open>IFNAMSIZ\<close> characters; \<open>c\<close> makes a system call.\<close>

definition modify_flags :: "((att \<Rightarrow> att) \<Rightarrow> bool aprog) \<Rightarrow> string \<Rightarrow> u16 \<Rightarrow> u16 \<Rightarrow> int aprog" where
  "modify_flags c dev set_bits clear =
     andthen (c id) (\<lambda>sockok.
     if \<not> sockok then val (-1)
     else
       andthen (c id) (\<lambda>getok.
       andthen (get (\<lambda>s. ifs s (take 16 dev))) (\<lambda>fl.
       case fl of
         None \<Rightarrow> val (-1)
       | Some w \<Rightarrow>
           if \<not> getok then val (-1)
           else
             andthen (c (\<lambda>s. s\<lparr>ifs := (ifs s)(take 16 dev \<mapsto> (w OR set_bits) AND NOT clear)\<rparr>)) (\<lambda>setok.
             val (if setok then 0 else -1)))))"

definition ifup :: "((att \<Rightarrow> att) \<Rightarrow> bool aprog) \<Rightarrow> string \<Rightarrow> int aprog" where
  "ifup c dev = modify_flags c dev 0x41 0"

definition ifdown :: "((att \<Rightarrow> att) \<Rightarrow> bool aprog) \<Rightarrow> string \<Rightarrow> int aprog" where
  "ifdown c dev = modify_flags c dev 0 0x01"

subsection \<open>The signal handler\<close>

definition O_NONBLOCK :: int where
  "O_NONBLOCK = 0x800"

text \<open>The serial port is put back as it was found; failures are only logged.\<close>

definition restore_tty :: "env \<Rightarrow> unit aprog" where
  "restore_tty E =
     thenc (upd (\<lambda>s. s\<lparr>fdflags := fdflags s AND NOT O_NONBLOCK\<rparr>))
     (thenc (rcall E (\<lambda>s. s\<lparr>t_flags := fdflags s\<rparr>))
     (andthen (get initdisc) (\<lambda>d.
     thenc (if d \<noteq> -1 then rcall E (\<lambda>s. s\<lparr>t_disc := initdisc s\<rparr>) else val True)
     (andthen (get termvalid) (\<lambda>v.
     thenc (if v \<noteq> -1 then rcall E (\<lambda>s. s\<lparr>t_term := termsave s\<rparr>) else val True)
     (thenc (rcall E (\<lambda>s. s\<lparr>t_flags := initfdflags s\<rparr>))
     (upd (\<lambda>s. s\<lparr>fds := removeAll (devfd s) (fds s), devfd := -1\<rparr>))))))))"

definition cleanup :: "env \<Rightarrow> int \<Rightarrow> 'a aprog" where
  "cleanup E signo =
     andthen (get device) (\<lambda>dev.
     thenc (ifdown (rcall E) dev)
     (andthen (get devfd) (\<lambda>fd.
     thenc (if fd \<noteq> -1 then restore_tty E else val ())
     (thenc (upd (\<lambda>s. s\<lparr>pid_file := False\<rparr>))
     (if signo = -1 then quit 1 else quit 0)))))"

definition clean_exit :: "env \<Rightarrow> int \<Rightarrow> 'a aprog" where
  "clean_exit E status = cleanup E status"

text \<open>A handler is installed for \<^verbatim>\<open>SIGHUP\<close>, \<^verbatim>\<open>SIGINT\<close> and \<^verbatim>\<open>SIGTERM\<close>.\<close>

definition handled :: "int \<Rightarrow> bool" where
  "handled signo \<longleftrightarrow> signo = 1 \<or> signo = 2 \<or> signo = 15"

text \<open>A system call with effect \<open>f\<close>. A signal before it runs the handler, if it has one and that is installed by then.\<close>

definition sys :: "env \<Rightarrow> (att \<Rightarrow> att) \<Rightarrow> bool aprog" where
  "sys E f = (\<lambda>s.
     let s1 = s\<lparr>calls := calls s + 1\<rparr>
     in case e_ans E (calls s) of
          Ok \<Rightarrow> Inr (Inr True, f s1)
        | Fail \<Rightarrow> Inr (Inr False, s1)
        | Sig signo \<Rightarrow> if trapped s \<and> handled signo then cleanup E signo s1 else Inr (Inl Killed, s1))"

definition forkc :: "env \<Rightarrow> int aprog" where
  "forkc E = (\<lambda>s. Inr (Inr (e_fork E (forks s)), s\<lparr>forks := forks s + 1\<rparr>))"

subsection \<open>Commands\<close>

text \<open>The loop over the output of a command; the last character of a line, its newline, is removed.\<close>

function log_output :: "string \<Rightarrow> unit aprog" where
  "log_output t =
     (case fgets 255 t of
        None \<Rightarrow> val ()
      | Some (line, rest) \<Rightarrow>
          thenc (check (c_str line \<noteq> []) (Local_Bounds ''line[-1]'' 0))
          (thenc (upd (\<lambda>s. s\<lparr>log_lines := log_lines s @ [butlast (c_str line)]\<rparr>))
          (log_output rest)))"
  by pat_completeness auto
termination by (relation "measure length") (auto simp: fgets_shorter)

declare log_output.simps [simp del]

text \<open>\<open>cmd\<close> is in an array of 512 characters, to which the redirection is appended. The result of \<^verbatim>\<open>popen\<close> is not looked at.\<close>

definition execute :: "env \<Rightarrow> string \<Rightarrow> string \<Rightarrow> int aprog" where
  "execute E msg cmd =
     (let cmd2 = cmd @ '' 2>&1''
      in thenc (check (length cmd2 < 512) (Local_Bounds ''cmd'' (length cmd2)))
         (andthen (sys E (\<lambda>s. s\<lparr>cmds := cmds s @ [cmd2]\<rparr>)) (\<lambda>ok.
         if \<not> ok then fault Null_Pointer
         else
           case e_cmd E cmd2 of (out, st) \<Rightarrow>
             thenc (log_output out)
             (case st of Exited n \<Rightarrow> val n | Signaled n \<Rightarrow> val (-1)))))"

text \<open>Two \<^verbatim>\<open>sprintf\<close> into local arrays, then the command.\<close>

definition run_formatted :: "env \<Rightarrow> string \<Rightarrow> string \<Rightarrow> int aprog" where
  "run_formatted E msg cmd =
     thenc (check (length msg < 128) (Local_Bounds ''msg'' (length msg)))
     (thenc (check (length cmd < 512) (Local_Bounds ''cmd'' (length cmd)))
     (execute E msg cmd))"

definition set_sysctl_param :: "env \<Rightarrow> string \<Rightarrow> string \<Rightarrow> int aprog" where
  "set_sysctl_param E name value =
     run_formatted E (''Setting '' @ name @ '' to '' @ value) (''echo '' @ value @ '' > /proc/sys/net/irda/'' @ name)"

definition execute_on_dev :: "env \<Rightarrow> string \<Rightarrow> string \<Rightarrow> string \<Rightarrow> int \<Rightarrow> int aprog" where
  "execute_on_dev E action class dev minor =
     run_formatted E (action @ '' cmd'') (''./'' @ class @ '' '' @ action @ '' '' @ dev @ '' '' @ fmt_d minor)"

definition load_module :: "env \<Rightarrow> string \<Rightarrow> int aprog" where
  "load_module E name = run_formatted E (''Trying to load module '' @ name) (''/sbin/modprobe '' @ name)"

subsection \<open>Interfaces of a module\<close>

text \<open>The name on a line of \<^verbatim>\<open>/proc/net/dev\<close>, for an array of \<open>nsize\<close> characters.\<close>

definition get_irdevname :: "nat \<Rightarrow> string \<Rightarrow> string option" where
  "get_irdevname nsize buf =
     (let b = dropWhile isspace (c_str buf); n = takeWhile (\<lambda>c. c \<noteq> CHR '':'') b
      in if \<not> is_prefix ''irda'' b then None
         else if CHR '':'' \<notin> set b \<or> length n + 1 > nsize then None
         else Some n)"

text \<open>The array has \<open>maxnames\<close> entries; the bound is only looked at after an entry has been stored.\<close>

function devlist_loop :: "nat \<Rightarrow> nat \<Rightarrow> string \<Rightarrow> string list \<Rightarrow> c_fault + string list option" where
  "devlist_loop maxchars maxnames t names =
     (case fgets 1024 t of
        None \<Rightarrow> Inr (Some names)
      | Some (buff, rest) \<Rightarrow>
          (case get_irdevname maxchars buff of
             None \<Rightarrow>
               if length names > maxnames then Inr None else devlist_loop maxchars maxnames rest names
           | Some n \<Rightarrow>
               if length names \<ge> maxnames then Inl (Local_Bounds ''ifnames'' (length names))
               else if length names + 1 > maxnames then Inr None
               else devlist_loop maxchars maxnames rest (names @ [n])))"
  by pat_completeness auto
termination by (relation "measure (\<lambda>(c, m, t, names). length t)") (auto simp: fgets_shorter)

declare devlist_loop.simps [simp del]

definition drop_line :: "string \<Rightarrow> string" where
  "drop_line t = (case fgets 1024 t of None \<Rightarrow> t | Some (buff, rest) \<Rightarrow> rest)"

definition get_devlist :: "string option \<Rightarrow> nat \<Rightarrow> nat \<Rightarrow> c_fault + string list option" where
  "get_devlist file maxchars maxnames =
     (case file of
        None \<Rightarrow> Inr None
      | Some t \<Rightarrow> devlist_loop maxchars maxnames (drop_line (drop_line t)) [])"

definition from_sum :: "c_fault + 'a \<Rightarrow> 'a aprog" where
  "from_sum r = (case r of Inl e \<Rightarrow> fault e | Inr x \<Rightarrow> val x)"

text \<open>The loop over the interfaces there are now: the first new one is for this process, each other for a child.\<close>

fun module_loop :: "env \<Rightarrow> string list \<Rightarrow> string list \<Rightarrow> bool \<Rightarrow> int aprog" where
  "module_loop E before [] got = val 0"
| "module_loop E before (n # ns) got =
     (if n \<in> set before then module_loop E before ns got
      else if got then
        andthen (forkc E) (\<lambda>pid.
        if pid = 0 then thenc (upd (\<lambda>s. s\<lparr>device := n\<rparr>)) (val 0)
        else module_loop E before ns got)
      else thenc (upd (\<lambda>s. s\<lparr>device := n\<rparr>)) (module_loop E before ns True))"

definition get_module_devices :: "env \<Rightarrow> string \<Rightarrow> int aprog" where
  "get_module_devices E modname =
     andthen (from_sum (get_devlist (e_netdev E 0) 17 10)) (\<lambda>before.
     case before of
       None \<Rightarrow> quit (-1)
     | Some bs \<Rightarrow>
         andthen (load_module E modname) (\<lambda>r.
         if r \<noteq> 0 then quit (-1)
         else
           andthen (from_sum (get_devlist (e_netdev E 1) 17 15)) (\<lambda>after.
           case after of
             None \<Rightarrow> quit (-1)
           | Some as \<Rightarrow> if as = [] then quit (-1) else module_loop E bs as False)))"

subsection \<open>The serial port\<close>

definition establish_irda :: "env \<Rightarrow> unit aprog" where
  "establish_irda E =
     thenc (sys E id)
     (andthen (sys E id) (\<lambda>ok.
     if \<not> ok then clean_exit E (-1)
     else
       thenc (upd (\<lambda>s. s\<lparr>initdisc := t_disc s\<rparr>))
       (andthen (sys E (\<lambda>s. s\<lparr>t_disc := 11\<rparr>)) (\<lambda>ok2.
       if \<not> ok2 then clean_exit E (-1) else val ()))))"

text \<open>\<^verbatim>\<open>CS8|CREAD|B9600|CLOCAL\<close>, \<^verbatim>\<open>IGNBRK|IGNPAR\<close>; \<^verbatim>\<open>VMIN\<close> and \<^verbatim>\<open>VTIME\<close> are the entries 6 and 5.\<close>

definition tty_configure :: "termios \<Rightarrow> termios" where
  "tty_configure tios =
     tios\<lparr>c_cflag := 0x8bd, c_iflag := 0x5, c_oflag := 0, c_lflag := 0, c_cc := (c_cc tios)[6 := 1, 5 := 0]\<rparr>"

definition init_irda_ldisc :: "env \<Rightarrow> unit aprog" where
  "init_irda_ldisc E =
     andthen (sys E id) (\<lambda>ok.
     if \<not> ok then clean_exit E (-1)
     else
       andthen (get t_term) (\<lambda>tios.
       thenc (upd (\<lambda>s. s\<lparr>termsave := tios, termvalid := 0\<rparr>))
       (andthen (sys E (\<lambda>s. s\<lparr>t_term := tty_configure tios\<rparr>)) (\<lambda>ok2.
       if \<not> ok2 then clean_exit E (-1) else val ()))))"

definition start_tty :: "env \<Rightarrow> unit aprog" where
  "start_tty E =
     thenc (upd (\<lambda>s. s\<lparr>fdflags := fdflags s AND NOT O_NONBLOCK\<rparr>))
     (thenc (sys E (\<lambda>s. s\<lparr>t_flags := fdflags s\<rparr>))
     (andthen (sys E id) (\<lambda>ok1.
     if \<not> ok1 then clean_exit E (-1)
     else
       andthen (sys E (\<lambda>s. s\<lparr>t_cloexec := True\<rparr>)) (\<lambda>ok2.
       if \<not> ok2 then clean_exit E (-1)
       else
         thenc (init_irda_ldisc E)
         (thenc (establish_irda E)
         (thenc (sys E id)
         (andthen (sys E (\<lambda>s. s\<lparr>t_flags := fdflags s OR O_NONBLOCK\<rparr>)) (\<lambda>ok3.
         if \<not> ok3 then clean_exit E (-1) else val ()))))))))"

definition open_tty :: "env \<Rightarrow> string \<Rightarrow> int aprog" where
  "open_tty E dev =
     andthen (sys E (\<lambda>s. s\<lparr>fds := fds s @ [e_fd E]\<rparr>)) (\<lambda>ok.
     if \<not> ok then quit (-1)
     else
       andthen (sys E id) (\<lambda>ok2.
       if \<not> ok2 then thenc (upd (\<lambda>s. s\<lparr>fdflags := -1, fds := removeAll (e_fd E) (fds s)\<rparr>)) (quit (-1))
       else
         thenc (upd (\<lambda>s. s\<lparr>fdflags := t_flags s, initfdflags := t_flags s\<rparr>))
         (val (e_fd E))))"

subsection \<open>Dongles\<close>

definition dongle_list :: "(int \<times> string) list" where
  "dongle_list =
     [(1, ''esi''), (0, ''tekram''), (2, ''actisys''), (3, ''actisys+''), (4, ''girbil''), (5, ''litelink''),
      (6, ''airport''), (7, ''old_belkin''), (8, ''ep7211''), (9, ''mcp2120''), (10, ''act200l''), (11, ''ma600''),
      (12, ''toim3232'')]"

definition get_dongle :: "string \<Rightarrow> int" where
  "get_dongle dongle = (case find (\<lambda>(i, n). n = dongle) dongle_list of None \<Rightarrow> -1 | Some (i, n) \<Rightarrow> i)"

definition attach_dongle :: "env \<Rightarrow> int \<Rightarrow> string \<Rightarrow> int \<Rightarrow> unit aprog" where
  "attach_dongle E ttyfd dev dongle =
     (if ttyfd \<noteq> -1 then thenc (sys E (\<lambda>s. s\<lparr>t_dongle := Some dongle\<rparr>)) (val ())
      else
        andthen (sys E id) (\<lambda>sockok.
        if \<not> sockok then clean_exit E (-1)
        else
          andthen (sys E (\<lambda>s. s\<lparr>if_dongle := (if_dongle s)(take 16 dev \<mapsto> dongle)\<rparr>)) (\<lambda>ok.
          if \<not> ok then clean_exit E (-1) else val ())))"

subsection \<open>Daemon and main program\<close>

definition write_pid :: "env \<Rightarrow> unit aprog" where
  "write_pid E = thenc (sys E (\<lambda>s. s\<lparr>pid_file := True\<rparr>)) (val ())"

text \<open>Two forks whose parents end; every descriptor below 64 but the serial port is closed.\<close>

definition fork_now :: "env \<Rightarrow> int \<Rightarrow> unit aprog" where
  "fork_now E ttyfd =
     andthen (forkc E) (\<lambda>r1.
     if r1 > 0 then quit 0
     else
       andthen (forkc E) (\<lambda>r2.
       if r2 > 0 then quit 0
       else
         thenc (upd (\<lambda>s. s\<lparr>fds := filter (\<lambda>i. i = ttyfd \<or> i < 0 \<or> i \<ge> 64) (fds s)\<rparr>))
         (write_pid E)))"

record att_opts =
  o_dongle :: int
  o_discovery :: int
  o_daemonize :: bool

definition att_option :: "char \<Rightarrow> string \<Rightarrow> att_opts \<Rightarrow> ended + att_opts" where
  "att_option c optarg o1 =
     (if c = CHR ''s'' then Inr (o1\<lparr>o_discovery := 1\<rparr>)
      else if c = CHR ''d'' then
        (if get_dongle optarg = -1 then Inl (Exit (-1)) else Inr (o1\<lparr>o_dongle := get_dongle optarg\<rparr>))
      else if c = CHR ''v'' then Inl (Exit 0)
      else if c = CHR ''h'' then Inl (Exit 0)
      else if c = CHR ''b'' then Inr (o1\<lparr>o_daemonize := False\<rparr>)
      else Inl (Exit (-1)))"

fun att_options :: "(char \<times> string) list \<Rightarrow> att_opts \<Rightarrow> ended + att_opts" where
  "att_options [] o1 = Inr o1"
| "att_options ((c, optarg) # os) o1 = (case att_option c optarg o1 of Inl e \<Rightarrow> Inl e | Inr o2 \<Rightarrow> att_options os o2)"

text \<open>The three kinds of first argument: serial port, interface, module. \<open>True\<close> for a serial port.\<close>

definition open_device :: "env \<Rightarrow> bool aprog" where
  "open_device E =
     andthen (get device) (\<lambda>dev.
     if is_prefix ''/dev'' dev then
       andthen (open_tty E dev) (\<lambda>fd. thenc (upd (\<lambda>s. s\<lparr>devfd := fd\<rparr>)) (val True))
     else if is_prefix ''irda'' dev \<and> (case drop 4 dev of [] \<Rightarrow> False | c # cs \<Rightarrow> isdigit c) then
       thenc (load_module E dev) (val False)
     else thenc (get_module_devices E dev) (val False))"

text \<open>The interface of the serial port; the name is copied from an array of six characters.\<close>

definition tty_interface :: "env \<Rightarrow> unit aprog" where
  "tty_interface E =
     thenc (start_tty E)
     (andthen (sys E id) (\<lambda>ok.
     if \<not> ok then clean_exit E (-1)
     else
       thenc (check (length (e_ifname E) < 6) (Local_Bounds ''info.name'' 6))
       (upd (\<lambda>s. s\<lparr>device := take 20 (e_ifname E)\<rparr>))))"

text \<open>\<^verbatim>\<open>strtok(buf.nodename, ".")\<close>.\<close>

definition node_token :: "string \<Rightarrow> string option" where
  "node_token node =
     (let t = dropWhile (\<lambda>c. c = CHR ''.'') node in if t = [] then None else Some (takeWhile (\<lambda>c. c \<noteq> CHR ''.'') t))"

definition start_interface :: "env \<Rightarrow> int \<Rightarrow> int \<Rightarrow> unit aprog" where
  "start_interface E dongle discovery =
     andthen (get devfd) (\<lambda>fd.
     andthen (get device) (\<lambda>dev.
     thenc (if dongle \<noteq> -1 then attach_dongle E fd dev dongle else val ())
     (andthen (sys E id) (\<lambda>unameok.
     thenc (if unameok then (case node_token (e_node E) of
              None \<Rightarrow> fault Null_Pointer
            | Some t \<Rightarrow> set_sysctl_param E ''devname'' t) else val 0)
     (thenc (if discovery > 0 then set_sysctl_param E ''discovery'' ''1'' else val 0)
     (andthen (ifup (sys E) dev) (\<lambda>r.
     if r < 0 then clean_exit E (-1) else val ())))))))"

text \<open>Up to the loop around \<^verbatim>\<open>pause\<close>. The terminator of the device name goes behind the array.\<close>

definition main :: "env \<Rightarrow> int \<Rightarrow> string \<Rightarrow> (char \<times> string) list \<Rightarrow> unit aprog" where
  "main E argc argv1 opts =
     (if argc < 2 \<or> argc > 5 then quit (-1)
      else
        thenc (upd (\<lambda>s. s\<lparr>device := take 20 argv1, stray := stray s @ [(''device'', 20)]\<rparr>))
        (case att_options opts \<lparr>o_dongle = -1, o_discovery = -1, o_daemonize = True\<rparr> of
           Inl e \<Rightarrow> ret (Inl e)
         | Inr o1 \<Rightarrow>
             andthen (open_device E) (\<lambda>tty.
             andthen (get devfd) (\<lambda>fd.
             thenc (if o_daemonize o1 then fork_now E fd else val ())
             (thenc (upd (\<lambda>s. s\<lparr>trapped := True\<rparr>))
             (thenc (if tty then tty_interface E else val ())
             (start_interface E (o_dongle o1) (o_discovery o1))))))))"

text \<open>The whole life of the daemon: when the start-up succeeds it waits for a signal.\<close>

definition irattach_run :: "env \<Rightarrow> int \<Rightarrow> string \<Rightarrow> (char \<times> string) list \<Rightarrow> int \<Rightarrow> unit aprog" where
  "irattach_run E argc argv1 opts signo = thenc (main E argc argv1 opts) (if handled signo then cleanup E signo else ret (Inl Killed))"

subsection \<open>Looking up a device\<close>

text \<open>
  \<^verbatim>\<open>sscanf(s, "%d %s", &n, t)\<close>: number of conversions with the values stored. What \<open>n\<close> and \<open>t\<close> hold before the first
  line is an argument.
\<close>

definition scan_misc :: "string \<Rightarrow> (int \<times> string option) option" where
  "scan_misc s =
     (case scan_d s of
        None \<Rightarrow> None
      | Some (n, rest) \<Rightarrow>
          (let w = takeWhile (\<lambda>c. \<not> isspace c) (dropWhile isspace rest)
           in Some (sint n, if w = [] then None else Some w)))"

function lookup_loop :: "string \<Rightarrow> string \<Rightarrow> int \<Rightarrow> string \<Rightarrow> int \<times> string" where
  "lookup_loop name f n t =
     (case fgets 32 f of
        None \<Rightarrow> (n, t)
      | Some (s, rest) \<Rightarrow>
          (case scan_misc (c_str s) of
             None \<Rightarrow> lookup_loop name rest n t
           | Some (n', None) \<Rightarrow> lookup_loop name rest n' t
           | Some (n', Some t') \<Rightarrow> if name = t' then (n', t') else lookup_loop name rest n' t'))"
  by pat_completeness auto
termination by (relation "measure (\<lambda>(name, f, n, t). length f)") (auto simp: fgets_shorter)

declare lookup_loop.simps [simp del]

text \<open>\<^verbatim>\<open>ENODEV\<close> is 19; \<open>errno\<close> is the reason for a failing \<^verbatim>\<open>fopen\<close>.\<close>

definition lookup_dev :: "string option \<Rightarrow> int \<Rightarrow> string \<Rightarrow> int \<Rightarrow> string \<Rightarrow> int" where
  "lookup_dev file errno name n0 t0 =
     (case file of
        None \<Rightarrow> - errno
      | Some f \<Rightarrow> (case lookup_loop name f n0 t0 of (n, t) \<Rightarrow> if name = t then n else -19))"

subsection \<open>dongle_attach\<close>

definition dongle_option :: "string \<Rightarrow> int \<Rightarrow> int" where
  "dongle_option optarg dongle =
     (if optarg = ''esi'' then 1
      else if optarg = ''tekram'' then 0
      else if optarg = ''actisys'' then 2
      else if optarg = ''actisys+'' then 3
      else if optarg = ''girbil'' then 4
      else if optarg = ''litelink'' then 5
      else if optarg = ''airport'' then 6
      else if optarg = ''old_belkin'' then 7
      else if optarg = ''ep7211'' then 8
      else if optarg = ''mcp2120'' then 9
      else if optarg = ''act200l'' then 10
      else if optarg = ''ma600'' then 11
      else dongle)"

fun dongle_options :: "(char \<times> string) list \<Rightarrow> int \<Rightarrow> ended + int" where
  "dongle_options [] dongle = Inr dongle"
| "dongle_options ((c, optarg) # os) dongle =
     (if c = CHR ''d'' then
        let d = dongle_option optarg dongle in if d = -1 then Inl (Exit (-1)) else dongle_options os d
      else dongle_options os dongle)"

definition dongle_main :: "env \<Rightarrow> int \<Rightarrow> string \<Rightarrow> (char \<times> string) list \<Rightarrow> int aprog" where
  "dongle_main E argc argv1 opts =
     (if argc < 3 then quit (-1)
      else
        thenc (check (length argv1 < 10) (Local_Bounds ''dev'' (length argv1)))
        (case dongle_options opts (-1) of
           Inl e \<Rightarrow> ret (Inl e)
         | Inr dongle \<Rightarrow>
             andthen (sys E id) (\<lambda>ok.
             if \<not> ok then quit (-1)
             else
               andthen (sys E (\<lambda>s. s\<lparr>if_dongle := (if_dongle s)(take 16 argv1 \<mapsto> dongle)\<rparr>)) (\<lambda>ok2.
               if \<not> ok2 then quit (-1) else val 0))))"


section \<open>The serial port is put back\<close>

text \<open>Status flags, line discipline and settings of the port; the variables of the program that decide about the clean-up.\<close>

type_synonym port_state = "int \<times> int \<times> termios"

definition port_of :: "att \<Rightarrow> port_state" where
  "port_of s = (t_flags s, t_disc s, t_term s)"

definition view :: "att \<Rightarrow> int \<times> int \<times> int \<times> termios \<times> int \<times> bool \<times> port_state" where
  "view s = (devfd s, initfdflags s, initdisc s, termsave s, termvalid s, trapped s, port_of s)"

text \<open>\<open>live T s\<close>: if the process ended now, by the handler where that is installed, the port would be left in state \<open>T\<close>.\<close>

definition live :: "port_state \<Rightarrow> att \<Rightarrow> bool" where
  "live T s \<longleftrightarrow>
     (if trapped s \<and> devfd s \<noteq> -1 then
        (initfdflags s, if initdisc s \<noteq> -1 then initdisc s else t_disc s, if termvalid s \<noteq> -1 then termsave s else t_term s) = T
      else port_of s = T)"

lemma live_view: "view s = view s' \<Longrightarrow> live T s = live T s'"
  by (auto simp: view_def live_def port_of_def)

definition triple :: "port_state \<Rightarrow> (att \<Rightarrow> bool) \<Rightarrow> 'a aprog \<Rightarrow> ('a \<Rightarrow> att \<Rightarrow> bool) \<Rightarrow> bool" where
  "triple T P m Q \<longleftrightarrow>
     (\<forall>s. P s \<longrightarrow> (case m s of Inl e \<Rightarrow> True | Inr (Inl e, s') \<Rightarrow> port_of s' = T | Inr (Inr x, s') \<Rightarrow> Q x s'))"

text \<open>\<open>frame T m\<close>: what the clean-up depends on is not touched by \<open>m\<close>, and where \<open>m\<close> ends the process the port is in state \<open>T\<close>.\<close>

definition frame :: "port_state \<Rightarrow> 'a aprog \<Rightarrow> bool" where
  "frame T m \<longleftrightarrow>
     (\<forall>s. live T s \<longrightarrow> (case m s of Inl e \<Rightarrow> True | Inr (Inl e, s') \<Rightarrow> port_of s' = T | Inr (Inr x, s') \<Rightarrow> view s' = view s))"

named_theorems frame_intro \<open>commands that leave the port alone\<close>

lemma triple_andthen:
  "triple T P m R \<Longrightarrow> (\<And>x. triple T (R x) (f x) Q) \<Longrightarrow> triple T P (andthen m f) Q"
  unfolding triple_def andthen_def bnd_def ret_def by (fastforce split: sum.splits)

lemma triple_thenc: "triple T P m (\<lambda>_. R) \<Longrightarrow> triple T R n Q \<Longrightarrow> triple T P (thenc m n) Q"
  unfolding thenc_def by (rule triple_andthen)

lemma triple_weaken: "triple T P m Q \<Longrightarrow> (\<And>s. P' s \<Longrightarrow> P s) \<Longrightarrow> (\<And>x s. Q x s \<Longrightarrow> Q' x s) \<Longrightarrow> triple T P' m Q'"
  unfolding triple_def by (fastforce split: sum.splits)

lemma triple_if:
  "(b \<Longrightarrow> triple T P m Q) \<Longrightarrow> (\<not> b \<Longrightarrow> triple T P n Q) \<Longrightarrow> triple T P (if b then m else n) Q"
  by simp

lemma triple_basic:
  "(\<And>s. P s \<Longrightarrow> Q x s) \<Longrightarrow> triple T P (val x) Q"
  "(\<And>s. P s \<Longrightarrow> Q1 () (f s)) \<Longrightarrow> triple T P (upd f) Q1"
  "(\<And>s. P s \<Longrightarrow> port_of s = T) \<Longrightarrow> triple T P (quit n) Q2"
  "(\<And>s. P s \<Longrightarrow> Q3 (g s) s) \<Longrightarrow> triple T P (get g) Q3"
  "triple T P (fault e) Q2"
  by (simp_all add: triple_def val_def ret_def upd_def quit_def get_def fault_def)

text \<open>A command that leaves the port alone keeps every condition on what the clean-up depends on.\<close>

lemma triple_frame:
  "frame T m \<Longrightarrow> (\<And>s. P s \<Longrightarrow> live T s) \<Longrightarrow> (\<And>s s' x. P s \<Longrightarrow> view s' = view s \<Longrightarrow> Q x s') \<Longrightarrow> triple T P m Q"
  unfolding frame_def triple_def by (fastforce split: sum.splits)

lemma frame_andthen [frame_intro]:
  assumes "frame T m" "\<And>x. frame T (f x)"
  shows "frame T (andthen m f)"
  unfolding frame_def
proof (intro allI impI)
  fix s assume l: "live T s"
  show "case andthen m f s of Inl e \<Rightarrow> True | Inr (Inl e, s') \<Rightarrow> port_of s' = T | Inr (Inr x, s') \<Rightarrow> view s' = view s"
  proof (cases "m s")
    case (Inr p)
    then obtain r s1 where m: "m s = Inr (r, s1)" by (cases p) simp
    show ?thesis
    proof (cases r)
      case (Inr x)
      then have v: "view s1 = view s" using assms(1) l m by (fastforce simp: frame_def)
      then have "live T s1" using l live_view by blast
      then have "case f x s1 of Inl e \<Rightarrow> True | Inr (Inl e, s') \<Rightarrow> port_of s' = T | Inr (Inr x, s') \<Rightarrow> view s' = view s"
        using assms(2) [of x] unfolding frame_def v [symmetric] by blast
      then show ?thesis using m Inr by (simp add: andthen_def bnd_def)
    qed (use assms(1) l m in \<open>fastforce simp: frame_def andthen_def bnd_def ret_def\<close>)
  qed (simp add: andthen_def bnd_def)
qed

lemma frame_thenc [frame_intro]: "frame T m \<Longrightarrow> frame T n \<Longrightarrow> frame T (thenc m n)"
  unfolding thenc_def by (rule frame_andthen)

lemma frame_basic [frame_intro]:
  "frame T (val x)" "frame T (get g)" "frame T (fault e)" "frame T (check b e)" "frame T (from_sum r)" "frame T (forkc E)"
  by (simp_all add: frame_def from_sum_def check_def val_def ret_def get_def fault_def forkc_def view_def port_of_def
      split: sum.split)

lemma frame_if [frame_intro]: "(b \<Longrightarrow> frame T m) \<Longrightarrow> (\<not> b \<Longrightarrow> frame T n) \<Longrightarrow> frame T (if b then m else n)"
  by simp

lemma frame_upd: "(\<And>s. view (f s) = view s) \<Longrightarrow> frame T (upd f)"
  by (simp add: frame_def upd_def)

subsection \<open>The handler\<close>

text \<open>
  What \<^verbatim>\<open>modify_flags\<close> relies on: a call that returns has had its effect or none, but for the counters of the environment.
\<close>

definition counted :: "att \<Rightarrow> att \<Rightarrow> bool" where
  "counted s s' \<longleftrightarrow> (\<exists>c r. s' = s\<lparr>calls := c, restores := r\<rparr>)"

locale syscall =
  fixes c :: "(att \<Rightarrow> att) \<Rightarrow> bool aprog"
  assumes returns: "c f s = Inr (Inr b, s') \<Longrightarrow> \<exists>s1. counted s s1 \<and> s' = (if b then f s1 else s1)"
begin

lemma returns_id: "c id s = Inr (Inr b, s') \<Longrightarrow> counted s s'"
  using returns [of id s b s'] by (auto split: if_splits)

end

lemma counted_trans: "counted s s1 \<Longrightarrow> counted s1 s2 \<Longrightarrow> counted s s2"
  unfolding counted_def by (elim exE, hypsubst, intro exI, simp)

context syscall
begin

text \<open>Only the flags of the interface change; the result says whether they have.\<close>

lemma modify_flags_effect:
  assumes "modify_flags c dev on off s = Inr (Inr r, s')"
  shows "\<exists>s1. counted s s1 \<and>
    (r = -1 \<and> s' = s1 \<or>
     (\<exists>w. r = 0 \<and> ifs s (take 16 dev) = Some w \<and> s' = s1\<lparr>ifs := (ifs s)(take 16 dev \<mapsto> (w OR on) AND NOT off)\<rparr>))"
proof -
  obtain b1 s1 where 1: "c id s = Inr (Inr b1, s1)" using assms
    by (auto simp: modify_flags_def andthen_def bnd_def ret_def split: sum.splits)
  note c1 = returns_id [OF 1]
  show ?thesis
  proof (cases b1)
    case False
    with assms 1 c1 show ?thesis by (auto simp: modify_flags_def andthen_def bnd_def val_def ret_def)
  next
    case True
    then obtain b2 s2 where 2: "c id s1 = Inr (Inr b2, s2)" using assms 1
      by (auto simp: modify_flags_def andthen_def bnd_def ret_def split: sum.splits)
    note c2 = counted_trans [OF c1 returns_id [OF 2]]
    then have i: "ifs s2 = ifs s" by (auto simp: counted_def)
    show ?thesis
    proof (cases "ifs s (take 16 dev)")
      case None
      with assms 1 2 True c2 i show ?thesis
        by (auto simp: modify_flags_def andthen_def bnd_def val_def ret_def get_def)
    next
      case (Some w)
      let ?f = "\<lambda>s. s\<lparr>ifs := (ifs s)(take 16 dev \<mapsto> (w OR on) AND NOT off)\<rparr>"
      show ?thesis
      proof (cases b2)
        case False
        with assms 1 2 True c2 i Some show ?thesis
          by (auto simp: modify_flags_def andthen_def bnd_def val_def ret_def get_def)
      next
        case b2: True
        then obtain b3 s3 where 3: "c ?f s2 = Inr (Inr b3, s3)" "s' = s3" "r = (if b3 then 0 else -1)"
          using assms 1 2 True i Some
          by (auto simp: modify_flags_def andthen_def bnd_def val_def ret_def get_def split: sum.splits)
        from returns [OF 3(1)] obtain s4 where 4: "counted s2 s4" "s3 = (if b3 then ?f s4 else s4)" by blast
        have "counted s s4" by (rule counted_trans [OF c2 4(1)])
        moreover have "ifs s4 = ifs s" using calculation by (auto simp: counted_def)
        ultimately show ?thesis using 3(2,3) 4(2) Some by (cases b3) auto
      qed
    qed
  qed
qed

end

interpretation handler: syscall "rcall E" for E
proof
  fix f s b s' assume "rcall E f s = Inr (Inr b, s')"
  moreover have "counted s (s\<lparr>restores := n\<rparr>)" for n by (auto simp: counted_def intro: exI [where x = "calls s", OF exI [where x = n]])
  ultimately show "\<exists>s1. counted s s1 \<and> s' = (if b then f s1 else s1)"
    by (auto simp: rcall_def split: if_splits)
qed

text \<open>The calls of the clean-up succeed, and only signals with a handler arrive.\<close>

definition recovers :: "env \<Rightarrow> bool" where
  "recovers E \<longleftrightarrow> (\<forall>n. e_restore E n) \<and> (\<forall>n k. e_ans E n = Sig k \<longrightarrow> handled k)"

lemma cleanup_ends:
  assumes "recovers E" "trapped s" "live T s"
  shows "\<exists>e s'. cleanup E signo s = Inr (Inl e, s') \<and> port_of s' = T"
proof -
  have ok: "\<forall>n. e_restore E n" using assms(1) by (simp add: recovers_def)
  obtain r s1 where 1: "ifdown (rcall E) (device s) s = Inr (Inr r, s1)"
    using ok by (cases "ifs s (take 16 (device s))")
      (auto simp: ifdown_def modify_flags_def rcall_def andthen_def bnd_def val_def ret_def get_def)
  then have v: "view s1 = view s"
    using handler.modify_flags_effect [of E "device s" 0 1 s r s1]
    by (auto simp: ifdown_def counted_def view_def port_of_def)
  then have l: "live T s1" "trapped s1" "devfd s1 = devfd s"
    using assms(2,3) live_view [OF v] by (auto simp: view_def)
  show ?thesis
  proof (cases "devfd s = -1")
    case True
    with 1 l show ?thesis
      by (auto simp: cleanup_def andthen_def thenc_def bnd_def get_def val_def upd_def quit_def ret_def live_def port_of_def)
  next
    case False
    with 1 l ok show ?thesis
      by (auto simp: cleanup_def restore_tty_def rcall_def andthen_def thenc_def bnd_def get_def val_def upd_def quit_def
          ret_def live_def port_of_def)
  qed
qed

lemma triple_cleanup:
  fixes Q :: "'a \<Rightarrow> att \<Rightarrow> bool"
  assumes "recovers E" "\<And>s. P s \<Longrightarrow> trapped s \<and> live T s"
  shows "triple T P (cleanup E signo) Q"
  unfolding triple_def
proof (intro allI impI)
  fix s assume "P s"
  then obtain e s' where "(cleanup E signo :: 'a aprog) s = Inr (Inl e, s')" "port_of s' = T"
    using cleanup_ends [where ?'a = 'a, OF assms(1)] assms(2) by blast
  then show "case cleanup E signo s of Inl e \<Rightarrow> True | Inr (Inl e, s') \<Rightarrow> port_of s' = T | Inr (Inr x, s') \<Rightarrow> Q x s'" by simp
qed

text \<open>A system call where the port can be put back at any time.\<close>

lemma triple_sys:
  assumes "recovers E" "\<And>s. P s \<Longrightarrow> live T s" "\<And>s k. P s \<Longrightarrow> Q True (f (s\<lparr>calls := k\<rparr>))"
    "\<And>s k. P s \<Longrightarrow> Q False (s\<lparr>calls := k\<rparr>)"
  shows "triple T P (sys E f) Q"
  unfolding triple_def
proof (intro allI impI)
  fix s assume p: "P s"
  let ?s = "s\<lparr>calls := calls s + 1\<rparr>"
  have l: "live T ?s" using live_view [of ?s s T] assms(2) [OF p] by (simp add: view_def port_of_def)
  show "case sys E f s of Inl e \<Rightarrow> True | Inr (Inl e, s') \<Rightarrow> port_of s' = T | Inr (Inr x, s') \<Rightarrow> Q x s'"
  proof (cases "e_ans E (calls s)")
    case (Sig k)
    then have k: "handled k" using assms(1) by (auto simp: recovers_def)
    show ?thesis
    proof (cases "trapped s")
      case True
      then show ?thesis using Sig k cleanup_ends [where ?'a = bool, OF assms(1) _ l, of k] by (auto simp: sys_def)
    next
      case False
      with Sig l show ?thesis by (simp add: sys_def live_def port_of_def)
    qed
  qed (use assms(3,4) [OF p] in \<open>simp_all add: sys_def\<close>)
qed

lemma frame_sys:
  assumes "recovers E" "\<And>s. view (f s) = view s"
  shows "frame T (sys E f)"
  unfolding frame_def
proof (intro allI impI)
  fix s assume "live T s"
  then have "triple T (\<lambda>s'. s' = s) (sys E f) (\<lambda>_ s'. view s' = view s)"
    by (intro triple_sys [OF assms(1)]) (auto simp: assms(2), simp_all add: view_def port_of_def)
  then show "case sys E f s of Inl e \<Rightarrow> True | Inr (Inl e, s') \<Rightarrow> port_of s' = T | Inr (Inr x, s') \<Rightarrow> view s' = view s"
    by (simp add: triple_def)
qed

subsection \<open>The start-up\<close>

lemma view_other [simp]:
  "view (s\<lparr>device := d\<rparr>) = view s" "view (s\<lparr>calls := k\<rparr>) = view s" "view (s\<lparr>fds := l\<rparr>) = view s"
  "view (s\<lparr>pid_file := p\<rparr>) = view s" "view (s\<lparr>cmds := cs\<rparr>) = view s" "view (s\<lparr>log_lines := ls\<rparr>) = view s"
  "view (s\<lparr>t_dongle := td\<rparr>) = view s" "view (s\<lparr>if_dongle := ds\<rparr>) = view s" "view (s\<lparr>ifs := is\<rparr>) = view s"
  "view (s\<lparr>fdflags := n\<rparr>) = view s" "view (s\<lparr>t_cloexec := b\<rparr>) = view s" "view (s\<lparr>stray := st\<rparr>) = view s"
  by (simp_all add: view_def port_of_def)

lemma frame_log_output [frame_intro]: "frame T (log_output t)"
  by (induction t rule: log_output.induct, subst log_output.simps)
    (auto intro!: frame_intro frame_upd split: option.split)

lemma frame_execute [frame_intro]: "recovers E \<Longrightarrow> frame T (execute E msg cmd)"
  by (auto simp: execute_def Let_def intro!: frame_intro frame_sys split: wait_status.split prod.split)

lemma frame_commands [frame_intro]:
  "recovers E \<Longrightarrow> frame T (load_module E name)"
  "recovers E \<Longrightarrow> frame T (set_sysctl_param E name v)"
  by (simp_all add: load_module_def set_sysctl_param_def run_formatted_def frame_intro)

lemma frame_module_loop: "frame T (module_loop E before ns got)"
  by (induction ns arbitrary: got) (auto intro!: frame_intro frame_upd)

lemma frame_modify_flags [frame_intro]:
  "recovers E \<Longrightarrow> frame T (modify_flags (sys E) dev on off)"
  by (auto simp: modify_flags_def intro!: frame_intro frame_sys split: option.split)

text \<open>Before the handler is installed nothing of the port has been touched.\<close>

definition untouched :: "port_state \<Rightarrow> att \<Rightarrow> bool" where
  "untouched T s \<longleftrightarrow> \<not> trapped s \<and> port_of s = T \<and> initdisc s = -1 \<and> termvalid s = -1 \<and> (devfd s = -1 \<or> initfdflags s = fst T)"

lemma untouched_live: "untouched T s \<Longrightarrow> live T s"
  by (simp add: untouched_def live_def)

lemma untouched_view: "untouched T s \<Longrightarrow> view s' = view s \<Longrightarrow> untouched T s'"
  by (auto simp: untouched_def view_def)

lemma triple_untouched: "frame T m \<Longrightarrow> triple T (untouched T) m (\<lambda>_. untouched T)"
  by (rule triple_frame) (auto dest: untouched_live untouched_view)

lemma untouched_andthen:
  "triple T (untouched T) m (\<lambda>_. untouched T) \<Longrightarrow> (\<And>x. triple T (untouched T) (f x) Q) \<Longrightarrow>
   triple T (untouched T) (andthen m f) Q"
  by (rule triple_andthen)

lemma untouched_thenc:
  "triple T (untouched T) m (\<lambda>_. untouched T) \<Longrightarrow> triple T (untouched T) n Q \<Longrightarrow> triple T (untouched T) (thenc m n) Q"
  by (rule triple_thenc)

lemma untouched_quit: "triple T (untouched T) (quit n) Q"
  by (rule triple_basic) (simp add: untouched_def)

lemma triple_option:
  "triple T P m Q \<Longrightarrow> (\<And>x. triple T P (f x) Q) \<Longrightarrow> triple T P (case v of None \<Rightarrow> m | Some x \<Rightarrow> f x) Q"
  by (cases v) simp_all

lemmas untouched_intro = untouched_andthen untouched_thenc untouched_quit triple_if triple_option

lemma module_devices_untouched:
  "recovers E \<Longrightarrow> triple T (untouched T) (get_module_devices E name) (\<lambda>_. untouched T)"
  unfolding get_module_devices_def
  by (intro untouched_intro) (auto intro!: triple_untouched frame_intro frame_module_loop)

lemma open_device_untouched:
  assumes "recovers E" "e_fd E \<noteq> -1"
  shows "triple T (untouched T) (open_device E)
    (\<lambda>tty s. untouched T s \<and> (tty \<longrightarrow> devfd s \<noteq> -1))"
proof -
  have opened: "triple T (untouched T) (open_tty E dev) (\<lambda>fd s. fd = e_fd E \<and> untouched T (s\<lparr>devfd := fd\<rparr>))" for dev
    unfolding open_tty_def
    by (intro untouched_intro triple_thenc [OF triple_basic(2)] triple_basic(1,3) triple_untouched frame_sys assms(1))
      (auto simp: untouched_def port_of_def)
  show ?thesis
    unfolding open_device_def
    by (intro untouched_andthen triple_if triple_andthen [OF opened] triple_thenc [OF triple_basic(2)] triple_basic(1)
        untouched_thenc [OF module_devices_untouched] triple_untouched frame_intro assms(1))
      (use assms(2) in \<open>auto simp: untouched_def port_of_def intro!: untouched_thenc triple_untouched frame_intro triple_basic assms(1)\<close>)
qed

lemma fork_now_keeps:
  assumes "recovers E" "\<And>s. P s \<Longrightarrow> untouched T s" "\<And>s s'. P s \<Longrightarrow> view s' = view s \<Longrightarrow> P s'"
  shows "triple T P (fork_now E fd) (\<lambda>_. P)"
proof -
  have fr: "triple T P m (\<lambda>_. P)" if "frame T m" for m :: "'b aprog"
    by (rule triple_frame [OF that]) (use assms(2,3) untouched_live in blast)+
  have fork: "triple T P (forkc E) (\<lambda>_. P)" by (rule triple_frame) (use assms(2,3) untouched_live in \<open>auto intro: frame_intro\<close>)
  have "frame T (thenc (upd (\<lambda>s. s\<lparr>fds := filter (\<lambda>i. i = fd \<or> i < 0 \<or> i \<ge> 64) (fds s)\<rparr>)) (write_pid E))"
    unfolding write_pid_def by (intro frame_intro frame_sys frame_upd assms(1)) simp_all
  then show ?thesis
    unfolding fork_now_def
    by (intro triple_andthen [OF fork] triple_if fr triple_basic(3)) (use assms(2) in \<open>auto simp: untouched_def\<close>)
qed

text \<open>
  While the port is set up: \<open>a\<close> tells that its settings have been saved, \<open>b\<close> that its line discipline has.
\<close>

definition setting_up :: "port_state \<Rightarrow> bool \<Rightarrow> bool \<Rightarrow> att \<Rightarrow> bool" where
  "setting_up T a b s \<longleftrightarrow>
     trapped s \<and> devfd s \<noteq> -1 \<and> initfdflags s = fst T \<and>
     (if a then termvalid s = 0 \<and> termsave s = snd (snd T) else termvalid s = -1 \<and> t_term s = snd (snd T)) \<and>
     (if b then initdisc s = fst (snd T) else initdisc s = -1 \<and> t_disc s = fst (snd T))"

lemma setting_up_live: "fst (snd T) \<noteq> -1 \<Longrightarrow> setting_up T a b s \<Longrightarrow> trapped s \<and> live T s"
  by (cases T) (auto simp: setting_up_def live_def port_of_def split: if_splits)

lemma triple_setup:
  assumes "recovers E" "fst (snd T) \<noteq> -1" "\<And>s k. setting_up T a b s \<Longrightarrow> setting_up T a b (f (s\<lparr>calls := k\<rparr>))"
  shows "triple T (setting_up T a b) (sys E f) (\<lambda>_. setting_up T a b)"
proof (rule triple_sys [OF assms(1)])
  show "live T s" if "setting_up T a b s" for s using setting_up_live [OF assms(2) that] by simp
qed (use assms(3) in \<open>simp_all add: setting_up_def\<close>)

lemma triple_setup_exit:
  "recovers E \<Longrightarrow> fst (snd T) \<noteq> -1 \<Longrightarrow> triple T (setting_up T a b) (clean_exit E n) Q"
  unfolding clean_exit_def by (rule triple_cleanup) (auto dest: setting_up_live)

lemma init_irda_ldisc_saves:
  assumes "recovers E" "fst (snd T) \<noteq> -1"
  shows "triple T (setting_up T False b) (init_irda_ldisc E) (\<lambda>_. setting_up T True b)"
proof -
  have read: "triple T (setting_up T False b) (get t_term) (\<lambda>tios s. setting_up T False b s \<and> tios = snd (snd T))"
    by (rule triple_basic) (simp add: setting_up_def)
  have save: "triple T (\<lambda>s. setting_up T False b s \<and> tios = snd (snd T))
      (upd (\<lambda>s. s\<lparr>termsave := tios, termvalid := 0\<rparr>)) (\<lambda>_. setting_up T True b)" for tios
    by (rule triple_basic) (auto simp: setting_up_def)
  show ?thesis
    unfolding init_irda_ldisc_def
    by (intro triple_andthen [OF triple_setup] triple_if triple_andthen [OF read] triple_thenc [OF save]
        triple_setup_exit triple_basic(1) assms) (auto simp: setting_up_def)
qed

lemma establish_irda_saves:
  assumes "recovers E" "fst (snd T) \<noteq> -1"
  shows "triple T (setting_up T True False) (establish_irda E) (\<lambda>_. setting_up T True True)"
proof -
  have save: "triple T (setting_up T True False) (upd (\<lambda>s. s\<lparr>initdisc := t_disc s\<rparr>)) (\<lambda>_. setting_up T True True)"
    by (rule triple_basic) (auto simp: setting_up_def)
  show ?thesis
    unfolding establish_irda_def
    by (intro triple_thenc [OF triple_setup] triple_andthen [OF triple_setup] triple_if triple_thenc [OF save]
        triple_setup_exit triple_basic(1) assms) (auto simp: setting_up_def)
qed

lemma start_tty_saves:
  assumes "recovers E" "fst (snd T) \<noteq> -1"
  shows "triple T (setting_up T False False) (start_tty E) (\<lambda>_. setting_up T True True)"
proof -
  have clear: "triple T (setting_up T False False) (upd (\<lambda>s. s\<lparr>fdflags := fdflags s AND NOT O_NONBLOCK\<rparr>))
      (\<lambda>_. setting_up T False False)"
    by (rule triple_basic) (auto simp: setting_up_def)
  show ?thesis
    unfolding start_tty_def
    by (intro triple_thenc [OF clear] triple_thenc [OF triple_setup] triple_andthen [OF triple_setup] triple_if
        triple_thenc [OF init_irda_ldisc_saves] triple_thenc [OF establish_irda_saves] triple_setup_exit triple_basic(1) assms)
      (auto simp: setting_up_def)
qed

lemma tty_interface_saves:
  assumes "recovers E" "fst (snd T) \<noteq> -1"
  shows "triple T (setting_up T False False) (tty_interface E) (\<lambda>_ s. trapped s \<and> live T s)"
proof -
  have "triple T (setting_up T True True) (check b e) (\<lambda>_. setting_up T True True)" for b e
    by (simp add: check_def triple_basic)
  note chk = this
  have name: "triple T (setting_up T True True) (upd (\<lambda>s. s\<lparr>device := d\<rparr>)) (\<lambda>_ s. trapped s \<and> live T s)" for d
  proof (rule triple_basic)
    fix s assume "setting_up T True True s"
    then have "setting_up T True True (s\<lparr>device := d\<rparr>)" by (simp add: setting_up_def)
    then show "trapped (s\<lparr>device := d\<rparr>) \<and> live T (s\<lparr>device := d\<rparr>)" by (rule setting_up_live [OF assms(2)])
  qed
  show ?thesis
    unfolding tty_interface_def
    by (intro triple_thenc [OF start_tty_saves] triple_andthen [OF triple_setup] triple_if triple_thenc [OF chk]
        name triple_setup_exit assms) (auto simp: setting_up_def)
qed

text \<open>Once the handler is installed every end of the process goes through it.\<close>

definition armed :: "port_state \<Rightarrow> att \<Rightarrow> bool" where
  "armed T s \<longleftrightarrow> trapped s \<and> live T s"

lemma armed_view: "armed T s \<Longrightarrow> view s' = view s \<Longrightarrow> armed T s'"
  using live_view [of s' s T] by (simp add: armed_def view_def)

lemma triple_armed: "frame T m \<Longrightarrow> triple T (armed T) m (\<lambda>_. armed T)"
  by (rule triple_frame) (simp_all add: armed_view, simp add: armed_def)

lemma armed_andthen:
  "triple T (armed T) m (\<lambda>_. armed T) \<Longrightarrow> (\<And>x. triple T (armed T) (f x) Q) \<Longrightarrow> triple T (armed T) (andthen m f) Q"
  by (rule triple_andthen)

lemma armed_thenc:
  "triple T (armed T) m (\<lambda>_. armed T) \<Longrightarrow> triple T (armed T) n Q \<Longrightarrow> triple T (armed T) (thenc m n) Q"
  by (rule triple_thenc)

lemma armed_exit: "recovers E \<Longrightarrow> triple T (armed T) (clean_exit E n) Q"
  unfolding clean_exit_def by (rule triple_cleanup) (simp_all add: armed_def)

lemmas armed_intro = armed_andthen armed_thenc armed_exit triple_if triple_option

lemma start_interface_ends:
  assumes "recovers E"
  shows "triple T (armed T) (start_interface E dongle discovery) (\<lambda>_. armed T)"
  unfolding start_interface_def attach_dongle_def ifup_def
  by (intro armed_intro assms triple_armed frame_intro frame_sys) simp_all

lemma main_ends:
  assumes "recovers E" "e_fd E \<noteq> -1" "fst (snd T) \<noteq> -1"
  shows "triple T (untouched T) (main E argc argv1 opts) (\<lambda>_. armed T)"
proof -
  have trap: "triple T (\<lambda>s. untouched T s \<and> (tty \<longrightarrow> devfd s \<noteq> -1)) (upd (\<lambda>s. s\<lparr>trapped := True\<rparr>))
      (\<lambda>_ s. if tty then setting_up T False False s else armed T s)" for tty
    by (rule triple_basic) (cases T, auto simp: untouched_def setting_up_def armed_def live_def port_of_def)
  have tty: "triple T (\<lambda>s. if tty then setting_up T False False s else armed T s) (if tty then tty_interface E else val ())
      (\<lambda>_. armed T)" for tty
    using tty_interface_saves [OF assms(1,3)] by (cases tty) (simp_all add: armed_def [abs_def] triple_basic)
  have fork: "triple T (\<lambda>s. untouched T s \<and> (tty \<longrightarrow> devfd s \<noteq> -1)) (if d then fork_now E fd else val ())
      (\<lambda>_ s. untouched T s \<and> (tty \<longrightarrow> devfd s \<noteq> -1))" for d fd tty
    by (intro triple_if fork_now_keeps assms(1) triple_basic(1)) (auto simp: untouched_view, simp add: view_def)
  have fd: "triple T (\<lambda>s. untouched T s \<and> (tty \<longrightarrow> devfd s \<noteq> -1)) (get devfd) (\<lambda>_ s. untouched T s \<and> (tty \<longrightarrow> devfd s \<noteq> -1))" for tty
    by (rule triple_basic)
  have opt: "triple T (untouched T) (case x of Inl e \<Rightarrow> ret (Inl e) | Inr o1 \<Rightarrow> f o1) Q"
    if "\<And>o1. triple T (untouched T) (f o1) Q" for x :: "ended + att_opts" and f :: "att_opts \<Rightarrow> unit aprog" and Q
    using that by (cases x) (simp_all add: triple_def ret_def untouched_def)
  show ?thesis
    unfolding main_def
    by (intro triple_if untouched_quit untouched_thenc opt triple_andthen [OF open_device_untouched] triple_andthen [OF fd]
        triple_thenc [OF fork] triple_thenc [OF trap] triple_thenc [OF tty] start_interface_ends triple_untouched frame_upd assms)
      simp_all
qed

text \<open>A serial port with an ordinary terminal on it; interface \<^verbatim>\<open>irda0\<close> is down.\<close>

definition demo_term :: termios where
  "demo_term = \<lparr>c_iflag = 0x500, c_oflag = 5, c_cflag = 0xbf, c_lflag = 0x8a3b, c_cc = replicate 32 0\<rparr>"

definition demo_att :: att where
  "demo_att = \<lparr>devfd = -1, fdflags = -1, initfdflags = -1, initdisc = -1, termsave = demo_term, termvalid = -1,
     device = [], trapped = False, calls = 0, restores = 0, forks = 0, t_flags = 0x802, t_disc = 0, t_term = demo_term,
     t_cloexec = False, t_dongle = None, fds = [0, 1, 2], ifs = [''irda0'' \<mapsto> 0], if_dongle = Map.empty,
     pid_file = False, cmds = [], log_lines = [], stray = []\<rparr>"

definition demo_env :: "(nat \<Rightarrow> answer) \<Rightarrow> env" where
  "demo_env ans = \<lparr>e_ans = ans, e_restore = (\<lambda>n. True), e_fork = (\<lambda>n. 0), e_fd = 3, e_cmd = (\<lambda>c. ([], Exited 0)),
     e_netdev = (\<lambda>n. None), e_ifname = ''irda0'', e_node = ''host.local''\<rparr>"

section \<open>A successful start\<close>

lemma sys_Ok: "\<forall>n. e_ans E n = Ok \<Longrightarrow> sys E f s = Inr (Inr True, f (s\<lparr>calls := calls s + 1\<rparr>))"
  by (simp add: sys_def)

lemma log_output_run:
  "CHR 0x00 \<notin> set t \<Longrightarrow> \<exists>ls. log_output t s = Inr (Inr (), s\<lparr>log_lines := log_lines s @ ls\<rparr>)"
proof (induction t arbitrary: s rule: log_output.induct)
  case (1 t)
  show ?case
  proof (cases "fgets 255 t")
    case None
    then show ?thesis by (auto simp: log_output.simps [of t] val_def ret_def intro!: exI [of _ "[]"])
  next
    case (Some p)
    then obtain l r where p: "fgets 255 t = Some (l, r)" by (cases p) simp
    then have t: "t = l @ r" "l \<noteq> []" by (auto simp: fgets_def Let_def split: if_splits)
    then have c: "c_str l = l" using "1.prems" by (auto simp: c_str_def takeWhile_eq_all_conv)
    obtain ls where "log_output r (s\<lparr>log_lines := log_lines s @ [butlast l]\<rparr>) =
        Inr (Inr (), s\<lparr>log_lines := (log_lines s @ [butlast l]) @ ls\<rparr>)"
      using "1.IH" [OF p refl, of "s\<lparr>log_lines := log_lines s @ [butlast l]\<rparr>"] "1.prems" t by auto
    then show ?thesis using p c t(2)
      by (auto simp: log_output.simps [of t] thenc_def andthen_def bnd_def check_def upd_def val_def ret_def
          intro!: exI [of _ "butlast l # ls"])
  qed
qed

lemma run_formatted_run:
  assumes "\<forall>n. e_ans E n = Ok" "\<forall>c. CHR 0x00 \<notin> set (fst (e_cmd E c))" "length msg < 128" "length cmd < 507"
  shows "\<exists>r ls. run_formatted E msg cmd s =
    Inr (Inr r, s\<lparr>calls := calls s + 1, cmds := cmds s @ [cmd @ '' 2>&1''], log_lines := log_lines s @ ls\<rparr>)"
proof -
  obtain out st where e: "e_cmd E (cmd @ '' 2>&1'') = (out, st)" by (cases "e_cmd E (cmd @ '' 2>&1'')") simp
  then have "CHR 0x00 \<notin> set out" using assms(2) by (metis fst_conv)
  from log_output_run [OF this, of "s\<lparr>calls := calls s + 1, cmds := cmds s @ [cmd @ '' 2>&1'']\<rparr>"]
  obtain ls where "log_output out (s\<lparr>calls := calls s + 1, cmds := cmds s @ [cmd @ '' 2>&1'']\<rparr>) =
      Inr (Inr (), s\<lparr>calls := calls s + 1, cmds := cmds s @ [cmd @ '' 2>&1''], log_lines := log_lines s @ ls\<rparr>)" by auto
  with e assms show ?thesis
    by (auto simp: run_formatted_def execute_def sys_Ok thenc_def andthen_def bnd_def check_def val_def ret_def
        split: wait_status.split)
qed

lemma start_tty_Ok:
  "\<forall>n. e_ans E n = Ok \<Longrightarrow> \<exists>k. start_tty E s = Inr (Inr (), s\<lparr>fdflags := fdflags s AND NOT O_NONBLOCK,
     t_flags := (fdflags s AND NOT O_NONBLOCK) OR O_NONBLOCK, t_cloexec := True, termsave := t_term s, termvalid := 0,
     t_term := tty_configure (t_term s), initdisc := t_disc s, t_disc := 11, calls := k\<rparr>)"
  by (rule exI [of _ "calls s + 10"])
    (simp add: start_tty_def init_irda_ldisc_def establish_irda_def aprog_defs sys_Ok eval_nat_numeral)

lemma ifup_Ok:
  "\<forall>n. e_ans E n = Ok \<Longrightarrow> ifs s (take 16 dev) = Some w \<Longrightarrow>
   ifup (sys E) dev s = Inr (Inr 0, s\<lparr>calls := calls s + 3, ifs := (ifs s)(take 16 dev \<mapsto> w OR 0x41)\<rparr>)"
  by (simp add: ifup_def modify_flags_def aprog_defs sys_Ok)

text \<open>The commands of the start-up.\<close>

definition sysctl_cmd :: "string \<Rightarrow> string \<Rightarrow> string" where
  "sysctl_cmd name v = ''echo '' @ v @ '' > /proc/sys/net/irda/'' @ name @ '' 2>&1''"

lemma sysctl_run:
  assumes "\<forall>n. e_ans E n = Ok" "\<forall>c. CHR 0x00 \<notin> set (fst (e_cmd E c))" "length v \<le> 65" "length name \<le> 9"
  shows "\<exists>r ls. set_sysctl_param E name v s =
    Inr (Inr r, s\<lparr>calls := calls s + 1, cmds := cmds s @ [sysctl_cmd name v], log_lines := log_lines s @ ls\<rparr>)"
  using run_formatted_run [OF assms(1,2), of "''Setting '' @ name @ '' to '' @ v" "''echo '' @ v @ '' > /proc/sys/net/irda/'' @ name" s]
    assms(3,4) by (simp add: set_sysctl_param_def sysctl_cmd_def)

definition rest_of :: "att \<Rightarrow> _" where
  "rest_of s = (view s, device s, fds s, pid_file s, ifs s)"

lemma start_interface_Ok:
  assumes "\<forall>n. e_ans E n = Ok" "\<forall>c. CHR 0x00 \<notin> set (fst (e_cmd E c))" "node_token (e_node E) = Some t" "length t \<le> 65"
    "ifs s (device s) = Some w" "length (device s) \<le> 16" "devfd s \<noteq> -1"
  shows "\<exists>s'. start_interface E dongle discovery s = Inr (Inr (), s') \<and>
    rest_of s' = rest_of (s\<lparr>ifs := (ifs s)(device s \<mapsto> w OR 0x41)\<rparr>) \<and>
    t_dongle s' = (if dongle \<noteq> -1 then Some dongle else t_dongle s) \<and>
    cmds s' = cmds s @ sysctl_cmd ''devname'' t # (if discovery > 0 then [sysctl_cmd ''discovery'' ''1''] else [])"
proof -
  have upd: "rest_of (s\<lparr>t_dongle := d\<rparr>) = rest_of s" "rest_of (s\<lparr>calls := k\<rparr>) = rest_of s"
    "rest_of (s\<lparr>cmds := c\<rparr>) = rest_of s" "rest_of (s\<lparr>log_lines := l\<rparr>) = rest_of s" for s d k c l
    by (simp_all add: rest_of_def)
  obtain s1 where 1: "(if dongle \<noteq> -1 then attach_dongle E (devfd s) (device s) dongle else val ()) s = Inr (Inr (), s1)"
    "rest_of s1 = rest_of s" "t_dongle s1 = (if dongle \<noteq> -1 then Some dongle else t_dongle s)" "cmds s1 = cmds s"
    using assms(1,7) by (cases "dongle = -1") (simp_all add: attach_dongle_def aprog_defs sys_Ok upd)
  obtain r2 s2 where 2: "set_sysctl_param E ''devname'' t (s1\<lparr>calls := calls s1 + 1\<rparr>) = Inr (Inr r2, s2)"
    "rest_of s2 = rest_of s" "t_dongle s2 = t_dongle s1" "cmds s2 = cmds s @ [sysctl_cmd ''devname'' t]"
    using sysctl_run [OF assms(1,2,4), of "''devname''" "s1\<lparr>calls := calls s1 + 1\<rparr>"] 1(2,4) upd by fastforce
  obtain r3 s3 where 3: "(if discovery > 0 then set_sysctl_param E ''discovery'' ''1'' else val 0) s2 = Inr (Inr r3, s3)"
    "rest_of s3 = rest_of s" "t_dongle s3 = t_dongle s1"
    "cmds s3 = cmds s @ sysctl_cmd ''devname'' t # (if discovery > 0 then [sysctl_cmd ''discovery'' ''1''] else [])"
  proof (cases "discovery > 0")
    case True
    then show ?thesis
      using that sysctl_run [OF assms(1,2), of "''1''" "''discovery''" s2] 2(2-4) upd by fastforce
  next
    case False
    then show ?thesis using that [of 0 s2] 2(2-4) by (simp add: val_def ret_def)
  qed
  have i: "ifs s3 = ifs s" using 3(2) by (simp add: rest_of_def)
  then have "ifup (sys E) (device s) s3 = Inr (Inr 0, s3\<lparr>calls := calls s3 + 3, ifs := (ifs s)(device s \<mapsto> w OR 0x41)\<rparr>)"
    using ifup_Ok [OF assms(1), of s3 "device s" w] assms(5,6) by simp
  then show ?thesis
    unfolding start_interface_def
    using 1(1,3) 2(1) 3 i assms(1,3) by (simp add: aprog_defs sys_Ok) (simp add: rest_of_def)
qed

text \<open>C27: When no system call fails the daemon reaches its waiting loop: the serial port has the infrared line discipline
  and transparent settings, its interface is up and running, the dongle is attached, the host name has been made
  the device name and, when asked for, discovery is on.\<close>

theorem start_up_brings_interface_up:
  assumes "\<forall>n. e_ans E n = Ok" "\<forall>n. e_fork E n \<le> 0" "\<forall>c. CHR 0x00 \<notin> set (fst (e_cmd E c))" "2 \<le> argc" "argc \<le> 5"
    "is_prefix ''/dev'' argv1" "0 \<le> e_fd E" "length (e_ifname E) < 6" "ifs s (e_ifname E) = Some w"
    "node_token (e_node E) = Some t" "length t \<le> 65"
    "att_options opts \<lparr>o_dongle = -1, o_discovery = -1, o_daemonize = True\<rparr> = Inr o1"
  shows "\<exists>s'. main E argc argv1 opts s = Inr (Inr (), s') \<and> device s' = e_ifname E \<and> e_fd E \<in> set (fds s') \<and>
    t_disc s' = 11 \<and> t_term s' = tty_configure (t_term s) \<and> ifs s' (e_ifname E) = Some (w OR 0x41) \<and>
    t_dongle s' = (if o_dongle o1 \<noteq> -1 then Some (o_dongle o1) else t_dongle s) \<and>
    cmds s' = cmds s @ sysctl_cmd ''devname'' t # (if o_discovery o1 > 0 then [sysctl_cmd ''discovery'' ''1''] else []) \<and>
    trapped s'"
proof -
  let ?s0 = "s\<lparr>device := take 20 argv1, stray := stray s @ [(''device'', 20)]\<rparr>"
  have child: "\<not> 0 < e_fork E n" for n using assms(2) by (simp add: not_less)
  have dev: "is_prefix ''/dev'' (take 20 argv1)" using assms(6) by (simp add: is_prefix_def min_def)
  obtain s1 where 1: "open_device E ?s0 = Inr (Inr True, s1)" "devfd s1 = e_fd E" "e_fd E \<in> set (fds s1)"
    "ifs s1 = ifs s" "t_term s1 = t_term s" "t_dongle s1 = t_dongle s" "cmds s1 = cmds s"
    using dev assms(1) by (simp add: open_device_def open_tty_def aprog_defs sys_Ok)
  obtain s2 where 2: "(if o_daemonize o1 then fork_now E (devfd s1) else val ()) s1 = Inr (Inr (), s2)" "devfd s2 = e_fd E"
    "e_fd E \<in> set (fds s2)" "ifs s2 = ifs s" "t_term s2 = t_term s" "t_dongle s2 = t_dongle s" "cmds s2 = cmds s"
    using 1 assms(1) child
    by (cases "o_daemonize o1") (simp_all add: fork_now_def write_pid_def forkc_def aprog_defs sys_Ok)
  obtain s3 where 3: "tty_interface E (s2\<lparr>trapped := True\<rparr>) = Inr (Inr (), s3)" "devfd s3 = e_fd E" "device s3 = e_ifname E"
    "e_fd E \<in> set (fds s3)" "ifs s3 = ifs s" "t_term s3 = tty_configure (t_term s)" "t_disc s3 = 11" "t_dongle s3 = t_dongle s"
    "cmds s3 = cmds s" "trapped s3"
  proof -
    obtain k where "start_tty E (s2\<lparr>trapped := True\<rparr>) = Inr (Inr (), s2\<lparr>trapped := True, fdflags := fdflags s2 AND NOT O_NONBLOCK,
     t_flags := (fdflags s2 AND NOT O_NONBLOCK) OR O_NONBLOCK, t_cloexec := True, termsave := t_term s2, termvalid := 0,
     t_term := tty_configure (t_term s2), initdisc := t_disc s2, t_disc := 11, calls := k\<rparr>)"
      using start_tty_Ok [OF assms(1), of "s2\<lparr>trapped := True\<rparr>"] by auto
    then show ?thesis using that 2 assms(1,8) by (simp add: tty_interface_def aprog_defs sys_Ok)
  qed
  obtain s4 where 4: "start_interface E (o_dongle o1) (o_discovery o1) s3 = Inr (Inr (), s4)"
    "rest_of s4 = rest_of (s3\<lparr>ifs := (ifs s3)(device s3 \<mapsto> w OR 0x41)\<rparr>)"
    "t_dongle s4 = (if o_dongle o1 \<noteq> -1 then Some (o_dongle o1) else t_dongle s3)"
    "cmds s4 = cmds s3 @ sysctl_cmd ''devname'' t # (if o_discovery o1 > 0 then [sysctl_cmd ''discovery'' ''1''] else [])"
    using start_interface_Ok [OF assms(1,3,10,11), of s3 w "o_dongle o1" "o_discovery o1"] 3 assms(7-9) by auto
  have "main E argc argv1 opts s = Inr (Inr (), s4)"
    using 1(1) 2(1) 3(1) 4(1) assms(4,5,12) by (simp add: main_def aprog_defs)
  then show ?thesis using 3 4 by (simp add: rest_of_def view_def port_of_def)
qed

theorem start_up_brings_interface_up_witness:
  "\<exists>s'. main (demo_env (\<lambda>n. Ok)) 5 ''/dev/ttyS1'' [(CHR ''d'', ''tekram''), (CHR ''s'', [])] demo_att = Inr (Inr (), s') \<and>
     device s' = ''irda0'' \<and> ifs s' ''irda0'' = Some 0x41 \<and> t_disc s' = 11 \<and> t_dongle s' = Some 0"
proof -
  let ?E = "demo_env (\<lambda>n. Ok)"
  have o: "att_options [(CHR ''d'', ''tekram''), (CHR ''s'', [])] \<lparr>o_dongle = -1, o_discovery = -1, o_daemonize = True\<rparr> =
      Inr \<lparr>o_dongle = 0, o_discovery = 1, o_daemonize = True\<rparr>"
    by code_simp
  have n: "node_token (e_node ?E) = Some ''host''" by code_simp
  show ?thesis
    using start_up_brings_interface_up [OF _ _ _ _ _ _ _ _ _ n _ o, of 5 "''/dev/ttyS1''" demo_att 0]
    by (auto simp: demo_env_def demo_att_def is_prefix_def)
qed

section \<open>Interfaces of a module\<close>

text \<open>A line of \<^verbatim>\<open>/proc/net/dev\<close>: indentation, name, counters.\<close>

definition dev_line :: "nat \<times> string \<times> string \<Rightarrow> string" where
  "dev_line d = (case d of (k, n, r) \<Rightarrow> replicate k CHR '' '' @ n @ CHR '':'' # r @ [CHR 0x0a])"

definition line_ok :: "nat \<Rightarrow> nat \<times> string \<times> string \<Rightarrow> bool" where
  "line_ok maxchars d \<longleftrightarrow> (case d of (k, n, r) \<Rightarrow>
     n \<noteq> [] \<and> length n < maxchars \<and> k + length n + length r \<le> 1000 \<and>
     (\<forall>c\<in>set n. \<not> isspace c \<and> c \<noteq> CHR '':'' \<and> c \<noteq> CHR 0x00) \<and> (\<forall>c\<in>set r. c \<noteq> CHR 0x0a \<and> c \<noteq> CHR 0x00))"

definition irda_names :: "(nat \<times> string \<times> string) list \<Rightarrow> string list" where
  "irda_names ds = filter (is_prefix ''irda'') (map (\<lambda>d. fst (snd d)) ds)"

lemma is_prefix_append: "length p \<le> length t \<Longrightarrow> is_prefix p (t @ u) = is_prefix p t"
  by (simp add: is_prefix_def)

lemma name_of_line:
  assumes "line_ok maxchars (k, n, r)"
  shows "get_irdevname maxchars (dev_line (k, n, r)) = (if is_prefix ''irda'' n then Some n else None)"
proof -
  let ?b = "n @ CHR '':'' # r @ [CHR 0x0a]"
  have nul: "\<forall>c\<in>set ?b. c \<noteq> CHR 0x00" using assms by (auto simp: line_ok_def)
  have "\<forall>c\<in>set (replicate k CHR '' ''). c \<noteq> CHR 0x00" by (simp add: set_replicate_conv_if)
  then have "\<forall>c\<in>set (replicate k CHR '' '' @ ?b). c \<noteq> CHR 0x00" using nul unfolding set_append by blast
  then have c: "c_str (dev_line (k, n, r)) = replicate k CHR '' '' @ ?b"
    unfolding c_str_def dev_line_def prod.case takeWhile_eq_all_conv .
  have sp: "isspace CHR '' ''" by (simp add: isspace_def)
  obtain c0 n' where n: "n = c0 # n'" "\<not> isspace c0" using assms by (cases n) (auto simp: line_ok_def)
  have drop: "dropWhile isspace (replicate k CHR '' '' @ ?b) = ?b"
    using sp n by (induction k) simp_all
  have name: "takeWhile (\<lambda>c. c \<noteq> CHR '':'') ?b = n" "CHR '':'' \<in> set ?b"
    using assms by (auto simp: line_ok_def takeWhile_append2)
  have pre: "is_prefix ''irda'' ?b = is_prefix ''irda'' n"
  proof (cases "4 \<le> length n")
    case False
    then obtain j where "4 - length n = Suc j" by (cases "4 - length n") simp_all
    then have "CHR '':'' \<in> set (take 4 ?b)" using False by simp
    moreover have "CHR '':'' \<notin> set ''irda''" by simp
    ultimately have "take 4 ?b \<noteq> ''irda''" by metis
    moreover have "length (take 4 n) \<noteq> length ''irda''" using False by simp
    then have "take 4 n \<noteq> ''irda''" by metis
    moreover have "is_prefix ''irda'' t \<longleftrightarrow> take 4 t = ''irda''" for t by (simp add: is_prefix_def eval_nat_numeral)
    ultimately show ?thesis by blast
  qed (simp add: is_prefix_append)
  show ?thesis
    unfolding get_irdevname_def c drop Let_def name(1) pre using name(2) assms by (simp add: line_ok_def)
qed

lemma fgets_dev_line:
  assumes "line_ok maxchars d"
  shows "fgets 1024 (dev_line d @ t) = Some (dev_line d, t)"
proof -
  obtain k n r where d: "d = (k, n, r)" by (cases d)
  have sp: "isspace CHR 0x0a" by (simp add: isspace_def)
  let ?l = "replicate k CHR '' '' @ n @ CHR '':'' # r"
  have "CHR 0x0a \<notin> set ?l" "length ?l + 2 \<le> 1024" using assms sp by (auto simp: d line_ok_def)
  from fgets_line [OF this, of t] show ?thesis by (simp add: d dev_line_def)
qed

lemma devlist_loop_reads:
  assumes "list_all (line_ok maxchars) ds" "length names \<le> maxnames"
  shows "devlist_loop maxchars maxnames (concat (map dev_line ds)) names =
    (if length (names @ irda_names ds) \<le> maxnames then Inr (Some (names @ irda_names ds))
     else Inl (Local_Bounds ''ifnames'' maxnames))"
  using assms
proof (induction ds arbitrary: names)
  case Nil
  then show ?case by (simp add: devlist_loop.simps [of _ _ "[]"] fgets_def irda_names_def)
next
  case (Cons d ds)
  obtain k n r where d: "d = (k, n, r)" by (cases d)
  have ok: "line_ok maxchars (k, n, r)" using Cons.prems(1) d by simp
  note step = devlist_loop.simps [of maxchars maxnames "dev_line d @ concat (map dev_line ds)" names]
  show ?case
  proof (cases "is_prefix ''irda'' n")
    case True
    then have e: "irda_names (d # ds) = n # irda_names ds" by (simp add: irda_names_def d)
    show ?thesis
    proof (cases "length names < maxnames")
      case less: True
      then show ?thesis
        using Cons.IH [of "names @ [n]"] Cons.prems step name_of_line [OF ok] True fgets_dev_line [OF ok] e d by simp
    next
      case False
      then show ?thesis
        using Cons.prems step name_of_line [OF ok] True fgets_dev_line [OF ok] e d by simp
    qed
  next
    case False
    then have "irda_names (d # ds) = irda_names ds" by (simp add: irda_names_def d)
    then show ?thesis
      using Cons.IH [of names] Cons.prems step name_of_line [OF ok] False fgets_dev_line [OF ok] d by simp
  qed
qed

text \<open>The list of infrared interfaces is read from \<^verbatim>\<open>/proc/net/dev\<close> as the kernel writes it: the names that begin with
  \<^verbatim>\<open>irda\<close>, in their order. One name more than the array has entries is stored behind its end.\<close>

theorem device_list_read:
  assumes "list_all (line_ok maxchars) ds" "CHR 0x0a \<notin> set h1" "CHR 0x0a \<notin> set h2" "length h1 \<le> 1000" "length h2 \<le> 1000"
  shows "get_devlist (Some (h1 @ CHR 0x0a # h2 @ CHR 0x0a # concat (map dev_line ds))) maxchars maxnames =
    (if length (irda_names ds) \<le> maxnames then Inr (Some (irda_names ds)) else Inl (Local_Bounds ''ifnames'' maxnames))"
proof -
  have "drop_line (h @ CHR 0x0a # t) = t" if "CHR 0x0a \<notin> set h" "length h \<le> 1000" for h t
    using fgets_line [of h 1024 t] that by (simp add: drop_line_def)
  then show ?thesis using devlist_loop_reads [OF assms(1), of "[]" maxnames] assms by (simp add: get_devlist_def)
qed

theorem device_list_read_witness:
  "get_devlist (Some (''Inter-|'' @ CHR 0x0a # '' face |'' @ CHR 0x0a #
     concat (map dev_line [(4, ''lo'', ''0''), (1, ''irda0'', '' 12 3''), (2, ''eth0'', ''''), (1, ''irda1'', ''0'')]))) 17 10 =
   Inr (Some [''irda0'', ''irda1''])"
proof -
  let ?ds = "[(4, ''lo'', ''0''), (1, ''irda0'', '' 12 3''), (2, ''eth0'', ''''), (1, ''irda1'', ''0'')]"
  have "list_all (line_ok 17) ?ds" "irda_names ?ds = [''irda0'', ''irda1'']" by code_simp+
  then show ?thesis using device_list_read [of 17 ?ds "''Inter-|''" "'' face |''" 10] by simp
qed

text \<open>
  The loop over the interfaces when one has been found already: \<open>new\<close> are the further new ones, each with a fork of its own.
\<close>

lemma module_loop_parent:
  "(\<forall>i < length (filter (\<lambda>n. n \<notin> set before) ns). e_fork E (forks s + i) \<noteq> 0) \<Longrightarrow>
   module_loop E before ns True s = Inr (Inr 0, s\<lparr>forks := forks s + length (filter (\<lambda>n. n \<notin> set before) ns)\<rparr>)"
proof (induction ns arbitrary: s)
  case (Cons n ns)
  show ?case
  proof (cases "n \<in> set before")
    case False
    have "e_fork E (forks s) \<noteq> 0" using Cons.prems False by (metis add.right_neutral filter.simps(2) length_Cons zero_less_Suc)
    moreover have "\<forall>i < length (filter (\<lambda>n. n \<notin> set before) ns). e_fork E (Suc (forks s) + i) \<noteq> 0"
      using Cons.prems False by (metis (no_types, lifting) Suc_mono add_Suc_shift filter.simps(2) length_Cons)
    ultimately show ?thesis using Cons.IH [of "s\<lparr>forks := Suc (forks s)\<rparr>"] False by (simp add: forkc_def andthen_def bnd_def)
  qed (use Cons in simp)
qed (simp add: val_def ret_def)

lemma module_loop_child:
  "j < length (filter (\<lambda>n. n \<notin> set before) ns) \<Longrightarrow> (\<forall>i < j. e_fork E (forks s + i) \<noteq> 0) \<Longrightarrow> e_fork E (forks s + j) = 0 \<Longrightarrow>
   module_loop E before ns True s =
     Inr (Inr 0, s\<lparr>forks := forks s + j + 1, device := filter (\<lambda>n. n \<notin> set before) ns ! j\<rparr>)"
proof (induction ns arbitrary: s j)
  case (Cons n ns)
  show ?case
  proof (cases "n \<in> set before")
    case False
    show ?thesis
    proof (cases j)
      case 0
      with Cons.prems False show ?thesis by (simp add: forkc_def aprog_defs)
    next
      case (Suc i)
      have "e_fork E (forks s) \<noteq> 0" using Cons.prems(2) Suc by (metis add.right_neutral zero_less_Suc)
      moreover have "\<forall>k < i. e_fork E (Suc (forks s) + k) \<noteq> 0" using Cons.prems(2) Suc by (metis Suc_mono add_Suc_shift)
      ultimately show ?thesis
        using Cons.IH [of i "s\<lparr>forks := Suc (forks s)\<rparr>"] Cons.prems(1,3) Suc False by (simp add: forkc_def andthen_def bnd_def)
    qed
  qed (use Cons in simp)
qed simp

lemma module_loop_first:
  "filter (\<lambda>n. n \<notin> set before) ns = new # news \<Longrightarrow>
   \<exists>ms. module_loop E before ns False s = module_loop E before ms True (s\<lparr>device := new\<rparr>) \<and> filter (\<lambda>n. n \<notin> set before) ms = news"
proof (induction ns)
  case (Cons n ns)
  then show ?case by (cases "n \<in> set before") (auto simp: aprog_defs intro: exI [of _ ns])
qed simp

text \<open>C28: After a module has been loaded each interface it has brought is managed by a process of its own: the first
  one by the process that was started, each other by a child. \<open>j\<close> counts the forks: 0 for the process that was
  started, \<open>j\<close> for the child of the \<open>j\<close>-th fork.\<close>

theorem one_process_per_interface:
  assumes "\<forall>n. e_ans E n = Ok" "\<forall>c. e_cmd E c = ([], Exited 0)" "length name \<le> 20"
    "get_devlist (e_netdev E 0) 17 10 = Inr (Some before)" "get_devlist (e_netdev E 1) 17 15 = Inr (Some after)"
    "new = filter (\<lambda>n. n \<notin> set before) after" "j < length new" "forks s = 0"
    "\<forall>i. i + 1 < j \<longrightarrow> e_fork E i > 0" "if j = 0 then \<forall>i. e_fork E i > 0 else e_fork E (j - 1) = 0"
  shows "\<exists>s'. get_module_devices E name s = Inr (Inr 0, s') \<and> device s' = new ! j"
proof -
  obtain n ns where new: "new = n # ns" using assms(7) by (cases new) simp_all
  let ?s = "s\<lparr>calls := calls s + 1, cmds := cmds s @ [''/sbin/modprobe '' @ name @ '' 2>&1'']\<rparr>"
  have load: "load_module E name s = Inr (Inr 0, ?s)"
    using assms(1-3) by (simp add: load_module_def run_formatted_def execute_def sys_Ok aprog_defs log_output.simps [of "[]"] fgets_def)
  have "after \<noteq> []" using new assms(6) by auto
  then have run: "get_module_devices E name s = module_loop E before after False ?s"
    using load assms(4,5) by (simp add: get_module_devices_def from_sum_def andthen_def bnd_def val_def ret_def)
  obtain ms where ms: "module_loop E before after False ?s = module_loop E before ms True (?s\<lparr>device := n\<rparr>)"
    "filter (\<lambda>n. n \<notin> set before) ms = ns"
    using module_loop_first [of before after n ns E ?s] new assms(6) by auto
  show ?thesis
  proof (cases j)
    case 0
    then have "\<forall>i. e_fork E i \<noteq> 0" using assms(10) by (metis less_irrefl)
    then show ?thesis
      using module_loop_parent [of before ms E "?s\<lparr>device := n\<rparr>"] run ms new 0 by simp
  next
    case (Suc i)
    have "\<forall>k < i. e_fork E k \<noteq> 0" using assms(9) Suc by (metis add.commute plus_1_eq_Suc Suc_mono less_irrefl)
    then show ?thesis
      using module_loop_child [of i before ms E "?s\<lparr>device := n\<rparr>"] run ms new Suc assms(7,8,10) by simp
  qed
qed

theorem one_process_per_interface_witness:
  "\<exists>s'. get_module_devices ((demo_env (\<lambda>n. Ok))\<lparr>e_netdev := (\<lambda>k. Some (CHR 0x0a # CHR 0x0a #
      concat (map dev_line (if k = 0 then [(1, ''irda0'', ''0'')] else [(1, ''irda0'', ''0''), (1, ''irda1'', ''0''), (1, ''irda2'', ''0'')]))))\<rparr>)
      ''irda_usb'' demo_att = Inr (Inr 0, s') \<and> device s' = ''irda2''"
proof -
  let ?E = "(demo_env (\<lambda>n. Ok))\<lparr>e_netdev := (\<lambda>k. Some (CHR 0x0a # CHR 0x0a #
      concat (map dev_line (if k = 0 then [(1, ''irda0'', ''0'')] else [(1, ''irda0'', ''0''), (1, ''irda1'', ''0''), (1, ''irda2'', ''0'')]))))\<rparr>"
  have "get_devlist (e_netdev ?E 0) 17 10 = Inr (Some [''irda0''])"
    "get_devlist (e_netdev ?E 1) 17 15 = Inr (Some [''irda0'', ''irda1'', ''irda2''])"
    by code_simp+
  from one_process_per_interface [OF _ _ _ this refl, where j = 1 and s = demo_att and name = "''irda_usb''"]
  show ?thesis by (simp add: demo_env_def demo_att_def)
qed

section \<open>Arrays and tables\<close>

text \<open>\<open>faults_in F m\<close>: the faults a command can run into.\<close>

definition faults_in :: "c_fault set \<Rightarrow> 'a aprog \<Rightarrow> bool" where
  "faults_in F m \<longleftrightarrow> (\<forall>s e. m s = Inl e \<longrightarrow> e \<in> F)"

lemma faults_andthen: "faults_in F m \<Longrightarrow> (\<And>x. faults_in F (f x)) \<Longrightarrow> faults_in F (andthen m f)"
  unfolding faults_in_def andthen_def bnd_def ret_def by (fastforce split: sum.splits)

lemma faults_thenc: "faults_in F m \<Longrightarrow> faults_in F n \<Longrightarrow> faults_in F (thenc m n)"
  unfolding thenc_def by (rule faults_andthen)

lemma faults_if: "(b \<Longrightarrow> faults_in F m) \<Longrightarrow> (\<not> b \<Longrightarrow> faults_in F n) \<Longrightarrow> faults_in F (if b then m else n)"
  by simp

lemma faults_option:
  "(v = None \<Longrightarrow> faults_in F m) \<Longrightarrow> (\<And>x. v = Some x \<Longrightarrow> faults_in F (f x)) \<Longrightarrow> faults_in F (case v of None \<Rightarrow> m | Some x \<Rightarrow> f x)"
  by (cases v) simp_all

lemma faults_basic:
  "faults_in F (val x)" "faults_in F (get g)" "faults_in F (upd f)" "faults_in F (quit n)" "faults_in F (forkc E)"
  "faults_in F (rcall E f)" "faults_in F (ret r)"
  by (simp_all add: faults_in_def val_def ret_def get_def upd_def quit_def forkc_def rcall_def)

lemma faults_check: "b \<or> e \<in> F \<Longrightarrow> faults_in F (check b e)" "e \<in> F \<Longrightarrow> faults_in F (fault e)"
  by (auto simp: faults_in_def check_def val_def ret_def fault_def)

lemmas faults_intro = faults_thenc faults_andthen faults_basic faults_if faults_option

lemma faults_cleanup: "faults_in F (cleanup E n)" "faults_in F (clean_exit E n)"
  unfolding clean_exit_def cleanup_def restore_tty_def ifdown_def modify_flags_def by (intro faults_intro)+

lemma faults_sys: "faults_in F (sys E f)"
proof -
  have "faults_in F (cleanup E n :: bool aprog)" for n by (rule faults_cleanup(1))
  then show ?thesis by (auto simp: faults_in_def sys_def Let_def split: answer.splits if_splits)
qed

lemma faults_log_output: "Local_Bounds ''line[-1]'' 0 \<in> F \<Longrightarrow> faults_in F (log_output t)"
  by (induction t rule: log_output.induct, subst log_output.simps)
    (auto intro!: faults_intro faults_check split: option.split)

text \<open>What is left when names are as short as the kernel and the command line let them be.\<close>

definition expected_faults :: "c_fault set" where
  "expected_faults = {Null_Pointer, Local_Bounds ''line[-1]'' 0, Local_Bounds ''ifnames'' 10, Local_Bounds ''ifnames'' 15,
     Local_Bounds ''info.name'' 6}"

lemma faults_run_formatted:
  assumes "length msg < 128" "length cmd < 507"
  shows "faults_in expected_faults (run_formatted E msg cmd)"
  unfolding run_formatted_def execute_def Let_def
  by (intro faults_intro faults_check faults_sys)
    (use assms in \<open>auto simp: expected_faults_def intro!: faults_intro faults_check faults_log_output split: prod.split wait_status.split\<close>)

lemma devlist_faults:
  "length names \<le> m \<Longrightarrow> devlist_loop c m t names = Inl e \<Longrightarrow> e = Local_Bounds ''ifnames'' m"
proof (induction c m t names rule: devlist_loop.induct)
  case (1 c m t names)
  show ?case
    using "1.prems" "1.IH" by (subst (asm) devlist_loop.simps [of c m t names]) (auto split: option.splits if_splits)
qed

lemma faults_module:
  assumes "length name \<le> 20"
  shows "faults_in expected_faults (get_module_devices E name)"
proof -
  have "faults_in expected_faults (from_sum (get_devlist ft 17 m))" if "m = 10 \<or> m = 15" for ft m
    using that devlist_faults [of "[]" m 17]
    by (auto simp: get_devlist_def from_sum_def faults_in_def fault_def val_def ret_def expected_faults_def split: option.splits sum.splits)
  moreover have "faults_in expected_faults (module_loop E before ns got)" for before ns got
    by (induction ns arbitrary: got) (auto intro!: faults_intro)
  moreover have "faults_in expected_faults (load_module E name)"
    unfolding load_module_def by (rule faults_run_formatted) (use assms in simp_all)
  ultimately show ?thesis unfolding get_module_devices_def by (intro faults_intro) simp_all
qed

lemma faults_open_device:
  assumes "length (device s) \<le> 20" "open_device E s = Inl e"
  shows "e \<in> expected_faults"
proof -
  let ?f = "\<lambda>dev. if is_prefix ''/dev'' dev then
       andthen (open_tty E dev) (\<lambda>fd. thenc (upd (\<lambda>s. s\<lparr>devfd := fd\<rparr>)) (val True))
     else if is_prefix ''irda'' dev \<and> (case drop 4 dev of [] \<Rightarrow> False | c # cs \<Rightarrow> isdigit c) then
       thenc (load_module E dev) (val False)
     else thenc (get_module_devices E dev) (val False)"
  have "faults_in expected_faults (?f (device s))"
    unfolding open_tty_def load_module_def
    by (intro faults_intro faults_sys faults_run_formatted faults_module) (use assms(1) in simp_all)
  then show ?thesis using assms(2) unfolding open_device_def andthen_get faults_in_def by blast
qed

lemma faults_start:
  assumes "length (e_node E) \<le> 64"
  shows "faults_in expected_faults (start_interface E dongle discovery)"
proof -
  have "length t \<le> 64" if "node_token (e_node E) = Some t" for t
  proof -
    have "length t \<le> length (dropWhile (\<lambda>c. c = CHR ''.'') (e_node E))"
      using that length_takeWhile_le by (auto simp: node_token_def Let_def split: if_splits)
    then show ?thesis using assms length_dropWhile_le [of "\<lambda>c. c = CHR ''.''" "e_node E"] by linarith
  qed
  then show ?thesis
    unfolding start_interface_def attach_dongle_def set_sysctl_param_def ifup_def modify_flags_def
    by (intro faults_intro faults_sys faults_run_formatted faults_cleanup faults_check) (auto simp: expected_faults_def)
qed

lemma main_faults:
  assumes "length (e_node E) \<le> 64" "main E argc argv1 opts s = Inl e"
  shows "e \<in> expected_faults"
proof -
  let ?s = "s\<lparr>device := take 20 argv1, stray := stray s @ [(''device'', 20)]\<rparr>"
  have argc: "\<not> (argc < 2 \<or> argc > 5)" using assms(2) by (auto simp: main_def quit_def ret_def)
  then obtain o1 where o1: "att_options opts \<lparr>o_dongle = -1, o_discovery = -1, o_daemonize = True\<rparr> = Inr o1"
    using assms(2) by (cases "att_options opts \<lparr>o_dongle = -1, o_discovery = -1, o_daemonize = True\<rparr>")
      (auto simp: main_def aprog_defs)
  define tail where "tail tty = andthen (get devfd) (\<lambda>fd.
             thenc (if o_daemonize o1 then fork_now E fd else val ())
             (thenc (upd (\<lambda>s. s\<lparr>trapped := True\<rparr>))
             (thenc (if tty then tty_interface E else val ())
             (start_interface E (o_dongle o1) (o_discovery o1)))))" for tty
  have tail: "faults_in expected_faults (tail tty)" for tty
    unfolding tail_def fork_now_def write_pid_def tty_interface_def start_tty_def init_irda_ldisc_def establish_irda_def
    by (intro faults_intro faults_sys faults_start faults_cleanup faults_check assms(1)) (simp add: expected_faults_def)
  have "andthen (open_device E) tail ?s = Inl e"
    using assms(2) argc o1 unfolding main_def tail_def [abs_def] by (simp add: thenc_upd)
  then show ?thesis
    using faults_open_device [of ?s E e] tail
    by (auto simp: andthen_def bnd_def faults_in_def ret_def split: sum.splits)
qed

text \<open>C30: Neither the name of the device, which is cut to 20 characters, nor that of the host, which has at most 64,
  overruns an array a command is formatted into. What can go wrong is a command that cannot be started or prints a
  null character, a host name without a letter, too many interfaces and an interface name without terminator.\<close>

theorem command_buffers_hold:
  assumes "length (e_node E) \<le> 64" "main E argc argv1 opts s = Inl e"
  shows "e = Null_Pointer \<or> e = Local_Bounds ''line[-1]'' 0 \<or> e = Local_Bounds ''ifnames'' 10 \<or>
    e = Local_Bounds ''ifnames'' 15 \<or> e = Local_Bounds ''info.name'' 6"
  using main_faults [OF assms] by (simp add: expected_faults_def)

theorem command_buffers_hold_witness:
  "\<exists>e. main ((demo_env (\<lambda>n. Ok))\<lparr>e_node := ''.''\<rparr>) 2 ''irda0'' [] demo_att = Inl e \<and>
     (e = Null_Pointer \<or> e = Local_Bounds ''line[-1]'' 0 \<or> e = Local_Bounds ''ifnames'' 10 \<or>
      e = Local_Bounds ''ifnames'' 15 \<or> e = Local_Bounds ''info.name'' 6)"
proof -
  let ?E = "(demo_env (\<lambda>n. Ok))\<lparr>e_node := ''.''\<rparr>"
  have "isl (main ?E 2 ''irda0'' [] demo_att)" by code_simp
  then obtain e where e: "main ?E 2 ''irda0'' [] demo_att = Inl e" by (auto simp: isl_def)
  show ?thesis using command_buffers_hold [OF _ e] e by (simp add: demo_env_def)
qed

text \<open>C5: The serial port is put back. Whatever system calls fail and whenever the signals HUP, INT and TERM arrive, the daemon ends in one of
  two ways. It exits or is ended by a signal, and then the serial port has the line discipline, settings and status flags it had before,
  as long as the calls that put them back succeed. Or it crashes in one of five places, and leaves the port as it is then: on the stream of a command that
  could not be started or a host name without a letter, on an empty line of a command, on too many interfaces of either kind, or on a
  long interface name. Other signals, for which there is no handler, and host names above 64 characters are left out.\<close>

theorem serial_port_put_back:
  assumes "\<forall>n. e_restore E n" "\<forall>n k. e_ans E n = Sig k \<longrightarrow> handled k" "handled signo"
    "0 \<le> e_fd E" "0 \<le> t_disc s" "untouched (port_of s) s" "length (e_node E) \<le> 64"
  shows "(\<exists>e s'. irattach_run E argc argv1 opts signo s = Inr (Inl e, s') \<and> port_of s' = port_of s) \<or>
    (\<exists>f. irattach_run E argc argv1 opts signo s = Inl f \<and> f \<in> {Null_Pointer, Local_Bounds ''line[-1]'' 0,
      Local_Bounds ''ifnames'' 10, Local_Bounds ''ifnames'' 15, Local_Bounds ''info.name'' 6})"
proof -
  let ?T = "port_of s"
  have r: "recovers E" using assms(1,2) by (simp add: recovers_def)
  have t: "triple ?T (untouched ?T) (irattach_run E argc argv1 opts signo) (\<lambda>_ _. False)"
    unfolding irattach_run_def using assms(3)
    by (simp, intro triple_thenc [OF main_ends] triple_cleanup r) (use assms(4,5) in \<open>auto simp: armed_def port_of_def\<close>)
  show ?thesis
  proof (cases "irattach_run E argc argv1 opts signo s")
    case (Inl f)
    then have "main E argc argv1 opts s = Inl f"
      using assms(3) faults_cleanup(1) [of "{}" E signo]
      by (fastforce simp: irattach_run_def thenc_def andthen_def bnd_def ret_def faults_in_def split: sum.splits)
    with Inl main_faults [OF assms(7)] show ?thesis by (simp add: expected_faults_def)
  next
    case (Inr p)
    with t assms(6) show ?thesis by (cases p; cases "fst p") (fastforce simp: triple_def)+
  qed
qed

theorem serial_port_put_back_witness:
  "\<exists>e s'. irattach_run (demo_env (\<lambda>n. if n = 9 then Sig 15 else Ok)) 2 ''/dev/ttyS1'' [] 15 demo_att = Inr (Inl e, s') \<and>
     port_of s' = port_of demo_att"
proof -
  let ?E = "demo_env (\<lambda>n. if n = 9 then Sig 15 else Ok)"
  have "\<not> isl (irattach_run ?E 2 ''/dev/ttyS1'' [] 15 demo_att)" by code_simp
  then have n: "irattach_run ?E 2 ''/dev/ttyS1'' [] 15 demo_att \<noteq> Inl f" for f by (auto simp: isl_def)
  have "(\<exists>e s'. irattach_run ?E 2 ''/dev/ttyS1'' [] 15 demo_att = Inr (Inl e, s') \<and> port_of s' = port_of demo_att) \<or>
    (\<exists>f. irattach_run ?E 2 ''/dev/ttyS1'' [] 15 demo_att = Inl f \<and> f \<in> {Null_Pointer, Local_Bounds ''line[-1]'' 0,
      Local_Bounds ''ifnames'' 10, Local_Bounds ''ifnames'' 15, Local_Bounds ''info.name'' 6})"
    by (rule serial_port_put_back) (simp_all add: demo_env_def demo_att_def untouched_def handled_def)
  with n show ?thesis by blast
qed

text \<open>A module whose interfaces are there already: the program goes on with the module's name for an interface.\<close>

lemma module_without_new_interface:
  "filter (\<lambda>n. n \<notin> set before) ns = [] \<Longrightarrow> module_loop E before ns False s = Inr (Inr 0, s)"
  by (induction ns) (auto simp: val_def ret_def split: if_splits)

text \<open>The two programs that attach dongles know the same names with the same numbers, but for the last entry of the
  list of \<^verbatim>\<open>irattach\<close>, which \<^verbatim>\<open>dongle_attach\<close> refuses.\<close>

theorem dongle_names_agree: "dongle_option d (-1) = (if d = ''toim3232'' then -1 else get_dongle d)"
  by (simp add: dongle_option_def get_dongle_def dongle_list_def eq_commute [of _ d])

end
