(* ===== verification/C_Float.thy ===== *)
theory C_Float
  imports C_Prelude Complex_Main "HOL-Library.Log_Nat"
begin

text \<open>
  Floating-point numbers of \<open>p\<close> bits as C uses them (24 for \<^verbatim>\<open>float\<close>, 53 for \<^verbatim>\<open>double\<close>, operations rounded to nearest, ties to even),
  as rational numbers, and the conversion \<^verbatim>\<open>%6.2f\<close>. Numbers below \<open>2 ^ -200\<close> (\<open>lowest\<close>) and overflows do not occur in the programs.
\<close>

definition round_half_even :: "rat \<Rightarrow> int" where
  "round_half_even x =
     (let f = \<lfloor>x\<rfloor>; r = x - of_int f
      in if r < 1 / 2 \<or> (r = 1 / 2 \<and> even f) then f else f + 1)"

definition lowest :: nat where
  "lowest = 200"

text \<open>The distance of the numbers of \<open>p\<close> bits around \<open>x\<close>.\<close>

definition ulp :: "nat \<Rightarrow> rat \<Rightarrow> rat" where
  "ulp p x = 2 ^ floorlog 2 (nat \<lfloor>\<bar>x\<bar> * 2 ^ lowest\<rfloor>) / 2 ^ (lowest + p)"

definition round_to :: "nat \<Rightarrow> rat \<Rightarrow> rat" where
  "round_to p x = of_int (round_half_even (x / ulp p x)) * ulp p x"

text \<open>\<^verbatim>\<open>%6.2f\<close>: a number of hundredths, at least six characters wide.\<close>

definition hundredths :: "int \<Rightarrow> string" where
  "hundredths n = dec_int (n div 100) @ ''.'' @ fmt_0d 2 (n mod 100)"

definition field6 :: "string \<Rightarrow> string" where
  "field6 t = replicate (6 - length t) CHR '' '' @ t"

definition fmt_6_2f :: "rat \<Rightarrow> string" where
  "fmt_6_2f y =
     (let t = (if y < 0 then ''-'' else []) @ hundredths (round_half_even (\<bar>y\<bar> * 100))
      in field6 t)"

section \<open>Rounding errors\<close>

lemma round_half_even_error: "\<bar>of_int (round_half_even x) - x\<bar> \<le> 1 / 2"
proof -
  have "of_int \<lfloor>x\<rfloor> \<le> x" "x < of_int \<lfloor>x\<rfloor> + 1" by linarith+
  then show ?thesis unfolding round_half_even_def Let_def abs_le_iff by (cases "even \<lfloor>x\<rfloor>") (simp_all only: if_True if_False simp_thms of_int_add of_int_1 split: if_split, linarith+)
qed

lemma round_half_even_int [simp]: "round_half_even (of_int k) = k"
  by (simp add: round_half_even_def)

lemma round_half_even_nonneg: "0 \<le> x \<Longrightarrow> 0 \<le> round_half_even x"
  by (simp add: round_half_even_def Let_def)

lemma ulp_pos: "0 < ulp p x"
  by (simp add: ulp_def)

lemma ulp_bound:
  assumes "1 \<le> \<bar>x\<bar> * 2 ^ lowest"
  shows "ulp p x \<le> 2 * \<bar>x\<bar> / 2 ^ p"
proof -
  let ?n = "nat \<lfloor>\<bar>x\<bar> * 2 ^ lowest\<rfloor>"
  have n: "0 < ?n" using assms by simp
  have "2 ^ (floorlog 2 ?n - 1) \<le> ?n" using floorlog_bounds [OF n, of 2] by simp
  then have "(2 :: rat) ^ (floorlog 2 ?n - 1) \<le> of_nat ?n" by (metis of_nat_le_iff of_nat_numeral of_nat_power)
  also have "\<dots> \<le> \<bar>x\<bar> * 2 ^ lowest" using n by (simp add: of_nat_nat)
  finally have "2 * 2 ^ (floorlog 2 ?n - 1) \<le> 2 * (\<bar>x\<bar> * 2 ^ lowest)" by simp
  moreover have "floorlog 2 ?n \<noteq> 0" using n by (simp add: floorlog_def)
  ultimately have "(2 :: rat) ^ floorlog 2 ?n \<le> 2 * (\<bar>x\<bar> * 2 ^ lowest)" by (metis power_eq_if)
  then show ?thesis by (simp add: ulp_def power_add field_simps)
qed

lemma round_to_error:
  assumes "1 \<le> \<bar>x\<bar> * 2 ^ lowest"
  shows "\<bar>round_to p x - x\<bar> \<le> \<bar>x\<bar> / 2 ^ p"
proof -
  let ?u = "ulp p x"
  have "round_to p x - x = (of_int (round_half_even (x / ?u)) - x / ?u) * ?u"
    using ulp_pos [of p x] by (simp add: round_to_def field_simps)
  then have "\<bar>round_to p x - x\<bar> = \<bar>of_int (round_half_even (x / ?u)) - x / ?u\<bar> * ?u"
    using ulp_pos [of p x] by (simp add: abs_mult)
  also have "\<dots> \<le> 1 / 2 * ?u" using round_half_even_error ulp_pos [of p x] by (intro mult_right_mono) auto
  also have "\<dots> \<le> \<bar>x\<bar> / 2 ^ p" using ulp_bound [OF assms, of p] by (simp add: mult.commute)
  finally show ?thesis .
qed

lemma round_to_nonneg: "0 \<le> x \<Longrightarrow> 0 \<le> round_to p x"
  using ulp_pos [of p x] round_half_even_nonneg [of "x / ulp p x"] by (simp add: round_to_def)

text \<open>Integers of at most \<open>p\<close> bits are kept.\<close>

lemma round_to_int:
  assumes "\<bar>k\<bar> < 2 ^ p"
  shows "round_to p (of_int k) = of_int k"
proof -
  let ?n = "nat (\<bar>k\<bar> * 2 ^ lowest)"
  have "\<bar>of_int k :: rat\<bar> * 2 ^ lowest = of_int (\<bar>k\<bar> * 2 ^ lowest)" by simp
  then have f: "\<lfloor>\<bar>of_int k :: rat\<bar> * 2 ^ lowest\<rfloor> = \<bar>k\<bar> * 2 ^ lowest" by (simp only: floor_of_int)
  have "\<bar>k\<bar> * 2 ^ lowest < 2 ^ (p + lowest)" unfolding power_add using assms by simp
  then have "?n < 2 ^ (p + lowest)" by (simp add: nat_less_iff)
  then have "floorlog 2 ?n \<le> p + lowest" by (intro floorlog_leI) simp_all
  then obtain j where j: "lowest + p = floorlog 2 ?n + j" by (metis add.commute le_Suc_ex)
  have u: "ulp p (of_int k) = 1 / 2 ^ j" unfolding ulp_def f j by (simp add: power_add)
  have "of_int k / ulp p (of_int k) = (of_int (k * 2 ^ j) :: rat)" unfolding u by simp
  then show ?thesis unfolding round_to_def by (simp only: round_half_even_int) (simp add: u)
qed

end
