(* ===== verification/Irdaping.thy ===== *)
theory Irdaping
  imports Irlap C_Float
begin

text \<open>
  The ping program, \<^verbatim>\<open>irda-utils/irdaping/irdaping.c\<close>, on a little-endian host whose \<^verbatim>\<open>long\<close> has \<open>W\<close> bytes, 4 or 8: the test frames it
  sends on every alarm and what it makes of the frames it receives. Clock and network are arguments. A line of output is kept
  with its numbers and the text of the time of a reply; floating-point operations are those of \<open>C_Float\<close>, without excess precision.
\<close>

section \<open>Model\<close>

text \<open>Little-endian numbers of \<open>n\<close> bytes, unsigned and in two's complement.\<close>

primrec le_bytes :: "nat \<Rightarrow> int \<Rightarrow> byte list" where
  "le_bytes 0 v = []"
| "le_bytes (Suc n) v = word_of_int v # le_bytes n (v div 256)"

primrec le_value :: "byte list \<Rightarrow> int" where
  "le_value [] = 0"
| "le_value (b # bs) = uint b + 256 * le_value bs"

definition le_signed :: "byte list \<Rightarrow> int" where
  "le_signed bs = (let v = le_value bs; m = 256 ^ length bs in if 2 * v < m then v else v - m)"

text \<open>A line of output: bytes received, source address and, where the frame has them, sequence number and time.\<close>

datatype ping_line = Reply int u32 | Timed_Reply int u32 int string

record ping =
  p_packets :: int
  p_saddr :: u32
  p_daddr :: u32
  p_hwaddr :: "byte list"
  p_framelen :: int
  p_device :: string
  p_buf :: "byte list"
  p_rbuf :: "byte list"
  p_sent :: "byte list list"
  p_out :: "ping_line list"

type_synonym 'a ping_prog = "(ping, 'a) prog"

text \<open>Stores into the send buffer of 2048 bytes, the last member of the structure of globals.\<close>

definition put_at :: "nat \<Rightarrow> byte list \<Rightarrow> byte list \<Rightarrow> byte list" where
  "put_at i bs l = take i l @ bs @ drop (i + length bs) l"

definition store :: "nat \<Rightarrow> byte list \<Rightarrow> unit ping_prog" where
  "store i bs =
     seq (guard (i + length bs \<le> 2048) (Local_Bounds ''self.buf'' (i + length bs - 1)))
     (modify (\<lambda>s. s\<lparr>p_buf := put_at i bs (p_buf s)\<rparr>))"

text \<open>The representation of a \<^verbatim>\<open>struct timeval\<close>.\<close>

definition timeval_bytes :: "nat \<Rightarrow> int \<times> int \<Rightarrow> byte list" where
  "timeval_bytes W t = le_bytes W (fst t) @ le_bytes W (snd t)"

text \<open>The loop that fills the rest of the frame.\<close>

function fill :: "nat \<Rightarrow> nat \<Rightarrow> nat \<Rightarrow> unit ping_prog" where
  "fill base i rest =
     (if i < rest then seq (store (base + i) [of_nat i]) (fill base (i + 1) rest) else skip)"
  by pat_completeness auto
termination by (relation "measure (\<lambda>(base, i, rest). rest - i)") auto

declare fill.simps [simp del]

text \<open>
  The alarm handler. The time stamp is copied with the size of a \<^verbatim>\<open>struct timezone\<close>, eight bytes. \<open>res\<close> is the result of \<^verbatim>\<open>sendto\<close>.
\<close>

definition timeout :: "nat \<Rightarrow> int \<times> int \<Rightarrow> int \<Rightarrow> unit ping_prog" where
  "timeout W now res =
     seq (modify (\<lambda>s. s\<lparr>p_saddr := word_of_int (le_value (take 4 (p_hwaddr s)))\<rparr>))
     (seq (store 0 [0xfe OR 0x01])
     (seq (store 1 [0xe3 OR 0x10])
     (bnd (gets (\<lambda>s. (p_saddr s, p_daddr s, p_packets s, p_framelen s))) (\<lambda>(sa, da, n, framelen).
     seq (store 2 (le_bytes 4 (uint sa)))
     (seq (store 6 (le_bytes 4 (uint da)))
     (seq (store 10 (le_bytes 2 n))
     (seq (modify (\<lambda>s. s\<lparr>p_packets := n + 1\<rparr>))
     (seq (store 12 (take 8 (timeval_bytes W now)))
     (seq (fill (12 + 2 * W) 0 (nat (framelen - 12 - 2 * int W)))
     (bnd (gets p_buf) (\<lambda>b.
     if res < 0 then fault (Exit_With (-1))
     else modify (\<lambda>s. s\<lparr>p_sent := p_sent s @ [take (nat framelen) b]\<rparr>))))))))))))"

text \<open>The time a frame has been under way, from the stamp in the frame and the clock: seconds and microseconds, and the \<^verbatim>\<open>float\<close> number of
  milliseconds, which is computed as a \<^verbatim>\<open>double\<close> from the seconds as a \<^verbatim>\<open>float\<close>.\<close>

definition time_diff :: "int \<times> int \<Rightarrow> int \<times> int \<Rightarrow> int \<times> int" where
  "time_diff now stamp =
     (case now of (sec, usec) \<Rightarrow>
        let (sec1, usec1) = (if snd stamp > usec then (sec - 1, usec + 1000000) else (sec, usec))
        in (sec1 - fst stamp, usec1 - snd stamp))"

definition float_diff :: "int \<times> int \<Rightarrow> rat" where
  "float_diff t =
     round_to 24 (round_to 53 (round_to 53 (round_to 53 (round_to 24 (of_int (fst t)) * 1000000) + round_to 53 (of_int (snd t))) / 1000))"

text \<open>One turn of the receive loop; \<open>None\<close> for a failing \<^verbatim>\<open>recvfrom\<close>. The buffer keeps what a longer frame has left behind.\<close>

definition receive :: "nat \<Rightarrow> byte list option \<Rightarrow> int \<times> int \<Rightarrow> unit ping_prog" where
  "receive W data now =
     (case data of
        None \<Rightarrow> fault (Exit_With (-1))
      | Some d \<Rightarrow>
          let bs = take 2048 d; count = length bs
          in seq (modify (\<lambda>s. s\<lparr>p_rbuf := put_at 0 bs (p_rbuf s)\<rparr>))
             (bnd (gets p_rbuf) (\<lambda>b.
             if b ! 0 AND 0x01 \<noteq> 0 \<or> b ! 1 \<noteq> (0xe3 OR 0x10) then skip
             else if count < 10 then skip
             else
               let saddr = word_of_int (le_value (take 4 (drop 2 b))) :: u32
               in if count < 12 + 2 * W then modify (\<lambda>s. s\<lparr>p_out := p_out s @ [Reply (int count) saddr]\<rparr>)
                  else
                    let stamp = (le_signed (take W (drop 12 b)), le_signed (take W (drop (12 + W) b)));
                        seq_no = le_value (take 2 (drop 10 b))
                    in modify (\<lambda>s. s\<lparr>p_out := p_out s @ [Timed_Reply (int count) saddr seq_no (fmt_6_2f (float_diff (time_diff now stamp)))]\<rparr>))))"

subsection \<open>Options and start\<close>

text \<open>\<^verbatim>\<open>strtol(optarg, NULL, 10)\<close> stored as an \<^verbatim>\<open>int\<close>.\<close>

definition strtol_int :: "nat \<Rightarrow> string \<Rightarrow> int" where
  "strtol_int W t =
     (case scan_number t of
        None \<Rightarrow> 0
      | Some (neg, v, r) \<Rightarrow>
          sint (word_of_int (if neg then max (- (2 ^ (8 * W - 1))) (- v) else min (2 ^ (8 * W - 1) - 1) v) :: u32))"

definition ping_option :: "nat \<Rightarrow> char \<Rightarrow> string \<Rightarrow> ping \<Rightarrow> c_fault + ping" where
  "ping_option W c optarg s =
     (if c = CHR ''s'' then Inr (s\<lparr>p_framelen := strtol_int W optarg\<rparr>)
      else if c = CHR ''i'' then Inr (s\<lparr>p_device := take 14 optarg\<rparr>)
      else if c = CHR ''h'' then Inl (Exit_With (-1))
      else Inr s)"

fun ping_options :: "nat \<Rightarrow> (char \<times> string) list \<Rightarrow> ping \<Rightarrow> c_fault + ping" where
  "ping_options W [] s = Inr s"
| "ping_options W ((c, optarg) # os) s =
     (case ping_option W c optarg s of Inl e \<Rightarrow> Inl e | Inr s' \<Rightarrow> ping_options W os s')"

text \<open>
  The globals are cleared; \<open>rbuf\<close> is what the receive buffer, a local array, holds. A frame is made long enough for the
  time stamp: the comparison is one of unsigned numbers, for which a negative length is large. \<open>hw\<close> is the
  answer to the question for the device address, \<open>None\<close> where socket, bind or this fails.
\<close>

definition correct_framelen :: "nat \<Rightarrow> int \<Rightarrow> int" where
  "correct_framelen W n = (if n mod 2 ^ (8 * W) < 12 + 2 * int W then 12 + 2 * int W else n)"

definition ping_start :: "nat \<Rightarrow> string list \<Rightarrow> (char \<times> string) list \<Rightarrow> byte list \<Rightarrow> byte list option \<Rightarrow> c_fault + ping" where
  "ping_start W argv opts rbuf hw =
     (if length argv < 2 then Inl (Exit_With (-1))
      else
        case ping_options W opts \<lparr>p_packets = 0, p_saddr = 0, p_daddr = word_of_int (fst (strtoul_0 (8 * W) (argv ! 1))),
            p_hwaddr = replicate 4 0, p_framelen = 32, p_device = ''irda0'', p_buf = replicate 2048 0, p_rbuf = rbuf,
            p_sent = [], p_out = []\<rparr> of
          Inl e \<Rightarrow> Inl e
        | Inr s \<Rightarrow>
            (case hw of
               None \<Rightarrow> Inl (Exit_With (-1))
             | Some a \<Rightarrow> Inr (s\<lparr>p_framelen := correct_framelen W (p_framelen s), p_hwaddr := a\<rparr>)))"

text \<open>What happens to the running program: an alarm, a frame, a signal that ends it.\<close>

datatype ping_event = Alarm "int \<times> int" int | Frame "byte list option" "int \<times> int"

primrec ping_handle :: "nat \<Rightarrow> ping_event \<Rightarrow> unit ping_prog" where
  "ping_handle W (Alarm now res) = timeout W now res"
| "ping_handle W (Frame data now) = receive W data now"

fun ping_run :: "nat \<Rightarrow> ping_event list \<Rightarrow> unit ping_prog" where
  "ping_run W [] = skip"
| "ping_run W (e # es) = seq (ping_handle W e) (ping_run W es)"

text \<open>The number in the closing line of \<^verbatim>\<open>cleanup\<close>.\<close>

definition cleanup_count :: "ping \<Rightarrow> int" where
  "cleanup_count s = p_packets s"

section \<open>Numbers in frames\<close>

lemma length_le_bytes [simp]: "length (le_bytes n v) = n"
  by (induction n arbitrary: v) simp_all

lemma le_value_bytes: "le_value (le_bytes n v) = v mod 256 ^ n"
proof (induction n arbitrary: v)
  case (Suc n)
  have "le_value (le_bytes (Suc n) v) = v mod 256 + 256 * (v div 256 mod 256 ^ n)"
    using Suc by (simp add: uint_word_of_int)
  also have "\<dots> = v mod (256 * 256 ^ n)" by (simp add: zmod_zmult2_eq)
  finally show ?case by simp
qed simp

lemma le_signed_bytes: "0 \<le> v \<Longrightarrow> 2 * v < 256 ^ n \<Longrightarrow> le_signed (le_bytes n v) = v"
  by (simp add: le_signed_def le_value_bytes Let_def)

lemma le_bytes_value: "le_bytes (length bs) (le_value bs) = bs"
proof (induction bs)
  case (Cons b bs)
  have z: "(256 :: byte) = 0" by code_simp
  have "word_of_int (uint b + 256 * le_value bs) = b" by (simp add: z)
  moreover have "(uint b + 256 * le_value bs) div 256 = le_value bs"
    using unsigned_less [of b, where ?'a = int] by simp
  ultimately show ?case using Cons by simp
qed simp

section \<open>The frame that is sent\<close>

lemma put_at_next:
  assumes "take i l = w" "i + length bs \<le> length l"
  shows "take (i + length bs) (put_at i bs l) = w @ bs" "drop (i + length bs) (put_at i bs l) = drop (i + length bs) l"
    "length (put_at i bs l) = length l"
  using assms by (auto simp: put_at_def)

lemma fill_run:
  assumes "base + rest \<le> 2048" "length (p_buf s) = 2048" "i \<le> rest" "take (base + i) (p_buf s) = w @ map of_nat [0..<i]"
  shows "\<exists>b. fill base i rest s = Inr ((), s\<lparr>p_buf := b\<rparr>) \<and> length b = 2048 \<and> take (base + rest) b = w @ map of_nat [0..<rest]"
  using assms
proof (induction base i rest arbitrary: s rule: fill.induct)
  case (1 base i rest)
  show ?case
  proof (cases "i < rest")
    case False
    with "1.prems" show ?thesis
      by (auto simp: fill.simps [of base rest rest] skip_def ret_def intro!: exI [of _ "p_buf s"])
  next
    case True
    let ?s = "s\<lparr>p_buf := put_at (base + i) [of_nat i] (p_buf s)\<rparr>"
    have l: "base + i + length [of_nat i :: byte] \<le> length (p_buf s)" using True "1.prems" by simp
    note p = put_at_next [OF "1.prems"(4) l]
    have st: "store (base + i) [of_nat i] s = Inr ((), ?s)"
      using True "1.prems"(1) by (simp add: store_def seq_def bnd_def guard_def skip_def ret_def modify_def)
    have "\<exists>b. fill base (i + 1) rest ?s = Inr ((), ?s\<lparr>p_buf := b\<rparr>) \<and> length b = 2048 \<and>
        take (base + rest) b = w @ map of_nat [0..<rest]"
      by (rule "1.IH" [OF True]) (use "1.prems" True p in simp_all)
    then show ?thesis using True st by (auto simp: fill.simps [of base i rest] seq_def bnd_def)
  qed
qed

text \<open>Addresses, number, stamp; behind an incomplete stamp the bytes \<open>old\<close> of the buffer, then the filling.\<close>

definition ping_frame :: "byte list \<Rightarrow> u32 \<Rightarrow> int \<Rightarrow> byte list \<Rightarrow> nat \<Rightarrow> byte list" where
  "ping_frame hw da n stamp rest =
     [0xff, 0xf3] @ take 4 hw @ le_bytes 4 (uint da) @ le_bytes 2 n @ stamp @ map of_nat [0..<rest]"

lemma store_run:
  assumes "i + length bs \<le> 2048" "length (p_buf s) = 2048" "take i (p_buf s) = w"
  shows "\<exists>b. store i bs s = Inr ((), s\<lparr>p_buf := b\<rparr>) \<and> length b = 2048 \<and> take (i + length bs) b = w @ bs \<and>
    drop (i + length bs) b = drop (i + length bs) (p_buf s)"
  using put_at_next [OF assms(3), of bs] assms(1,2)
  by (auto simp: store_def seq_def bnd_def guard_def skip_def ret_def modify_def)

lemma source_bytes: "4 \<le> length hw \<Longrightarrow> le_bytes 4 (uint (word_of_int (le_value (take 4 hw)) :: u32)) = take 4 hw"
proof -
  assume "4 \<le> length hw"
  then have l: "length (take 4 hw) = 4" by simp
  then have "le_bytes 4 (le_value (take 4 hw)) = take 4 hw" using le_bytes_value [of "take 4 hw"] by simp
  moreover from this have "le_value (take 4 hw) mod 256 ^ 4 = le_value (take 4 hw)"
    using le_value_bytes [of 4 "le_value (take 4 hw)"] by simp
  ultimately show ?thesis by (simp add: uint_word_of_int)
qed

lemma timeout_sends:
  assumes "length (p_buf s) = 2048" "4 \<le> length (p_hwaddr s)" "W = 4 \<or> W = 8" "12 + 2 * int W \<le> p_framelen s"
    "p_framelen s \<le> 2048" "0 \<le> res"
  shows "\<exists>b. timeout W now res s = Inr ((), s\<lparr>p_saddr := word_of_int (le_value (take 4 (p_hwaddr s))),
      p_packets := p_packets s + 1, p_buf := b,
      p_sent := p_sent s @ [ping_frame (p_hwaddr s) (p_daddr s) (p_packets s)
        (take 8 (timeval_bytes W now) @ take (2 * W - 8) (drop 20 (p_buf s))) (nat (p_framelen s) - 12 - 2 * W)]\<rparr>)"
proof -
  let ?sa = "word_of_int (le_value (take 4 (p_hwaddr s))) :: u32"
  let ?h0 = "[0xfe OR 0x01] @ [0xe3 OR 0x10] @ take 4 (p_hwaddr s) @ le_bytes 4 (uint (p_daddr s)) @ le_bytes 2 (p_packets s) :: byte list"
  let ?st = "take 8 (timeval_bytes W now)"
  have st: "length ?st = 8" using assms(3) by (auto simp: timeval_bytes_def)
  have l4: "length (take 4 (p_hwaddr s)) = 4" using assms(2) by simp
  define s0 where "s0 = s\<lparr>p_saddr := ?sa\<rparr>"
  have z: "length (p_buf s0) = 2048" using assms(1) by (simp add: s0_def)
  obtain b1 where 1: "store 0 [0xfe OR 0x01] s0 = Inr ((), s0\<lparr>p_buf := b1\<rparr>)" "length b1 = 2048" "take 1 b1 = [0xfe OR 0x01]"
    "drop 1 b1 = drop 1 (p_buf s)" using store_run [of 0 "[0xfe OR 0x01]" s0 "[]"] z by (auto simp: s0_def)
  obtain b2 where 2: "store 1 [0xe3 OR 0x10] (s0\<lparr>p_buf := b1\<rparr>) = Inr ((), s0\<lparr>p_buf := b2\<rparr>)" "length b2 = 2048"
    "take 2 b2 = [0xfe OR 0x01] @ [0xe3 OR 0x10]" "drop 2 b2 = drop 2 b1"
    using store_run [of 1 "[0xe3 OR 0x10]" "s0\<lparr>p_buf := b1\<rparr>"] 1(2,3) by (auto simp: numeral_2_eq_2)
  obtain b3 where 3: "store 2 (le_bytes 4 (uint ?sa)) (s0\<lparr>p_buf := b2\<rparr>) = Inr ((), s0\<lparr>p_buf := b3\<rparr>)" "length b3 = 2048"
    "take 6 b3 = [0xfe OR 0x01] @ [0xe3 OR 0x10] @ take 4 (p_hwaddr s)" "drop 6 b3 = drop 6 b2"
    using store_run [of 2 "le_bytes 4 (uint ?sa)" "s0\<lparr>p_buf := b2\<rparr>", OF _ _ refl] 2(2,3)
    unfolding source_bytes [OF assms(2)] l4 by auto
  obtain b4 where 4: "store 6 (le_bytes 4 (uint (p_daddr s))) (s0\<lparr>p_buf := b3\<rparr>) = Inr ((), s0\<lparr>p_buf := b4\<rparr>)" "length b4 = 2048"
    "take 10 b4 = [0xfe OR 0x01] @ [0xe3 OR 0x10] @ take 4 (p_hwaddr s) @ le_bytes 4 (uint (p_daddr s))" "drop 10 b4 = drop 10 b3"
    using store_run [of 6 "le_bytes 4 (uint (p_daddr s))" "s0\<lparr>p_buf := b3\<rparr>"] 3(2,3) by auto
  obtain b5 where 5: "store 10 (le_bytes 2 (p_packets s)) (s0\<lparr>p_buf := b4\<rparr>) = Inr ((), s0\<lparr>p_buf := b5\<rparr>)" "length b5 = 2048"
    "take 12 b5 = ?h0" "drop 12 b5 = drop 12 b4"
    using store_run [of 10 "le_bytes 2 (p_packets s)" "s0\<lparr>p_buf := b4\<rparr>"] 4(2,3) by auto
  define s1 where "s1 = s0\<lparr>p_packets := p_packets s + 1\<rparr>"
  obtain b6 where 6: "store 12 ?st (s1\<lparr>p_buf := b5\<rparr>) = Inr ((), s1\<lparr>p_buf := b6\<rparr>)" "length b6 = 2048"
    "take 20 b6 = ?h0 @ ?st" "drop 20 b6 = drop 20 b5"
    using store_run [of 12 ?st "s1\<lparr>p_buf := b5\<rparr>"] 5(2,3) st by auto
  have "drop 20 b6 = drop 20 (p_buf s)"
  proof -
    have d: "drop 20 b = drop 20 c" if "drop k b = drop k c" "k \<le> 20" for k and b c :: "byte list"
      using arg_cong [where f = "drop (20 - k)", OF that(1)] that(2) by simp
    show ?thesis using d [OF 1(4)] d [OF 2(4)] d [OF 3(4)] d [OF 4(4)] d [OF 5(4)] 6(4) by simp
  qed
  then have "take (12 + 2 * W) b6 = ?h0 @ ?st @ take (2 * W - 8) (drop 20 (p_buf s))"
    using 6(3) take_add [of 20 "2 * W - 8" b6] assms(3) by auto
  note head = this
  have r: "nat (p_framelen s - 12 - 2 * int W) = nat (p_framelen s) - 12 - 2 * W"
    "12 + 2 * W + (nat (p_framelen s) - 12 - 2 * W) = nat (p_framelen s)" "nat (p_framelen s) \<le> 2048"
    using assms(4,5) by linarith+
  obtain b7 where 7: "fill (12 + 2 * W) 0 (nat (p_framelen s - 12 - 2 * int W)) (s1\<lparr>p_buf := b6\<rparr>) = Inr ((), s1\<lparr>p_buf := b7\<rparr>)"
    "take (nat (p_framelen s)) b7 = (?h0 @ ?st @ take (2 * W - 8) (drop 20 (p_buf s))) @ map of_nat [0..<nat (p_framelen s) - 12 - 2 * W]"
    using fill_run [of "12 + 2 * W" "nat (p_framelen s) - 12 - 2 * W" "s1\<lparr>p_buf := b6\<rparr>" 0
        "?h0 @ ?st @ take (2 * W - 8) (drop 20 (p_buf s))"] 6(2) head
    unfolding r(1,2) by (auto simp: r(3))
  have e: "(0xfe OR 0x01 :: byte) = 0xff" "(0xe3 OR 0x10 :: byte) = 0xf3" by code_simp+
  have f: "p_saddr s0 = ?sa" "p_daddr s0 = p_daddr s" "p_packets s0 = p_packets s" "p_framelen s0 = p_framelen s"
    by (simp_all add: s0_def)
  have c: "s0\<lparr>p_buf := b5, p_packets := p_packets s + 1\<rparr> = s1\<lparr>p_buf := b5\<rparr>"
    by (rule ping.equality) (simp_all add: s1_def)
  have "timeout W now res s = Inr ((), s1\<lparr>p_buf := b7, p_sent := p_sent s1 @ [take (nat (p_framelen s)) b7]\<rparr>)"
    unfolding timeout_def
    using 1(1) 2(1) 3(1) 4(1) 5(1) 6(1) 7(1) assms(6)
    by (simp add: seq_def bnd_def modify_def gets_def s0_def [symmetric] f c)
  moreover have "p_sent s1 = p_sent s" by (simp add: s1_def s0_def)
  ultimately show ?thesis unfolding 7(2) by (auto simp: s0_def s1_def ping_frame_def e)
qed

section \<open>What the sniffer shows\<close>

lemma le_bytes_word:
  "le_bytes 4 (uint (w :: u32)) = [ucast w, ucast (drop_bit 8 w), ucast (drop_bit 16 w), ucast (drop_bit 24 w)]"
proof -
  have "word_of_int (uint w div 2 ^ k) = (ucast (drop_bit k w) :: byte)" for k
    unfolding ucast_eq uint_nat unat_drop_bit by (simp add: zdiv_int)
  from this [of 8] this [of 16] this [of 24] show ?thesis
    by (simp add: numeral_eq_Suc zdiv_zmult2_eq [symmetric])
qed

lemma rd32_le_region:
  assumes "region s n (le_bytes 4 (uint w) @ bs)"
  shows "rd32_le n s = Inr (w, s)"
proof -
  have "le32 (ucast w) (ucast (drop_bit 8 w)) (ucast (drop_bit 16 w)) (ucast (drop_bit 24 w)) = w"
    unfolding le32_def by (rule be32_split)
  then show ?thesis using assms
    by (simp add: le_bytes_word region_Cons rd32_le_def rd_def bnd_def ret_def Let_def numeral_3_eq_3)
qed

text \<open>C26: A frame of the ping program is shown by the packet sniffer as a test command to every station with the poll bit,
  with the addresses of the sender and of the station asked.\<close>

theorem sniffer_shows_ping:
  assumes "length (p_buf s) = 2048" "4 \<le> length (p_hwaddr s)" "W = 4 \<or> W = 8" "12 + 2 * int W \<le> p_framelen s"
    "p_framelen s \<le> 2048" "timeout W now res s = Inr ((), s')" "region t 0 (last (p_sent s'))"
  shows "parse_irlap_frame type t = Inr ((), t\<lparr>line := line t @ ''test:cmd ca=0xfe pf=1 '' @ fmt_08x (uint (p_saddr s')) @ '' '' @
    arrow type @ '' '' @ fmt_08x (uint (p_daddr s)) @ '' ''\<rparr>)"
proof -
  have "0 \<le> res" using assms(6) by (auto simp: timeout_def seq_def bnd_def fault_def split: sum.splits if_splits)
  from timeout_sends [OF assms(1-5) this, of now] assms(6)
  obtain stamp rest where f: "last (p_sent s') = ping_frame (p_hwaddr s) (p_daddr s) (p_packets s) stamp rest"
    "p_saddr s' = word_of_int (le_value (take 4 (p_hwaddr s)))" by auto
  obtain u where u: "last (p_sent s') = [0xff, 0xf3] @ le_bytes 4 (uint (p_saddr s')) @ le_bytes 4 (uint (p_daddr s)) @ u"
    using f source_bytes [OF assms(2)] by (simp add: ping_frame_def)
  have two: "0 + length [0xff, 0xf3 :: byte] = 2" and four: "2 + length (le_bytes 4 (uint (p_saddr s'))) = 6" by simp_all
  have r: "region t 0 [0xff, 0xf3]" "region t 2 (le_bytes 4 (uint (p_saddr s')) @ le_bytes 4 (uint (p_daddr s)) @ u)"
    using assms(7) unfolding u region_append [of t 0 "[0xff, 0xf3]"] two by blast+
  have r3: "region t 6 (le_bytes 4 (uint (p_daddr s)) @ u)"
    using r(2) unfolding region_append [of t 2 "le_bytes 4 (uint (p_saddr s'))"] four by blast
  have c: "(0xf3 :: byte) AND NOT 0x10 = 0xe3" "(0xe3 :: byte) AND 0x03 = 0x03" "(0xff :: byte) AND 0xfe = 0xfe"
    "(0xff :: byte) AND 0x01 \<noteq> 0" "drop_bit 4 ((0xf3 :: byte) AND 0x10) = 1" "uint (0xfe :: byte) = 0xfe" by code_simp+
  have n: "fmt_alt_02x 0xfe = ''0xfe''" "fmt_d 1 = ''1''" by code_simp+
  show ?thesis
    unfolding u_frame_run [OF r(1) c(1,2)]
    using rd32_le_region [OF r(2)] rd32_le_region [OF r3] c(3-) n
    by (simp add: parse_u_frame_def parse_test_frame_def bnd_def say_def modify_def cmd_rsp_def)
qed

definition demo_ping :: "int \<Rightarrow> ping" where
  "demo_ping n = \<lparr>p_packets = 5, p_saddr = 0, p_daddr = 0xdeadbeef, p_hwaddr = [0x78, 0x56, 0x34, 0x12], p_framelen = n,
     p_device = ''irda0'', p_buf = replicate 2048 0, p_rbuf = replicate 2048 0, p_sent = [], p_out = []\<rparr>"

lemma region_frame_at: "length bs \<le> 2050 \<Longrightarrow> region (start_state (frame_at bs) junk) 0 bs"
  by (simp add: region_def start_state_def frame_at_def)

lemma length_ping_frame: "4 \<le> length hw \<Longrightarrow> length (ping_frame hw da n stamp rest) = 12 + length stamp + rest"
  by (simp add: ping_frame_def)

theorem sniffer_shows_ping_witness:
  "\<exists>s' t. timeout 4 (100, 7) 0 (demo_ping 32) = Inr ((), s') \<and>
     parse_irlap_frame True t = Inr ((), t\<lparr>line := line t @ ''test:cmd ca=0xfe pf=1 '' @ fmt_08x (uint (p_saddr s')) @ '' '' @
       arrow True @ '' '' @ fmt_08x 0xdeadbeef @ '' ''\<rparr>)"
proof -
  let ?s = "demo_ping 32"
  have pre: "length (p_buf ?s) = 2048" "4 \<le> length (p_hwaddr ?s)" "12 + 2 * int 4 \<le> p_framelen ?s" "p_framelen ?s \<le> 2048"
    by (simp_all add: demo_ping_def)
  obtain s' where t: "timeout 4 (100, 7) 0 ?s = Inr ((), s')"
    and f: "last (p_sent s') = ping_frame (p_hwaddr ?s) (p_daddr ?s) (p_packets ?s)
        (take 8 (timeval_bytes 4 (100, 7)) @ take (2 * 4 - 8) (drop 20 (p_buf ?s))) (nat (p_framelen ?s) - 12 - 2 * 4)"
    using timeout_sends [OF pre(1,2) _ pre(3,4), of 0 "(100, 7)"] by auto
  have "length (last (p_sent s')) \<le> 2050"
    unfolding f length_ping_frame [OF pre(2)] by (simp add: timeval_bytes_def demo_ping_def)
  from sniffer_shows_ping [OF pre(1,2) _ pre(3,4) t region_frame_at [OF this], of True] t
  show ?thesis by (auto simp: demo_ping_def)
qed

section \<open>Replies\<close>

text \<open>
  What a station answers to a test command, as the protocol has it: a response, with the station that was asked as its source, and with
  control field, number, time stamp and filling as they came.
\<close>

definition test_response :: "byte list \<Rightarrow> byte list \<Rightarrow> bool" where
  "test_response f r \<longleftrightarrow> length r = length f \<and> r ! 0 AND 0x01 = 0 \<and> r ! 1 = f ! 1 \<and> take 4 (drop 2 r) = take 4 (drop 6 f) \<and> drop 10 r = drop 10 f"

lemma some_response:
  "10 \<le> length f \<Longrightarrow> test_response f ([0xfe, f ! 1] @ take 4 (drop 6 f) @ take 4 (drop 2 f) @ drop 10 f)"
proof -
  assume l: "10 \<le> length f"
  have "(0xfe :: byte) AND 0x01 = 0" by code_simp
  then show ?thesis using l by (simp add: test_response_def)
qed

definition micros :: "int \<times> int \<Rightarrow> int" where
  "micros t = fst t * 1000000 + snd t"

lemma time_diff_exact: "micros (time_diff now stamp) = micros now - micros stamp"
  by (auto simp: time_diff_def micros_def Let_def algebra_simps split: prod.split)

text \<open>The two decimals of the time shown: for answers within a minute the error is below a hundredth of a millisecond.\<close>

lemma time_shown:
  assumes "0 \<le> fst t" "0 \<le> snd t" "snd t < 1000000" "micros t \<le> 60000000"
  shows "\<exists>n. fmt_6_2f (float_diff t) = field6 (hundredths n) \<and> \<bar>10 * n - micros t\<bar> < 10"
proof -
  let ?d = "micros t"
  have f: "fst t \<le> 60" using assms by (simp add: micros_def)
  have 1: "round_to 24 (of_int (fst t)) = of_int (fst t)" using f assms(1) by (intro round_to_int) simp
  have 2: "round_to 53 (of_int (fst t) * 1000000) = of_int (fst t * 1000000)"
    using round_to_int [of "fst t * 1000000" 53] f assms(1) by simp
  have 3: "round_to 53 (of_int (snd t)) = of_int (snd t)" using assms(2,3) by (intro round_to_int) simp
  have 4: "round_to 53 (of_int ?d) = of_int ?d" using assms by (intro round_to_int) (simp add: micros_def)
  define x where "x = (of_int ?d / 1000 :: rat)"
  define y where "y = round_to 53 x"
  define z where "z = round_to 24 y"
  have z: "float_diff t = z"
    unfolding float_diff_def 1 2 3 z_def y_def x_def using 4 by (simp add: micros_def)
  have d: "0 \<le> ?d" using assms by (simp add: micros_def)
  then have x: "0 \<le> x" "x \<le> 60000" using assms(4) by (simp_all add: x_def)
  have big: "1 \<le> \<bar>v\<bar> * 2 ^ lowest" if "1 / 2000 \<le> v" for v :: rat
  proof -
    have "1 / 2000 * (2 :: rat) ^ 200 \<le> \<bar>v\<bar> * 2 ^ 200" using that by (intro mult_right_mono) simp_all
    then show ?thesis by (simp add: lowest_def)
  qed
  have err: "\<bar>z - x\<bar> \<le> 9 / 2000"
  proof (cases "?d = 0")
    case True
    then show ?thesis using round_to_int [of 0] by (simp add: x_def y_def z_def)
  next
    case False
    then have "1 \<le> ?d" using d by simp
    then have x1: "1 / 1000 \<le> x" by (simp add: x_def)
    have "\<bar>y - x\<bar> \<le> \<bar>x\<bar> / 2 ^ 53" unfolding y_def by (rule round_to_error) (rule big, use x1 in linarith)
    then have y: "\<bar>y - x\<bar> \<le> 60000 / 2 ^ 53" "\<bar>y - x\<bar> \<le> x / 2 ^ 53" using x by simp_all
    then have "y - x \<le> x / 2 ^ 53" "x - y \<le> x / 2 ^ 53" unfolding abs_le_iff by auto
    moreover have "x / 2 ^ 53 \<le> x / 100000" using x(1) by (intro divide_left_mono) simp_all
    ultimately have y1: "1 / 2000 \<le> y" "y \<le> 60001" using x x1 by linarith+
    have "\<bar>z - y\<bar> \<le> \<bar>y\<bar> / 2 ^ 24" unfolding z_def by (rule round_to_error) (rule big, rule y1)
    then have "\<bar>z - y\<bar> \<le> 60001 / 2 ^ 24" using y1 by simp
    moreover have "60001 / 2 ^ 24 \<le> (4 / 1000 :: rat)" "60000 / 2 ^ 53 \<le> (1 / 2000 :: rat)" by simp_all
    ultimately show ?thesis using y(1) by linarith
  qed
  have zn: "0 \<le> z" unfolding z_def y_def using x(1) by (intro round_to_nonneg)
  define n where "n = round_half_even (z * 100)"
  have "fmt_6_2f z = field6 (hundredths n)" using zn by (simp add: fmt_6_2f_def n_def)
  moreover have "\<bar>10 * n - ?d\<bar> < 10"
  proof -
    have "\<bar>of_int n - z * 100\<bar> \<le> 1 / 2" unfolding n_def by (rule round_half_even_error)
    then have "\<bar>10 * of_int n - 1000 * x\<bar> < 10" using err by linarith
    then have "\<bar>of_int (10 * n - ?d) :: rat\<bar> < of_int 10" by (simp add: x_def)
    then show ?thesis unfolding of_int_abs [symmetric] of_int_less_iff .
  qed
  ultimately show ?thesis using z by blast
qed

lemma reply_shown:
  assumes "4 \<le> length hw" "W = 4 \<or> W = 8" "0 \<le> a" "2 * a < 256 ^ W" "0 \<le> b" "2 * b < 256 ^ W" "12 + 2 * W + rest \<le> 2048"
    "f = ping_frame hw da n (le_bytes W a @ le_bytes W b) rest" "test_response f r"
  shows "\<exists>rb. receive W (Some r) now s =
    Inr ((), s\<lparr>p_rbuf := rb, p_out := p_out s @ [Timed_Reply (int (length f)) da (n mod 65536) (fmt_6_2f (float_diff (time_diff now (a, b))))]\<rparr>)"
proof -
  have l: "length (take 4 hw) = 4" using assms(1) by simp
  have fl: "length f = 12 + 2 * W + rest" using assms(1) by (simp add: assms(8) length_ping_frame)
  let ?t = "le_bytes 2 n @ le_bytes W a @ le_bytes W b @ map of_nat [0..<rest]"
  have f: "f = [0xff, 0xf3] @ take 4 hw @ le_bytes 4 (uint da) @ ?t" by (simp add: assms(8) ping_frame_def)
  have d: "take 4 (drop 6 f) = le_bytes 4 (uint da)" "drop 10 f = ?t" "f ! 1 = 0xf3"
    unfolding f using l by (simp_all add: drop_Cons')
  have r: "length r = 12 + 2 * W + rest" "r ! 0 AND 0x01 = 0" "r ! 1 = 0xf3" "take 4 (drop 2 r) = le_bytes 4 (uint da)" "drop 10 r = ?t"
    using assms(9) d fl by (simp_all add: test_response_def)
  have c: "take 2048 r = r" using assms(7) r(1) by simp
  define B where "B = put_at 0 r (p_rbuf s)"
  obtain v where b: "B = r @ v" by (simp add: B_def put_at_def)
  have e: "B ! 0 = r ! 0" "B ! 1 = r ! 1" "take 4 (drop 2 B) = take 4 (drop 2 r)" "drop 10 B = ?t @ v"
    unfolding b using r(1,5) by (simp_all add: nth_append)
  have e2: "drop 12 B = le_bytes W a @ le_bytes W b @ map of_nat [0..<rest] @ v" "drop (12 + W) B = le_bytes W b @ map of_nat [0..<rest] @ v"
    using arg_cong [where f = "drop 2", OF e(4)] arg_cong [where f = "drop (2 + W)", OF e(4)] by (simp_all add: add.commute)
  have k: "(0xe3 OR 0x10 :: byte) = 0xf3" by code_simp
  have u: "uint da mod 4294967296 = uint da" using unsigned_less [of da, where ?'a = int] by simp
  have m: "le_value (take 4 (drop 2 B)) = uint da" "le_value (take 2 (drop 10 B)) = n mod 65536"
    "le_signed (take W (drop 12 B)) = a" "le_signed (take W (drop (12 + W) B)) = b"
    unfolding e e2 r using le_value_bytes [of 4 "uint da"] le_value_bytes [of 2 n] u
      le_signed_bytes [OF assms(3,4)] le_signed_bytes [OF assms(5,6)] by simp_all
  have q: "\<not> (B ! 0 AND 0x01 \<noteq> 0 \<or> B ! 1 \<noteq> 0xe3 OR 0x10)" unfolding e(1,2) k using r(2,3) by simp
  have g: "p_rbuf (s\<lparr>p_rbuf := B\<rparr>) = B" by simp
  have n: "\<not> 12 + 2 * W + rest < 10" "\<not> 12 + 2 * W + rest < 12 + 2 * W" by simp_all
  have "receive W (Some r) now s =
      modify (\<lambda>s. s\<lparr>p_out := p_out s @ [Timed_Reply (int (12 + 2 * W + rest)) (word_of_int (uint da)) (n mod 65536)
        (fmt_6_2f (float_diff (time_diff now (a, b))))]\<rparr>) (s\<lparr>p_rbuf := B\<rparr>)"
    unfolding receive_def option.case Let_def c r(1) seq_def bnd_def modify_def [of "\<lambda>s. s\<lparr>p_rbuf := _ s\<rparr>"] gets_def sum.case prod.case
      B_def [symmetric] g if_not_P [OF q] if_not_P [OF n(1)] if_not_P [OF n(2)] m ..
  then show ?thesis by (auto simp: modify_def fl)
qed

lemma ping_length:
  assumes "4 \<le> length (p_hwaddr s)" "length stamp = 2 * W" "12 + 2 * int W \<le> p_framelen s"
  shows "int (length (ping_frame (p_hwaddr s) da n stamp (nat (p_framelen s) - 12 - 2 * W))) = p_framelen s"
  unfolding length_ping_frame [OF assms(1)] assms(2) using assms(3) by linarith

text \<open>C18: On a 32-bit host every answer to a frame, if it comes within a minute, is shown with the length of the frame, the address of the station that
  was asked, the number of the frame, and a time in milliseconds with two decimals that differs by less than one hundredth from the time
  between sending and receiving. The frame has 20 to 2048 bytes and could be sent; the answer is a response of that station with the frame's own contents.\<close>

theorem ping_roundtrip:
  assumes "length (p_buf s) = 2048" "4 \<le> length (p_hwaddr s)" "20 \<le> p_framelen s" "p_framelen s \<le> 2048" "0 \<le> res"
    "0 \<le> sec" "sec < 2 ^ 31" "0 \<le> usec" "usec < 1000000" "0 \<le> snd now" "snd now < 1000000"
    "micros (sec, usec) \<le> micros now" "micros now \<le> micros (sec, usec) + 60000000"
  shows "\<exists>s1. timeout 4 (sec, usec) res s = Inr ((), s1) \<and>
    (\<forall>r. test_response (last (p_sent s1)) r \<longrightarrow>
      (\<exists>s2 n. receive 4 (Some r) now s1 = Inr ((), s2) \<and>
        p_out s2 = p_out s @ [Timed_Reply (p_framelen s) (p_daddr s) (p_packets s mod 65536) (field6 (hundredths n))] \<and>
        \<bar>10 * n - (micros now - micros (sec, usec))\<bar> < 10))"
proof -
  let ?stamp = "le_bytes 4 sec @ le_bytes 4 usec"
  let ?f = "ping_frame (p_hwaddr s) (p_daddr s) (p_packets s) ?stamp (nat (p_framelen s) - 12 - 2 * 4)"
  obtain s1 where 1: "timeout 4 (sec, usec) res s = Inr ((), s1)" "last (p_sent s1) = ?f" "p_out s1 = p_out s"
    using timeout_sends [OF assms(1,2) _ _ assms(4,5), of 4 "(sec, usec)"] assms(3) by (auto simp: timeval_bytes_def)
  have len: "int (length ?f) = p_framelen s" by (rule ping_length [OF assms(2)]) (use assms(3) in simp_all)
  have r: "12 + 2 * 4 + (nat (p_framelen s) - 12 - 2 * 4) \<le> 2048" using assms(3,4) by linarith
  let ?t = "time_diff now (sec, usec)"
  have t: "0 \<le> fst ?t" "0 \<le> snd ?t" "snd ?t < 1000000" "micros ?t \<le> 60000000"
    using assms(8-13) time_diff_exact [of now "(sec, usec)"] by (auto simp: time_diff_def micros_def Let_def split: prod.splits if_splits)
  obtain n where n: "fmt_6_2f (float_diff ?t) = field6 (hundredths n)" "\<bar>10 * n - (micros now - micros (sec, usec))\<bar> < 10"
    using time_shown [OF t] by (auto simp: time_diff_exact)
  have ans: "\<exists>s2. receive 4 (Some a) now s1 = Inr ((), s2) \<and>
      p_out s2 = p_out s @ [Timed_Reply (p_framelen s) (p_daddr s) (p_packets s mod 65536) (field6 (hundredths n))]"
    if "test_response ?f a" for a
    using reply_shown [OF assms(2) _ assms(6) _ assms(8) _ r refl that, of now s1] assms(7,9) 1 len n(1) by auto
  show ?thesis
    by (rule exI [of _ s1], rule conjI [OF 1(1)], intro allI impI, unfold 1(2)) (use ans n(2) in blast)
qed

theorem ping_roundtrip_witness:
  "\<exists>s1 r s2. timeout 4 (1000, 999990) 32 (demo_ping 32) = Inr ((), s1) \<and> test_response (last (p_sent s1)) r \<and>
     receive 4 (Some r) (1001, 50) s1 = Inr ((), s2) \<and> p_out s2 = [Timed_Reply 32 0xdeadbeef 5 ''  0.06'']"
proof -
  obtain s1 where 1: "timeout 4 (1000, 999990) 32 (demo_ping 32) = Inr ((), s1)" "length (last (p_sent s1)) = 32"
    using timeout_sends [of "demo_ping 32" 4 32 "(1000, 999990)"] by (auto simp: demo_ping_def length_ping_frame timeval_bytes_def)
  let ?f = "last (p_sent s1)"
  have r: "test_response ?f ([0xfe, ?f ! 1] @ take 4 (drop 6 ?f) @ take 4 (drop 2 ?f) @ drop 10 ?f)"
    by (rule some_response) (simp add: 1(2))
  have "\<exists>s2 n. receive 4 (Some ([0xfe, ?f ! 1] @ take 4 (drop 6 ?f) @ take 4 (drop 2 ?f) @ drop 10 ?f)) (1001, 50) s1 = Inr ((), s2) \<and>
      p_out s2 = [Timed_Reply 32 0xdeadbeef 5 (field6 (hundredths n))] \<and> \<bar>10 * n - 60\<bar> < 10"
    using ping_roundtrip [of "demo_ping 32" 32 1000 999990 "(1001, 50)"] 1 r by (auto simp: demo_ping_def micros_def)
  then obtain s2 n where "receive 4 (Some ([0xfe, ?f ! 1] @ take 4 (drop 6 ?f) @ take 4 (drop 2 ?f) @ drop 10 ?f)) (1001, 50) s1 = Inr ((), s2)"
    "p_out s2 = [Timed_Reply 32 0xdeadbeef 5 (field6 (hundredths n))]" "\<bar>10 * n - 60\<bar> < 10" by blast
  note 2 = this
  have "n = 6" using 2(3) by arith
  moreover have "field6 (hundredths 6) = ''  0.06''" by code_simp
  ultimately show ?thesis using 1(1) 2(1,2) r by auto
qed

text \<open>On a 64-bit host only half of the time stamp is copied into the frame, whose other half stays zero: the time shown
  is that since the start of the second in which the frame was sent.\<close>

theorem ping_time_too_long:
  assumes "length (p_buf s) = 2048" "4 \<le> length (p_hwaddr s)" "28 \<le> p_framelen s" "p_framelen s \<le> 2048" "0 \<le> res"
    "0 \<le> sec" "sec < 2 ^ 63" "take 8 (drop 20 (p_buf s)) = replicate 8 0"
  shows "\<exists>s1. timeout 8 (sec, usec) res s = Inr ((), s1) \<and>
    (\<forall>r. test_response (last (p_sent s1)) r \<longrightarrow>
      (\<exists>s2. receive 8 (Some r) now s1 = Inr ((), s2) \<and>
        p_out s2 = p_out s @ [Timed_Reply (p_framelen s) (p_daddr s) (p_packets s mod 65536) (fmt_6_2f (float_diff (time_diff now (sec, 0))))]))"
proof -
  have z: "replicate 8 0 = le_bytes 8 0" by code_simp
  let ?stamp = "le_bytes 8 sec @ le_bytes 8 0"
  let ?f = "ping_frame (p_hwaddr s) (p_daddr s) (p_packets s) ?stamp (nat (p_framelen s) - 12 - 2 * 8)"
  obtain s1 where 1: "timeout 8 (sec, usec) res s = Inr ((), s1)" "last (p_sent s1) = ?f" "p_out s1 = p_out s"
    using timeout_sends [OF assms(1,2) _ _ assms(4,5), of 8 "(sec, usec)"] assms(3,8) z by (auto simp: timeval_bytes_def)
  have len: "int (length ?f) = p_framelen s" by (rule ping_length [OF assms(2)]) (use assms(3) in simp_all)
  have r: "12 + 2 * 8 + (nat (p_framelen s) - 12 - 2 * 8) \<le> 2048" using assms(3,4) by linarith
  have "\<exists>s2. receive 8 (Some a) now s1 = Inr ((), s2) \<and>
      p_out s2 = p_out s @ [Timed_Reply (p_framelen s) (p_daddr s) (p_packets s mod 65536) (fmt_6_2f (float_diff (time_diff now (sec, 0))))]"
    if "test_response ?f a" for a
    using reply_shown [OF assms(2) _ assms(6) _ order_refl _ r refl that, of now s1] assms(7) 1 len by auto
  with 1 show ?thesis by auto
qed

section \<open>The running program\<close>

text \<open>The invariant of the send buffer: its size and, where the stamp is not complete, the part no store reaches.\<close>

definition buf_ok :: "nat \<Rightarrow> ping \<Rightarrow> bool" where
  "buf_ok W s \<longleftrightarrow> length (p_buf s) = 2048 \<and> (W = 8 \<longrightarrow> take 8 (drop 20 (p_buf s)) = replicate 8 0)"

definition settings_of :: "ping \<Rightarrow> int \<times> byte list \<times> u32" where
  "settings_of s = (p_framelen s, p_hwaddr s, p_daddr s)"

lemma put_at_slice:
  assumes "i + length bs \<le> length l" "i + length bs \<le> 20 \<or> 28 \<le> i"
  shows "take 8 (drop 20 (put_at i bs l)) = take 8 (drop 20 l)"
proof (cases "28 \<le> i")
  case True
  then have "take 28 (put_at i bs l) = take 28 l" using assms(1) by (simp add: put_at_def)
  then show ?thesis by (simp add: take_drop)
next
  case False
  then have "drop 20 (put_at i bs l) = drop (20 - (i + length bs)) (drop (i + length bs) (put_at i bs l))"
    using assms(2) by simp
  also have "\<dots> = drop 20 l" using assms False by (simp add: put_at_def)
  finally show ?thesis by simp
qed

lemma preserves_store:
  "i + length bs \<le> 20 \<or> 28 \<le> i \<or> W = 4 \<Longrightarrow> preserves (buf_ok W) (store i bs)"
  by (auto simp: preserves_def store_def buf_ok_def guard_def seq_def bnd_def modify_def fault_def skip_def ret_def
      put_at_slice put_at_next split: if_splits)

lemma preserves_fill: "28 \<le> base \<or> W = 4 \<Longrightarrow> preserves (buf_ok W) (fill base i rest)"
proof (induction base i rest rule: fill.induct)
  case (1 base i rest)
  then show ?case by (subst fill.simps) (auto intro!: preserves_intro preserves_store)
qed

lemma preserves_modify: "(\<And>s. P (f s) = P s) \<Longrightarrow> preserves P (modify f)"
  by (simp add: preserves_def modify_def)

lemma preserves_handle: "W = 4 \<or> W = 8 \<Longrightarrow> preserves (buf_ok W) (ping_handle W e)"
proof (cases e)
  case (Alarm now res)
  assume W: "W = 4 \<or> W = 8"
  then have "length (take 8 (timeval_bytes W now)) = 8" by (auto simp: timeval_bytes_def)
  then show ?thesis
    unfolding Alarm ping_handle.simps timeout_def
    by (intro preserves_intro preserves_prod preserves_modify preserves_store preserves_fill)
      (use W in \<open>auto simp: buf_ok_def\<close>)
next
  case (Frame data now)
  then show ?thesis
    by (cases data) (auto simp: receive_def Let_def buf_ok_def intro!: preserves_intro preserves_modify)
qed

lemma keeps_store: "(\<And>s b. g (s\<lparr>p_buf := b\<rparr>) = g s) \<Longrightarrow> keeps g (store i bs)"
  unfolding store_def by (intro keeps_intro keeps_modify) simp

lemma keeps_fill: "(\<And>s b. g (s\<lparr>p_buf := b\<rparr>) = g s) \<Longrightarrow> keeps g (fill base i rest)"
proof (induction base i rest rule: fill.induct)
  case (1 base i rest)
  then show ?case by (subst fill.simps) (auto intro!: keeps_intro keeps_store)
qed

lemma keeps_receive: "(\<And>s b. g (s\<lparr>p_rbuf := b\<rparr>) = g s) \<Longrightarrow> (\<And>s b. g (s\<lparr>p_out := b\<rparr>) = g s) \<Longrightarrow> keeps g (receive W data now)"
  by (cases data) (auto simp: receive_def Let_def intro!: keeps_intro keeps_modify)

lemma keeps_settings: "keeps settings_of (ping_handle W e)"
proof (cases e)
  case (Alarm now res)
  have split: "keeps settings_of (case x of (a, b, c, d) \<Rightarrow> f a b c d)" if "\<And>a b c d. keeps settings_of (f a b c d)"
    for x and f :: "u32 \<Rightarrow> u32 \<Rightarrow> int \<Rightarrow> int \<Rightarrow> unit ping_prog"
    using that by (simp split: prod.split)
  show ?thesis
    unfolding Alarm ping_handle.simps timeout_def
    by (intro keeps_intro split keeps_store keeps_fill keeps_modify) (simp_all add: settings_of_def)
qed (simp add: keeps_receive settings_of_def)

lemma timeout_counts: "timeout W now res s = Inr ((), s') \<Longrightarrow> p_packets s' = p_packets s + 1"
proof -
  assume *: "timeout W now res s = Inr ((), s')"
  have st: "store i bs s = Inr ((), s') \<Longrightarrow> p_packets s' = p_packets s" for i bs s s'
    using keepsD [OF keeps_store [of p_packets]] by auto
  have fl: "fill base i rest s = Inr ((), s') \<Longrightarrow> p_packets s' = p_packets s" for base i rest s s'
    using keepsD [OF keeps_fill [of p_packets]] by auto
  show ?thesis using *
    by (auto simp: timeout_def seq_def bnd_eq_Inr modify_def gets_def fault_def split: if_splits dest!: st fl)
qed

definition is_alarm :: "ping_event \<Rightarrow> bool" where
  "is_alarm e = (case e of Alarm now res \<Rightarrow> True | Frame data now \<Rightarrow> False)"

lemma handle_counts:
  "ping_handle W e s = Inr ((), s') \<Longrightarrow> p_packets s' = p_packets s + (if is_alarm e then 1 else 0)"
proof (cases e)
  case (Frame data now)
  assume "ping_handle W e s = Inr ((), s')"
  then show ?thesis using keepsD [OF keeps_receive [of p_packets]] Frame by (auto simp: is_alarm_def)
qed (simp add: is_alarm_def timeout_counts)

lemma run_keeps:
  assumes "W = 4 \<or> W = 8" "buf_ok W s" "ping_run W es s = Inr ((), s')"
  shows "buf_ok W s' \<and> settings_of s' = settings_of s \<and> p_packets s' = p_packets s + int (length (filter is_alarm es))"
  using assms(2,3)
proof (induction es arbitrary: s)
  case (Cons e es)
  then obtain s1 where s1: "ping_handle W e s = Inr ((), s1)" "ping_run W es s1 = Inr ((), s')"
    by (auto simp: seq_def bnd_eq_Inr)
  have "buf_ok W s1" using preservesD [OF preserves_handle [OF assms(1)] Cons.prems(1) s1(1)] .
  from Cons.IH [OF this s1(2)] keepsD [OF keeps_settings s1(1)] handle_counts [OF s1(1)] show ?case by auto
qed (simp add: skip_def ret_def)

lemma start_settings:
  assumes "ping_start W argv opts rbuf (Some hw) = Inr s"
  shows "buf_ok W s \<and> p_hwaddr s = hw \<and> p_packets s = 0 \<and> (0 \<le> p_framelen s \<longrightarrow> 12 + 2 * int W \<le> p_framelen s)"
proof -
  have opts: "ping_options W os s0 = Inr s1 \<Longrightarrow> p_buf s1 = p_buf s0 \<and> p_packets s1 = p_packets s0" for os s0 s1
    by (induction W os s0 rule: ping_options.induct) (auto simp: ping_option_def split: sum.splits if_splits)
  have fl: "0 \<le> correct_framelen W n \<Longrightarrow> 12 + 2 * int W \<le> correct_framelen W n" for n
    unfolding correct_framelen_def by (auto simp: not_less dest: order_trans [OF _ zmod_le_nonneg_dividend])
  have z: "take 8 (drop 20 (replicate 2048 0 :: byte list)) = replicate 8 0" by simp
  show ?thesis using assms opts fl z by (fastforce simp: ping_start_def buf_ok_def split: if_splits sum.splits)
qed

text \<open>C31: While the program runs, started with a length that is not negative, the send buffer keeps its size, and where the time stamp is incomplete its
  missing part stays zero; length and addresses are those of the start, the length at least that of a frame with a time stamp; and the
  number that the closing line calls packets received is the number of alarms, that is of packets sent.\<close>

theorem ping_state_consistent:
  assumes "W = 4 \<or> W = 8" "ping_start W argv opts rbuf (Some hw) = Inr s" "0 \<le> p_framelen s" "ping_run W es s = Inr ((), s')"
  shows "buf_ok W s' \<and> settings_of s' = settings_of s \<and> p_hwaddr s' = hw \<and> 12 + 2 * int W \<le> p_framelen s' \<and>
    cleanup_count s' = int (length (filter is_alarm es))"
  using run_keeps [OF assms(1) _ assms(4)] start_settings [OF assms(2)] assms(3)
  by (auto simp: cleanup_count_def settings_of_def)

theorem ping_state_consistent_witness:
  "\<exists>s s'. ping_start 8 [''irdaping'', ''0x12345678''] [(CHR ''s'', ''64'')] [] (Some [1, 2, 3, 4]) = Inr s \<and>
     ping_run 8 [Alarm (5, 6) 64] s = Inr ((), s') \<and> buf_ok 8 s' \<and> cleanup_count s' = 1"
proof -
  let ?st = "ping_start 8 [''irdaping'', ''0x12345678''] [(CHR ''s'', ''64'')] [] (Some [1, 2, 3, 4])"
  have n: "strtol_int 8 ''64'' = 64" "correct_framelen 8 64 = 64" by code_simp+
  obtain s where s: "?st = Inr s" "p_framelen s = 64" "length (p_buf s) = 2048" "length (p_hwaddr s) = 4"
    by (simp add: ping_start_def ping_option_def n)
  obtain s' where r: "ping_run 8 [Alarm (5, 6) 64] s = Inr ((), s')"
    using timeout_sends [of s 8 64 "(5, 6)"] s(2-4) by (auto simp: seq_def bnd_def skip_def ret_def)
  have "cleanup_count s' = 1 \<and> buf_ok 8 s'"
    using ping_state_consistent [OF _ s(1) _ r] s(2) by (simp add: is_alarm_def)
  with s(1) r show ?thesis by blast
qed

end
