(* ===== verification/Irdaspray.thy ===== *)
theory Irdaspray
  imports C_Prelude
begin

text \<open>
  The throughput test of the socket interface, \<^verbatim>\<open>irda-utils/irsockets/irdaspray.c\<close>: discovery and connecting, the client that sends
  frames and counts what comes back, the server that echoes or discards. The answers of the kernel and of the user
  are fields of an environment; a socket delivers whole frames. Elapsed times are left out, and so are the two functions that try
  out the information base, which the program is compiled without calls of. Totals are taken to stay within an \<^verbatim>\<open>int\<close>.
\<close>

section \<open>Model\<close>

record spray_device =
  sd_info :: string
  sd_daddr :: int

text \<open>Answers: waiting for a device, connecting, the question for a service.\<close>

datatype wait_answer = Found_Device | Wait_Again | Wait_Error

datatype connect_answer = Connected | Not_Available | Not_Unique | Connect_Error

datatype query_answer = Has_Service | No_Service | No_Query

datatype spray_msg =
    No_Devices | Waiting_Device | Nothing_Found | Discovered int | Device_Line int string int query_answer | Enter_Number
  | Auto_One | Auto_None | Auto_Failed | Auto_Many | Assigned int int | Connected_Msg
  | Received_Bytes int | Transmitted_Bytes int
  | Server_Start bool | Waiting_Connection | Got int | Sent_Bytes int | Disconnected

record spray =
  frame_size :: int
  frame_number :: int
  echo :: bool
  server :: bool
  two :: bool
  s_buf :: "byte list"
  hints :: "byte list option"
  enums :: nat
  connects :: nat
  socks :: nat
  forkn :: nat
  rx :: "byte list option list"
  tx :: "byte list list"
  said :: "spray_msg list"

record spray_env =
  e_socket :: "nat \<Rightarrow> int"
  e_hint :: bool
  e_enum :: "nat \<Rightarrow> spray_device list option"
  e_wait :: wait_answer
  e_connect :: "nat \<Rightarrow> connect_answer"
  e_query :: "int \<Rightarrow> query_answer"
  e_scanf :: "int option"
  e_stale :: "int \<Rightarrow> int"
  e_name :: "(int \<times> int) option"
  e_fork :: "nat \<Rightarrow> int"
  e_send :: "byte list list \<Rightarrow> byte list \<Rightarrow> int"
  e_bind :: bool
  e_listen :: bool

type_synonym 'a sprog = "(spray, 'a) prog"

definition announce :: "spray_msg \<Rightarrow> unit sprog" where
  "announce x = modify (\<lambda>s. s\<lparr>said := said s @ [x]\<rparr>)"

subsection \<open>Discovery\<close>

text \<open>\<^verbatim>\<open>HINT_COMPUTER | HINT_PDA\<close>; the array has four entries, of which two are set.\<close>

definition irdaspray_sethintmask :: "spray_env \<Rightarrow> unit sprog" where
  "irdaspray_sethintmask E =
     (if e_hint E then modify (\<lambda>s. s\<lparr>hints := Some [0x04 OR 0x02, 0]\<rparr>) else fault (Exit_With (-1)))"

definition enum_devices :: "spray_env \<Rightarrow> spray_device list option sprog" where
  "enum_devices E = bnd (gets enums) (\<lambda>n. seq (modify (\<lambda>s. s\<lparr>enums := n + 1\<rparr>)) (ret (e_enum E n)))"

definition irdaspray_check_discovery :: "spray_env \<Rightarrow> int sprog" where
  "irdaspray_check_discovery E =
     bnd (enum_devices E) (\<lambda>r.
     case r of
       None \<Rightarrow> seq (announce No_Devices) (ret (-1))
     | Some ds \<Rightarrow> if ds = [] then seq (announce No_Devices) (ret (-1)) else ret 0)"

definition irdaspray_waitfor_device :: "spray_env \<Rightarrow> int sprog" where
  "irdaspray_waitfor_device E =
     seq (irdaspray_sethintmask E)
     (bnd (irdaspray_check_discovery E) (\<lambda>r.
     if r = 0 then ret 0
     else
       seq (announce Waiting_Device)
       (case e_wait E of
          Found_Device \<Rightarrow> ret 0
        | Wait_Again \<Rightarrow> seq (announce Nothing_Found) (ret (-1))
        | Wait_Error \<Rightarrow> fault (Exit_With (-1)))))"

fun list_devices :: "spray_env \<Rightarrow> int \<Rightarrow> spray_device list \<Rightarrow> unit sprog" where
  "list_devices E i [] = skip"
| "list_devices E i (d # ds) =
     seq (announce (Device_Line (i + 1) (sd_info d) (sd_daddr d) (e_query E (sd_daddr d)))) (list_devices E (i + 1) ds)"

text \<open>
  The number the user enters is compared with both bounds at once, so that the comparison never holds. The local array has room for
  eleven devices; \<open>e_stale\<close> is what it holds behind the devices found.
\<close>

definition irdaspray_discover_devices :: "spray_env \<Rightarrow> int sprog" where
  "irdaspray_discover_devices E =
     seq (irdaspray_sethintmask E)
     (bnd (enum_devices E) (\<lambda>r.
     case r of
       None \<Rightarrow> seq (announce No_Devices) (ret (-1))
     | Some ds \<Rightarrow>
         if ds = [] then seq (announce No_Devices) (ret (-1))
         else
           seq (announce (Discovered (int (length ds))))
           (seq (list_devices E 0 ds)
           (seq (announce Enter_Number)
           (case e_scanf E of
              None \<Rightarrow> ret (-1)
            | Some x \<Rightarrow>
                let i = x - 1
                in if i < 0 \<and> i > int (length ds) then ret (-1)
                   else
                     seq (guard (0 \<le> i \<and> i < 11) (Local_Bounds ''list->dev'' (nat i)))
                     (ret (if i < int (length ds) then sd_daddr (ds ! nat i) else e_stale E i)))))))"

subsection \<open>Connecting\<close>

definition connect_socket :: "spray_env \<Rightarrow> connect_answer sprog" where
  "connect_socket E = bnd (gets connects) (\<lambda>n. seq (modify (\<lambda>s. s\<lparr>connects := n + 1\<rparr>)) (ret (e_connect E n)))"

definition connect_chosen :: "spray_env \<Rightarrow> int sprog" where
  "connect_chosen E =
     bnd (irdaspray_discover_devices E) (\<lambda>daddr.
     if daddr = -1 then ret (-1)
     else
       bnd (connect_socket E) (\<lambda>a.
       if a \<noteq> Connected then ret (-1)
       else
         case e_name E of
           None \<Rightarrow> ret (-1)
         | Some (addr, lsap) \<Rightarrow> seq (announce (Assigned addr lsap)) (seq (announce Connected_Msg) (ret 0))))"

definition irdaspray_connect_request :: "spray_env \<Rightarrow> int sprog" where
  "irdaspray_connect_request E =
     bnd (irdaspray_waitfor_device E) (\<lambda>w.
     if w \<noteq> 0 then ret (-1)
     else
       bnd (connect_socket E) (\<lambda>a.
       case a of
         Connected \<Rightarrow> seq (announce Auto_One) (ret 0)
       | Not_Available \<Rightarrow> seq (announce Auto_None) (ret (-1))
       | Not_Unique \<Rightarrow> seq (announce Auto_Many) (connect_chosen E)
       | Connect_Error \<Rightarrow> seq (announce Auto_Failed) (connect_chosen E)))"

subsection \<open>Transfer\<close>

text \<open>\<^verbatim>\<open>send(fd, buf, len, 0)\<close> from an array of 8200 bytes; a negative length is refused by the kernel.\<close>

definition send_buf :: "spray_env \<Rightarrow> int \<Rightarrow> int sprog" where
  "send_buf E len =
     (if len < 0 then ret (-1)
      else
        seq (guard (len \<le> 8200) (Local_Bounds ''buf'' (nat len)))
        (bnd (gets (\<lambda>s. (tx s, take (nat len) (s_buf s)))) (\<lambda>(old, f).
        let r = e_send E old f
        in if r < 0 then ret r else seq (modify (\<lambda>s. s\<lparr>tx := old @ [f]\<rparr>)) (ret r))))"

text \<open>\<^verbatim>\<open>recv(fd, buf, sizeof(buf), 0)\<close>: the next frame, an error, or 0 when there is no more.\<close>

definition recv_buf :: "int sprog" where
  "recv_buf =
     bnd (gets rx) (\<lambda>fs.
     case fs of
       [] \<Rightarrow> ret 0
     | r # rest \<Rightarrow>
         seq (modify (\<lambda>s. s\<lparr>rx := rest\<rparr>))
         (case r of
            None \<Rightarrow> ret (-1)
          | Some f \<Rightarrow>
              let g = take 8200 f
              in seq (modify (\<lambda>s. s\<lparr>s_buf := g @ drop (length g) (s_buf s)\<rparr>)) (ret (int (length g)))))"

text \<open>\<^verbatim>\<open>for (i=0; i<frame_number; i++) total += ...\<close>, where the total is an \<^verbatim>\<open>int\<close>.\<close>

definition in_int :: "int \<Rightarrow> bool" where
  "in_int v \<longleftrightarrow> - (2 ^ 31) \<le> v \<and> v < 2 ^ 31"

fun sum_loop :: "int sprog \<Rightarrow> nat \<Rightarrow> int \<Rightarrow> int sprog" where
  "sum_loop m 0 tot = ret tot"
| "sum_loop m (Suc n) tot = bnd m (\<lambda>actual. if in_int (tot + actual) then sum_loop m n (tot + actual) else fault Overflow)"

definition irdaspray_transmit :: "spray_env \<Rightarrow> int sprog" where
  "irdaspray_transmit E = bnd (gets (\<lambda>s. (frame_size s, frame_number s))) (\<lambda>(sz, n). sum_loop (send_buf E sz) (nat n) 0)"

definition irdaspray_receive :: "int sprog" where
  "irdaspray_receive = bnd (gets frame_number) (\<lambda>n. sum_loop recv_buf (nat n) 0)"

definition new_socket :: "spray_env \<Rightarrow> unit sprog" where
  "new_socket E =
     bnd (gets socks) (\<lambda>n.
     seq (modify (\<lambda>s. s\<lparr>socks := n + 1\<rparr>))
     (if e_socket E n < 0 then fault (Exit_With (-1)) else skip))"

definition fork_process :: "spray_env \<Rightarrow> int sprog" where
  "fork_process E = bnd (gets forkn) (\<lambda>n. seq (modify (\<lambda>s. s\<lparr>forkn := n + 1\<rparr>)) (ret (e_fork E n)))"

text \<open>The second client: the parent opens a socket of its own. \<open>False\<close> where it cannot connect.\<close>

definition second_client :: "spray_env \<Rightarrow> bool sprog" where
  "second_client E =
     bnd (fork_process E) (\<lambda>tpid.
     if tpid = 0 then ret True
     else
       seq (new_socket E)
       (bnd (irdaspray_connect_request E) (\<lambda>r. ret (r = 0))))"

text \<open>Sending and counting; the result of the fork, 0 without one.\<close>

definition transfer :: "spray_env \<Rightarrow> (int \<times> int) sprog" where
  "transfer E =
     bnd (gets echo) (\<lambda>ec.
     if ec then
       bnd (fork_process E) (\<lambda>pid.
       if pid \<noteq> 0 then bnd irdaspray_receive (\<lambda>t. ret (pid, t))
       else bnd (irdaspray_transmit E) (\<lambda>t. ret (pid, t)))
     else bnd (irdaspray_transmit E) (\<lambda>t. ret (0, t)))"

definition ir_client :: "spray_env \<Rightarrow> int sprog" where
  "ir_client E =
     seq (new_socket E)
     (bnd (irdaspray_connect_request E) (\<lambda>r.
     if r \<noteq> 0 then ret (-1)
     else
       bnd (gets two) (\<lambda>tw.
       bnd (if tw then second_client E else ret True) (\<lambda>ok.
       if \<not> ok then ret (-1)
       else
         bnd (transfer E) (\<lambda>(pid, tot).
         seq (announce (if pid \<noteq> 0 then Received_Bytes tot else Transmitted_Bytes tot))
         (ret 0))))))"

subsection \<open>Server\<close>

text \<open>The loop of a child that serves a connection; \<open>fs\<close> are the results of its calls of \<^verbatim>\<open>recv\<close>.\<close>

fun serve :: "spray_env \<Rightarrow> byte list option list \<Rightarrow> unit sprog" where
  "serve E [] = skip"
| "serve E (None # fs) = skip"
| "serve E (Some f # fs) =
     (let g = take 8200 f
      in if g = [] then skip
         else
           seq (modify (\<lambda>s. s\<lparr>s_buf := g @ drop (length g) (s_buf s)\<rparr>))
           (seq (announce (Got (int (length g))))
           (bnd (gets echo) (\<lambda>ec.
           if ec then
             bnd (send_buf E (int (length g))) (\<lambda>actual.
             seq (announce (Sent_Bytes actual))
             (if actual > 0 then serve E fs else skip))
           else serve E fs))))"

text \<open>The loop over connections; with none left \<^verbatim>\<open>accept\<close> fails.\<close>

fun accept_loop :: "spray_env \<Rightarrow> byte list option list list \<Rightarrow> int sprog" where
  "accept_loop E [] = seq (announce Waiting_Connection) (ret (-1))"
| "accept_loop E (c # cs) =
     seq (announce Waiting_Connection)
     (bnd (fork_process E) (\<lambda>pid.
     if pid = 0 then
       seq (announce Connected_Msg)
       (seq (serve E c)
       (seq (announce Disconnected)
       (ret 0)))
     else accept_loop E cs))"

definition ir_server :: "spray_env \<Rightarrow> byte list option list list \<Rightarrow> int sprog" where
  "ir_server E conns =
     bnd (gets echo) (\<lambda>ec.
     seq (announce (Server_Start ec))
     (seq (new_socket E)
     (if \<not> e_bind E then ret (-1)
      else if \<not> e_listen E then ret (-1)
      else accept_loop E conns)))"

subsection \<open>Main program\<close>

definition spray_option :: "char \<Rightarrow> string \<Rightarrow> spray \<Rightarrow> c_fault + spray" where
  "spray_option c optarg s =
     (if c = CHR ''s'' then Inr (s\<lparr>server := True\<rparr>)
      else if c = CHR ''c'' then Inr (s\<lparr>server := False\<rparr>)
      else if c = CHR ''d'' then Inr (s\<lparr>echo := False\<rparr>)
      else if c = CHR ''e'' then Inr (s\<lparr>echo := True\<rparr>)
      else if c = CHR ''t'' then Inr (s\<lparr>two := True\<rparr>)
      else if c = CHR ''h'' then Inl (Exit_With 1)
      else if c = CHR ''n'' then Inr (s\<lparr>frame_number := atoi optarg\<rparr>)
      else if c = CHR ''b'' then Inr (s\<lparr>frame_size := atoi optarg\<rparr>)
      else Inl (Exit_With 1))"

fun spray_options :: "(char \<times> string) list \<Rightarrow> spray \<Rightarrow> c_fault + spray" where
  "spray_options [] s = Inr s"
| "spray_options ((c, optarg) # os) s = (case spray_option c optarg s of Inl e \<Rightarrow> Inl e | Inr s' \<Rightarrow> spray_options os s')"

definition spray_start :: spray where
  "spray_start = \<lparr>frame_size = 1024, frame_number = 100, echo = True, server = False, two = False, s_buf = replicate 8200 0,
     hints = None, enums = 0, connects = 0, socks = 0, forkn = 0, rx = [], tx = [], said = []\<rparr>"

definition spray_main :: "spray_env \<Rightarrow> byte list option list list \<Rightarrow> (char \<times> string) list \<Rightarrow> int sprog" where
  "spray_main E conns opts = (\<lambda>s.
     case spray_options opts s of
       Inl e \<Rightarrow> Inl e
     | Inr s1 \<Rightarrow> if server s1 then ir_server E conns s1 else ir_client E s1)"

section \<open>Echo\<close>

text \<open>A socket that takes every frame.\<close>

definition lossless :: "spray_env \<Rightarrow> bool" where
  "lossless E \<longleftrightarrow> (\<forall>old f. e_send E old f = int (length f))"

lemma send_run:
  assumes "lossless E" "0 \<le> len" "len \<le> 8200" "nat len \<le> length (s_buf s)"
  shows "send_buf E len s = Inr (len, s\<lparr>tx := tx s @ [take (nat len) (s_buf s)]\<rparr>)"
  using assms by (simp add: send_buf_def lossless_def seq_def bnd_def guard_def skip_def ret_def gets_def modify_def Let_def)

lemma transmit_loop:
  assumes "lossless E" "0 \<le> sz" "sz \<le> 8200" "nat sz \<le> length (s_buf s)" "0 \<le> tot" "tot + int n * sz < 2 ^ 31"
  shows "sum_loop (send_buf E sz) n tot s =
    Inr (tot + int n * sz, s\<lparr>tx := tx s @ replicate n (take (nat sz) (s_buf s))\<rparr>)"
  using assms(4-6)
proof (induction n arbitrary: tot s)
  case (Suc n)
  have "0 \<le> int n * sz" using assms(2) by simp
  moreover have "tot + sz + int n * sz < 2 ^ 31" using Suc.prems(3) by (simp add: algebra_simps)
  ultimately have "in_int (tot + sz)" "tot + sz + int n * sz < 2 ^ 31" using Suc.prems(2) assms(2) unfolding in_int_def by linarith+
  then show ?case
    using Suc.IH [of "s\<lparr>tx := tx s @ [take (nat sz) (s_buf s)]\<rparr>" "tot + sz"] Suc.prems(1,2) assms(2) send_run [OF assms(1-3) Suc.prems(1)]
    by (simp add: bnd_def algebra_simps)
qed (simp add: ret_def)

lemma serve_echoes:
  assumes "lossless E" "echo s" "list_all (\<lambda>f. f \<noteq> [] \<and> length f \<le> 8200) fs"
  shows "\<exists>s'. serve E (map Some fs) s = Inr ((), s') \<and> tx s' = tx s @ fs"
  using assms(2,3)
proof (induction fs arbitrary: s)
  case (Cons f fs)
  have f: "f \<noteq> []" "length f \<le> 8200" "take 8200 f = f" using Cons.prems(2) by simp_all
  let ?s = "s\<lparr>s_buf := f @ drop (length f) (s_buf s), said := said s @ [Got (int (length f))]\<rparr>"
  have r: "send_buf E (int (length f)) ?s = Inr (int (length f), ?s\<lparr>tx := tx s @ [f]\<rparr>)"
    using send_run [OF assms(1), of "int (length f)" ?s] f(2) by simp
  let ?t = "?s\<lparr>tx := tx s @ [f], said := said ?s @ [Sent_Bytes (int (length f))]\<rparr>"
  obtain s' where "serve E (map Some fs) ?t = Inr ((), s')" "tx s' = tx s @ f # fs"
    using Cons.IH [of ?t] Cons.prems by auto
  then show ?case using r f Cons.prems(1) by (auto simp: seq_def bnd_def modify_def announce_def gets_def)
qed (simp add: skip_def ret_def)

lemma receive_loop:
  assumes "rx s = map Some fs @ rest" "list_all (\<lambda>f. length f \<le> 8200) fs"
    "0 \<le> tot" "tot + (\<Sum>f\<leftarrow>fs. int (length f)) < 2 ^ 31"
  shows "\<exists>s'. sum_loop recv_buf (length fs) tot s = Inr (tot + (\<Sum>f\<leftarrow>fs. int (length f)), s') \<and> rx s' = rest"
  using assms
proof (induction fs arbitrary: tot s)
  case (Cons f fs)
  let ?t = "s\<lparr>rx := map Some fs @ rest, s_buf := f @ drop (length f) (s_buf s)\<rparr>"
  have "recv_buf s = Inr (int (length f), ?t)"
    using Cons.prems by (simp add: recv_buf_def bnd_def gets_def seq_def modify_def ret_def Let_def)
  moreover have "0 \<le> (\<Sum>f\<leftarrow>fs. int (length f))" by (rule sum_list_nonneg) auto
  then have "in_int (tot + int (length f))" using Cons.prems(3,4) by (simp add: in_int_def)
  moreover obtain s' where "sum_loop recv_buf (length fs) (tot + int (length f)) ?t =
      Inr (tot + int (length f) + (\<Sum>f\<leftarrow>fs. int (length f)), s')" "rx s' = rest"
    using Cons.IH [of ?t "tot + int (length f)"] Cons.prems(2-4) by (auto simp: add.assoc)
  ultimately show ?case by (auto simp: bnd_def add.assoc)
qed (simp add: ret_def)

text \<open>C20: Client and echo server fit together: over sockets that lose nothing, with frames of 1 to 8200 bytes and fewer than \<open>2 ^ 31\<close> bytes in all, what
  the client sends the server sends back frame by frame, the client's receiving process counts as many bytes as its sending process, and
  that is the number of frames times their size.\<close>

theorem echo_totals_agree:
  assumes "lossless E" "lossless E'" "0 < frame_size s" "frame_size s \<le> 8200" "0 \<le> frame_number s" "length (s_buf s) = 8200"
    "tx s = []" "echo t" "tx t = []" "frame_number s * frame_size s < 2 ^ 31"
  shows "\<exists>s1 t1 s2. irdaspray_transmit E s = Inr (frame_number s * frame_size s, s1) \<and>
    serve E' (map Some (tx s1)) t = Inr ((), t1) \<and> tx t1 = tx s1 \<and>
    irdaspray_receive (s\<lparr>rx := map Some (tx t1)\<rparr>) = Inr (frame_number s * frame_size s, s2) \<and> rx s2 = []"
proof -
  let ?f = "take (nat (frame_size s)) (s_buf s)"
  let ?fs = "replicate (nat (frame_number s)) ?f"
  have len: "length ?f = nat (frame_size s)" using assms(4,6) by simp
  have ok: "list_all (\<lambda>f. f \<noteq> [] \<and> length f \<le> 8200) ?fs" "list_all (\<lambda>f. length f \<le> 8200) ?fs"
    using assms(3,4) len by (auto simp: list_all_length)
  have 1: "irdaspray_transmit E s = Inr (frame_number s * frame_size s, s\<lparr>tx := ?fs\<rparr>)"
    using transmit_loop [OF assms(1), of "frame_size s" s 0 "nat (frame_number s)"] assms(3-7,10)
    by (simp add: irdaspray_transmit_def bnd_def gets_def)
  obtain t1 where 2: "serve E' (map Some ?fs) t = Inr ((), t1)" "tx t1 = ?fs"
    using serve_echoes [OF assms(2,8) ok(1)] assms(9) by auto
  have "(\<Sum>f\<leftarrow>?fs. int (length f)) = frame_number s * frame_size s"
    using assms(3,5) len by (simp add: sum_list_replicate)
  then obtain s2 where "irdaspray_receive (s\<lparr>rx := map Some ?fs\<rparr>) = Inr (frame_number s * frame_size s, s2)" "rx s2 = []"
    using receive_loop [of "s\<lparr>rx := map Some ?fs\<rparr>" ?fs "[]" 0] ok(2) assms(10) by (auto simp: irdaspray_receive_def bnd_def gets_def)
  with 1 2 show ?thesis by auto
qed

definition demo_spray :: spray_env where
  "demo_spray = \<lparr>e_socket = (\<lambda>n. 3), e_hint = True, e_enum = (\<lambda>n. Some [\<lparr>sd_info = ''PDA'', sd_daddr = 0x1234\<rparr>]), e_wait = Found_Device,
     e_connect = (\<lambda>n. if n = 0 then Not_Unique else Connected), e_query = (\<lambda>a. Has_Service), e_scanf = Some 1, e_stale = (\<lambda>i. 0),
     e_name = Some (1, 2), e_fork = (\<lambda>n. 0), e_send = (\<lambda>old f. int (length f)), e_bind = True, e_listen = True\<rparr>"

theorem echo_totals_agree_witness:
  "\<exists>s1 t1 s2. irdaspray_transmit demo_spray spray_start = Inr (102400, s1) \<and>
     serve demo_spray (map Some (tx s1)) spray_start = Inr ((), t1) \<and> tx t1 = tx s1 \<and>
     irdaspray_receive (spray_start\<lparr>rx := map Some (tx t1)\<rparr>) = Inr (102400, s2)"
proof -
  have "lossless demo_spray" by (simp add: lossless_def demo_spray_def)
  then show ?thesis using echo_totals_agree [of demo_spray demo_spray spray_start spray_start] by (auto simp: spray_start_def)
qed

section \<open>Errors\<close>

text \<open>A frame that cannot be sent is counted as minus one byte: when every call fails, the client reports as many bytes
  below zero as it has tried to send frames.\<close>

theorem failed_sends_counted:
  assumes "\<forall>old f. e_send E old f = -1" "0 \<le> frame_size s" "frame_size s \<le> 8200" "0 \<le> frame_number s" "frame_number s < 2 ^ 31"
  shows "irdaspray_transmit E s = Inr (- frame_number s, s)"
proof -
  have "sum_loop (send_buf E (frame_size s)) n tot s = Inr (tot - int n, s)" if "- (2 ^ 31) \<le> tot - int n" "tot \<le> 0" for n tot
    using that
  proof (induction n arbitrary: tot)
    case (Suc n)
    then have "in_int (tot - 1)" by (simp add: in_int_def)
    then show ?case using assms(1-3) Suc
      by (simp add: send_buf_def bnd_def seq_def guard_def skip_def ret_def gets_def Let_def)
  qed (simp add: ret_def)
  from this [of 0 "nat (frame_number s)"] show ?thesis using assms(4,5) by (simp add: irdaspray_transmit_def bnd_def gets_def)
qed

theorem failed_sends_counted_witness:
  "irdaspray_transmit (demo_spray\<lparr>e_send := (\<lambda>old f. -1)\<rparr>) spray_start = Inr (-100, spray_start)"
  using failed_sends_counted [of "demo_spray\<lparr>e_send := (\<lambda>old f. -1)\<rparr>" spray_start] by (simp add: spray_start_def)

text \<open>The number of a device the user chooses is not checked. One of the list gives the address of that device; one behind the
  list is taken as well, and the address is what the array happens to hold there; 0 and the numbers above 11 read outside
  the array.\<close>

theorem device_number_not_checked:
  assumes "e_hint E" "e_enum E (enums s) = Some ds" "ds \<noteq> []" "length ds \<le> 11" "e_scanf E = Some x"
  shows "if x < 1 \<or> 11 < x then irdaspray_discover_devices E s = Inl (Local_Bounds ''list->dev'' (nat (x - 1)))
    else \<exists>s'. irdaspray_discover_devices E s = Inr (if x \<le> int (length ds) then sd_daddr (ds ! nat (x - 1)) else e_stale E (x - 1), s')"
proof -
  have l: "\<exists>s'. list_devices E i ds s = Inr ((), s')" for i ds s
    by (induction E i ds arbitrary: s rule: list_devices.induct)
      (auto simp: skip_def ret_def announce_def seq_def bnd_def modify_def)
  then obtain s' where "list_devices E 0 ds (s\<lparr>hints := Some [0x04 OR 0x02, 0], enums := enums s + 1,
      said := said s @ [Discovered (int (length ds))]\<rparr>) = Inr ((), s')" by blast
  then show ?thesis using assms
    by (auto simp: irdaspray_discover_devices_def irdaspray_sethintmask_def enum_devices_def announce_def seq_def bnd_def modify_def gets_def
        guard_def fault_def ret_def skip_def Let_def)
qed

theorem device_number_not_checked_witness:
  "(\<exists>s'. irdaspray_discover_devices demo_spray spray_start = Inr (0x1234, s')) \<and>
   (\<exists>s'. irdaspray_discover_devices (demo_spray\<lparr>e_scanf := Some 5\<rparr>) spray_start = Inr (0, s')) \<and>
   irdaspray_discover_devices (demo_spray\<lparr>e_scanf := Some 15\<rparr>) spray_start = Inl (Local_Bounds ''list->dev'' 14)"
  using device_number_not_checked [of demo_spray spray_start "[\<lparr>sd_info = ''PDA'', sd_daddr = 0x1234\<rparr>]" 1]
    device_number_not_checked [of "demo_spray\<lparr>e_scanf := Some 5\<rparr>" spray_start "[\<lparr>sd_info = ''PDA'', sd_daddr = 0x1234\<rparr>]" 5]
    device_number_not_checked [of "demo_spray\<lparr>e_scanf := Some 15\<rparr>" spray_start "[\<lparr>sd_info = ''PDA'', sd_daddr = 0x1234\<rparr>]" 15]
  by (simp add: demo_spray_def spray_start_def)

end
