(* ===== verification/Ircard.thy ===== *)
theory Ircard
  imports Findchip_Bus
begin

text \<open>
  The driver for the IRCARD with the IBM 31T1502 controller, \<^verbatim>\<open>irda-utils/pcmcia/ircard_cs.c\<close> and \<^verbatim>\<open>ircard_cs.h\<close>: register banks,
  the queue of frames in the memory shared with the card, transmission, reception, the interrupt handler, changes of
  speed. The card (its ports and its memory) and the functions of the kernel are parameters; the calls the driver makes of them are
  recorded. Locks, delays between writes to the transceiver and messages are left out.
\<close>

section \<open>Model\<close>

subsection \<open>State\<close>

record frame_cb =
  fr_start :: int
  fr_len :: int

record shm_queue =
  queue :: "frame_cb list"
  q_ptr :: int
  q_len :: int
  q_free :: int
  q_tail :: int

datatype xmit_fn = Irport_Xmit | Ircard_Xmit

datatype direction = Io_None | Io_Xmit | Io_Recv

text \<open>Calls into the serial driver, and the other calls of the kernel.\<close>

datatype irport_call = Irport_Start int | Irport_Stop int | Irport_Change_Speed int | Irport_Interrupt | Irport_Wait

datatype kcall = Irport irport_call | Udelay int | Netif_Rx "byte list" | Mark_Bh | Sleep_60ms

record card_stats =
  tx_errors :: int
  tx_fifo_errors :: int
  tx_packets :: int
  tx_bytes :: int
  rx_errors :: int
  rx_frame_errors :: int
  rx_fifo_errors :: int
  rx_packets :: int

record 'h card =
  c_hw :: 'h
  tx_q :: shm_queue
  rx_data :: int
  stamp :: "int \<times> int"
  iobase :: int
  iobase2 :: int
  membase :: int
  baudrate :: int
  io_direction :: direction
  idev_magic :: bool
  tbusy :: bool
  in_interrupt :: bool
  net_start :: bool
  media_busy :: bool
  hard_start_xmit :: xmit_fn
  tx_buff_len :: int
  outside_frame :: bool
  stats :: card_stats
  use_count :: int
  asked :: nat
  klog :: "kcall list"

text \<open>
  Ports, shared memory, what the serial driver does to the ports, and the answers of the kernel: the time, whether a buffer can be
  allocated, whether the queue of the network device is empty.
\<close>

record 'h card_env =
  ce_bus :: "'h bus"
  ce_readb :: "int \<Rightarrow> 'h \<Rightarrow> byte"
  ce_writeb :: "int \<Rightarrow> byte \<Rightarrow> 'h \<Rightarrow> 'h"
  ce_irport :: "irport_call \<Rightarrow> 'h \<Rightarrow> 'h"
  ce_time :: "nat \<Rightarrow> int \<times> int"
  ce_alloc :: "nat \<Rightarrow> bool"
  ce_txqueue_empty :: "nat \<Rightarrow> bool"

record sk_buff =
  sk_data :: "byte list"
  sk_mtt :: int

type_synonym ('h, 'a) cprog = "('h card, 'a) prog"

subsection \<open>Ports and banks\<close>

definition c_inb :: "'h card_env \<Rightarrow> int \<Rightarrow> ('h, byte) cprog" where
  "c_inb E p = (\<lambda>s. case bus_read (ce_bus E) p (c_hw s) of (v, h) \<Rightarrow> Inr (v, s\<lparr>c_hw := h\<rparr>))"

definition c_outb :: "'h card_env \<Rightarrow> byte \<Rightarrow> int \<Rightarrow> ('h, unit) cprog" where
  "c_outb E v p = modify (\<lambda>s. s\<lparr>c_hw := bus_write (ce_bus E) p v (c_hw s)\<rparr>)"

definition kernel :: "kcall \<Rightarrow> ('h, unit) cprog" where
  "kernel k = modify (\<lambda>s. s\<lparr>klog := klog s @ [k]\<rparr>)"

definition irport :: "'h card_env \<Rightarrow> irport_call \<Rightarrow> ('h, unit) cprog" where
  "irport E k = modify (\<lambda>s. s\<lparr>c_hw := ce_irport E k (c_hw s), klog := klog s @ [Irport k]\<rparr>)"

definition ask :: "(nat \<Rightarrow> 'a) \<Rightarrow> ('h, 'a) cprog" where
  "ask f = bnd (gets asked) (\<lambda>n. seq (modify (\<lambda>s. s\<lparr>asked := n + 1\<rparr>)) (ret (f n)))"

definition ircard_set_mcr :: "'h card_env \<Rightarrow> int \<Rightarrow> byte \<Rightarrow> byte \<Rightarrow> ('h, unit) cprog" where
  "ircard_set_mcr E base itr bank = c_outb E (itr OR bank) (base + 0)"

text \<open>\<^verbatim>\<open>__switch_bank\<close>, which clears the enable bits, and \<^verbatim>\<open>switch_bank\<close>, which keeps them and is also \<^verbatim>\<open>restore_bank\<close>.\<close>

definition raw_switch_bank :: "'h card_env \<Rightarrow> int \<Rightarrow> byte \<Rightarrow> ('h, unit) cprog" where
  "raw_switch_bank E base bank = c_outb E bank (base + 0)"

definition switch_bank :: "'h card_env \<Rightarrow> int \<Rightarrow> byte \<Rightarrow> ('h, byte) cprog" where
  "switch_bank E base bank =
     bnd (c_inb E (base + 0)) (\<lambda>mcr.
     seq (ircard_set_mcr E base (mcr AND NOT 0x1f) bank)
     (ret (mcr AND 0x1f)))"

subsection \<open>Transmission\<close>

definition on_q :: "(shm_queue \<Rightarrow> shm_queue) \<Rightarrow> ('h, unit) cprog" where
  "on_q f = modify (\<lambda>s. s\<lparr>tx_q := f (tx_q s)\<rparr>)"

definition on_stats :: "(card_stats \<Rightarrow> card_stats) \<Rightarrow> ('h, unit) cprog" where
  "on_stats f = modify (\<lambda>s. s\<lparr>stats := f (stats s)\<rparr>)"

text \<open>The entry of the queue at an index, which has room for eight.\<close>

definition q_slot :: "int \<Rightarrow> ('h, frame_cb) cprog" where
  "q_slot i =
     seq (guard (0 \<le> i \<and> i < 8) (Local_Bounds ''queue'' (nat i)))
     (gets (\<lambda>s. queue (tx_q s) ! nat i))"

definition ircard_dma_write :: "'h card_env \<Rightarrow> int \<Rightarrow> ('h, unit) cprog" where
  "ircard_dma_write E base =
     bnd (gets (\<lambda>s. q_ptr (tx_q s))) (\<lambda>ptr.
     seq (switch_bank E base 0)
     (seq (c_outb E 0 (base + 0x01))
     (seq (modify (\<lambda>s. s\<lparr>io_direction := Io_Xmit\<rparr>))
     (seq (ircard_set_mcr E base (0x80 OR 0x40) 0)
     (seq (c_outb E (0x40 OR 0x01) (base + 0x04))
     (seq (switch_bank E base 1)
     (bnd (q_slot ptr) (\<lambda>fr.
     seq (c_outb E (word_of_int (fr_len fr AND 0xff)) (base + 0x06))
     (seq (c_outb E (word_of_int (drop_bit 8 (fr_len fr) AND 0x1f)) (base + 0x07))
     (seq (switch_bank E base 3)
     (seq (c_outb E 0 (base + 0x01))
     (bnd (gets (\<lambda>s. fr_start fr - membase s)) (\<lambda>addr.
     seq (c_outb E (word_of_int (addr AND 0xff)) (base + 0x02))
     (seq (c_outb E (0x40 OR word_of_int (drop_bit 8 addr AND 0x3f)) (base + 0x03))
     (seq (switch_bank E base 0)
     (seq (c_outb E 0xc0 (base + 0x01))
     (seq (switch_bank E base 0)
     (c_outb E (0x80 OR 0x20) (base + 0x03)))))))))))))))))))"

fun write_bytes :: "'h card_env \<Rightarrow> int \<Rightarrow> byte list \<Rightarrow> 'h \<Rightarrow> 'h" where
  "write_bytes E a [] h = h"
| "write_bytes E a (b # bs) h = write_bytes E (a + 1) bs (ce_writeb E a b h)"

text \<open>\<^verbatim>\<open>copy_to_pc\<close>: the window of the card has 0x8000 bytes.\<close>

definition copy_to_pc :: "'h card_env \<Rightarrow> int \<Rightarrow> byte list \<Rightarrow> ('h, unit) cprog" where
  "copy_to_pc E a bs =
     bnd (gets membase) (\<lambda>m.
     seq (guard (m \<le> a \<and> a + int (length bs) \<le> m + 0x8000) (Frame_Bounds (nat (a + int (length bs) - m))))
     (modify (\<lambda>s. s\<lparr>c_hw := write_bytes E a bs (c_hw s)\<rparr>)))"

text \<open>The delay before a frame, in microseconds.\<close>

definition turn_around :: "'h card_env \<Rightarrow> int \<Rightarrow> ('h, unit) cprog" where
  "turn_around E mtt =
     whenc (mtt \<noteq> 0)
       (bnd (ask (ce_time E)) (\<lambda>now.
       bnd (gets stamp) (\<lambda>st.
       let d = snd now - snd st;
           diff = (if d < 0 then d + 1000000 else d)
       in whenc (mtt > diff) (kernel (Udelay (mtt - diff))))))"

definition ircard_hard_xmit :: "'h card_env \<Rightarrow> sk_buff \<Rightarrow> ('h, int) cprog" where
  "ircard_hard_xmit E skb =
     bnd (gets tbusy) (\<lambda>busy.
     if busy then ret (-16)
     else
       seq (modify (\<lambda>s. s\<lparr>tbusy := True\<rparr>))
       (bnd (gets iobase) (\<lambda>base.
       seq (switch_bank E base 0)
       (bnd (gets (\<lambda>s. (q_free (tx_q s), q_tail (tx_q s)))) (\<lambda>(free, tail).
       seq (q_slot free)
       (seq (on_q (\<lambda>q. q\<lparr>queue := (queue q)[nat free := \<lparr>fr_start = tail, fr_len = int (length (sk_data skb))\<rparr>],
          q_tail := tail + int (length (sk_data skb))\<rparr>))
       (seq (copy_to_pc E tail (sk_data skb))
       (seq (on_q (\<lambda>q. q\<lparr>q_len := q_len q + 1, q_free := q_free q + 1\<rparr>))
       (bnd (gets (\<lambda>s. q_len (tx_q s))) (\<lambda>n.
       seq (whenc (n = 1) (seq (turn_around E (sk_mtt skb)) (ircard_dma_write E base)))
       (seq (modify (\<lambda>s. s\<lparr>tbusy := False\<rparr>))
       (ret 0))))))))))))"

subsection \<open>Reception\<close>

definition reset_queue :: "int \<Rightarrow> shm_queue \<Rightarrow> shm_queue" where
  "reset_queue m q = q\<lparr>q_len := 0, q_ptr := 0, q_free := 0, q_tail := 0x4000 + m\<rparr>"

definition ircard_receive :: "'h card_env \<Rightarrow> int \<Rightarrow> ('h, int) cprog" where
  "ircard_receive E base =
     bnd (switch_bank E base 0) (\<lambda>bank.
     seq (ircard_set_mcr E base 0x80 bank)
     (seq (modify (\<lambda>s. s\<lparr>tx_q := reset_queue (membase s) (tx_q s)\<rparr>))
     (seq (c_outb E 0x30 (base + 0x07))
     (seq (c_outb E 0x40 (base + 0x07))
     (seq (ircard_set_mcr E base (0x20 OR 0x80) bank)
     (seq (switch_bank E base 0)
     (seq (c_outb E (0x40 OR 0x01) (base + 0x06))
     (seq (c_outb E 0xc0 (base + 0x01))
     (seq (modify (\<lambda>s. s\<lparr>io_direction := Io_Recv\<rparr>))
     (ret 0))))))))))"

text \<open>\<^verbatim>\<open>copy_from_pc\<close> into a new buffer.\<close>

definition copy_from_pc :: "'h card_env \<Rightarrow> int \<Rightarrow> int \<Rightarrow> ('h, byte list) cprog" where
  "copy_from_pc E a n =
     bnd (gets membase) (\<lambda>m.
     seq (guard (m \<le> a \<and> a + n \<le> m + 0x8000) (Frame_Bounds (nat (a - m))))
     (gets (\<lambda>s. map (\<lambda>i. ce_readb E (a + int i) (c_hw s)) [0..<nat n])))"

text \<open>A frame that ends at \<open>ptr\<close> and is \<open>len\<close> bytes long with its checksum.\<close>

definition take_frame :: "'h card_env \<Rightarrow> int \<Rightarrow> int \<Rightarrow> ('h, bool) cprog" where
  "take_frame E ptr len =
     bnd (gets (\<lambda>s. membase s + ptr - len - 1)) (\<lambda>start.
     bnd (ask (ce_time E)) (\<lambda>t.
     seq (modify (\<lambda>s. s\<lparr>stamp := t, rx_data := ptr + 1\<rparr>))
     (let n = (if len - 4 > 2050 then 2050 else len - 4)
      in bnd (ask (ce_alloc E)) (\<lambda>ok.
         if \<not> ok then ret False
         else
           bnd (copy_from_pc E start n) (\<lambda>bs.
           seq (on_stats (\<lambda>st. st\<lparr>rx_packets := rx_packets st + 1\<rparr>))
           (seq (kernel (Netif_Rx bs))
           (ret True)))))))"

text \<open>What the two bytes behind a frame say of it.\<close>

definition judge_frame :: "'h card_env \<Rightarrow> int \<Rightarrow> int \<Rightarrow> byte \<Rightarrow> byte \<Rightarrow> ('h, bool) cprog" where
  "judge_frame E base ptr stat l =
     (let len = push_bit 8 (uint (stat AND 0x1f)) OR uint l
      in if stat AND 0x80 \<noteq> 0 \<or> stat AND 0x40 \<noteq> 0
         then seq (on_stats (\<lambda>st. st\<lparr>rx_errors := rx_errors st + 1, rx_frame_errors := rx_frame_errors st + 1\<rparr>)) (ret False)
         else if stat AND 0x20 \<noteq> 0
         then
           seq (switch_bank E base 0)
           (seq (c_outb E 0x30 (base + 0x07))
           (seq (on_stats (\<lambda>st. st\<lparr>rx_errors := rx_errors st + 1, rx_fifo_errors := rx_fifo_errors st + 1\<rparr>)) (ret False)))
         else if \<not> len > 5 then ret False
         else take_frame E ptr len)"

definition ircard_receive_complete :: "'h card_env \<Rightarrow> int \<Rightarrow> ('h, bool) cprog" where
  "ircard_receive_complete E base =
     seq (switch_bank E base 1)
     (bnd (c_inb E (base + 0x04)) (\<lambda>lo.
     bnd (c_inb E (base + 0x05)) (\<lambda>hi.
     let ptr = uint lo OR push_bit 8 (uint (hi AND 0x3f))
     in if ptr = 0 then ret False
        else
          bnd (gets (\<lambda>s. (ce_readb E (membase s + ptr) (c_hw s), ce_readb E (membase s + ptr - 1) (c_hw s)))) (\<lambda>(stat, l).
          judge_frame E base ptr stat l))))"

subsection \<open>End of a transmission\<close>

text \<open>At most 1001 more looks at the status register.\<close>

fun spin_eom :: "'h card_env \<Rightarrow> int \<Rightarrow> nat \<Rightarrow> byte \<Rightarrow> ('h, unit) cprog" where
  "spin_eom E base k stat =
     (if stat AND 0x04 \<noteq> 0 then skip
      else case k of 0 \<Rightarrow> skip | Suc k' \<Rightarrow> bnd (c_inb E (base + 0x05)) (spin_eom E base k'))"

definition tx_status :: "'h card_env \<Rightarrow> int \<Rightarrow> ('h, unit) cprog" where
  "tx_status E base =
     bnd (c_inb E (base + 0x05)) (\<lambda>stat.
     if stat AND 0x08 \<noteq> 0
     then on_stats (\<lambda>st. st\<lparr>tx_errors := tx_errors st + 1, tx_fifo_errors := tx_fifo_errors st + 1\<rparr>)
     else
       seq (spin_eom E base 1001 stat)
       (bnd (gets tx_buff_len) (\<lambda>n.
       on_stats (\<lambda>st. st\<lparr>tx_packets := tx_packets st + 1, tx_bytes := tx_bytes st + n\<rparr>))))"

definition next_frame :: "'h card_env \<Rightarrow> int \<Rightarrow> ('h, unit) cprog" where
  "next_frame E base =
     seq (on_q (\<lambda>q. q\<lparr>q_ptr := q_ptr q + 1, q_len := q_len q - 1\<rparr>))
     (bnd (gets (\<lambda>s. q_len (tx_q s))) (\<lambda>n.
     if n \<noteq> 0 then ircard_dma_write E base
     else
       bnd (ask (ce_txqueue_empty E)) (\<lambda>empty.
       whenc empty (seq (c_outb E 0 (base + 0x03)) (seq (ircard_receive E base) skip)))))"

definition ircard_xmit_complete :: "'h card_env \<Rightarrow> ('h, unit) cprog" where
  "ircard_xmit_complete E =
     bnd (gets iobase) (\<lambda>base.
     bnd (switch_bank E base 0) (\<lambda>bank.
     seq (tx_status E base)
     (seq (ircard_set_mcr E base 0x80 bank)
     (seq (c_outb E 0 (base + 0x01))
     (seq (c_outb E 0x50 (base + 0x07))
     (seq (modify (\<lambda>s. s\<lparr>tbusy := False, media_busy := False\<rparr>))
     (seq (next_frame E base)
     (kernel Mark_Bh))))))))"

subsection \<open>Interrupts\<close>

definition dispatch :: "'h card_env \<Rightarrow> int \<Rightarrow> byte \<Rightarrow> ('h, unit) cprog" where
  "dispatch E base msr =
     (if msr = 0x0e then ircard_xmit_complete E
      else if msr = 0x0a \<or> msr = 0x08 then seq (ircard_receive_complete E base) skip
      else skip)"

text \<open>The loop of the handler; \<open>k\<close> more looks at the register of the interrupt status.\<close>

fun interrupt_loop :: "'h card_env \<Rightarrow> int \<Rightarrow> nat \<Rightarrow> byte \<Rightarrow> ('h, unit) cprog" where
  "interrupt_loop E base k msr =
     (if msr = 0 then skip
      else
        seq (dispatch E base msr)
        (case k of 0 \<Rightarrow> skip
         | Suc k' \<Rightarrow> bnd (c_inb E (base + 0x01)) (\<lambda>v. interrupt_loop E base k' (v AND 0x0e))))"

definition ircard_interrupt :: "'h card_env \<Rightarrow> ('h, unit) cprog" where
  "ircard_interrupt E =
     bnd (gets baudrate) (\<lambda>br.
     if br \<le> 115200 then irport E Irport_Interrupt
     else
       seq (modify (\<lambda>s. s\<lparr>in_interrupt := True\<rparr>))
       (bnd (gets iobase) (\<lambda>base.
       bnd (switch_bank E base 0) (\<lambda>bank.
       bnd (c_inb E (base + 0x01)) (\<lambda>v.
       seq (interrupt_loop E base 11 (v AND 0x0e))
       (seq (switch_bank E base bank)
       (modify (\<lambda>s. s\<lparr>in_interrupt := False\<rparr>))))))))"

subsection \<open>Speed\<close>

definition ircard_sir_to_fir :: "'h card_env \<Rightarrow> int \<Rightarrow> ('h, unit) cprog" where
  "ircard_sir_to_fir E base =
     seq (raw_switch_bank E base 2)
     (seq (c_outb E 0x10 (base + 0x02))
     (seq (c_outb E (0x10 OR 0x02) (base + 0x02))
     (seq (c_outb E 0x02 (base + 0x02))
     (c_outb E 0 (base + 0x02)))))"

definition ircard_fir_to_sir :: "'h card_env \<Rightarrow> int \<Rightarrow> ('h, unit) cprog" where
  "ircard_fir_to_sir E base =
     seq (raw_switch_bank E base 2)
     (seq (c_outb E 0x10 (base + 0x02))
     (c_outb E 0 (base + 0x02)))"

definition set_mode :: "'h card_env \<Rightarrow> int \<Rightarrow> int \<Rightarrow> int \<Rightarrow> ('h, unit) cprog" where
  "set_mode E base base2 speed =
     (if speed = 576000 then seq (irport E (Irport_Stop base2)) (c_outb E (0x10 OR 0x02) (base + 0x01))
      else if speed = 1152000 then seq (irport E (Irport_Stop base2)) (c_outb E (0x00 OR 0x02) (base + 0x01))
      else if speed = 4000000 then seq (irport E (Irport_Stop base2)) (c_outb E 0x04 (base + 0x01))
      else
        seq (irport E (Irport_Start base2))
        (seq (irport E (Irport_Change_Speed speed))
        (c_outb E 0x00 (base + 0x01))))"

definition ircard_change_speed :: "'h card_env \<Rightarrow> int \<Rightarrow> ('h, unit) cprog" where
  "ircard_change_speed E speed =
     bnd (gets (\<lambda>s. (idev_magic s, iobase s, iobase2 s, baudrate s))) (\<lambda>(ok, base, base2, old).
     if \<not> ok then skip
     else
       seq (if old > 1152000 \<and> speed < 4000000 then ircard_fir_to_sir E base
            else if old < 4000000 \<and> speed > 1152000 then ircard_sir_to_fir E base
            else skip)
       (seq (modify (\<lambda>s. s\<lparr>baudrate := speed, hard_start_xmit := (if speed > 115200 then Ircard_Xmit else Irport_Xmit)\<rparr>))
       (seq (raw_switch_bank E base 0)
       (seq (c_outb E 0x07 (base + 7))
       (seq (raw_switch_bank E base 2)
       (seq (set_mode E base base2 speed)
       (seq (modify (\<lambda>s. s\<lparr>tbusy := False\<rparr>))
       (whenc (speed > 115200) (seq (ircard_receive E base) skip)))))))))"

definition ircard_probe :: "'h card_env \<Rightarrow> ('h, int) cprog" where
  "ircard_probe E =
     bnd (gets iobase) (\<lambda>base.
     seq (switch_bank E base 3)
     (seq (c_inb E (base + 0x07))
     (seq (c_outb E 0 (base + 0x01))
     (seq (switch_bank E base 0)
     (seq (c_outb E 0x40 (base + 0x04))
     (seq (switch_bank E base 3)
     (seq (c_outb E 0 (base + 0x01))
     (seq (c_outb E 0 (base + 0x02))
     (seq (c_outb E 0x40 (base + 0x03))
     (ret 0))))))))))"

subsection \<open>Opening and closing of the network device\<close>

text \<open>The variants for kernels before 2.2.11.\<close>

definition ircard_net_open :: "'h card_env \<Rightarrow> ('h, int) cprog" where
  "ircard_net_open E =
     bnd (gets (\<lambda>s. (idev_magic s, iobase2 s))) (\<lambda>(ok, base2).
     if \<not> ok then ret 0
     else
       seq (modify (\<lambda>s. s\<lparr>tbusy := False, in_interrupt := False, net_start := True\<rparr>))
       (seq (irport E (Irport_Start base2))
       (seq (modify (\<lambda>s. s\<lparr>use_count := use_count s + 1\<rparr>))
       (ret 0))))"

definition ircard_net_close :: "'h card_env \<Rightarrow> ('h, int) cprog" where
  "ircard_net_close E =
     seq (modify (\<lambda>s. s\<lparr>tbusy := True, net_start := False\<rparr>))
     (bnd (gets (\<lambda>s. (idev_magic s, iobase2 s))) (\<lambda>(ok, base2).
     if \<not> ok then ret 0
     else
       seq (irport E (Irport_Stop base2))
       (seq (modify (\<lambda>s. s\<lparr>use_count := use_count s - 1\<rparr>))
       (ret 0))))"

definition ircard_wait_until_sent :: "'h card_env \<Rightarrow> ('h, unit) cprog" where
  "ircard_wait_until_sent E = bnd (gets baudrate) (\<lambda>br. if br > 115200 then kernel Sleep_60ms else irport E Irport_Wait)"

definition ircard_is_receiving :: "('h, bool) cprog" where
  "ircard_is_receiving =
     gets (\<lambda>s. idev_magic s \<and> \<not> baudrate s > 115200 \<and> \<not> outside_frame s)"

declare spin_eom.simps [simp del] interrupt_loop.simps [simp del]

section \<open>The card\<close>

text \<open>
  The documented behaviour of the controller. The register at the base address selects one of the banks; a write to one of the
  other seven goes to the selected bank, and reading changes neither. Neither the ports nor the serial driver change
  the transmit part of the shared memory, which keeps what the driver stores there.
\<close>

record 'h chip_view =
  v_mcr :: "'h \<Rightarrow> byte"
  v_regs :: "'h \<Rightarrow> byte \<times> int \<Rightarrow> byte"

definition txmem :: "'h card_env \<Rightarrow> int \<Rightarrow> 'h \<Rightarrow> int \<Rightarrow> byte" where
  "txmem E m h = (\<lambda>a. if m + 0x4000 \<le> a \<and> a < m + 0x8000 then ce_readb E a h else 0)"

definition bank_of :: "byte \<Rightarrow> byte" where
  "bank_of v = v AND 0x1f"

definition keeps_view :: "'h card_env \<Rightarrow> int \<Rightarrow> 'h chip_view \<Rightarrow> ('h \<Rightarrow> 'h) \<Rightarrow> bool" where
  "keeps_view E m V f \<longleftrightarrow> (\<forall>h. v_mcr V (f h) = v_mcr V h \<and> v_regs V (f h) = v_regs V h \<and> txmem E m (f h) = txmem E m h)"

definition chip :: "'h card_env \<Rightarrow> int \<Rightarrow> int \<Rightarrow> 'h chip_view \<Rightarrow> bool" where
  "chip E base m V \<longleftrightarrow>
     (\<forall>v h. v_mcr V (bus_write (ce_bus E) base v h) = v \<and> v_regs V (bus_write (ce_bus E) base v h) = v_regs V h \<and>
        txmem E m (bus_write (ce_bus E) base v h) = txmem E m h) \<and>
     (\<forall>r v h. 1 \<le> r \<and> r \<le> 7 \<longrightarrow> v_mcr V (bus_write (ce_bus E) (base + r) v h) = v_mcr V h \<and>
        v_regs V (bus_write (ce_bus E) (base + r) v h) = (v_regs V h)((bank_of (v_mcr V h), r) := v) \<and>
        txmem E m (bus_write (ce_bus E) (base + r) v h) = txmem E m h) \<and>
     (\<forall>h. fst (bus_read (ce_bus E) base h) = v_mcr V h) \<and>
     (\<forall>r. 0 \<le> r \<and> r \<le> 7 \<longrightarrow> keeps_view E m V (\<lambda>h. snd (bus_read (ce_bus E) (base + r) h))) \<and>
     (\<forall>k. keeps_view E m V (ce_irport E k)) \<and>
     (\<forall>a v h b. v_mcr V (ce_writeb E a v h) = v_mcr V h \<and> v_regs V (ce_writeb E a v h) = v_regs V h \<and>
        ce_readb E b (ce_writeb E a v h) = (if b = a then v else ce_readb E b h))"

lemma chipD:
  assumes "chip E base m V"
  shows "v_mcr V (bus_write (ce_bus E) base v h) = v" "v_regs V (bus_write (ce_bus E) base v h) = v_regs V h"
    "txmem E m (bus_write (ce_bus E) base v h) = txmem E m h" "fst (bus_read (ce_bus E) base h) = v_mcr V h"
    "v_mcr V (snd (bus_read (ce_bus E) base h)) = v_mcr V h" "v_regs V (snd (bus_read (ce_bus E) base h)) = v_regs V h"
    "txmem E m (snd (bus_read (ce_bus E) base h)) = txmem E m h"
    "1 \<le> r \<and> r \<le> 7 \<Longrightarrow> v_mcr V (bus_write (ce_bus E) (base + r) v h) = v_mcr V h"
    "1 \<le> r \<and> r \<le> 7 \<Longrightarrow> v_regs V (bus_write (ce_bus E) (base + r) v h) = (v_regs V h)((bank_of (v_mcr V h), r) := v)"
    "1 \<le> r \<and> r \<le> 7 \<Longrightarrow> txmem E m (bus_write (ce_bus E) (base + r) v h) = txmem E m h"
    "1 \<le> r \<and> r \<le> 7 \<Longrightarrow> v_mcr V (snd (bus_read (ce_bus E) (base + r) h)) = v_mcr V h"
    "1 \<le> r \<and> r \<le> 7 \<Longrightarrow> v_regs V (snd (bus_read (ce_bus E) (base + r) h)) = v_regs V h"
    "1 \<le> r \<and> r \<le> 7 \<Longrightarrow> txmem E m (snd (bus_read (ce_bus E) (base + r) h)) = txmem E m h"
    "v_mcr V (ce_irport E k h) = v_mcr V h" "v_regs V (ce_irport E k h) = v_regs V h" "txmem E m (ce_irport E k h) = txmem E m h"
proof -
  have "0 \<le> r \<and> r \<le> 7 \<Longrightarrow> keeps_view E m V (\<lambda>h. snd (bus_read (ce_bus E) (base + r) h))" for r
    using assms by (simp add: chip_def)
  from this [of 0] show "v_mcr V (snd (bus_read (ce_bus E) base h)) = v_mcr V h" "v_regs V (snd (bus_read (ce_bus E) base h)) = v_regs V h"
    "txmem E m (snd (bus_read (ce_bus E) base h)) = txmem E m h"
    by (simp_all add: keeps_view_def)
qed (use assms in \<open>simp_all add: chip_def keeps_view_def\<close>)

lemma wp_inb [wp_simps]:
  "wp (c_inb E p) Q s = Q (fst (bus_read (ce_bus E) p (c_hw s))) (s\<lparr>c_hw := snd (bus_read (ce_bus E) p (c_hw s))\<rparr>)"
  by (simp add: wp_def c_inb_def split: prod.split)

lemma wp_hw [wp_simps]:
  "wp (c_outb E v p) Q s = Q () (s\<lparr>c_hw := bus_write (ce_bus E) p v (c_hw s)\<rparr>)"
  "wp (irport E k) Q s = Q () (s\<lparr>c_hw := ce_irport E k (c_hw s), klog := klog s @ [Irport k]\<rparr>)"
  by (simp_all add: c_outb_def irport_def wp_modify)

lemma wp_kernel [wp_simps]:
  "wp (kernel k) Q s = Q () (s\<lparr>klog := klog s @ [k]\<rparr>)"
  "wp (on_q g) Q s = Q () (s\<lparr>tx_q := g (tx_q s)\<rparr>)"
  "wp (on_stats t) Q s = Q () (s\<lparr>stats := t (stats s)\<rparr>)"
  by (simp_all add: kernel_def on_q_def on_stats_def wp_simps)

lemma wp_ask [wp_simps]: "wp (ask f) Q s = Q (f (asked s)) (s\<lparr>asked := asked s + 1\<rparr>)"
  by (simp add: ask_def wp_simps)

lemma wp_q_slot [wp_simps]: "wp (q_slot i) Q s = ((0 \<le> i \<and> i < 8) \<and> Q (queue (tx_q s) ! nat i) s)"
  by (simp add: q_slot_def wp_simps)

definition enables :: "byte \<Rightarrow> byte" where
  "enables v = v AND NOT 0x1f"

lemma bank_numerals [simp]:
  "bank_of 0 = 0" "bank_of 1 = 1" "bank_of 2 = 2" "bank_of 3 = 3" "bank_of 0xc0 = 0" "bank_of 0x80 = 0" "bank_of 0xa0 = 0"
  "bank_of 0xc1 = 1" "bank_of 0xc3 = 3" "enables 0xc1 = 0xc0" "enables 0xc3 = 0xc0"
  "enables 0 = 0" "enables 1 = 0" "enables 2 = 0" "enables 3 = 0" "enables 0xc0 = 0xc0" "enables 0x80 = 0x80" "enables 0xa0 = 0xa0"
  by code_simp+

lemma bank_or [simp]: "bank_of (a OR b) = bank_of a OR bank_of b" "enables (a OR b) = enables a OR enables b"
  by (simp_all add: bank_of_def enables_def bit.conj_disj_distrib2)

lemma bank_enables [simp]: "bank_of (enables v) = 0" "enables (enables v) = enables v" "enables (bank_of v) = 0"
  "bank_of (bank_of v) = bank_of v"
  by (rule bit_word_eqI, simp add: bank_of_def enables_def bit_simps, blast?)+

lemma wp_switch_bank [wp_simps]:
  "wp (switch_bank E base b) Q s =
    (let v = fst (bus_read (ce_bus E) base (c_hw s))
     in Q (bank_of v) (s\<lparr>c_hw := bus_write (ce_bus E) base (enables v OR b) (snd (bus_read (ce_bus E) base (c_hw s)))\<rparr>))"
  by (simp add: switch_bank_def ircard_set_mcr_def wp_simps bank_of_def enables_def Let_def)

lemma wp_mcr [wp_simps]:
  "wp (ircard_set_mcr E base itr b) Q s = Q () (s\<lparr>c_hw := bus_write (ce_bus E) base (itr OR b) (c_hw s)\<rparr>)"
  "wp (raw_switch_bank E base b) Q s = Q () (s\<lparr>c_hw := bus_write (ce_bus E) base b (c_hw s)\<rparr>)"
  by (simp_all add: ircard_set_mcr_def raw_switch_bank_def wp_simps)

text \<open>The card has been told to send a frame: count, address and request as they are in its registers.\<close>

definition programmed :: "int \<Rightarrow> (byte \<times> int \<Rightarrow> byte) \<Rightarrow> frame_cb \<Rightarrow> bool" where
  "programmed m R fr \<longleftrightarrow>
     R (1, 6) = word_of_int (fr_len fr AND 0xff) \<and> R (1, 7) = word_of_int (drop_bit 8 (fr_len fr) AND 0x1f) \<and>
     R (3, 2) = word_of_int ((fr_start fr - m) AND 0xff) \<and>
     R (3, 3) = 0x40 OR word_of_int (drop_bit 8 (fr_start fr - m) AND 0x3f) \<and> R (0, 3) = 0xa0"

lemma dma_write_wp:
  assumes "chip E base m V" "membase s = m" "0 \<le> q_ptr (tx_q s)" "q_ptr (tx_q s) < 8"
    and "\<And>h. v_mcr V h = 0xc0 \<Longrightarrow> programmed m (v_regs V h) (queue (tx_q s) ! nat (q_ptr (tx_q s))) \<Longrightarrow>
      txmem E m h = txmem E m (c_hw s) \<Longrightarrow> Q () (s\<lparr>io_direction := Io_Xmit, c_hw := h\<rparr>)"
  shows "wp (ircard_dma_write E base) Q s"
proof -
  note [simp] = chipD [OF assms(1)]
  show ?thesis
    using assms(2-4) by (simp add: ircard_dma_write_def wp_simps Let_def) (rule assms(5); simp add: programmed_def)
qed

section \<open>The transmit queue is a queue\<close>

text \<open>
  What the layers above rely on: a queue of limited room, into which frames are put and from whose front they are sent.
  \<open>fits s xs\<close>: the frames \<open>xs\<close> can still be put in. The client's programs are sequences of puts and gets.
\<close>

datatype 'a fifo_op = Put 'a | Get

fun fifo_run :: "('a \<Rightarrow> ('s, int) prog) \<Rightarrow> ('s, unit) prog \<Rightarrow> ('s \<Rightarrow> 'b) \<Rightarrow> 'a fifo_op list \<Rightarrow> ('s, 'b list) prog" where
  "fifo_run enq deq front [] = ret []"
| "fifo_run enq deq front (Put x # os) = seq (enq x) (fifo_run enq deq front os)"
| "fifo_run enq deq front (Get # os) =
     bnd (gets front) (\<lambda>y. seq deq (bnd (fifo_run enq deq front os) (\<lambda>ys. ret (y # ys))))"

text \<open>Specification: what comes out, and what is left; \<open>None\<close> where the client takes from the empty queue.\<close>

fun fifo_spec :: "'a fifo_op list \<Rightarrow> 'a list \<Rightarrow> ('a list \<times> 'a list) option" where
  "fifo_spec [] q = Some ([], q)"
| "fifo_spec (Put x # os) q = fifo_spec os (q @ [x])"
| "fifo_spec (Get # os) [] = None"
| "fifo_spec (Get # os) (x # q) = map_option (\<lambda>(ys, r). (x # ys, r)) (fifo_spec os q)"

fun puts :: "'a fifo_op list \<Rightarrow> 'a list" where
  "puts [] = []"
| "puts (Put x # os) = x # puts os"
| "puts (Get # os) = puts os"

locale bounded_fifo =
  fixes rel :: "'s \<Rightarrow> 'a list \<Rightarrow> bool" and enq :: "'a \<Rightarrow> ('s, int) prog" and deq :: "('s, unit) prog"
    and front :: "'s \<Rightarrow> 'b" and body :: "'a \<Rightarrow> 'b" and fits :: "'s \<Rightarrow> 'a list \<Rightarrow> bool"
  assumes enq_ok: "rel s q \<Longrightarrow> fits s (x # xs) \<Longrightarrow> \<exists>s'. enq x s = Inr (0, s') \<and> rel s' (q @ [x]) \<and> fits s' xs"
    and deq_ok: "rel s (x # q) \<Longrightarrow> fits s xs \<Longrightarrow> \<exists>s'. deq s = Inr ((), s') \<and> rel s' q \<and> fits s' xs"
    and front_ok: "rel s (x # q) \<Longrightarrow> front s = body x"
begin

lemma run_refines:
  assumes "rel s q" "fits s (puts os)" "fifo_spec os q = Some (ys, r)"
  shows "\<exists>s'. fifo_run enq deq front os s = Inr (map body ys, s') \<and> rel s' r \<and> fits s' []"
  using assms
proof (induction os q arbitrary: s ys r rule: fifo_spec.induct)
  case (1 q)
  then show ?case by (auto simp: ret_def)
next
  case (2 x os q)
  obtain s1 where "enq x s = Inr (0, s1)" "rel s1 (q @ [x])" "fits s1 (puts os)"
    using enq_ok [OF 2(2), of x "puts os"] 2(3) by auto
  then show ?case using 2(1) [of s1 ys r] 2(4) by (auto simp: seq_def bnd_def)
next
  case (3 os)
  then show ?case by simp
next
  case (4 os x q)
  obtain zs where z: "fifo_spec os q = Some (zs, r)" "ys = x # zs" using 4(4) by auto
  obtain s1 where "deq s = Inr ((), s1)" "rel s1 q" "fits s1 (puts os)"
    using deq_ok [OF 4(2)] 4(3) by auto
  then show ?case
    using 4(1) [OF _ _ z(1), of s1] front_ok [OF 4(2)] z(2) by (auto simp: seq_def bnd_def gets_def ret_def)
qed

end

definition stored :: "(int \<Rightarrow> byte) \<Rightarrow> int \<Rightarrow> byte list \<Rightarrow> bool" where
  "stored M a bs \<longleftrightarrow> (\<forall>i < length bs. M (a + int i) = bs ! i)"

text \<open>Frames one behind the other from \<open>a\<close> to \<open>e\<close>.\<close>

fun chain :: "(int \<Rightarrow> byte) \<Rightarrow> int \<Rightarrow> frame_cb list \<Rightarrow> byte list list \<Rightarrow> int \<Rightarrow> bool" where
  "chain M a [] [] e = (a = e)"
| "chain M a (c # cs) (f # fs) e =
     (c = \<lparr>fr_start = a, fr_len = int (length f)\<rparr> \<and> stored M a f \<and> chain M (a + int (length f)) cs fs e)"
| "chain M a _ _ e = False"

definition pending :: "shm_queue \<Rightarrow> frame_cb list" where
  "pending q = take (nat (q_len q)) (drop (nat (q_ptr q)) (queue q))"

text \<open>The bytes the card has been told to send: count and address as they stand in its registers.\<close>

definition to_send :: "'h card_env \<Rightarrow> int \<Rightarrow> 'h chip_view \<Rightarrow> 'h \<Rightarrow> byte list" where
  "to_send E m V h =
     (let n = uint (v_regs V h (1, 6)) + 256 * uint (v_regs V h (1, 7));
          a = uint (v_regs V h (3, 2)) + 256 * uint (v_regs V h (3, 3))
      in map (\<lambda>i. txmem E m h (m + a + int i)) [0..<nat n])"

definition q_inv :: "int \<Rightarrow> (int \<Rightarrow> byte) \<Rightarrow> shm_queue \<Rightarrow> byte list list \<Rightarrow> bool" where
  "q_inv m M q fs \<longleftrightarrow> length (queue q) = 8 \<and> 0 \<le> q_ptr q \<and> q_len q = int (length fs) \<and> q_free q = q_ptr q + q_len q \<and>
     q_free q \<le> 8 \<and> q_tail q \<le> m + 0x8000 \<and> list_all (\<lambda>f. length f < 8192) fs \<and>
     (\<exists>a \<ge> m + 0x4000. chain M a (pending q) fs (q_tail q))"

definition tx_rel :: "'h card_env \<Rightarrow> int \<Rightarrow> int \<Rightarrow> 'h chip_view \<Rightarrow> 'h card \<Rightarrow> sk_buff list \<Rightarrow> bool" where
  "tx_rel E base m V s skbs \<longleftrightarrow> chip E base m V \<and> iobase s = base \<and> membase s = m \<and> \<not> tbusy s \<and>
     bank_of (v_mcr V (c_hw s)) = 0 \<and> q_inv m (txmem E m (c_hw s)) (tx_q s) (map sk_data skbs) \<and>
     (skbs \<noteq> [] \<longrightarrow> programmed m (v_regs V (c_hw s)) (queue (tx_q s) ! nat (q_ptr (tx_q s))))"

definition tx_fits :: "int \<Rightarrow> 'h card \<Rightarrow> sk_buff list \<Rightarrow> bool" where
  "tx_fits m s xs \<longleftrightarrow> q_free (tx_q s) + int (length xs) \<le> 8 \<and>
     q_tail (tx_q s) + (\<Sum>x\<leftarrow>xs. int (length (sk_data x))) \<le> m + 0x8000 \<and> list_all (\<lambda>x. length (sk_data x) < 8192) xs"

lemma chain_le: "chain M a cs fs e \<Longrightarrow> a \<le> e"
  by (induction M a cs fs e rule: chain.induct) auto

lemma chain_len: "chain M a cs fs e \<Longrightarrow> length cs = length fs"
  by (induction M a cs fs e rule: chain.induct) auto

lemma chain_snoc:
  "chain M a cs fs e \<Longrightarrow> stored M e f \<Longrightarrow>
    chain M a (cs @ [\<lparr>fr_start = e, fr_len = int (length f)\<rparr>]) (fs @ [f]) (e + int (length f))"
  by (induction M a cs fs e rule: chain.induct) auto

lemma chain_mem: "chain M a cs fs e \<Longrightarrow> (\<And>x. a \<le> x \<Longrightarrow> x < e \<Longrightarrow> M' x = M x) \<Longrightarrow> chain M' a cs fs e"
proof (induction M a cs fs e rule: chain.induct)
  case (2 M a c cs f fs e)
  have "a + int (length f) \<le> e" using 2(2) chain_le by fastforce
  then show ?case using 2 by (auto simp: stored_def)
qed auto

lemma and_low: "(n :: int) AND 0xff = n mod 256" "n AND 0x1f = n mod 32" "n AND 0x3f = n mod 64"
  using take_bit_eq_mask [of 8 n] take_bit_eq_mask [of 5 n] take_bit_eq_mask [of 6 n]
  by (simp_all add: mask_eq_exp_minus_1 take_bit_eq_mod)

lemma uint_small: "0 \<le> n \<Longrightarrow> n < 256 \<Longrightarrow> uint (word_of_int n :: byte) = n"
  by (simp add: unsigned_of_int take_bit_int_eq_self)

lemma count_regs:
  assumes "0 \<le> n" "n < 8192"
  shows "uint (word_of_int (n AND 0xff) :: byte) + 256 * uint (word_of_int (drop_bit 8 n AND 0x1f) :: byte) = n"
proof -
  have "n div 256 < 32" using assms by linarith
  then have "uint (word_of_int (n mod 256) :: byte) = n mod 256" "uint (word_of_int (n div 256) :: byte) = n div 256"
    using assms by (simp_all add: uint_small)
  moreover have "n div 256 mod 32 = n div 256" using \<open>n div 256 < 32\<close> assms by simp
  ultimately show ?thesis by (simp add: and_low drop_bit_eq_div)
qed

lemma or_0x40: "b < 64 \<Longrightarrow> uint (0x40 OR b :: byte) = 0x40 + uint b"
proof -
  have "b < 64 \<longrightarrow> uint (0x40 OR b) = 0x40 + uint b"
    by (rule all_bytes [where P = "\<lambda>b. b < 64 \<longrightarrow> uint (0x40 OR b) = 0x40 + uint b"]) code_simp
  then show "b < 64 \<Longrightarrow> uint (0x40 OR b) = 0x40 + uint b" ..
qed

lemma addr_regs:
  assumes "0x4000 \<le> a" "a < 0x8000"
  shows "uint (word_of_int (a AND 0xff) :: byte) + 256 * uint (0x40 OR word_of_int (drop_bit 8 a AND 0x3f) :: byte) = a"
proof -
  have d: "64 \<le> a div 256" "a div 256 < 128" using assms by linarith+
  then have m: "a div 256 mod 64 = a div 256 - 64"
    using mod_pos_pos_trivial [of "a div 256 - 64" 64] by (metis (no_types) diff_ge_0_iff_ge diff_less_eq minus_mod_self2 numeral_Bit0 add.commute)
  have u: "uint (word_of_int (a div 256 mod 64) :: byte) = a div 256 mod 64" by (rule uint_small) simp_all
  then have "(word_of_int (a div 256 mod 64) :: byte) < 64" by (simp add: word_less_def)
  then have "uint (0x40 OR word_of_int (a div 256 mod 64) :: byte) = a div 256" using or_0x40 u m by simp
  moreover have "uint (word_of_int (a mod 256) :: byte) = a mod 256" by (rule uint_small) simp_all
  ultimately show ?thesis by (simp add: and_low drop_bit_eq_div)
qed

lemma to_send_frame:
  assumes "programmed m (v_regs V h) \<lparr>fr_start = a, fr_len = int (length f)\<rparr>"
    and "length f < 8192" "m + 0x4000 \<le> a" "a + int (length f) \<le> m + 0x8000" "stored (txmem E m h) a f"
  shows "to_send E m V h = f"
proof (cases "f = []")
  case True
  then show ?thesis using assms(1) by (simp add: to_send_def programmed_def)
next
  case False
  then have "a < m + 0x8000" using assms(4) by (cases f) auto
  then show ?thesis
    using assms(1-3,5) addr_regs [of "a - m"] count_regs [of "int (length f)"]
    by (auto simp: to_send_def Let_def stored_def programmed_def intro: nth_equalityI)
qed

lemma write_bytes_view:
  assumes "chip E base m V" "m + 0x4000 \<le> a" "a + int (length bs) \<le> m + 0x8000"
  shows "v_mcr V (write_bytes E a bs h) = v_mcr V h" "v_regs V (write_bytes E a bs h) = v_regs V h"
    "txmem E m (write_bytes E a bs h) = (\<lambda>x. if a \<le> x \<and> x < a + int (length bs) then bs ! nat (x - a) else txmem E m h x)"
proof -
  have w: "v_mcr V (ce_writeb E b v h) = v_mcr V h" "v_regs V (ce_writeb E b v h) = v_regs V h"
    "ce_readb E c (ce_writeb E b v h) = (if c = b then v else ce_readb E c h)" for b c v h
    using assms(1) by (simp_all add: chip_def)
  show "v_mcr V (write_bytes E a bs h) = v_mcr V h" "v_regs V (write_bytes E a bs h) = v_regs V h"
    by (induction bs arbitrary: a h) (simp_all add: w)
  show "txmem E m (write_bytes E a bs h) = (\<lambda>x. if a \<le> x \<and> x < a + int (length bs) then bs ! nat (x - a) else txmem E m h x)"
    using assms(2,3)
  proof (induction bs arbitrary: a h)
    case (Cons b bs)
    have n: "nat (x - (a + 1)) = nat (x - a) - 1" for x by linarith
    show ?case
      unfolding write_bytes.simps
      using Cons.prems by (subst Cons.IH) (auto simp: fun_eq_iff txmem_def w nth_Cons' n)
  qed (auto simp: fun_eq_iff)
qed

lemma q_inv_put:
  assumes "q_inv m M q fs" "q_free q < 8" "q_tail q + int (length f) \<le> m + 0x8000" "length f < 8192"
    and "\<And>x. m + 0x4000 \<le> x \<Longrightarrow> x < q_tail q \<Longrightarrow> M' x = M x" "stored M' (q_tail q) f"
  shows "q_inv m M' (q\<lparr>queue := (queue q)[nat (q_free q) := \<lparr>fr_start = q_tail q, fr_len = int (length f)\<rparr>],
    q_tail := q_tail q + int (length f), q_len := q_len q + 1, q_free := q_free q + 1\<rparr>) (fs @ [f])"
    (is "q_inv m M' ?q _")
proof -
  obtain a where a: "m + 0x4000 \<le> a" "chain M a (pending q) fs (q_tail q)" using assms(1) by (auto simp: q_inv_def)
  then have "chain M' a (pending q) fs (q_tail q)" by (intro chain_mem [OF a(2)] assms(5)) auto
  moreover have "pending ?q = pending q @ [\<lparr>fr_start = q_tail q, fr_len = int (length f)\<rparr>]"
    using assms(1,2) by (auto simp: pending_def q_inv_def nat_add_distrib take_Suc_conv_app_nth drop_update_swap nth_list_update)
  ultimately have "chain M' a (pending ?q) (fs @ [f]) (q_tail q + int (length f))"
    using chain_snoc [OF _ assms(6)] by simp
  then show ?thesis using assms(1-4) a(1) by (auto simp: q_inv_def)
qed

lemma q_inv_get:
  assumes "q_inv m M q (f # fs)"
  shows "q_inv m M (q\<lparr>q_ptr := q_ptr q + 1, q_len := q_len q - 1\<rparr>) fs"
    and "\<exists>a. m + 0x4000 \<le> a \<and> a + int (length f) \<le> m + 0x8000 \<and> stored M a f \<and>
      queue q ! nat (q_ptr q) = \<lparr>fr_start = a, fr_len = int (length f)\<rparr>"
proof -
  obtain a where a: "m + 0x4000 \<le> a" "chain M a (pending q) (f # fs) (q_tail q)" using assms by (auto simp: q_inv_def)
  then obtain c cs where c: "pending q = c # cs" by (cases "pending q") auto
  let ?q = "q\<lparr>q_ptr := q_ptr q + 1, q_len := q_len q - 1\<rparr>"
  have b: "nat (q_ptr q) < length (queue q)" "nat (q_len q) = Suc (length fs)" "0 \<le> q_ptr q" "nat (q_len q - 1) = length fs"
    using assms by (auto simp: q_inv_def)
  have s: "nat (q_ptr q + 1) = Suc (nat (q_ptr q))" using b(3) by simp
  have "pending q = queue q ! nat (q_ptr q) # pending ?q"
    unfolding pending_def b(2) by (simp add: Cons_nth_drop_Suc [OF b(1), symmetric] s b(4))
  with c have d: "c = queue q ! nat (q_ptr q)" "cs = pending ?q" by simp_all
  have e: "c = \<lparr>fr_start = a, fr_len = int (length f)\<rparr>" "stored M a f" "chain M (a + int (length f)) cs fs (q_tail q)"
    using a(2) c by auto
  have le: "a + int (length f) \<le> m + 0x8000" using chain_le [OF e(3)] assms by (simp add: q_inv_def)
  show "\<exists>a. m + 0x4000 \<le> a \<and> a + int (length f) \<le> m + 0x8000 \<and> stored M a f \<and>
      queue q ! nat (q_ptr q) = \<lparr>fr_start = a, fr_len = int (length f)\<rparr>"
    using a(1) e(1,2) le d(1) by auto
  have "m + 0x4000 \<le> a + int (length f)" using a(1) by simp
  then show "q_inv m M ?q fs" using assms e(3) unfolding d(2) q_inv_def by auto
qed

lemma q_inv_reset: "length (queue q) = 8 \<Longrightarrow> q_inv m M (reset_queue m q) []"
  by (auto simp: q_inv_def reset_queue_def pending_def)

lemma tx_rel_front:
  assumes "tx_rel E base m V s (x # q)"
  shows "to_send E m V (c_hw s) = sk_data x"
proof -
  have inv: "q_inv m (txmem E m (c_hw s)) (tx_q s) (sk_data x # map sk_data q)" using assms by (simp add: tx_rel_def)
  obtain a where a: "m + 0x4000 \<le> a" "a + int (length (sk_data x)) \<le> m + 0x8000" "stored (txmem E m (c_hw s)) a (sk_data x)"
    "queue (tx_q s) ! nat (q_ptr (tx_q s)) = \<lparr>fr_start = a, fr_len = int (length (sk_data x))\<rparr>"
    using q_inv_get(2) [OF inv] by blast
  have "length (sk_data x) < 8192" using inv by (simp add: q_inv_def)
  then show ?thesis using to_send_frame [OF _ _ a(1,2,3)] assms a(4) by (simp add: tx_rel_def)
qed

lemma turn_around_wp:
  assumes "\<And>n k. Q () (s\<lparr>asked := n, klog := k\<rparr>)"
  shows "wp (turn_around E mtt) Q s"
proof -
  have "Q () s" using assms [of "klog s" "asked s"] by simp
  moreover have "Q () (s\<lparr>asked := n\<rparr>)" for n using assms [of "klog s" n] by simp
  ultimately show ?thesis using assms by (simp add: turn_around_def wp_simps Let_def)
qed

lemma xmit_enqueues:
  assumes "tx_rel E base m V s q" "tx_fits m s (x # xs)"
  shows "\<exists>s'. ircard_hard_xmit E x s = Inr (0, s') \<and> tx_rel E base m V s' (q @ [x]) \<and> tx_fits m s' xs \<and>
    q_free (tx_q s') = q_free (tx_q s) + 1"
proof -
  let ?f = "sk_data x"
  have c: "chip E base m V" and i: "iobase s = base" "membase s = m" "\<not> tbusy s" "bank_of (v_mcr V (c_hw s)) = 0"
    and inv: "q_inv m (txmem E m (c_hw s)) (tx_q s) (map sk_data q)"
    and old: "q \<noteq> [] \<Longrightarrow> programmed m (v_regs V (c_hw s)) (queue (tx_q s) ! nat (q_ptr (tx_q s)))"
    using assms(1) by (simp_all add: tx_rel_def)
  note [simp] = chipD [OF c]
  have t: "m + 0x4000 \<le> q_tail (tx_q s)" using inv by (auto simp: q_inv_def dest: chain_le)
  have "0 \<le> (\<Sum>x\<leftarrow>xs. int (length (sk_data x)))" by (rule sum_list_nonneg) auto
  then have f: "0 \<le> q_free (tx_q s)" "q_free (tx_q s) < 8" "q_tail (tx_q s) + int (length ?f) \<le> m + 0x8000" "length ?f < 8192"
    using assms(2) inv by (auto simp: tx_fits_def q_inv_def)
  let ?h = "write_bytes E (q_tail (tx_q s)) ?f (bus_write (ce_bus E) base (enables (v_mcr V (c_hw s))) (snd (bus_read (ce_bus E) base (c_hw s))))"
  let ?q = "(tx_q s)\<lparr>queue := (queue (tx_q s))[nat (q_free (tx_q s)) := \<lparr>fr_start = q_tail (tx_q s), fr_len = int (length ?f)\<rparr>],
    q_tail := q_tail (tx_q s) + int (length ?f), q_len := q_len (tx_q s) + 1, q_free := q_free (tx_q s) + 1\<rparr>"
  note h = write_bytes_view [OF c t f(3)]
  have inv': "q_inv m (txmem E m ?h) ?q (map sk_data q @ [?f])"
    by (rule q_inv_put [OF inv f(2-4)]) (auto simp: h stored_def)
  let ?Q = "\<lambda>r s'. r = 0 \<and> tx_rel E base m V s' (q @ [x]) \<and> tx_fits m s' xs \<and> q_free (tx_q s') = q_free (tx_q s) + 1"
  have fits: "tx_fits m (s\<lparr>tx_q := ?q\<rparr>) xs" using assms(2) by (simp add: tx_fits_def)
  note run = ircard_hard_xmit_def copy_to_pc_def wp_simps Let_def
  have "wp (ircard_hard_xmit E x) ?Q s"
  proof (cases q)
    case Nil
    then have l: "q_len (tx_q s) = 0" using inv by (simp add: q_inv_def)
    have p: "0 \<le> q_ptr (tx_q s)" "q_ptr (tx_q s) < 8" using inv f(2) l by (auto simp: q_inv_def)
    have "wp (turn_around E (sk_mtt x)) (\<lambda>_. wp (ircard_dma_write E base) (\<lambda>_. wp (seq (modify (\<lambda>s. s\<lparr>tbusy := False\<rparr>)) (ret 0)) ?Q))
        (s\<lparr>tbusy := True, c_hw := ?h, tx_q := ?q\<rparr>)"
      by (rule turn_around_wp, rule dma_write_wp [OF c])
        (use inv' fits i c Nil p in \<open>simp_all add: tx_rel_def tx_fits_def wp_simps\<close>)
    then show ?thesis using i f t l by (simp add: run)
  next
    case (Cons y ys)
    then have l: "q_len (tx_q s) \<noteq> 0" "nat (q_ptr (tx_q s)) \<noteq> nat (q_free (tx_q s))" using inv by (auto simp: q_inv_def)
    then show ?thesis using i f t c inv' fits old Cons by (simp add: run tx_rel_def tx_fits_def h)
  qed
  then show ?thesis using wpD by fastforce
qed

lemma receive_wp:
  assumes "chip E base m V" "membase s = m" "b = bank_of (v_mcr V (c_hw s))"
    and "\<And>h. v_mcr V h = 0xa0 \<Longrightarrow>
      v_regs V h = (v_regs V (c_hw s))((b, 7) := 0x40, (0, 6) := 0x41, (0, 1) := 0xc0) \<Longrightarrow> txmem E m h = txmem E m (c_hw s) \<Longrightarrow>
      Q 0 (s\<lparr>tx_q := reset_queue m (tx_q s), c_hw := h, io_direction := Io_Recv\<rparr>)"
  shows "wp (ircard_receive E base) Q s"
proof -
  note [simp] = chipD [OF assms(1)]
  show ?thesis
    using assms(2,3) by (simp add: ircard_receive_def wp_simps Let_def) (rule assms(4); simp)
qed

lemma spin_wp:
  assumes "chip E base m V"
    and "\<And>h. v_mcr V h = v_mcr V (c_hw s) \<Longrightarrow> v_regs V h = v_regs V (c_hw s) \<Longrightarrow> txmem E m h = txmem E m (c_hw s) \<Longrightarrow>
      Q () (s\<lparr>c_hw := h\<rparr>)"
  shows "wp (spin_eom E base k stat) Q s"
  using assms(2)
proof (induction k arbitrary: stat s)
  case 0
  show ?case using 0 [of "c_hw s"] by (subst spin_eom.simps) (simp add: wp_simps)
next
  case (Suc k)
  note [simp] = chipD [OF assms(1)]
  show ?case
    using Suc.prems [of "c_hw s"]
    by (subst spin_eom.simps) (auto simp: wp_simps intro!: Suc.IH Suc.prems)
qed

lemma tx_rel_state:
  assumes "tx_rel E base m V s q" "bank_of (v_mcr V (c_hw s')) = 0" "txmem E m (c_hw s') = txmem E m (c_hw s)"
    and "\<And>fr. programmed m (v_regs V (c_hw s)) fr \<Longrightarrow> programmed m (v_regs V (c_hw s')) fr"
    and "tx_q s' = tx_q s" "iobase s' = iobase s" "membase s' = membase s" "\<not> tbusy s'"
  shows "tx_rel E base m V s' q"
  using assms by (auto simp: tx_rel_def)

text \<open>Entries are used again only behind the question whether the network layer has more to send.\<close>

definition kept_count :: "'h card_env \<Rightarrow> 'h card \<Rightarrow> 'h card \<Rightarrow> bool" where
  "kept_count E s s' \<longleftrightarrow> (\<forall>n. \<not> ce_txqueue_empty E n) \<longrightarrow> q_free (tx_q s') = q_free (tx_q s)"

lemma next_frame_wp:
  assumes "tx_rel E base m V s (x # q)" "tx_fits m s xs"
  shows "wp (next_frame E base) (\<lambda>_ s'. tx_rel E base m V s' q \<and> tx_fits m s' xs \<and> kept_count E s s') s"
proof -
  have c: "chip E base m V" and i: "iobase s = base" "membase s = m" "bank_of (v_mcr V (c_hw s)) = 0" "\<not> tbusy s"
    and inv: "q_inv m (txmem E m (c_hw s)) (tx_q s) (sk_data x # map sk_data q)"
    using assms(1) by (simp_all add: tx_rel_def)
  note [simp] = chipD [OF c]
  let ?q = "(tx_q s)\<lparr>q_ptr := q_ptr (tx_q s) + 1, q_len := q_len (tx_q s) - 1\<rparr>"
  have inv': "q_inv m (txmem E m (c_hw s)) ?q (map sk_data q)" by (rule q_inv_get(1) [OF inv])
  have n: "q_len (tx_q s) = 1 + int (length q)" "length (queue (tx_q s)) = 8" "0 \<le> q_ptr (tx_q s)"
    "q_ptr (tx_q s) + q_len (tx_q s) \<le> 8" "m + 0x4000 \<le> q_tail (tx_q s)"
    "q_free (tx_q s) = q_ptr (tx_q s) + q_len (tx_q s)"
    using inv by (auto simp: q_inv_def dest!: chain_le)
  show ?thesis
  proof (cases q)
    case Nil
    have reset: "q_inv m (txmem E m (c_hw s)) (reset_queue m ?q) []" by (rule q_inv_reset) (simp add: n(2))
    have "tx_fits m (s\<lparr>tx_q := reset_queue m ?q\<rparr>) xs" using assms(2) n by (simp add: tx_fits_def reset_queue_def)
    then have "wp (ircard_receive E base) (\<lambda>_. wp skip (\<lambda>_ s'. tx_rel E base m V s' q \<and> tx_fits m s' xs))
        (s\<lparr>tx_q := ?q, asked := k, c_hw := bus_write (ce_bus E) (base + 3) 0 (c_hw s)\<rparr>)" for k
      by (intro receive_wp [OF c _ refl]) (use i reset c Nil in \<open>auto simp: tx_rel_def tx_fits_def wp_simps\<close>)
    moreover have "tx_rel E base m V (s\<lparr>tx_q := ?q, asked := k\<rparr>) q" "tx_fits m (s\<lparr>tx_q := ?q, asked := k\<rparr>) xs" for k
      using i inv' c Nil assms(2) by (simp_all add: tx_rel_def tx_fits_def)
    moreover have "kept_count E s (s\<lparr>tx_q := ?q, asked := k\<rparr>)" for k by (simp add: kept_count_def)
    moreover have "ce_txqueue_empty E n \<Longrightarrow> kept_count E s s'" for n s' by (auto simp: kept_count_def)
    ultimately show ?thesis using n(1) Nil by (cases "ce_txqueue_empty E (asked s)") (simp_all add: next_frame_def wp_simps)
  next
    case (Cons y ys)
    have "wp (ircard_dma_write E base) (\<lambda>_ s'. tx_rel E base m V s' q \<and> tx_fits m s' xs \<and> kept_count E s s') (s\<lparr>tx_q := ?q\<rparr>)"
      by (rule dma_write_wp [OF c]) (use i inv' c Cons n assms(2) in \<open>auto simp: tx_rel_def tx_fits_def kept_count_def\<close>)
    then show ?thesis using n(1) Cons by (simp add: next_frame_def wp_simps)
  qed
qed

lemma tx_status_wp:
  assumes "chip E base m V"
    and "\<And>h st. v_mcr V h = v_mcr V (c_hw s) \<Longrightarrow> v_regs V h = v_regs V (c_hw s) \<Longrightarrow> txmem E m h = txmem E m (c_hw s) \<Longrightarrow>
      Q () (s\<lparr>c_hw := h, stats := st\<rparr>)"
  shows "wp (tx_status E base) Q s"
proof -
  note [simp] = chipD [OF assms(1)]
  show ?thesis
    by (auto simp: tx_status_def wp_simps intro!: spin_wp [OF assms(1)] assms(2))
qed

lemma complete_dequeues:
  assumes "tx_rel E base m V s (x # q)" "tx_fits m s xs"
  shows "\<exists>s'. ircard_xmit_complete E s = Inr ((), s') \<and> tx_rel E base m V s' q \<and> tx_fits m s' xs \<and> kept_count E s s'"
proof -
  have c: "chip E base m V" and i: "iobase s = base" "membase s = m" "bank_of (v_mcr V (c_hw s)) = 0" "\<not> tbusy s"
    using assms(1) by (simp_all add: tx_rel_def)
  note [simp] = chipD [OF c]
  let ?Q = "\<lambda>_ s'. tx_rel E base m V s' q \<and> tx_fits m s' xs \<and> kept_count E s s'"
  have mark: "wp (next_frame E base) (\<lambda>_. wp (kernel Mark_Bh) ?Q) t" if "tx_rel E base m V t (x # q)" "tx_fits m t xs" "tx_q t = tx_q s" for t
    by (rule wp_mono [OF next_frame_wp [OF that(1,2)]]) (auto simp: wp_simps tx_rel_def tx_fits_def kept_count_def that(3))
  have "wp (ircard_xmit_complete E) ?Q s"
    unfolding ircard_xmit_complete_def wp_bnd wp_gets wp_switch_bank wp_seq Let_def i(1)
  proof (rule tx_status_wp [OF c])
    fix h st
    let ?s = "s\<lparr>c_hw := bus_write (ce_bus E) base (enables (fst (bus_read (ce_bus E) base (c_hw s))) OR 0)
      (snd (bus_read (ce_bus E) base (c_hw s)))\<rparr>"
    assume h: "v_mcr V h = v_mcr V (c_hw ?s)" "v_regs V h = v_regs V (c_hw ?s)" "txmem E m h = txmem E m (c_hw ?s)"
    let ?t = "s\<lparr>stats := st, c_hw := bus_write (ce_bus E) (base + 7) 0x50 (bus_write (ce_bus E) (base + 1) 0 (bus_write (ce_bus E) base 0x80 h)),
      tbusy := False, media_busy := False\<rparr>"
    have "tx_rel E base m V ?t (x # q)"
      by (rule tx_rel_state [OF assms(1)]) (use h i in \<open>auto simp: programmed_def\<close>)
    moreover have "tx_fits m ?t xs" using assms(2) by (simp add: tx_fits_def)
    ultimately show "wp (ircard_set_mcr E base 0x80 (bank_of (fst (bus_read (ce_bus E) base (c_hw s)))))
        (\<lambda>_. wp (c_outb E 0 (base + 0x01)) (\<lambda>_. wp (c_outb E 0x50 (base + 0x07))
          (\<lambda>_. wp (modify (\<lambda>s. s\<lparr>tbusy := False, media_busy := False\<rparr>)) (\<lambda>_. wp (next_frame E base) (\<lambda>_. wp (kernel Mark_Bh) ?Q)))))
        (?s\<lparr>c_hw := h, stats := st\<rparr>)"
      using mark [of ?t] i by (simp add: wp_simps)
  qed
  then show ?thesis using wpD by fastforce
qed

interpretation card_queue: bounded_fifo "tx_rel E base m V" "ircard_hard_xmit E" "ircard_xmit_complete E"
  "\<lambda>s. to_send E m V (c_hw s)" sk_data "tx_fits m"
  by unfold_locales (drule (1) xmit_enqueues, blast, drule (1) complete_dequeues, blast, rule tx_rel_front)

text \<open>The same with every entry used up in the end, as long as the network layer has more to send.\<close>

definition tx_full :: "'h card_env \<Rightarrow> int \<Rightarrow> 'h card \<Rightarrow> sk_buff list \<Rightarrow> bool" where
  "tx_full E m s xs \<longleftrightarrow> tx_fits m s xs \<and> (\<forall>n. \<not> ce_txqueue_empty E n) \<and> q_free (tx_q s) + int (length xs) = 8"

interpretation full_queue: bounded_fifo "tx_rel E base m V" "ircard_hard_xmit E" "ircard_xmit_complete E"
  "\<lambda>s. to_send E m V (c_hw s)" sk_data "tx_full E m"
proof unfold_locales
  show "\<exists>s'. ircard_hard_xmit E x s = Inr (0, s') \<and> tx_rel E base m V s' (q @ [x]) \<and> tx_full E m s' xs"
    if "tx_rel E base m V s q" "tx_full E m s (x # xs)" for s q x xs
    using xmit_enqueues [OF that(1), of x xs] that(2) by (auto simp: tx_full_def)
  show "\<exists>s'. ircard_xmit_complete E s = Inr ((), s') \<and> tx_rel E base m V s' q \<and> tx_full E m s' xs"
    if "tx_rel E base m V s (x # q)" "tx_full E m s xs" for s q x xs
    using complete_dequeues [OF that(1), of xs] that(2) by (auto simp: tx_full_def kept_count_def)
qed (rule tx_rel_front)

text \<open>C4: The transmit path is a queue. The network layer hands frames over, the card signals that a frame is out, in any order; as
  long as there are no more than eight frames and 16 KB since the last change of direction, every call succeeds, and the frames
  the card is told to send (by the count and address in its registers, read in its shared memory) are the frames that
  were handed over, each unchanged, in their order.\<close>

theorem frames_sent_in_order:
  assumes "tx_rel E base m V s q" "tx_fits m s (puts os)" "fifo_spec os q = Some (ys, r)"
  shows "\<exists>s'. fifo_run (ircard_hard_xmit E) (ircard_xmit_complete E) (\<lambda>s. to_send E m V (c_hw s)) os s = Inr (map sk_data ys, s') \<and>
    tx_rel E base m V s' r"
  using card_queue.run_refines [OF assms] by blast

text \<open>A card that consists of its registers and its memory.\<close>

record demo_card =
  d_mcr :: byte
  d_regs :: "byte \<times> int \<Rightarrow> byte"
  d_mem :: "int \<Rightarrow> byte"

definition demo_env :: "demo_card card_env" where
  "demo_env = \<lparr>
     ce_bus = \<lparr>
       bus_read = (\<lambda>p h. (if p = 0x308 then d_mcr h else d_regs h (d_mcr h AND 0x1f, p - 0x308), h)),
       bus_write = (\<lambda>p v h. if p = 0x308 then h\<lparr>d_mcr := v\<rparr> else h\<lparr>d_regs := (d_regs h)((d_mcr h AND 0x1f, p - 0x308) := v)\<rparr>)\<rparr>,
     ce_readb = (\<lambda>a h. d_mem h a), ce_writeb = (\<lambda>a v h. h\<lparr>d_mem := (d_mem h)(a := v)\<rparr>), ce_irport = (\<lambda>k h. h),
     ce_time = (\<lambda>n. (0, int n)), ce_alloc = (\<lambda>n. True), ce_txqueue_empty = (\<lambda>n. True)\<rparr>"

definition demo_view :: "demo_card chip_view" where
  "demo_view = \<lparr>v_mcr = d_mcr, v_regs = d_regs\<rparr>"

lemma demo_chip: "chip demo_env 0x308 m demo_view"
  by (auto simp: chip_def keeps_view_def demo_env_def demo_view_def bank_of_def txmem_def fun_eq_iff)

definition demo_state :: "(int \<Rightarrow> byte) \<Rightarrow> demo_card card" where
  "demo_state M = \<lparr>c_hw = \<lparr>d_mcr = 0xa0, d_regs = (\<lambda>r. 0), d_mem = M\<rparr>,
     tx_q = \<lparr>queue = replicate 8 \<lparr>fr_start = 0, fr_len = 0\<rparr>, q_ptr = 0, q_len = 0, q_free = 0, q_tail = 0x14000\<rparr>,
     rx_data = 0, stamp = (0, 0), iobase = 0x308, iobase2 = 0x300, membase = 0x10000, baudrate = 4000000, io_direction = Io_Recv,
     idev_magic = True, tbusy = False, in_interrupt = False, net_start = True, media_busy = False, hard_start_xmit = Ircard_Xmit,
     tx_buff_len = 0, outside_frame = True,
     stats = \<lparr>tx_errors = 0, tx_fifo_errors = 0, tx_packets = 0, tx_bytes = 0, rx_errors = 0, rx_frame_errors = 0, rx_fifo_errors = 0,
       rx_packets = 0\<rparr>, use_count = 0, asked = 0, klog = []\<rparr>"

lemma demo_idle: "tx_rel demo_env 0x308 0x10000 demo_view (demo_state M) []"
  using demo_chip
  by (simp add: tx_rel_def demo_state_def demo_view_def q_inv_def pending_def exI [of _ "0x14000"])

theorem frames_sent_in_order_witness:
  "\<exists>s'. fifo_run (ircard_hard_xmit demo_env) (ircard_xmit_complete demo_env) (\<lambda>s. to_send demo_env 0x10000 demo_view (c_hw s))
     [Put \<lparr>sk_data = [1, 2, 3], sk_mtt = 5\<rparr>, Put \<lparr>sk_data = [4, 5], sk_mtt = 0\<rparr>, Get, Get] (demo_state (\<lambda>a. 0)) = Inr ([[1, 2, 3], [4, 5]], s')"
  using frames_sent_in_order [OF demo_idle, of "\<lambda>a. 0" "[Put \<lparr>sk_data = [1, 2, 3], sk_mtt = 5\<rparr>, Put \<lparr>sk_data = [4, 5], sk_mtt = 0\<rparr>, Get, Get]"]
  by (auto simp: tx_fits_def demo_state_def)

text \<open>C39: The ninth frame of a transmission is stored behind the end of the queue. Start from an idle queue and let the network layer
  hand over eight frames, with the card reporting frames as sent in any order in between or behind them, while the network layer has more to
  send each time the driver asks (so that the driver does not turn to reception, where it would clear its queue). If the eight
  frames fit the memory of the card all these calls succeed, and whatever has been sent by then, all eight
  frames included, the next frame overruns the array of eight entries.\<close>

theorem ninth_frame_overruns_queue:
  assumes "tx_rel E base m V s []" "q_free (tx_q s) = 0" "\<forall>n. \<not> ce_txqueue_empty E n"
    and "length (puts os) = 8" "tx_fits m s (puts os)" "fifo_spec os [] = Some (ys, r)"
  shows "\<exists>s'. fifo_run (ircard_hard_xmit E) (ircard_xmit_complete E) (\<lambda>s. to_send E m V (c_hw s)) os s = Inr (map sk_data ys, s') \<and>
    tx_rel E base m V s' r \<and> ircard_hard_xmit E x s' = Inl (Local_Bounds ''queue'' 8)"
proof -
  have "tx_full E m s (puts os)" using assms(2-5) by (simp add: tx_full_def)
  from full_queue.run_refines [OF assms(1) this assms(6)]
  obtain s' where s': "fifo_run (ircard_hard_xmit E) (ircard_xmit_complete E) (\<lambda>s. to_send E m V (c_hw s)) os s = Inr (map sk_data ys, s')"
    "tx_rel E base m V s' r" "tx_full E m s' []" by blast
  have "\<not> tbusy s'" "q_free (tx_q s') = 8" using s'(2,3) by (auto simp: tx_rel_def tx_full_def)
  then have "ircard_hard_xmit E x s' = Inl (Local_Bounds ''queue'' 8)"
    by (simp add: ircard_hard_xmit_def q_slot_def switch_bank_def ircard_set_mcr_def c_outb_def c_inb_def prog_defs split: prod.split)
  with s'(1,2) show ?thesis by blast
qed

theorem ninth_frame_overruns_queue_witness:
  "\<exists>s'. fifo_run (ircard_hard_xmit (demo_env\<lparr>ce_txqueue_empty := \<lambda>n. False\<rparr>)) (ircard_xmit_complete (demo_env\<lparr>ce_txqueue_empty := \<lambda>n. False\<rparr>))
      (\<lambda>s. to_send (demo_env\<lparr>ce_txqueue_empty := \<lambda>n. False\<rparr>) 0x10000 demo_view (c_hw s))
      (concat (replicate 8 [Put \<lparr>sk_data = [1], sk_mtt = 0\<rparr>, Get])) (demo_state (\<lambda>a. 0)) = Inr (replicate 8 [1], s') \<and>
    ircard_hard_xmit (demo_env\<lparr>ce_txqueue_empty := \<lambda>n. False\<rparr>) \<lparr>sk_data = [2], sk_mtt = 0\<rparr> s' = Inl (Local_Bounds ''queue'' 8)"
proof -
  let ?E = "demo_env\<lparr>ce_txqueue_empty := \<lambda>n. False\<rparr>"
  have "chip ?E 0x308 0x10000 demo_view"
    by (auto simp: chip_def keeps_view_def demo_env_def demo_view_def bank_of_def txmem_def fun_eq_iff)
  then have "tx_rel ?E 0x308 0x10000 demo_view (demo_state (\<lambda>a. 0)) []"
    by (simp add: tx_rel_def demo_state_def demo_view_def q_inv_def pending_def exI [of _ "0x14000"])
  note w = ninth_frame_overruns_queue [OF this]
  let ?f = "\<lparr>sk_data = [1], sk_mtt = 0\<rparr>"
  let ?os = "concat (replicate 8 [Put ?f, Get])"
  have p: "puts ?os = replicate 8 ?f" "fifo_spec ?os [] = Some (replicate 8 ?f, [])" by (simp_all add: numeral_eq_Suc)
  have f: "tx_fits 0x10000 (demo_state (\<lambda>a. 0)) (puts ?os)"
    unfolding p(1) by (simp add: tx_fits_def demo_state_def sum_list_replicate list_all_iff)
  have z: "q_free (tx_q (demo_state (\<lambda>a. 0))) = 0" "\<forall>n. \<not> ce_txqueue_empty ?E n" "length (puts ?os) = 8"
    by (simp add: demo_state_def, simp, simp add: p(1))
  show ?thesis using w [OF z f p(2)] unfolding map_replicate by auto
qed

section \<open>Speed and direction\<close>

definition fast_mode :: "int \<Rightarrow> byte option" where
  "fast_mode speed = (if speed = 576000 then Some 0x12 else if speed = 1152000 then Some 0x02 else if speed = 4000000 then Some 0x04 else None)"

lemma change_speed_fast:
  assumes "chip E base m V" "iobase s = base" "membase s = m" "idev_magic s" "fast_mode speed = Some v"
  shows "wp (ircard_change_speed E speed) (\<lambda>_ s'. iobase s' = base \<and> membase s' = m \<and> baudrate s' = speed \<and>
    hard_start_xmit s' = Ircard_Xmit \<and> \<not> tbusy s' \<and> io_direction s' = Io_Recv \<and> tx_q s' = reset_queue m (tx_q s) \<and>
    v_mcr V (c_hw s') = 0xa0 \<and> v_regs V (c_hw s') (2, 1) = v \<and> v_regs V (c_hw s') (0, 6) = 0x41 \<and>
    v_regs V (c_hw s') (0, 7) = 0x07 \<and> v_regs V (c_hw s') (2, 7) = 0x40) s"
proof -
  note [simp] = chipD [OF assms(1)]
  consider "speed = 576000" "v = 0x12" | "speed = 1152000" "v = 0x02" | "speed = 4000000" "v = 0x04"
    using assms(5) by (auto simp: fast_mode_def split: if_splits)
  then show ?thesis
    using assms(2-4)
    by cases (simp_all add: ircard_change_speed_def ircard_fir_to_sir_def ircard_sir_to_fir_def set_mode_def ircard_receive_def wp_simps Let_def)
qed

text \<open>C15: After a change to one of the fast speeds the driver is ready to send: the transmit queue is empty, frames go to its own
  transmit function, and the card is in the mode of that speed with its receiver on.\<close>

theorem fast_speed_ready:
  assumes "chip E base m V" "iobase s = base" "membase s = m" "idev_magic s" "length (queue (tx_q s)) = 8" "fast_mode speed = Some v"
  shows "\<exists>s'. ircard_change_speed E speed s = Inr ((), s') \<and> tx_rel E base m V s' [] \<and> baudrate s' = speed \<and>
    hard_start_xmit s' = Ircard_Xmit \<and> io_direction s' = Io_Recv \<and> v_mcr V (c_hw s') = 0xa0 \<and> v_regs V (c_hw s') (2, 1) = v"
proof -
  obtain s' where s': "ircard_change_speed E speed s = Inr ((), s')" "iobase s' = base" "membase s' = m" "baudrate s' = speed"
    "hard_start_xmit s' = Ircard_Xmit" "\<not> tbusy s'" "io_direction s' = Io_Recv" "tx_q s' = reset_queue m (tx_q s)"
    "v_mcr V (c_hw s') = 0xa0" "v_regs V (c_hw s') (2, 1) = v"
    using wpD [OF change_speed_fast [OF assms(1-4,6)]] by auto
  have "tx_rel E base m V s' []" using s' assms(1) q_inv_reset [OF assms(5)] by (simp add: tx_rel_def)
  with s' show ?thesis by blast
qed

theorem fast_speed_ready_witness:
  "\<exists>s'. ircard_change_speed demo_env 4000000 ((demo_state (\<lambda>a. 0))\<lparr>baudrate := 9600, hard_start_xmit := Irport_Xmit\<rparr>) = Inr ((), s') \<and>
     tx_rel demo_env 0x308 0x10000 demo_view s' [] \<and> hard_start_xmit s' = Ircard_Xmit"
  using fast_speed_ready [OF demo_chip, of "(demo_state (\<lambda>a. 0))\<lparr>baudrate := 9600, hard_start_xmit := Irport_Xmit\<rparr>" "0x10000" 4000000 "0x04"]
  by (auto simp: demo_state_def fast_mode_def)

text \<open>The commands that reset the receiver do not reach it after a change of speed: the driver goes back to bank 2 before it
  writes them, so that the last command in the reset register of the card is 7, which the table of commands does not have.\<close>

theorem speed_change_misses_reset:
  assumes "chip E base m V" "iobase s = base" "membase s = m" "idev_magic s" "fast_mode speed = Some v"
  shows "\<exists>s'. ircard_change_speed E speed s = Inr ((), s') \<and> v_regs V (c_hw s') (0, 7) = 0x07 \<and> v_regs V (c_hw s') (2, 7) = 0x40"
  using wpD [OF change_speed_fast [OF assms]] by auto

theorem speed_change_misses_reset_witness:
  "\<exists>s'. ircard_change_speed demo_env 1152000 (demo_state (\<lambda>a. 0)) = Inr ((), s') \<and> d_regs (c_hw s') (0, 7) = 0x07 \<and> d_regs (c_hw s') (2, 7) = 0x40"
  using speed_change_misses_reset [OF demo_chip, of "demo_state (\<lambda>a. 0)" "0x10000" 1152000 "0x02"]
  by (auto simp: demo_state_def fast_mode_def demo_view_def)

section \<open>Interrupts\<close>

lemma wlp_any: "(\<And>x s'. Q x s') \<Longrightarrow> wlp m Q s"
  by (auto simp: wlp_def split: sum.split)

lemma wlp_steps:
  "wlp (modify f) Q s = Q () (f s)"
  "wlp (irport E k) Q s = Q () (s\<lparr>c_hw := ce_irport E k (c_hw s), klog := klog s @ [Irport k]\<rparr>)"
  by (simp_all add: wlp_def modify_def irport_def)

lemma wlp_gets: "wlp (gets f) Q s = Q (f s) s"
  by (simp add: wlp_def gets_def)

lemma wlp_inb:
  "wlp (c_inb E p) Q s = Q (fst (bus_read (ce_bus E) p (c_hw s))) (s\<lparr>c_hw := snd (bus_read (ce_bus E) p (c_hw s))\<rparr>)"
  "wlp (switch_bank E base b) Q s =
    (let v = fst (bus_read (ce_bus E) base (c_hw s))
     in Q (bank_of v) (s\<lparr>c_hw := bus_write (ce_bus E) base (enables v OR b) (snd (bus_read (ce_bus E) base (c_hw s)))\<rparr>))"
  by (simp_all add: wlp_def c_inb_def switch_bank_def ircard_set_mcr_def c_outb_def prog_defs bank_of_def enables_def Let_def split: prod.split)

text \<open>C24: The interrupt handler at the fast speeds always leaves the register bank selected that was selected when it was called, however
  often it looks at the card and whatever it finds there.\<close>

theorem interrupt_restores_bank:
  assumes "chip E base m V" "iobase s = base" "115200 < baudrate s" "ircard_interrupt E s = Inr (u, s')"
  shows "bank_of (v_mcr V (c_hw s')) = bank_of (v_mcr V (c_hw s)) \<and> \<not> in_interrupt s'"
proof -
  note [simp] = chipD [OF assms(1)]
  let ?Q = "\<lambda>_ s'. bank_of (v_mcr V (c_hw s')) = bank_of (v_mcr V (c_hw s)) \<and> \<not> in_interrupt s'"
  have "wlp L (\<lambda>_. wlp (seq (switch_bank E base (bank_of (v_mcr V (c_hw s)))) (modify (\<lambda>s. s\<lparr>in_interrupt := False\<rparr>))) ?Q) t" for L t
    by (rule wlp_any) (simp add: wlp_bnd seq_def wlp_inb wlp_steps Let_def)
  then have "wlp (ircard_interrupt E) ?Q s"
    using assms(2,3) by (simp add: ircard_interrupt_def wlp_bnd seq_def wlp_gets wlp_steps wlp_inb Let_def)
  then show ?thesis using assms(4) by (rule wlpD)
qed

theorem interrupt_restores_bank_witness:
  "\<exists>s'. ircard_interrupt demo_env ((demo_state (\<lambda>a. 0))\<lparr>c_hw := \<lparr>d_mcr = 0xa2, d_regs = (\<lambda>r. if r = (0, 1) then 8 else 0), d_mem = (\<lambda>a. 0)\<rparr>\<rparr>) = Inr ((), s') \<and>
     bank_of (d_mcr (c_hw s')) = 2"
proof -
  let ?s = "(demo_state (\<lambda>a. 0))\<lparr>c_hw := \<lparr>d_mcr = 0xa2, d_regs = (\<lambda>r. if r = (0, 1) then 8 else 0), d_mem = (\<lambda>a. 0)\<rparr>\<rparr>"
  have b: "bank_of 0xa2 = 2" "enables 0xa2 = 0xa0" by code_simp+
  have "wp (ircard_interrupt demo_env) (\<lambda>_ _. True) ?s"
    by (simp add: ircard_interrupt_def wp_simps Let_def interrupt_loop.simps dispatch_def ircard_receive_complete_def demo_env_def demo_state_def b
        split: nat.splits)
  then obtain s' where s': "ircard_interrupt demo_env ?s = Inr ((), s')" using wpD by fastforce
  from interrupt_restores_bank [OF demo_chip _ _ s'] show ?thesis using s' by (simp add: demo_state_def demo_view_def b)
qed

lemma wlp_seqI: "(\<And>s'. wlp n Q s') \<Longrightarrow> wlp (seq m n) Q s"
  by (simp add: seq_def wlp_bnd wlp_any)

lemma wlp_keeps: "keeps g m \<Longrightarrow> (\<And>x s'. g s' = g s \<Longrightarrow> Q x s') \<Longrightarrow> wlp m Q s"
  by (auto simp: wlp_def dest: keepsD split: sum.split)

lemma take_frame_keeps: "keeps c_hw (take_frame E ptr len)"
  unfolding take_frame_def ask_def copy_from_pc_def on_stats_def kernel_def Let_def
  by (intro keeps_intro keeps_modify) simp_all

text \<open>After a frame has been received the card is left in bank 1, where the handler goes on to read the register at the place of the
  interrupt status: it looks at the frame address instead, and a further event is noticed only by chance.\<close>

theorem status_read_in_wrong_bank:
  assumes "chip E base m V" "ircard_receive_complete E base s = Inr (True, s')"
  shows "bank_of (v_mcr V (c_hw s')) = 1"
proof -
  note [simp] = chipD [OF assms(1)]
  have t: "wlp (take_frame E ptr len) (\<lambda>r s'. r \<longrightarrow> bank_of (v_mcr V (c_hw s')) = 1) t" if "bank_of (v_mcr V (c_hw t)) = 1" for ptr len t
    by (rule wlp_keeps [OF take_frame_keeps]) (simp add: that)
  have n: "wlp (ret False) (\<lambda>r s'. r \<longrightarrow> P s') t" for P t
    by (simp add: wlp_def ret_def)
  have j: "wlp (judge_frame E base ptr stat l) (\<lambda>r s'. r \<longrightarrow> bank_of (v_mcr V (c_hw s')) = 1) t"
    if "bank_of (v_mcr V (c_hw t)) = 1" for ptr stat l t
    using t [OF that] by (auto simp: judge_frame_def Let_def n intro!: wlp_seqI)
  have "wlp (ircard_receive_complete E base) (\<lambda>r s'. r \<longrightarrow> bank_of (v_mcr V (c_hw s')) = 1) s"
    by (auto simp: ircard_receive_complete_def wlp_bnd seq_def wlp_inb wlp_gets Let_def n j split: if_split)
  then show ?thesis using assms(2) by (auto dest: wlpD)
qed

section \<open>Received frames\<close>

text \<open>
  A frame waits in the card: behind its bytes and the checksum the card has stored the length and the status, and its frame pointer, of
  14 bits, points to the status. This stays so while the driver looks at the registers; \<open>R\<close> are the states of the card in which it is so.
\<close>

definition waiting :: "'h card_env \<Rightarrow> int \<Rightarrow> int \<Rightarrow> 'h chip_view \<Rightarrow> ('h \<Rightarrow> bool) \<Rightarrow> int \<Rightarrow> byte list \<Rightarrow> bool" where
  "waiting E base m V R ptr bs \<longleftrightarrow>
     (\<forall>h v. R h \<longrightarrow> R (bus_write (ce_bus E) base v h)) \<and>
     (\<forall>h r. R h \<and> 0 \<le> r \<and> r \<le> 7 \<longrightarrow> R (snd (bus_read (ce_bus E) (base + r) h))) \<and>
     (\<forall>h. R h \<and> bank_of (v_mcr V h) = 1 \<longrightarrow> fst (bus_read (ce_bus E) (base + 4) h) = word_of_int (ptr mod 256) \<and>
        fst (bus_read (ce_bus E) (base + 5) h) AND 0x3f = word_of_int (ptr div 256)) \<and>
     (\<forall>h. R h \<longrightarrow> stored (\<lambda>a. ce_readb E a h) (m + ptr + 1 - int (length bs)) bs)"

lemma join_bytes: "0 \<le> y \<Longrightarrow> y < 256 \<Longrightarrow> push_bit 8 x OR y = 256 * x + (y :: int)"
  using concat_bit_eq [of 8 y x]
  by (simp add: concat_bit_def or.commute take_bit_int_eq_self push_bit_eq_mult)

lemma status_bits: "b < 0x20 \<Longrightarrow> b AND 0x80 = 0 \<and> b AND 0x40 = 0 \<and> b AND 0x20 = 0 \<and> b AND 0x1f = (b :: byte)"
proof -
  have "b < 0x20 \<longrightarrow> b AND 0x80 = 0 \<and> b AND 0x40 = 0 \<and> b AND 0x20 = 0 \<and> b AND 0x1f = b"
    by (rule all_bytes [where P = "\<lambda>b. b < 0x20 \<longrightarrow> b AND 0x80 = 0 \<and> b AND 0x40 = 0 \<and> b AND 0x20 = 0 \<and> b AND 0x1f = b"]) code_simp
  then show "b < 0x20 \<Longrightarrow> b AND 0x80 = 0 \<and> b AND 0x40 = 0 \<and> b AND 0x20 = 0 \<and> b AND 0x1f = b" ..
qed

definition frame_image :: "byte list \<Rightarrow> byte list \<Rightarrow> byte list" where
  "frame_image data crc = data @ crc @ [word_of_int ((int (length data) + 4) mod 256), word_of_int ((int (length data) + 4) div 256)]"

lemma frame_image_read:
  assumes "stored M (p + 1 - int (length (frame_image data crc))) (frame_image data crc)" "length crc = 4"
  shows "M p = word_of_int ((int (length data) + 4) div 256)" "M (p - 1) = word_of_int ((int (length data) + 4) mod 256)"
    "map (\<lambda>i. M (p - (int (length data) + 4) - 1 + int i)) [0..<length data] = data"
proof -
  let ?a = "p - (int (length data) + 4) - 1"
  have l: "length (frame_image data crc) = length data + 6" using assms(2) by (simp add: frame_image_def)
  then have a: "p + 1 - int (length (frame_image data crc)) = ?a" by simp
  have s: "M (?a + int i) = frame_image data crc ! i" if "i < length data + 6" for i
    using assms(1) [unfolded a] that l unfolding stored_def by simp
  have e: "?a + int (length data + 5) = p" "?a + int (length data + 4) = p - 1" by simp_all
  have "frame_image data crc ! (length data + 5) = word_of_int ((int (length data) + 4) div 256)"
    "frame_image data crc ! (length data + 4) = word_of_int ((int (length data) + 4) mod 256)"
    unfolding frame_image_def using assms(2) by (simp_all only: nth_append_right add_diff_cancel_left' le_add1 nth_append_length_plus) simp_all
  then show "M p = word_of_int ((int (length data) + 4) div 256)" "M (p - 1) = word_of_int ((int (length data) + 4) mod 256)"
    using s [of "length data + 5"] s [of "length data + 4"] unfolding e by simp_all
  show "map (\<lambda>i. M (?a + int i)) [0..<length data] = data"
    using s by (auto intro!: nth_equalityI simp: frame_image_def nth_append)
qed

lemma take_frame_wp:
  assumes "membase s = m" "stored (\<lambda>a. ce_readb E a (c_hw s)) (m + ptr + 1 - int (length (frame_image data crc))) (frame_image data crc)"
    and "length crc = 4" "length data \<le> 2050" "int (length data) + 5 \<le> ptr" "ptr < 0x4000" "ce_alloc E (asked s + 1)"
  shows "wp (take_frame E ptr (int (length data) + 4)) (\<lambda>r s'. r \<and> klog s' = klog s @ [Netif_Rx data] \<and>
    stats s' = (stats s)\<lparr>rx_packets := rx_packets (stats s) + 1\<rparr>) s"
proof -
  have "map (\<lambda>i. ce_readb E (m + ptr - (int (length data) + 4) - 1 + int i) (c_hw s)) [0..<length data] = data"
    using frame_image_read(3) [OF assms(2,3)] .
  then show ?thesis using assms by (simp add: take_frame_def copy_from_pc_def wp_simps Let_def)
qed

lemma receive_complete_takes:
  assumes "chip E base m V" "membase s = m" "waiting E base m V R ptr (frame_image data crc)" "R (c_hw s)"
    and "length crc = 4" "2 \<le> length data" "length data \<le> 2050" "int (length data) + 5 \<le> ptr" "ptr < 0x4000" "ce_alloc E (asked s + 1)"
  shows "\<exists>s'. ircard_receive_complete E base s = Inr (True, s') \<and> klog s' = klog s @ [Netif_Rx data] \<and>
    stats s' = (stats s)\<lparr>rx_packets := rx_packets (stats s) + 1\<rparr>"
proof -
  note [simp] = chipD [OF assms(1)]
  let ?n = "int (length data) + 4"
  let ?h1 = "bus_write (ce_bus E) base (enables (v_mcr V (c_hw s)) OR 1) (snd (bus_read (ce_bus E) base (c_hw s)))"
  let ?h2 = "snd (bus_read (ce_bus E) (base + 4) ?h1)"
  let ?h3 = "snd (bus_read (ce_bus E) (base + 5) ?h2)"
  have w: "R h \<Longrightarrow> R (bus_write (ce_bus E) base v h)" "R h \<Longrightarrow> 0 \<le> r \<Longrightarrow> r \<le> 7 \<Longrightarrow> R (snd (bus_read (ce_bus E) (base + r) h))"
    "R h \<Longrightarrow> stored (\<lambda>a. ce_readb E a h) (m + ptr + 1 - int (length (frame_image data crc))) (frame_image data crc)"
    "R h \<Longrightarrow> bank_of (v_mcr V h) = 1 \<Longrightarrow> fst (bus_read (ce_bus E) (base + 4) h) = word_of_int (ptr mod 256)"
    "R h \<Longrightarrow> bank_of (v_mcr V h) = 1 \<Longrightarrow> fst (bus_read (ce_bus E) (base + 5) h) AND 0x3f = word_of_int (ptr div 256)" for h v r
    using assms(3) by (simp_all add: waiting_def)
  have R: "R ?h1" "R ?h2" "R ?h3" using assms(4) w(1) w(2) [of _ 4] w(2) [of _ 5] w(2) [of _ 0] by auto
  have p: "push_bit 8 (uint (fst (bus_read (ce_bus E) (base + 5) ?h2) AND 0x3f)) OR uint (fst (bus_read (ce_bus E) (base + 4) ?h1)) = ptr"
    using w(4) [OF R(1)] w(5) [OF R(2)] assms(8,9) join_bytes [of "ptr mod 256" "ptr div 256"]
      uint_small [of "ptr mod 256"] uint_small [of "ptr div 256"] by simp
  note f = frame_image_read [OF w(3) [OF R(3)] assms(5)]
  have n: "?n div 256 < 32" "?n div 256 < 256" using assms(7) by linarith+
  then have st: "(word_of_int (?n div 256) :: byte) < 0x20" using uint_small [of "?n div 256"] by (simp add: word_less_def)
  have len: "push_bit 8 (uint (word_of_int (?n div 256) AND 0x1f :: byte)) OR uint (word_of_int (?n mod 256) :: byte) = ?n"
    using status_bits [OF st] n(2) join_bytes [of "?n mod 256" "?n div 256"] uint_small [of "?n div 256"] uint_small [of "?n mod 256"] by simp
  let ?Q = "\<lambda>r s'. r \<and> klog s' = klog s @ [Netif_Rx data] \<and> stats s' = (stats s)\<lparr>rx_packets := rx_packets (stats s) + 1\<rparr>"
  have "wp (take_frame E ptr ?n) ?Q (s\<lparr>c_hw := ?h3\<rparr>)"
    using take_frame_wp [of "s\<lparr>c_hw := ?h3\<rparr>" m E ptr data crc] w(3) [OF R(3)] assms(2,5,7-10) by simp
  then have "wp (judge_frame E base ptr (word_of_int (?n div 256)) (word_of_int (?n mod 256))) ?Q (s\<lparr>c_hw := ?h3\<rparr>)"
    using status_bits [OF st] assms(6) unfolding judge_frame_def Let_def len by simp
  then have "wp (ircard_receive_complete E base) ?Q s"
    using p f(1,2) assms(2,8) by (simp add: ircard_receive_complete_def wp_simps Let_def or.commute)
  then show ?thesis using wpD by fastforce
qed

text \<open>C14: A frame in the shared memory of the card, of 2 to 2050 bytes and not wrapped around the end of the memory, is passed to the network
  layer as it was received, when a buffer for it can be allocated: without its checksum and with every byte in place, and it is counted.\<close>

theorem frame_received:
  assumes "chip E base m V" "membase s = m" "waiting E base m V R ptr (frame_image data crc)" "R (c_hw s)"
    and "length crc = 4" "2 \<le> length data" "length data \<le> 2050" "int (length data) + 5 \<le> ptr" "ptr < 0x4000" "ce_alloc E (asked s + 1)"
  shows "\<exists>s'. ircard_receive_complete E base s = Inr (True, s') \<and> klog s' = klog s @ [Netif_Rx data] \<and>
    stats s' = (stats s)\<lparr>rx_packets := rx_packets (stats s) + 1\<rparr>"
  by (rule receive_complete_takes [OF assms])

definition demo_mem :: "int \<Rightarrow> byte" where
  "demo_mem a = (if a = 0x10100 then 0xaa else if a = 0x10101 then 0x55 else if a = 0x10106 then 6 else 0)"

definition demo_received :: "demo_card card" where
  "demo_received = (demo_state demo_mem)\<lparr>c_hw := \<lparr>d_mcr = 0xa0, d_regs = (\<lambda>r. if r = (1, 4) then 7 else if r = (1, 5) then 1 else 0), d_mem = demo_mem\<rparr>\<rparr>"

lemma demo_waiting:
  "waiting demo_env 0x308 0x10000 demo_view (\<lambda>h. d_mem h = demo_mem \<and> d_regs h (1, 4) = 7 \<and> d_regs h (1, 5) = 1) 0x107
     (frame_image [0xaa, 0x55] [0, 0, 0, 0])"
proof -
  have "stored demo_mem 0x10100 (frame_image [0xaa, 0x55] [0, 0, 0, 0])" by code_simp
  then show ?thesis
    by (simp add: waiting_def demo_env_def demo_view_def bank_of_def frame_image_def)
qed

theorem frame_received_witness:
  "\<exists>s'. ircard_receive_complete demo_env 0x308 demo_received = Inr (True, s') \<and> klog s' = [Netif_Rx [0xaa, 0x55]]"
  using frame_received [OF demo_chip _ demo_waiting, of demo_received]
  by (auto simp: demo_received_def demo_state_def demo_env_def)

theorem status_read_in_wrong_bank_witness:
  "\<exists>s'. ircard_receive_complete demo_env 0x308 demo_received = Inr (True, s') \<and> bank_of (d_mcr (c_hw s')) = 1"
proof -
  obtain s' where "ircard_receive_complete demo_env 0x308 demo_received = Inr (True, s')"
    using receive_complete_takes [OF demo_chip _ demo_waiting, of demo_received]
    by (auto simp: demo_received_def demo_state_def demo_env_def)
  with status_read_in_wrong_bank [OF demo_chip this] show ?thesis by (simp add: demo_view_def)
qed

end
