(* ===== verification/Ircard_Link.thy ===== *)
theory Ircard_Link
  imports Ircard
begin

text \<open>
  The life cycle of a card in \<^verbatim>\<open>irda-utils/pcmcia/ircard_cs.c\<close>: attaching, configuration from the card information structure, events,
  release, detaching, loading and unloading of the module. Card Services answers by an environment; the entries of the
  configuration table are given in their parsed form. The magic number of a device, which is set when it is attached, is
  not modelled, and messages are left out.
\<close>

section \<open>Model\<close>

subsection \<open>State\<close>

datatype dev_flag = Dev_Present | Dev_Config | Dev_Stale_Config | Dev_Stale_Link | Dev_Config_Pending | Dev_Release_Pending | Dev_Suspend

datatype cs_fn = RegisterClient | DeregisterClient | GetFirstTuple | GetNextTuple | GetTupleData | ParseTuple | RequestIO
  | RequestWindow | MapMemPage | RequestIRQ | RequestConfiguration | ReleaseWindow | ReleaseConfiguration | ReleaseIO | ReleaseIRQ

datatype link_call = Cs cs_fn | Report_Error cs_fn int | Iounmap int | Add_Timer | Irda_Device_Open | Irda_Device_Close

datatype io_width = Width_Auto | Width_16 | Width_8

text \<open>An entry of the configuration table; a voltage that is not present is \<open>None\<close>.\<close>

record cf_entry =
  cf_default :: bool
  cf_index :: int
  cf_audio :: bool
  cf_vcc :: "int option"
  cf_vpp1 :: "int option"
  cf_irq :: int
  cf_io_8bit :: bool
  cf_io_16bit :: bool
  cf_io_win :: "(int \<times> int) list"
  cf_mem_win :: "int list"

definition zero_entry :: cf_entry where
  "zero_entry = \<lparr>cf_default = False, cf_index = 0, cf_audio = False, cf_vcc = None, cf_vpp1 = None, cf_irq = 0, cf_io_8bit = False,
     cf_io_16bit = False, cf_io_win = [], cf_mem_win = []\<rparr>"

record 'h link =
  l_id :: nat
  l_state :: "dev_flag set"
  l_open :: bool
  l_handle :: bool
  irq_info2 :: u32
  assigned_irq :: int
  enable_irq :: bool
  enable_spkr :: bool
  conf_vcc :: int
  conf_vpp1 :: int
  conf_vpp2 :: int
  conf_base :: int
  conf_present :: int
  conf_index :: int
  io_width1 :: io_width
  io_width2 :: io_width
  base_port1 :: int
  num_ports1 :: int
  base_port2 :: int
  num_ports2 :: int
  l_win :: bool
  l_stop :: bool
  l_card :: "'h card"
  l_asked :: nat
  l_log :: "link_call list"

text \<open>
  Card Services: the result of a call, the tuple that says where the configuration registers are, the table, the address of a window (and what
  the structure holds before one is asked for), the result of a search behind the last entry, the mapping of a window, the interrupt.
\<close>

record 'h link_env =
  le_card :: "'h card_env"
  le_cs :: "nat \<Rightarrow> cs_fn \<Rightarrow> int"
  le_config :: "int \<times> int"
  le_cis :: "cf_entry list"
  le_window :: int
  le_stale :: int
  le_no_more :: int
  le_ioremap :: "int \<Rightarrow> int"
  le_irq :: int

type_synonym ('h, 'a) lprog = "('h link, 'a) prog"

definition record_call :: "link_call \<Rightarrow> ('h, unit) lprog" where
  "record_call c = modify (\<lambda>s. s\<lparr>l_log := l_log s @ [c]\<rparr>)"

definition cs :: "'h link_env \<Rightarrow> cs_fn \<Rightarrow> ('h, int) lprog" where
  "cs L f =
     bnd (gets l_asked) (\<lambda>n.
     seq (modify (\<lambda>s. s\<lparr>l_asked := n + 1, l_log := l_log s @ [Cs f]\<rparr>))
     (ret (le_cs L n f)))"

definition on_card :: "('h, 'a) cprog \<Rightarrow> ('h, 'a) lprog" where
  "on_card p = (\<lambda>s. case p (l_card s) of Inl e \<Rightarrow> Inl e | Inr (x, c) \<Rightarrow> Inr (x, s\<lparr>l_card := c\<rparr>))"

definition set_flags :: "(dev_flag set \<Rightarrow> dev_flag set) \<Rightarrow> ('h, unit) lprog" where
  "set_flags f = modify (\<lambda>s. s\<lparr>l_state := f (l_state s)\<rparr>)"

subsection \<open>Release\<close>

definition ircard_release :: "'h link_env \<Rightarrow> ('h, unit) lprog" where
  "ircard_release L =
     bnd (gets l_open) (\<lambda>opened.
     if opened then set_flags (insert Dev_Stale_Config)
     else
       seq (cs L ReleaseWindow)
       (bnd (gets (\<lambda>s. membase (l_card s))) (\<lambda>m.
       seq (record_call (Iounmap m))
       (seq (cs L ReleaseConfiguration)
       (seq (cs L ReleaseIO)
       (seq (cs L ReleaseIRQ)
       (set_flags (\<lambda>f. f - {Dev_Config, Dev_Release_Pending}))))))))"

subsection \<open>Configuration\<close>

text \<open>\<^verbatim>\<open>CS_CHECK\<close>: on a failure the rest is left out, and the result says which call failed.\<close>

type_synonym 'a checked = "cs_fn \<times> int + 'a"

definition cs_check :: "'h link_env \<Rightarrow> cs_fn \<Rightarrow> ('h, 'a checked) lprog \<Rightarrow> ('h, 'a checked) lprog" where
  "cs_check L f k = bnd (cs L f) (\<lambda>r. if r \<noteq> 0 then ret (Inl (f, r)) else k)"

text \<open>\<^verbatim>\<open>CFG_CHECK\<close>: on a failure the next entry is tried; \<open>req\<close> is the address in the request for a window.\<close>

definition cfg_check :: "'h link_env \<Rightarrow> cs_fn \<Rightarrow> int \<Rightarrow> ('h, bool \<times> int) lprog \<Rightarrow> ('h, bool \<times> int) lprog" where
  "cfg_check L f req k = bnd (cs L f) (\<lambda>r. if r \<noteq> 0 then ret (False, req) else k)"

text \<open>Settings from an entry and the default of the same turn of the loop.\<close>

definition rescaled :: "int option \<Rightarrow> int option \<Rightarrow> int \<Rightarrow> int" where
  "rescaled c d old = (case c of Some v \<Rightarrow> v div 10000 | None \<Rightarrow> (case d of Some v \<Rightarrow> v div 10000 | None \<Rightarrow> old))"

definition entry_power :: "cf_entry \<Rightarrow> cf_entry \<Rightarrow> 'h link \<Rightarrow> 'h link" where
  "entry_power cfg dflt s =
     s\<lparr>conf_vcc := rescaled (cf_vcc cfg) (cf_vcc dflt) (conf_vcc s),
       conf_vpp1 := rescaled (cf_vpp1 cfg) (cf_vpp1 dflt) (conf_vpp1 s), conf_vpp2 := rescaled (cf_vpp1 cfg) (cf_vpp1 dflt) (conf_vpp2 s)\<rparr>"

definition width :: "cf_entry \<Rightarrow> io_width" where
  "width io = (if \<not> cf_io_16bit io then Width_8 else if \<not> cf_io_8bit io then Width_16 else Width_Auto)"

definition set_io :: "cf_entry \<Rightarrow> 'h link \<Rightarrow> 'h link" where
  "set_io io s =
     (case cf_io_win io of
        [] \<Rightarrow> s
      | [w1] \<Rightarrow> s\<lparr>io_width1 := width io, base_port1 := fst w1, num_ports1 := snd w1\<rparr>
      | w1 # w2 # _ \<Rightarrow> s\<lparr>io_width1 := width io, base_port1 := fst w1, num_ports1 := snd w1, io_width2 := width io,
          base_port2 := fst w2, num_ports2 := snd w2\<rparr>)"

definition entry_io :: "cf_entry \<Rightarrow> cf_entry \<Rightarrow> 'h link \<Rightarrow> 'h link" where
  "entry_io cfg dflt s = set_io (if cf_io_win cfg \<noteq> [] then cfg else dflt) (s\<lparr>num_ports1 := 0, num_ports2 := 0\<rparr>)"

definition try_entry :: "'h link_env \<Rightarrow> int \<Rightarrow> cf_entry \<Rightarrow> ('h, bool \<times> int) lprog" where
  "try_entry L req cfg =
     cfg_check L GetTupleData req
     (cfg_check L ParseTuple req
     (let dflt = (if cf_default cfg then cfg else zero_entry)
      in if cf_index cfg = 0 then ret (False, req)
         else
           seq (modify (\<lambda>s. s\<lparr>conf_index := cf_index cfg, enable_spkr := enable_spkr s \<or> cf_audio cfg\<rparr>))
           (seq (modify (entry_power cfg dflt))
           (seq (modify (\<lambda>s. s\<lparr>enable_irq := enable_irq s \<or> cf_irq cfg \<noteq> 0 \<or> cf_irq dflt \<noteq> 0\<rparr>))
           (seq (modify (entry_io cfg dflt))
           (cfg_check L RequestIO req
           (if cf_mem_win cfg = [] \<and> cf_mem_win dflt = [] then ret (True, req)
            else
              seq (modify (\<lambda>s. s\<lparr>l_win := True\<rparr>))
              (cfg_check L RequestWindow 0
              (cfg_check L MapMemPage (le_window L)
              (ret (True, le_window L)))))))))))"

fun scan_entries :: "'h link_env \<Rightarrow> int \<Rightarrow> cf_entry list \<Rightarrow> ('h, int checked) lprog" where
  "scan_entries L req [] = ret (Inl (GetNextTuple, le_no_more L))"
| "scan_entries L req (e # es) =
     bnd (try_entry L req e) (\<lambda>(ok, req').
     if ok then ret (Inr req')
     else cs_check L GetNextTuple (scan_entries L req' es))"

text \<open>The device as it is set up for a configured card, and the start of the network device.\<close>

definition card_setup :: "'h link_env \<Rightarrow> int \<Rightarrow> ('h, unit checked) lprog" where
  "card_setup L req =
     bnd (gets base_port1) (\<lambda>b.
     seq (on_card (modify (\<lambda>c. c\<lparr>iobase := b + 8, iobase2 := b, membase := le_ioremap L req, baudrate := 9600\<rparr>)))
     (seq (on_card (modify (\<lambda>c. c\<lparr>tx_q := reset_queue (membase c) (tx_q c)\<rparr>)))
     (seq (on_card (ircard_probe (le_card L)))
     (seq (on_card (modify (\<lambda>c. c\<lparr>hard_start_xmit := Irport_Xmit, idev_magic := True\<rparr>)))
     (seq (record_call Irda_Device_Open)
     (seq (set_flags (\<lambda>f. f - {Dev_Config_Pending}))
     (ret (Inr ()))))))))"

definition request_irq :: "'h link_env \<Rightarrow> ('h, unit checked) lprog \<Rightarrow> ('h, unit checked) lprog" where
  "request_irq L k =
     bnd (gets enable_irq) (\<lambda>e.
     if e then cs_check L RequestIRQ (seq (modify (\<lambda>s. s\<lparr>assigned_irq := le_irq L\<rparr>)) k) else k)"

definition config_body :: "'h link_env \<Rightarrow> ('h, unit checked) lprog" where
  "config_body L =
     cs_check L GetFirstTuple
     (cs_check L GetTupleData
     (cs_check L ParseTuple
     (seq (modify (\<lambda>s. s\<lparr>conf_base := fst (le_config L), conf_present := snd (le_config L)\<rparr>))
     (seq (set_flags (insert Dev_Config))
     (cs_check L GetFirstTuple
     (bnd (scan_entries L (le_stale L) (le_cis L)) (\<lambda>r.
     case r of
       Inl e \<Rightarrow> ret (Inl e)
     | Inr req \<Rightarrow> request_irq L (cs_check L RequestConfiguration (card_setup L req)))))))))"

definition ircard_config :: "'h link_env \<Rightarrow> ('h, unit) lprog" where
  "ircard_config L =
     bnd (config_body L) (\<lambda>r.
     case r of
       Inr _ \<Rightarrow> skip
     | Inl (f, e) \<Rightarrow> seq (record_call (Report_Error f e)) (ircard_release L))"

subsection \<open>Events\<close>

datatype cs_event = Card_Removal | Card_Insertion | Pm_Suspend | Reset_Physical | Pm_Resume | Card_Reset | Other_Event

definition reset_physical :: "'h link_env \<Rightarrow> ('h, unit) lprog" where
  "reset_physical L =
     seq (modify (\<lambda>s. s\<lparr>l_stop := True\<rparr>))
     (bnd (gets l_state) (\<lambda>f. whenc (Dev_Config \<in> f) (seq (cs L ReleaseConfiguration) skip)))"

definition card_reset :: "'h link_env \<Rightarrow> ('h, unit) lprog" where
  "card_reset L =
     bnd (gets l_state) (\<lambda>f.
     seq (whenc (Dev_Config \<in> f) (seq (cs L RequestConfiguration) skip))
     (seq (modify (\<lambda>s. s\<lparr>l_stop := False\<rparr>))
     (seq (on_card (bnd (gets iobase2) (\<lambda>b. irport (le_card L) (Irport_Start b))))
     (on_card (ircard_change_speed (le_card L) 9600)))))"

definition ircard_event :: "'h link_env \<Rightarrow> cs_event \<Rightarrow> ('h, int) lprog" where
  "ircard_event L ev =
     seq (case ev of
       Card_Removal \<Rightarrow>
         seq (set_flags (\<lambda>f. f - {Dev_Present}))
         (bnd (gets l_state) (\<lambda>f. whenc (Dev_Config \<in> f) (seq (modify (\<lambda>s. s\<lparr>l_stop := True\<rparr>)) (record_call Add_Timer))))
     | Card_Insertion \<Rightarrow> seq (set_flags (\<lambda>f. f \<union> {Dev_Present, Dev_Config_Pending})) (ircard_config L)
     | Pm_Suspend \<Rightarrow> seq (set_flags (insert Dev_Suspend)) (reset_physical L)
     | Reset_Physical \<Rightarrow> reset_physical L
     | Pm_Resume \<Rightarrow> seq (set_flags (\<lambda>f. f - {Dev_Suspend})) (card_reset L)
     | Card_Reset \<Rightarrow> card_reset L
     | Other_Event \<Rightarrow> skip)
     (ret 0)"

subsection \<open>The module\<close>

record 'h pc_module =
  dev_list :: "'h link list"
  next_id :: nat
  detached :: "'h link list"
  registered :: bool

definition irq_choice :: "u32 \<Rightarrow> int list \<Rightarrow> u32" where
  "irq_choice irq_mask irq_list =
     (if irq_list ! 0 = -1 then irq_mask
      else fold (\<lambda>i w. w OR push_bit (nat (irq_list ! i)) 1) [0..<4] 0)"

definition new_link :: "nat \<Rightarrow> u32 \<Rightarrow> 'h card \<Rightarrow> 'h link" where
  "new_link i info c = \<lparr>l_id = i, l_state = {}, l_open = False, l_handle = False, irq_info2 = info, assigned_irq = 0, enable_irq = False,
     enable_spkr = False, conf_vcc = 50, conf_vpp1 = 0, conf_vpp2 = 0, conf_base = 0, conf_present = 0, conf_index = 0,
     io_width1 = Width_Auto, io_width2 = Width_Auto, base_port1 = 0, num_ports1 = 0, base_port2 = 0, num_ports2 = 0, l_win = False,
     l_stop = False, l_card = c, l_asked = 0, l_log = []\<rparr>"

text \<open>Removal of a link: what is done with it, and whether it is taken out of the list.\<close>

definition detach_link :: "'h link_env \<Rightarrow> ('h, bool) lprog" where
  "detach_link L =
     bnd (gets (\<lambda>s. (l_state s, l_handle s))) (\<lambda>(f, h).
     if Dev_Config \<in> f then seq (set_flags (insert Dev_Stale_Link)) (ret False)
     else
       seq (whenc h (seq (cs L DeregisterClient) skip))
       (seq (on_card (bnd (gets iobase2) (\<lambda>b. irport (le_card L) (Irport_Stop b))))
       (seq (record_call Irda_Device_Close)
       (ret True))))"

fun detach_in :: "'h link_env \<Rightarrow> nat \<Rightarrow> 'h link list \<Rightarrow> c_fault + 'h link list \<times> 'h link list" where
  "detach_in L i [] = Inr ([], [])"
| "detach_in L i (l # ls) =
     (if l_id l = i then
        case detach_link L l of
          Inl e \<Rightarrow> Inl e
        | Inr (gone, l') \<Rightarrow> Inr (if gone then (ls, [l']) else (l' # ls, []))
      else
        case detach_in L i ls of Inl e \<Rightarrow> Inl e | Inr (ls', d) \<Rightarrow> Inr (l # ls', d))"

definition ircard_detach :: "'h link_env \<Rightarrow> nat \<Rightarrow> ('h pc_module, unit) prog" where
  "ircard_detach L i = (\<lambda>s.
     case detach_in L i (dev_list s) of
       Inl e \<Rightarrow> Inl e
     | Inr (ls, d) \<Rightarrow> Inr ((), s\<lparr>dev_list := ls, detached := detached s @ d\<rparr>))"

text \<open>\<open>mem\<close>: do the two calls of \<^verbatim>\<open>kmalloc\<close> succeed? Their results are not compared with \<^verbatim>\<open>NULL\<close>.\<close>

definition ircard_attach :: "'h link_env \<Rightarrow> bool \<Rightarrow> u32 \<Rightarrow> int list \<Rightarrow> 'h card \<Rightarrow> ('h pc_module, nat option) prog" where
  "ircard_attach L mem irq_mask irq_list c =
     seq (guard mem Null_Pointer)
     (bnd (gets next_id) (\<lambda>i.
     let r = le_cs L 0 RegisterClient;
         l = (new_link i (irq_choice irq_mask irq_list) c)\<lparr>l_asked := 1, l_log := [Cs RegisterClient], l_handle := r = 0\<rparr>
     in if r \<noteq> 0
        then
          seq (modify (\<lambda>s. s\<lparr>dev_list := l\<lparr>l_log := l_log l @ [Report_Error RegisterClient r]\<rparr> # dev_list s, next_id := i + 1\<rparr>))
          (seq (ircard_detach L i)
          (ret None))
        else
          seq (modify (\<lambda>s. s\<lparr>dev_list := l # dev_list s, next_id := i + 1\<rparr>))
          (ret (Some i))))"

text \<open>Unloading: the loop ends when the list is empty. A result \<open>None\<close> is a loop that does not end.\<close>

partial_function (option) cleanup_loop :: "'h link_env \<Rightarrow> 'h pc_module \<Rightarrow> (c_fault + 'h pc_module) option" where
  "cleanup_loop L s =
     (case dev_list s of
        [] \<Rightarrow> Some (Inr s)
      | l # ls \<Rightarrow>
          (case (if Dev_Config \<in> l_state l then ircard_release L l else Inr ((), l)) of
             Inl e \<Rightarrow> Some (Inl e)
           | Inr (_, l') \<Rightarrow>
               (case ircard_detach L (l_id l') (s\<lparr>dev_list := l' # ls\<rparr>) of
                  Inl e \<Rightarrow> Some (Inl e)
                | Inr (_, s') \<Rightarrow> cleanup_loop L s')))"

definition cleanup_module :: "'h link_env \<Rightarrow> 'h pc_module \<Rightarrow> (c_fault + 'h pc_module) option" where
  "cleanup_module L s = cleanup_loop L (s\<lparr>registered := False\<rparr>)"

text \<open>\<open>same_release\<close>: is Card Services of the release the module was compiled for?\<close>

definition init_module :: "bool \<Rightarrow> ('h pc_module, int) prog" where
  "init_module same_release =
     (if \<not> same_release then ret (-1) else seq (modify (\<lambda>s. s\<lparr>registered := True\<rparr>)) (ret 0))"

section \<open>Rules\<close>

lemma wp_cs [wp_simps]: "wp (cs L f) Q s = Q (le_cs L (l_asked s) f) (s\<lparr>l_asked := l_asked s + 1, l_log := l_log s @ [Cs f]\<rparr>)"
  by (simp add: cs_def wp_simps)

lemma wp_on_card [wp_simps]: "wp (on_card p) Q s = wp p (\<lambda>x c. Q x (s\<lparr>l_card := c\<rparr>)) (l_card s)"
  by (auto simp: wp_def on_card_def split: sum.split)

lemma wp_link [wp_simps]:
  "wp (record_call c) Q s = Q () (s\<lparr>l_log := l_log s @ [c]\<rparr>)"
  "wp (set_flags g) Q s = Q () (s\<lparr>l_state := g (l_state s)\<rparr>)"
  by (simp_all add: record_call_def set_flags_def wp_simps)

lemma wp_cs_check [wp_simps]:
  "wp (cs_check L f k) Q s =
    (let s' = s\<lparr>l_asked := l_asked s + 1, l_log := l_log s @ [Cs f]\<rparr>; r = le_cs L (l_asked s) f
     in if r \<noteq> 0 then Q (Inl (f, r)) s' else wp k Q s')"
  by (simp add: cs_check_def wp_simps Let_def)

lemma wp_cfg_check [wp_simps]:
  "wp (cfg_check L f req k) Q s =
    (let s' = s\<lparr>l_asked := l_asked s + 1, l_log := l_log s @ [Cs f]\<rparr>
     in if le_cs L (l_asked s) f \<noteq> 0 then Q (False, req) s' else wp k Q s')"
  by (simp add: cfg_check_def wp_simps Let_def)

lemma release_run:
  assumes "\<not> l_open s"
  shows "\<exists>s'. ircard_release L s = Inr ((), s') \<and> l_state s' = l_state s - {Dev_Config, Dev_Release_Pending} \<and> l_id s' = l_id s \<and>
    l_open s' = l_open s \<and>
    l_log s' = l_log s @ [Cs ReleaseWindow, Iounmap (membase (l_card s)), Cs ReleaseConfiguration, Cs ReleaseIO, Cs ReleaseIRQ]"
proof -
  have "wp (ircard_release L) (\<lambda>_ s'. l_state s' = l_state s - {Dev_Config, Dev_Release_Pending} \<and> l_id s' = l_id s \<and> l_open s' = l_open s \<and>
    l_log s' = l_log s @ [Cs ReleaseWindow, Iounmap (membase (l_card s)), Cs ReleaseConfiguration, Cs ReleaseIO, Cs ReleaseIRQ]) s"
    using assms by (simp add: ircard_release_def wp_simps)
  then show ?thesis using wpD by fastforce
qed

section \<open>Insertion\<close>

text \<open>An entry the driver can use, and Card Services that grants every request.\<close>

definition usable :: "cf_entry \<Rightarrow> int \<Rightarrow> bool" where
  "usable e b \<longleftrightarrow> cf_index e \<noteq> 0 \<and> cf_mem_win e \<noteq> [] \<and> (\<exists>n rest. cf_io_win e = (b, n) # rest)"

definition granting :: "'h link_env \<Rightarrow> bool" where
  "granting L \<longleftrightarrow> (\<forall>n f. le_cs L n f = 0)"

lemma set_io_frame [simp]:
  "l_card (set_io io s) = l_card s" "l_state (set_io io s) = l_state s" "l_log (set_io io s) = l_log s"
  "l_asked (set_io io s) = l_asked s" "enable_irq (set_io io s) = enable_irq s" "l_open (set_io io s) = l_open s"
  by (simp_all add: set_io_def split: list.split)

lemma entry_frame [simp]:
  "l_card (entry_power c d s) = l_card s" "l_state (entry_power c d s) = l_state s" "l_log (entry_power c d s) = l_log s"
  "l_asked (entry_power c d s) = l_asked s" "enable_irq (entry_power c d s) = enable_irq s"
  "l_card (entry_io c d s) = l_card s" "l_state (entry_io c d s) = l_state s" "l_log (entry_io c d s) = l_log s"
  "l_asked (entry_io c d s) = l_asked s" "enable_irq (entry_io c d s) = enable_irq s" "l_open (entry_io c d s) = l_open s"
  "l_open (entry_power c d s) = l_open s"
  by (simp_all add: entry_power_def entry_io_def)

lemma try_entry_usable:
  fixes L :: "'h link_env"
  assumes "granting L" "usable e b"
  shows "wp (try_entry L req e) (\<lambda>(ok, req') s'. ok \<and> req' = le_window L \<and> base_port1 s' = b \<and> l_card s' = l_card s \<and> l_state s' = l_state s) s"
proof -
  obtain n rest where w: "cf_io_win e = (b, n) # rest" using assms(2) by (auto simp: usable_def)
  have "base_port1 (entry_io e d t) = b" for d and t :: "'h link"
    by (simp add: entry_io_def set_io_def w split: list.split)
  then show ?thesis
    using assms by (simp add: try_entry_def wp_simps granting_def usable_def Let_def)
qed

lemma try_entry_skipped:
  assumes "granting L" "cf_index e = 0"
  shows "wp (try_entry L req e) (\<lambda>(ok, req') s'. \<not> ok \<and> req' = req \<and> (\<exists>n k. s' = s\<lparr>l_asked := n, l_log := k\<rparr>)) s"
  using assms by (simp add: try_entry_def wp_simps granting_def Let_def) (metis link.surjective link.update_convs)

lemma scan_finds:
  assumes "granting L" "list_all (\<lambda>d. cf_index d = 0) ds" "usable e b"
  shows "wp (scan_entries L req (ds @ e # es)) (\<lambda>r s'. r = Inr (le_window L) \<and> base_port1 s' = b \<and> l_card s' = l_card s \<and> l_state s' = l_state s) s"
  using assms(2)
proof (induction ds arbitrary: req s)
  case Nil
  show ?case
    unfolding append_Nil scan_entries.simps wp_bnd
    by (rule wp_mono [OF try_entry_usable [OF assms(1,3)]]) (auto simp: wp_simps)
next
  case (Cons d ds)
  show ?case
    unfolding append_Cons scan_entries.simps wp_bnd
  proof (rule wp_mono [OF try_entry_skipped [OF assms(1)]])
    fix x s1
    assume "(case x of (ok, req') \<Rightarrow> \<lambda>s'. \<not> ok \<and> req' = req \<and> (\<exists>n k. s' = s\<lparr>l_asked := n, l_log := k\<rparr>)) s1"
    then obtain n k where x: "x = (False, req)" "s1 = s\<lparr>l_asked := n, l_log := k\<rparr>" by (cases x) auto
    show "wp (case x of (ok, req') \<Rightarrow> if ok then ret (Inr req') else cs_check L GetNextTuple (scan_entries L req' (ds @ e # es)))
        (\<lambda>r s'. r = Inr (le_window L) \<and> base_port1 s' = b \<and> l_card s' = l_card s \<and> l_state s' = l_state s) s1"
      using Cons.IH [of req "s1\<lparr>l_asked := n + 1, l_log := k @ [Cs GetNextTuple]\<rparr>"] Cons.prems assms(1) x
      by (simp add: wp_simps granting_def Let_def)
  qed (use Cons.prems in simp)
qed


lemma probe_wp:
  assumes "chip E base m V" "iobase c = base" "\<And>h. Q 0 (c\<lparr>c_hw := h\<rparr>)"
  shows "wp (ircard_probe E) Q c"
  using assms(2,3) by (simp add: ircard_probe_def wp_simps Let_def)

text \<open>What a successful configuration makes of a link.\<close>

definition configured :: "'h link_env \<Rightarrow> int \<Rightarrow> dev_flag set \<Rightarrow> nat \<Rightarrow> 'h link \<Rightarrow> bool" where
  "configured L b f n s \<longleftrightarrow> l_state s = f - {Dev_Config_Pending} \<and> iobase (l_card s) = b + 8 \<and> iobase2 (l_card s) = b \<and>
     membase (l_card s) = le_ioremap L (le_window L) \<and> baudrate (l_card s) = 9600 \<and> idev_magic (l_card s) \<and>
     hard_start_xmit (l_card s) = Irport_Xmit \<and> length (queue (tx_q (l_card s))) = n"

lemma setup_wp:
  assumes "chip (le_card L) (b + 8) (le_ioremap L (le_window L)) V" "base_port1 t = b"
    "f = l_state t" "n = length (queue (tx_q (l_card t)))"
  shows "wp (card_setup L (le_window L)) (\<lambda>r s'. r = Inr () \<and> configured L b f n s') t"
  unfolding card_setup_def wp_seq wp_bnd wp_gets wp_on_card wp_modify assms(2)
  by (rule probe_wp [OF assms(1)]) (simp_all add: wp_simps reset_queue_def configured_def assms(3,4))

lemma irq_wp:
  assumes "chip (le_card L) (b + 8) (le_ioremap L (le_window L)) V" "granting L" "base_port1 t = b"
    "f = l_state t" "n = length (queue (tx_q (l_card t)))"
  shows "wp (request_irq L (cs_check L RequestConfiguration (card_setup L (le_window L)))) (\<lambda>r s'. r = Inr () \<and> configured L b f n s') t"
  using assms(2-5)
  by (simp add: request_irq_def wp_simps Let_def granting_def setup_wp [OF assms(1)])

lemma config_succeeds:
  fixes L :: "'h link_env"
  assumes "granting L" "le_cis L = ds @ e # es" "list_all (\<lambda>d. cf_index d = 0) ds" "usable e b"
    "chip (le_card L) (b + 8) (le_ioremap L (le_window L)) V"
  shows "wp (ircard_config L) (\<lambda>_. configured L b (insert Dev_Config (l_state s)) (length (queue (tx_q (l_card s))))) s"
proof -
  let ?P = "\<lambda>r s'. r = Inr () \<and> configured L b (insert Dev_Config (l_state s)) (length (queue (tx_q (l_card s)))) s'"
  have "wp (scan_entries L (le_stale L) (le_cis L)) (\<lambda>r. wp (case r of Inl e \<Rightarrow> ret (Inl e)
      | Inr req \<Rightarrow> request_irq L (cs_check L RequestConfiguration (card_setup L req))) ?P) t"
    if "l_state t = insert Dev_Config (l_state s)" "l_card t = l_card s" for t
    unfolding assms(2)
  proof (rule wp_mono [OF scan_finds [OF assms(1,3,4)]])
    fix r :: "int checked" and s' :: "'h link"
    assume "r = Inr (le_window L) \<and> base_port1 s' = b \<and> l_card s' = l_card t \<and> l_state s' = l_state t"
    then show "wp (case r of Inl e \<Rightarrow> ret (Inl e)
      | Inr req \<Rightarrow> request_irq L (cs_check L RequestConfiguration (card_setup L req))) ?P s'"
      using irq_wp [OF assms(5,1), of s'] that by simp
  qed
  then have "wp (config_body L) ?P s"
    using assms(1) by (simp add: config_body_def wp_simps Let_def granting_def)
  then show ?thesis
    unfolding ircard_config_def wp_bnd by (rule wp_mono) (simp add: wp_simps)
qed

text \<open>C16: A card that is inserted comes into use. When Card Services grants the requests and the table of the card has an entry with ports and
  memory, behind any number of entries with index 0, the event of the insertion configures the device at the ports and the
  memory of that entry; after a change to a fast speed its transmit queue is ready.\<close>

theorem inserted_card_can_send:
  assumes "granting L" "le_cis L = ds @ e # es" "list_all (\<lambda>d. cf_index d = 0) ds" "usable e b"
    "chip (le_card L) (b + 8) (le_ioremap L (le_window L)) V" "length (queue (tx_q (l_card s))) = 8" "fast_mode speed = Some v"
  shows "\<exists>s1 c. ircard_event L Card_Insertion s = Inr (0, s1) \<and> {Dev_Present, Dev_Config} \<subseteq> l_state s1 \<and> Dev_Config_Pending \<notin> l_state s1 \<and>
    ircard_change_speed (le_card L) speed (l_card s1) = Inr ((), c) \<and>
    tx_rel (le_card L) (b + 8) (le_ioremap L (le_window L)) V c []"
proof -
  let ?s = "s\<lparr>l_state := l_state s \<union> {Dev_Present, Dev_Config_Pending}\<rparr>"
  have "wp (ircard_config L) (\<lambda>_. configured L b (insert Dev_Config (l_state ?s)) 8) ?s"
    using config_succeeds [OF assms(1-5), of ?s] assms(6) by simp
  then have "wp (ircard_event L Card_Insertion) (\<lambda>r s1. r = 0 \<and> configured L b (insert Dev_Config (l_state ?s)) 8 s1) s"
    unfolding ircard_event_def by (simp add: wp_simps) (erule wp_mono, simp add: wp_simps)
  then obtain s1 where s1: "ircard_event L Card_Insertion s = Inr (0, s1)" "configured L b (insert Dev_Config (l_state ?s)) 8 s1"
    using wpD by fastforce
  obtain c where "ircard_change_speed (le_card L) speed (l_card s1) = Inr ((), c)" "tx_rel (le_card L) (b + 8) (le_ioremap L (le_window L)) V c []"
    using wpD [OF change_speed_fast [OF assms(5) _ _ _ assms(7), of "l_card s1"]] s1(2) q_inv_reset assms(5)
    by (auto simp: configured_def tx_rel_def)
  with s1 show ?thesis by (auto simp: configured_def)
qed


definition demo_link_env :: "demo_card link_env" where
  "demo_link_env = \<lparr>le_card = demo_env, le_cs = (\<lambda>n f. 0), le_config = (0x100, 3),
     le_cis = [zero_entry\<lparr>cf_default := True, cf_vcc := Some 33000\<rparr>, zero_entry\<lparr>cf_index := 1, cf_io_win := [(0x300, 16)], cf_mem_win := [0]\<rparr>],
     le_window = 0xd0000, le_stale = 0, le_no_more = 1, le_ioremap = (\<lambda>a. 0x10000), le_irq = 3\<rparr>"

theorem inserted_card_can_send_witness:
  "\<exists>s1 c. ircard_event demo_link_env Card_Insertion (new_link 0 0xdeb8 (demo_state (\<lambda>a. 0))) = Inr (0, s1) \<and>
     ircard_change_speed demo_env 4000000 (l_card s1) = Inr ((), c) \<and> tx_rel demo_env 0x308 0x10000 demo_view c []"
  using inserted_card_can_send [of demo_link_env "[zero_entry\<lparr>cf_default := True, cf_vcc := Some 33000\<rparr>]"
      "zero_entry\<lparr>cf_index := 1, cf_io_win := [(0x300, 16)], cf_mem_win := [0]\<rparr>" "[]" "0x300" demo_view
      "new_link 0 0xdeb8 (demo_state (\<lambda>a. 0))" 4000000 "0x04"] demo_chip
  by (auto simp: demo_link_env_def granting_def usable_def zero_entry_def new_link_def demo_state_def fast_mode_def)

section \<open>Failed configuration\<close>

text \<open>
  The calls of Card Services a run makes: their answers, call by call from number \<open>n\<close> on, are 0 except where \<open>P\<close> allows an error.
\<close>

primrec answered :: "'h link_env \<Rightarrow> (cs_fn \<Rightarrow> bool) \<Rightarrow> nat \<Rightarrow> cs_fn list \<Rightarrow> bool" where
  "answered L P n [] \<longleftrightarrow> True"
| "answered L P n (f # fs) \<longleftrightarrow> (le_cs L n f = 0 \<or> P f) \<and> answered L P (n + 1) fs"

text \<open>The calls made for one entry of the table, where an error only means that the next entry is tried.\<close>

definition entry_call :: "cs_fn \<Rightarrow> bool" where
  "entry_call f \<longleftrightarrow> f \<in> {GetTupleData, ParseTuple, RequestIO, RequestWindow, MapMemPage}"

text \<open>The first four calls come before the table is read: no error is allowed there.\<close>

definition passed :: "'h link_env \<Rightarrow> nat \<Rightarrow> cs_fn list \<Rightarrow> bool" where
  "passed L n fs \<longleftrightarrow> answered L (\<lambda>f. False) n (take 4 fs) \<and> answered L entry_call (n + 4) (drop 4 fs)"

definition made :: "'h link \<Rightarrow> cs_fn list \<Rightarrow> 'h link \<Rightarrow> bool" where
  "made s fs s' \<longleftrightarrow> l_log s' = l_log s @ map Cs fs \<and> l_asked s' = l_asked s + length fs \<and> l_state s' = l_state s \<and>
     l_card s' = l_card s \<and> l_open s' = l_open s"

lemma answered_append: "answered L P n (fs @ gs) \<longleftrightarrow> answered L P n fs \<and> answered L P (n + length fs) gs"
  by (induction fs arbitrary: n) auto

lemma answered_entry: "list_all entry_call fs \<Longrightarrow> answered L entry_call n fs"
  by (induction fs arbitrary: n) auto

definition asks :: "('h, 'a) lprog \<Rightarrow> bool" where
  "asks p \<longleftrightarrow> (\<forall>s. wp p (\<lambda>x s'. \<exists>gs. made s gs s' \<and> list_all entry_call gs) s)"

lemma asks_ret: "asks (ret x)"
  by (auto simp: asks_def wp_simps made_def)

lemma asks_if: "(b \<Longrightarrow> asks p) \<Longrightarrow> (\<not> b \<Longrightarrow> asks q) \<Longrightarrow> asks (if b then p else q)"
  by simp

lemma asks_modify: "(\<And>s. made s [] (g s)) \<Longrightarrow> asks k \<Longrightarrow> asks (seq (modify g) k)"
  unfolding asks_def wp_seq wp_modify by (rule allI, rule wp_mono, erule spec) (auto simp: made_def)

lemma asks_cfg_check:
  fixes L :: "'a link_env"
  assumes "entry_call f" "asks k"
  shows "asks (cfg_check L f r k)"
  unfolding asks_def
proof
  fix s :: "'a link"
  let ?s = "s\<lparr>l_asked := l_asked s + 1, l_log := l_log s @ [Cs f]\<rparr>"
  have 1: "\<exists>gs. made s gs s' \<and> list_all entry_call gs" if "made ?s gs s'" "list_all entry_call gs" for gs s'
    using that assms(1) by (intro exI [of _ "f # gs"]) (auto simp: made_def)
  have "wp k (\<lambda>x s'. \<exists>gs. made ?s gs s' \<and> list_all entry_call gs) ?s"
    using assms(2) unfolding asks_def by (rule spec)
  then have "wp k (\<lambda>x s'. \<exists>gs. made s gs s' \<and> list_all entry_call gs) ?s"
    by (rule wp_mono) (use 1 in blast)
  then show "wp (cfg_check L f r k) (\<lambda>x s'. \<exists>gs. made s gs s' \<and> list_all entry_call gs) s"
    using 1 [of "[]" ?s] by (simp add: wp_cfg_check Let_def made_def)
qed

lemma asks_try_entry: "asks (try_entry L r e)"
  unfolding try_entry_def Let_def
  by (intro asks_cfg_check asks_if asks_ret asks_modify)
    (auto simp: entry_call_def made_def entry_power_def entry_io_def set_io_def split: list.split)

text \<open>The call that ends the scan with an error: one that failed, or the search behind the last entry.\<close>

definition failing :: "'h link_env \<Rightarrow> nat \<Rightarrow> cs_fn list \<Rightarrow> nat \<Rightarrow> cs_fn \<Rightarrow> int \<Rightarrow> bool" where
  "failing L n hs k f e \<longleftrightarrow> e \<noteq> 0 \<and>
     (e = le_cs L (n + length hs) f \<or> f = GetNextTuple \<and> e = le_no_more L \<and> count_list hs GetNextTuple + 1 = k)"

definition scanned :: "'h link_env \<Rightarrow> 'h link \<Rightarrow> nat \<Rightarrow> int checked \<Rightarrow> 'h link \<Rightarrow> bool" where
  "scanned L s k x s' \<longleftrightarrow> (\<exists>hs. answered L entry_call (l_asked s) hs \<and>
     (case x of Inr _ \<Rightarrow> made s hs s' | Inl (f, e) \<Rightarrow> made s (hs @ [f]) s' \<and> failing L (l_asked s) hs k f e))"

lemma entry_no_next: "list_all entry_call gs \<Longrightarrow> count_list gs GetNextTuple = 0"
  by (induction gs) (auto simp: entry_call_def)

lemma scanned_step:
  assumes m: "made s gs s1" "list_all entry_call gs" and z: "le_cs L (l_asked s1) GetNextTuple = 0"
    and c: "scanned L (s1\<lparr>l_asked := l_asked s1 + 1, l_log := l_log s1 @ [Cs GetNextTuple]\<rparr>) k x s'"
  shows "scanned L s (Suc k) x s'"
proof -
  let ?s = "s1\<lparr>l_asked := l_asked s1 + 1, l_log := l_log s1 @ [Cs GetNextTuple]\<rparr>"
  obtain hs where hs: "answered L entry_call (l_asked ?s) hs"
    "case x of Inr _ \<Rightarrow> made ?s hs s' | Inl (f, e) \<Rightarrow> made ?s (hs @ [f]) s' \<and> failing L (l_asked ?s) hs k f e"
    using c unfolding scanned_def by blast
  have a: "l_asked s1 = l_asked s + length gs" using m(1) by (simp add: made_def)
  have "answered L entry_call (l_asked s) (gs @ GetNextTuple # hs)"
    using answered_entry [OF m(2)] z hs(1) a by (simp add: answered_append)
  moreover have "case x of Inr _ \<Rightarrow> made s (gs @ GetNextTuple # hs) s'
     | Inl (f, e) \<Rightarrow> made s ((gs @ GetNextTuple # hs) @ [f]) s' \<and> failing L (l_asked s) (gs @ GetNextTuple # hs) (Suc k) f e"
    using hs(2) m(1) entry_no_next [OF m(2)]
    by (auto simp: made_def failing_def add.assoc split: sum.splits prod.splits)
  ultimately show ?thesis unfolding scanned_def by blast
qed

lemma scan_calls: "es \<noteq> [] \<Longrightarrow> le_no_more L \<noteq> 0 \<Longrightarrow> wp (scan_entries L r es) (scanned L s (length es)) s"
proof (induction es arbitrary: r s)
  case (Cons e es)
  let ?n = "\<lambda>s1 :: 'a link. s1\<lparr>l_asked := l_asked s1 + 1, l_log := l_log s1 @ [Cs GetNextTuple]\<rparr>"
  have "wp (case x of (ok, r') \<Rightarrow> if ok then ret (Inr r') else cs_check L GetNextTuple (scan_entries L r' es)) (scanned L s (length (e # es))) s1"
    if m: "made s gs s1" "list_all entry_call gs" for x gs s1
  proof -
    obtain ok r' where x: "x = (ok, r')" by fastforce
    have a: "answered L entry_call (l_asked s) gs" by (rule answered_entry [OF m(2)])
    have n: "made s (gs @ [GetNextTuple]) (?n s1)" "l_asked s1 = l_asked s + length gs" using m(1) by (auto simp: made_def)
    have ok: "scanned L s (length (e # es)) (Inr r') s1" using a m(1) by (auto simp: scanned_def)
    have fail: "scanned L s (length (e # es)) (Inl (GetNextTuple, le_cs L (l_asked s1) GetNextTuple)) (?n s1)"
      if "le_cs L (l_asked s1) GetNextTuple \<noteq> 0"
      using that a n by (auto simp: scanned_def failing_def)
    have rest: "wp (scan_entries L r' es) (scanned L s (length (e # es))) (?n s1)" if z: "le_cs L (l_asked s1) GetNextTuple = 0"
    proof (cases "es = []")
      case True
      with a n Cons.prems(2) entry_no_next [OF m(2)] show ?thesis by (auto simp: wp_simps scanned_def failing_def)
    next
      case False
      from wp_mono [OF Cons.IH [OF False Cons.prems(2), of r' "?n s1"]] scanned_step [OF m z]
      show ?thesis by simp
    qed
    show ?thesis using ok fail rest by (simp add: x wp_simps Let_def)
  qed
  then show ?case
    unfolding scan_entries.simps wp_bnd using asks_try_entry unfolding asks_def by (blast intro: wp_mono)
qed simp

text \<open>How the body ends, and the states it reaches behind the first four calls.\<close>

definition configuration_ends :: "'h link_env \<Rightarrow> 'h link \<Rightarrow> unit checked \<Rightarrow> 'h link \<Rightarrow> bool" where
  "configuration_ends L s x s1 \<longleftrightarrow> (\<exists>hs f. passed L (l_asked s) hs \<and>
     (case x of
        Inr _ \<Rightarrow> f = RequestConfiguration \<and> le_cs L (l_asked s + length hs) f = 0 \<and>
          l_log s1 = l_log s @ map Cs hs @ [Cs f, Irda_Device_Open] \<and> l_state s1 = insert Dev_Config (l_state s) - {Dev_Config_Pending}
      | Inl (g, e) \<Rightarrow> g = f \<and> failing L (l_asked s) hs (length (le_cis L)) f e \<and> l_log s1 = l_log s @ map Cs hs @ [Cs f] \<and>
          l_state s1 - {Dev_Config} = l_state s - {Dev_Config} \<and> l_card s1 = l_card s \<and> l_open s1 = l_open s))"

definition reached :: "'h link_env \<Rightarrow> 'h link \<Rightarrow> cs_fn list \<Rightarrow> 'h link \<Rightarrow> bool" where
  "reached L s hs s1 \<longleftrightarrow> passed L (l_asked s) hs \<and> 4 \<le> length hs \<and> made (s\<lparr>l_state := insert Dev_Config (l_state s)\<rparr>) hs s1"

lemma passed_append:
  "4 \<le> length hs \<Longrightarrow> passed L n (hs @ gs) \<longleftrightarrow> passed L n hs \<and> answered L entry_call (n + length hs) gs"
  by (auto simp: passed_def answered_append)

lemma passed_early: "length hs < 4 \<Longrightarrow> passed L n hs = answered L (\<lambda>f. False) n hs"
  by (simp add: passed_def)

lemma call_fails:
  assumes "reached L s hs s1" "le_cs L (l_asked s1) f \<noteq> 0"
  shows "configuration_ends L s (Inl (f, le_cs L (l_asked s1) f)) (s1\<lparr>l_asked := l_asked s1 + 1, l_log := l_log s1 @ [Cs f]\<rparr>)"
  using assms unfolding configuration_ends_def
  by (intro exI [of _ hs] exI [of _ f]) (auto simp: reached_def made_def failing_def)

lemma call_succeeds:
  assumes "reached L s hs s1" "le_cs L (l_asked s1) f = 0"
  shows "reached L s (hs @ [f]) (s1\<lparr>l_asked := l_asked s1 + 1, l_log := l_log s1 @ [Cs f]\<rparr>)"
  using assms by (auto simp: reached_def made_def passed_append)

lemma request_configuration_ends:
  fixes L :: "'h link_env"
  assumes "reached L s hs s1"
  shows "wp (cs_check L RequestConfiguration (card_setup L req)) (configuration_ends L s) s1"
proof -
  let ?s = "s1\<lparr>l_asked := l_asked s1 + 1, l_log := l_log s1 @ [Cs RequestConfiguration]\<rparr>"
  have "wp (card_setup L req) (configuration_ends L s) ?s" if "le_cs L (l_asked s1) RequestConfiguration = 0"
    using assms that
    by (simp add: card_setup_def ircard_probe_def wp_simps Let_def configuration_ends_def)
      (intro exI [of _ hs], auto simp: reached_def made_def)
  then show ?thesis using call_fails [OF assms] by (simp add: wp_simps Let_def)
qed

lemma irq_ends:
  assumes "reached L s hs s1"
  shows "wp (request_irq L (cs_check L RequestConfiguration (card_setup L req))) (configuration_ends L s) s1"
proof -
  let ?s = "s1\<lparr>l_asked := l_asked s1 + 1, l_log := l_log s1 @ [Cs RequestIRQ]\<rparr>"
  have "wp (cs_check L RequestConfiguration (card_setup L req)) (configuration_ends L s) (?s\<lparr>assigned_irq := le_irq L\<rparr>)"
    if "le_cs L (l_asked s1) RequestIRQ = 0"
    by (rule request_configuration_ends [where hs = "hs @ [RequestIRQ]"]) (use call_succeeds [OF assms that] in \<open>simp add: reached_def made_def\<close>)
  then show ?thesis
    unfolding request_irq_def wp_bnd wp_gets wp_if wp_cs_check [of L RequestIRQ] Let_def wp_seq wp_modify
    using request_configuration_ends [OF assms] call_fails [OF assms, of RequestIRQ] by presburger
qed

lemma scan_ends:
  assumes "reached L s hs t" "count_list hs GetNextTuple = 0" "le_cis L \<noteq> []" "le_no_more L \<noteq> 0"
  shows "wp (bnd (scan_entries L r (le_cis L)) (\<lambda>x. case x of Inl e \<Rightarrow> ret (Inl e)
     | Inr req \<Rightarrow> request_irq L (cs_check L RequestConfiguration (card_setup L req)))) (configuration_ends L s) t"
  unfolding wp_bnd
proof (rule wp_mono [OF scan_calls [OF assms(3,4)]])
  fix x s1
  assume "scanned L t (length (le_cis L)) x s1"
  then obtain gs where gs: "answered L entry_call (l_asked t) gs"
    "case x of Inr _ \<Rightarrow> made t gs s1 | Inl (f, e) \<Rightarrow> made t (gs @ [f]) s1 \<and> failing L (l_asked t) gs (length (le_cis L)) f e"
    unfolding scanned_def by blast
  have p: "passed L (l_asked s) (hs @ gs)" "l_asked t = l_asked s + length hs" "4 \<le> length hs"
    using assms(1) gs(1) by (auto simp: reached_def made_def passed_append)
  show "wp (case x of Inl e \<Rightarrow> ret (Inl e) | Inr req \<Rightarrow> request_irq L (cs_check L RequestConfiguration (card_setup L req)))
    (configuration_ends L s) s1"
  proof (cases x)
    case (Inl fe)
    obtain f e where fe: "fe = (f, e)" by fastforce
    have "failing L (l_asked s) (hs @ gs) (length (le_cis L)) f e"
      using gs(2) p(2) assms(2) by (auto simp: Inl fe failing_def add.assoc)
    then show ?thesis
      using gs(2) p assms(1) unfolding Inl fe sum.case wp_ret configuration_ends_def prod.case
      by (intro exI [of _ "hs @ gs"] exI [of _ f]) (auto simp: reached_def made_def)
  next
    case (Inr req)
    have "reached L s (hs @ gs) s1" using gs(2) p assms(1) by (auto simp: Inr reached_def made_def)
    then show ?thesis using irq_ends by (simp add: Inr)
  qed
qed

lemma config_body_ends:
  assumes "le_cis L \<noteq> []" "le_no_more L \<noteq> 0"
  shows "wp (config_body L) (configuration_ends L s) s"
proof -
  let ?four = "[GetFirstTuple, GetTupleData, ParseTuple, GetFirstTuple]"
  have early: "configuration_ends L s (Inl (f, le_cs L (l_asked s + length hs) f)) s1"
    if "answered L (\<lambda>f. False) (l_asked s) hs" "length hs < 4" "le_cs L (l_asked s + length hs) f \<noteq> 0"
      "l_log s1 = l_log s @ map Cs hs @ [Cs f]" "l_state s1 - {Dev_Config} = l_state s - {Dev_Config}" "l_card s1 = l_card s" "l_open s1 = l_open s"
    for hs f s1
    using that unfolding configuration_ends_def by (intro exI [of _ hs] exI [of _ f]) (auto simp: passed_early failing_def)
  have "wp (bnd (scan_entries L (le_stale L) (le_cis L)) (\<lambda>x. case x of Inl e \<Rightarrow> ret (Inl e)
     | Inr req \<Rightarrow> request_irq L (cs_check L RequestConfiguration (card_setup L req)))) (configuration_ends L s) t"
    if "answered L (\<lambda>f. False) (l_asked s) ?four" "made (s\<lparr>l_state := insert Dev_Config (l_state s)\<rparr>) ?four t" for t
    by (rule scan_ends [OF _ _ assms, where hs = ?four]) (use that in \<open>simp_all add: reached_def passed_def\<close>)
  then show ?thesis
    unfolding config_body_def wp_cs_check wp_seq wp_modify wp_link Let_def
    using early [of "[]" GetFirstTuple] early [of "[GetFirstTuple]" GetTupleData] early [of "[GetFirstTuple, GetTupleData]" ParseTuple]
      early [of "[GetFirstTuple, GetTupleData, ParseTuple]" GetFirstTuple]
    by (simp add: made_def)
qed

text \<open>C25: The configuration of a card always returns, and it ends in one of two ways. Either all calls of Card Services it depends on succeed; then
  the last of them is the request for the configuration, the network device is opened and the device counts as configured. Or the first of them that
  fails is the last one made before the clean-up: the report names this call and the value it gave, then window,
  mapping, configuration, ports and interrupt are released in this order, and of the flags of the device
  all are as before but that it counts as neither configured nor waiting for its release (so the mark of a pending configuration stays). A search behind the last of the
  entries counts as a failed call; errors of the calls made for one entry only lead to the next entry. The card has at least one
  entry, the search behind the last one gives an error, and the device is not open.\<close>

theorem failed_configuration_released:
  assumes "\<not> l_open s" "le_cis L \<noteq> []" "le_no_more L \<noteq> 0"
  shows "\<exists>s' hs f. ircard_config L s = Inr ((), s') \<and> passed L (l_asked s) hs \<and>
    (f = RequestConfiguration \<and> le_cs L (l_asked s + length hs) f = 0 \<and>
       l_log s' = l_log s @ map Cs hs @ [Cs f, Irda_Device_Open] \<and> l_state s' = insert Dev_Config (l_state s) - {Dev_Config_Pending} \<or>
     (\<exists>e. failing L (l_asked s) hs (length (le_cis L)) f e \<and>
       l_log s' = l_log s @ map Cs hs @ [Cs f, Report_Error f e, Cs ReleaseWindow, Iounmap (membase (l_card s)), Cs ReleaseConfiguration,
         Cs ReleaseIO, Cs ReleaseIRQ] \<and>
       l_state s' = l_state s - {Dev_Config, Dev_Release_Pending}))"
proof -
  obtain x s1 where x: "config_body L s = Inr (x, s1)" "configuration_ends L s x s1"
    using wpD [OF config_body_ends [OF assms(2,3)]] by blast
  then obtain hs f where h: "passed L (l_asked s) hs"
    "case x of
        Inr _ \<Rightarrow> f = RequestConfiguration \<and> le_cs L (l_asked s + length hs) f = 0 \<and>
          l_log s1 = l_log s @ map Cs hs @ [Cs f, Irda_Device_Open] \<and> l_state s1 = insert Dev_Config (l_state s) - {Dev_Config_Pending}
      | Inl (g, e) \<Rightarrow> g = f \<and> failing L (l_asked s) hs (length (le_cis L)) f e \<and> l_log s1 = l_log s @ map Cs hs @ [Cs f] \<and>
          l_state s1 - {Dev_Config} = l_state s - {Dev_Config} \<and> l_card s1 = l_card s \<and> l_open s1 = l_open s"
    unfolding configuration_ends_def by blast
  show ?thesis
  proof (cases x)
    case (Inr u)
    with x(1) h show ?thesis
      by (intro exI [of _ s1] exI [of _ hs] exI [of _ f]) (auto simp: ircard_config_def bnd_def skip_def ret_def)
  next
    case (Inl fe)
    then obtain e where e: "x = Inl (f, e)" "failing L (l_asked s) hs (length (le_cis L)) f e" "l_log s1 = l_log s @ map Cs hs @ [Cs f]"
      "l_state s1 - {Dev_Config} = l_state s - {Dev_Config}" "l_card s1 = l_card s" "l_open s1 = l_open s"
      using h(2) by (cases fe) auto
    have d: "l_state s1 - {Dev_Config, Dev_Release_Pending} = l_state s - {Dev_Config, Dev_Release_Pending}" using e(4) by blast
    obtain s' where s': "ircard_release L (s1\<lparr>l_log := l_log s1 @ [Report_Error f e]\<rparr>) = Inr ((), s')"
      "l_state s' = l_state s1 - {Dev_Config, Dev_Release_Pending}"
      "l_log s' = l_log s1 @ [Report_Error f e, Cs ReleaseWindow, Iounmap (membase (l_card s1)), Cs ReleaseConfiguration, Cs ReleaseIO, Cs ReleaseIRQ]"
      using release_run [of "s1\<lparr>l_log := l_log s1 @ [Report_Error f e]\<rparr>" L] e(6) assms(1) by auto
    have "ircard_config L s = Inr ((), s')"
      using x(1) s'(1) by (simp add: e(1) ircard_config_def bnd_def seq_def record_call_def modify_def)
    with h(1) e(2,3,5) s'(2,3) d show ?thesis by (intro exI [of _ s'] exI [of _ hs] exI [of _ f]) auto
  qed
qed

theorem failed_configuration_released_witness:
  "\<exists>s' f. ircard_config (demo_link_env\<lparr>le_cs := (\<lambda>n f. 7)\<rparr>) (new_link 0 0xdeb8 (demo_state (\<lambda>a. 0))) = Inr ((), s') \<and>
     l_log s' = [Cs f, Report_Error f 7, Cs ReleaseWindow, Iounmap 0x10000, Cs ReleaseConfiguration, Cs ReleaseIO, Cs ReleaseIRQ] \<and>
     l_state s' = {}"
proof -
  let ?L = "demo_link_env\<lparr>le_cs := (\<lambda>n f. 7)\<rparr>"
  let ?s = "new_link 0 0xdeb8 (demo_state (\<lambda>a. 0))"
  have h: "\<not> l_open ?s" "le_cis ?L \<noteq> []" "le_no_more ?L \<noteq> 0" by (simp_all add: new_link_def demo_link_env_def)
  have v: "l_asked ?s = 0" "l_log ?s = []" "l_state ?s = {}" "membase (l_card ?s) = 0x10000" "length (le_cis ?L) = 2" "le_cs ?L n g = 7" for n g
    by (simp_all add: new_link_def demo_state_def demo_link_env_def)
  obtain s' hs f e where r: "ircard_config ?L ?s = Inr ((), s')" "passed ?L 0 hs" "failing ?L 0 hs 2 f e" "l_state s' = {}"
    "l_log s' = map Cs hs @ [Cs f, Report_Error f e, Cs ReleaseWindow, Iounmap 0x10000, Cs ReleaseConfiguration, Cs ReleaseIO, Cs ReleaseIRQ]"
    using failed_configuration_released [OF h] unfolding v by auto
  have "hs = []" using r(2) by (cases hs) (auto simp: passed_def)
  with r show ?thesis by (auto simp: failing_def)
qed

section \<open>Defaults of the table\<close>

text \<open>C40: The settings of a default entry of the table get lost: the variable that is meant to hold them is cleared in every turn of the loop. Behind a
  default entry an entry that gives neither voltage nor ports is used with the voltage the link had before and with no ports.\<close>

theorem default_entry_forgotten:
  assumes "granting L" "cf_default d" "cf_index d = 0" "\<not> cf_default e" "cf_index e \<noteq> 0" "cf_vcc e = None" "cf_io_win e = []"
  shows "\<exists>req s'. scan_entries L r [d, e] s = Inr (Inr req, s') \<and> conf_vcc s' = conf_vcc s \<and> num_ports1 s' = 0"
proof -
  have "wp (scan_entries L r [d, e]) (\<lambda>x s'. (\<exists>req. x = Inr req) \<and> conf_vcc s' = conf_vcc s \<and> num_ports1 s' = 0) s"
    using assms by (simp add: wp_simps try_entry_def Let_def granting_def entry_io_def set_io_def entry_power_def rescaled_def zero_entry_def)
  then show ?thesis using wpD by fastforce
qed

theorem default_entry_forgotten_witness:
  "\<exists>req s'. scan_entries demo_link_env 0 [zero_entry\<lparr>cf_default := True, cf_vcc := Some 33000, cf_io_win := [(0x300, 16)]\<rparr>, zero_entry\<lparr>cf_index := 1\<rparr>]
     (new_link 0 0xdeb8 (demo_state (\<lambda>a. 0))) = Inr (Inr req, s') \<and> conf_vcc s' = 50 \<and> num_ports1 s' = 0"
  using default_entry_forgotten [of demo_link_env "zero_entry\<lparr>cf_default := True, cf_vcc := Some 33000, cf_io_win := [(0x300, 16)]\<rparr>"
      "zero_entry\<lparr>cf_index := 1\<rparr>" 0 "new_link 0 0xdeb8 (demo_state (\<lambda>a. 0))"]
  by (auto simp: granting_def demo_link_env_def zero_entry_def new_link_def)


section \<open>Detaching and unloading\<close>

lemma detach_link_run:
  assumes "Dev_Config \<notin> l_state l"
  shows "\<exists>l'. detach_link L l = Inr (True, l') \<and> l_id l' = l_id l \<and> last (l_log l') = Irda_Device_Close"
proof -
  have "wp (detach_link L) (\<lambda>r l'. r \<and> l_id l' = l_id l \<and> last (l_log l') = Irda_Device_Close) l"
    using assms by (simp add: detach_link_def wp_simps)
  then show ?thesis using wpD by fastforce
qed

text \<open>A device that is detached while it is configured is never freed: detaching only marks it, and the release that follows, which is meant
  to finish the work, does not look at the mark.\<close>

theorem stale_link_stays:
  assumes "dev_list s = l # ls" "Dev_Config \<in> l_state l" "\<not> l_open l"
  shows "\<exists>s1 l1 l2. ircard_detach L (l_id l) s = Inr ((), s1) \<and> dev_list s1 = l1 # ls \<and> detached s1 = detached s \<and>
    ircard_release L l1 = Inr ((), l2) \<and> l_id l2 = l_id l \<and> Dev_Stale_Link \<in> l_state l2 \<and> Dev_Config \<notin> l_state l2"
proof -
  let ?l = "l\<lparr>l_state := insert Dev_Stale_Link (l_state l)\<rparr>"
  have "detach_link L l = Inr (False, ?l)"
    using assms(2) by (simp add: detach_link_def set_flags_def prog_defs)
  moreover have "\<not> l_open ?l" using assms(3) by simp
  from release_run [OF this, of L] obtain l2 where "ircard_release L ?l = Inr ((), l2)" "l_id l2 = l_id l"
    "l_state l2 = insert Dev_Stale_Link (l_state l) - {Dev_Config, Dev_Release_Pending}" by auto
  ultimately show ?thesis using assms(1) by (auto simp: ircard_detach_def)
qed

theorem stale_link_stays_witness:
  "\<exists>s1 l1 l2. ircard_detach demo_link_env 0
       \<lparr>dev_list = [(new_link 0 0xdeb8 (demo_state (\<lambda>a. 0)))\<lparr>l_state := {Dev_Present, Dev_Config}\<rparr>], next_id = 1, detached = [], registered = True\<rparr> = Inr ((), s1) \<and>
     dev_list s1 = [l1] \<and> ircard_release demo_link_env l1 = Inr ((), l2) \<and> Dev_Stale_Link \<in> l_state l2"
  using stale_link_stays [of "\<lparr>dev_list = [(new_link 0 0xdeb8 (demo_state (\<lambda>a. 0)))\<lparr>l_state := {Dev_Present, Dev_Config}\<rparr>], next_id = 1, detached = [], registered = True\<rparr>"
      "(new_link 0 0xdeb8 (demo_state (\<lambda>a. 0)))\<lparr>l_state := {Dev_Present, Dev_Config}\<rparr>" "[]" demo_link_env]
  by (auto simp: new_link_def)

lemma cleanup_step:
  assumes "dev_list s = l # ls" "\<not> l_open l"
  shows "\<exists>l'. cleanup_loop L s = cleanup_loop L (s\<lparr>dev_list := ls, detached := detached s @ [l']\<rparr>) \<and> l_id l' = l_id l \<and>
    last (l_log l') = Irda_Device_Close"
proof -
  obtain l1 where l1: "(if Dev_Config \<in> l_state l then ircard_release L l else Inr ((), l)) = Inr ((), l1)"
    "Dev_Config \<notin> l_state l1" "l_id l1 = l_id l"
    using release_run [OF assms(2), of L] by (cases "Dev_Config \<in> l_state l") auto
  obtain l2 where "detach_link L l1 = Inr (True, l2)" "l_id l2 = l_id l1" "last (l_log l2) = Irda_Device_Close"
    using detach_link_run [OF l1(2)] by blast
  with l1 assms(1) show ?thesis by (subst cleanup_loop.simps) (auto simp: ircard_detach_def)
qed

text \<open>C35: Unloading of the module ends: when no device is open every device is released and detached, in the order of the list, and the list
  is empty afterwards.\<close>

theorem module_unloads:
  assumes "list_all (\<lambda>l. \<not> l_open l) (dev_list s)"
  shows "\<exists>s'. cleanup_module L s = Some (Inr s') \<and> dev_list s' = [] \<and> \<not> registered s' \<and>
    map l_id (detached s') = map l_id (detached s) @ map l_id (dev_list s)"
proof -
  have "\<exists>s'. cleanup_loop L t = Some (Inr s') \<and> dev_list s' = [] \<and> registered s' = registered t \<and>
      map l_id (detached s') = map l_id (detached t) @ map l_id ls"
    if "dev_list t = ls" "list_all (\<lambda>l. \<not> l_open l) ls" for t ls
    using that
  proof (induction ls arbitrary: t)
    case Nil
    then show ?case by (subst cleanup_loop.simps) simp
  next
    case (Cons l ls)
    then obtain l' where l': "cleanup_loop L t = cleanup_loop L (t\<lparr>dev_list := ls, detached := detached t @ [l']\<rparr>)" "l_id l' = l_id l"
      using cleanup_step [of t l ls L] by auto
    show ?case using Cons.IH [of "t\<lparr>dev_list := ls, detached := detached t @ [l']\<rparr>"] Cons.prems(2) l' by auto
  qed
  from this [of "s\<lparr>registered := False\<rparr>"] assms show ?thesis by (simp add: cleanup_module_def)
qed

theorem module_unloads_witness:
  "\<exists>s'. cleanup_module demo_link_env \<lparr>dev_list = [(new_link 4 0xdeb8 (demo_state (\<lambda>a. 0)))\<lparr>l_state := {Dev_Present, Dev_Config}\<rparr>,
       new_link 2 0xdeb8 (demo_state (\<lambda>a. 0))], next_id = 5, detached = [], registered = True\<rparr> = Some (Inr s') \<and> dev_list s' = [] \<and> map l_id (detached s') = [4, 2]"
  using module_unloads [of "\<lparr>dev_list = [(new_link 4 0xdeb8 (demo_state (\<lambda>a. 0)))\<lparr>l_state := {Dev_Present, Dev_Config}\<rparr>,
       new_link 2 0xdeb8 (demo_state (\<lambda>a. 0))], next_id = 5, detached = [], registered = True\<rparr>" demo_link_env]
  by (auto simp: new_link_def)

text \<open>With an open device at the head of the list the loop does not end.\<close>

lemma open_card_blocks_unload:
  assumes "dev_list s = l # ls" "l_open l" "Dev_Config \<in> l_state l"
  shows "cleanup_module L s = None"
proof -
  have loop: "\<forall>l ls. dev_list s = l # ls \<longrightarrow> \<not> (l_open l \<and> Dev_Config \<in> l_state l)" if "cleanup_loop L s = Some r" for L :: "'a link_env" and s r
  proof (rule cleanup_loop.raw_induct [OF _ that], intro allI impI notI)
    fix loop r l ls and L :: "'a link_env" and s :: "'a pc_module"
    assume IH: "\<And>L s r. loop L s = Some r \<Longrightarrow> \<forall>l ls. dev_list s = l # ls \<longrightarrow> \<not> (l_open l \<and> Dev_Config \<in> l_state l)"
      and step: "(case dev_list s of [] \<Rightarrow> Some (Inr s)
        | l # ls \<Rightarrow> (case (if Dev_Config \<in> l_state l then ircard_release L l else Inr ((), l)) of Inl e \<Rightarrow> Some (Inl e)
           | Inr (_, l') \<Rightarrow> (case ircard_detach L (l_id l') (s\<lparr>dev_list := l' # ls\<rparr>) of Inl e \<Rightarrow> Some (Inl e)
              | Inr (_, s') \<Rightarrow> loop L s'))) = Some r"
      and o: "dev_list s = l # ls" "l_open l \<and> Dev_Config \<in> l_state l"
    let ?l = "l\<lparr>l_state := insert Dev_Stale_Link (insert Dev_Stale_Config (l_state l))\<rparr>"
    have "ircard_release L l = Inr ((), l\<lparr>l_state := insert Dev_Stale_Config (l_state l)\<rparr>)"
      using o by (simp add: ircard_release_def set_flags_def prog_defs)
    moreover have "detach_link L (l\<lparr>l_state := insert Dev_Stale_Config (l_state l)\<rparr>) = Inr (False, ?l)"
      using o by (simp add: detach_link_def set_flags_def prog_defs)
    ultimately have "loop L (s\<lparr>dev_list := ?l # ls\<rparr>) = Some r"
      using step o by (simp add: ircard_detach_def)
    from IH [OF this] o show False by simp
  qed
  show ?thesis
    using loop [of L "s\<lparr>registered := False\<rparr>"] assms unfolding cleanup_module_def
    by (cases "cleanup_loop L (s\<lparr>registered := False\<rparr>)") auto
qed

text \<open>A list of interrupts with fewer than four entries lets in interrupt 0, the value of the entries that are not given.\<close>

lemma short_irq_list_has_irq0: "n \<noteq> -1 \<Longrightarrow> bit (irq_choice msk [n, 0, 0, 0]) 0"
  by (simp add: irq_choice_def upt_rec numeral_eq_Suc bit_simps)

end
