(* ===== verification/Irnetd.thy ===== *)
theory Irnetd
  imports C_Prelude
begin

text \<open>
  The daemon that answers connections of IrNET, \<^verbatim>\<open>irda-utils/irnetd/irnetd.c\<close>: it builds a command for \<^verbatim>\<open>pppd\<close>, reads events from
  \<^verbatim>\<open>/dev/irnet\<close> and runs the command for every request. What \<^verbatim>\<open>fgets\<close> gives is an argument, as is what the line buffer holds before the
  first event. The message on the standard error is left out.
\<close>

section \<open>Model\<close>

definition cmd1 :: string where "cmd1 = ''pppd /dev/irnet 9600 local ''"
definition cmd2 :: string where "cmd2 = ''noauth nolock connect-delay 0 idle 10 ''"
definition cmd3 :: string where "cmd3 = ''connect '' @ [CHR 0x22] @ ''echo addr ''"
definition aux :: string where "aux = ''01235678'' @ [CHR 0x22]"

text \<open>\<^verbatim>\<open>strcat\<close> to the array of 255 characters.\<close>

definition strcat_cmd :: "string \<Rightarrow> string \<Rightarrow> c_fault + string" where
  "strcat_cmd t u = (if length t + length u < 255 then Inr (t @ u) else Inl (Local_Bounds ''cmd'' 255))"

fun add_args :: "string list \<Rightarrow> string \<Rightarrow> c_fault + string" where
  "add_args [] t = Inr t"
| "add_args (a # as) t =
     (case strcat_cmd t a of Inl e \<Rightarrow> Inl e
      | Inr t1 \<Rightarrow> (case strcat_cmd t1 '' '' of Inl e \<Rightarrow> Inl e | Inr t2 \<Rightarrow> add_args as t2))"

text \<open>The command, and the place of the address in it.\<close>

definition build_command :: "string list \<Rightarrow> c_fault + string \<times> nat" where
  "build_command args =
     (case (if args = [] then strcat_cmd cmd1 cmd2 else add_args args cmd1) of Inl e \<Rightarrow> Inl e
      | Inr t \<Rightarrow> (case strcat_cmd t cmd3 of Inl e \<Rightarrow> Inl e
         | Inr t1 \<Rightarrow> (case strcat_cmd t1 aux of Inl e \<Rightarrow> Inl e | Inr t2 \<Rightarrow> Inr (t2, length t1))))"

record irnetd =
  nd_cmd :: string
  nd_line :: string
  nd_ran :: "string list"

definition store_line :: "string option \<Rightarrow> string \<Rightarrow> string" where
  "store_line r buf = (case r of None \<Rightarrow> buf | Some t \<Rightarrow> t @ [CHR 0x00] @ drop (length t + 1) buf)"

definition irnetd_event :: "nat \<Rightarrow> string option \<Rightarrow> irnetd \<Rightarrow> irnetd" where
  "irnetd_event endp r s =
     (let buf = store_line r (nd_line s)
      in if is_prefix ''Req'' buf
         then
           let c = take endp (nd_cmd s) @ map (\<lambda>i. buf ! (i + 13)) [0..<8] @ drop (endp + 8) (nd_cmd s)
           in s\<lparr>nd_line := buf, nd_cmd := c, nd_ran := nd_ran s @ [c_str c]\<rparr>
         else s\<lparr>nd_line := buf\<rparr>)"

text \<open>The program up to the events \<open>rs\<close>; \<open>Inr (Inl r)\<close> where it returns.\<close>

definition irnetd_main :: "string list \<Rightarrow> bool \<Rightarrow> string \<Rightarrow> string option list \<Rightarrow> c_fault + int + irnetd" where
  "irnetd_main args opened garbage rs =
     (case build_command args of
        Inl e \<Rightarrow> Inl e
      | Inr (c, endp) \<Rightarrow>
          if \<not> opened then Inr (Inl (-1))
          else Inr (Inr (fold (irnetd_event endp) rs \<lparr>nd_cmd = c, nd_line = garbage, nd_ran = []\<rparr>)))"

section \<open>The command\<close>

definition options_text :: "string list \<Rightarrow> string" where
  "options_text args = (if args = [] then cmd2 else concat (map (\<lambda>a. a @ '' '') args))"

text \<open>The command for an address.\<close>

definition pppd_command :: "string list \<Rightarrow> string \<Rightarrow> string" where
  "pppd_command args a = cmd1 @ options_text args @ cmd3 @ a @ [CHR 0x22]"

lemma add_args_eq:
  "add_args as t = (if as = [] \<or> length t + length (concat (map (\<lambda>a. a @ '' '') as)) < 255
    then Inr (t @ concat (map (\<lambda>a. a @ '' '') as)) else Inl (Local_Bounds ''cmd'' 255))"
  by (induction as arbitrary: t) (auto simp: strcat_cmd_def)

lemma build_command_eq:
  "build_command args = (if length (options_text args) < 200
    then Inr (pppd_command args ''01235678'', 46 + length (options_text args)) else Inl (Local_Bounds ''cmd'' 255))"
  by (auto simp: build_command_def strcat_cmd_def add_args_eq options_text_def pppd_command_def cmd1_def cmd2_def cmd3_def aux_def)

section \<open>Requests are answered\<close>

text \<open>Lines of the channel: a request with its address, or another event. A line fits into the buffer and has no terminator in it.\<close>

datatype irnet_event = Request string string | Other_Line string

fun event_text :: "irnet_event \<Rightarrow> string" where
  "event_text (Request a rest) = ''Request from '' @ a @ rest"
| "event_text (Other_Line t) = t"

fun valid_event :: "irnet_event \<Rightarrow> bool" where
  "valid_event (Request a rest) \<longleftrightarrow> length a = 8 \<and> CHR 0x00 \<notin> set a \<and> length rest < 234"
| "valid_event (Other_Line t) \<longleftrightarrow> \<not> is_prefix ''Req'' (t @ [CHR 0x00]) \<and> length t < 255 \<and> 3 \<le> length t"

fun addresses :: "irnet_event list \<Rightarrow> string list" where
  "addresses [] = []"
| "addresses (Request a rest # es) = a # addresses es"
| "addresses (Other_Line t # es) = addresses es"

definition no_nul :: "string list \<Rightarrow> bool" where
  "no_nul args \<longleftrightarrow> list_all (\<lambda>a. CHR 0x00 \<notin> set a) args"

lemma command_lengths: "length cmd1 = 27" "length cmd3 = 19"
  by (simp_all add: cmd1_def cmd3_def)

lemma command_c_str:
  assumes "no_nul args" "CHR 0x00 \<notin> set a"
  shows "c_str (pppd_command args a) = pppd_command args a"
proof -
  have c: "CHR 0x00 \<notin> set cmd1" "CHR 0x00 \<notin> set cmd2" "CHR 0x00 \<notin> set cmd3" "CHR 0x00 \<notin> set '' ''" "CHR 0x00 \<notin> set [CHR 0x22]"
    by code_simp+
  have "CHR 0x00 \<notin> set (concat (map (\<lambda>a. a @ '' '') args))"
    using assms(1) unfolding no_nul_def
    by (induction args) (simp_all only: list.map concat.simps set_append Un_iff list.pred_inject c list.set(1) empty_iff simp_thms)
  then have "CHR 0x00 \<notin> set (options_text args)" using c(2) unfolding options_text_def by (simp only: split: if_split) simp
  then have "CHR 0x00 \<notin> set (pppd_command args a)"
    using assms(2) c unfolding pppd_command_def set_append by blast
  then show ?thesis unfolding c_str_def takeWhile_eq_all_conv by blast
qed

lemma event_step:
  assumes "nd_cmd s = pppd_command args b" "length b = 8" "no_nul args" "valid_event ev"
  shows "\<exists>b' buf. length b' = 8 \<and> irnetd_event (46 + length (options_text args)) (Some (event_text ev)) s =
    \<lparr>nd_cmd = pppd_command args b', nd_line = buf, nd_ran = nd_ran s @ map (pppd_command args) (addresses [ev])\<rparr>"
proof (cases ev)
  case (Request a rest)
  let ?n = "46 + length (options_text args)"
  have a: "length a = 8" "CHR 0x00 \<notin> set a" using assms(4) Request by auto
  let ?buf = "store_line (Some (event_text ev)) (nd_line s)"
  have "map (\<lambda>i. ?buf ! (i + 13)) [0..<8] = a"
    using a(1) by (intro nth_equalityI) (auto simp: store_line_def Request nth_append nth_Cons')
  moreover have "is_prefix ''Req'' ?buf" by (simp add: store_line_def Request is_prefix_def)
  moreover have "take ?n (pppd_command args b) = cmd1 @ options_text args @ cmd3" "drop (?n + 8) (pppd_command args b) = [CHR 0x22]"
    using assms(2) command_lengths by (simp_all add: pppd_command_def)
  ultimately have "irnetd_event ?n (Some (event_text ev)) s =
      \<lparr>nd_cmd = pppd_command args a, nd_line = ?buf, nd_ran = nd_ran s @ [c_str (pppd_command args a)]\<rparr>"
    using assms(1) by (simp add: irnetd_event_def Let_def pppd_command_def)
  then show ?thesis using a command_c_str [OF assms(3) a(2)] Request by auto
next
  case (Other_Line t)
  then have "\<not> is_prefix ''Req'' (store_line (Some (event_text ev)) (nd_line s))"
    using assms(4) by (auto simp: store_line_def is_prefix_def)
  then show ?thesis using assms(1,2) Other_Line
    by (intro exI [of _ b] exI [of _ "store_line (Some (event_text ev)) (nd_line s)"]) (simp add: irnetd_event_def)
qed

text \<open>C29: As long as its options take less than 200 characters and the channel can be read, the daemon runs \<^verbatim>\<open>pppd\<close> once for every request on the
  channel, in the order of the requests, with the options of its own command line and the address of that request; other events start
  nothing. A line fits the buffer, and a request has an address of eight characters.\<close>

theorem requests_start_pppd:
  assumes "length (options_text args) < 200" "no_nul args" "list_all valid_event evs"
  shows "\<exists>s. irnetd_main args True garbage (map (Some \<circ> event_text) evs) = Inr (Inr s) \<and> nd_ran s = map (pppd_command args) (addresses evs)"
proof -
  have "nd_ran (fold (irnetd_event (46 + length (options_text args))) (map (Some \<circ> event_text) evs) s) =
      nd_ran s @ map (pppd_command args) (addresses evs)"
    if "nd_cmd s = pppd_command args b" "length b = 8" for s b
    using assms(3) that
  proof (induction evs arbitrary: s b)
    case (Cons ev evs)
    obtain b' buf where "length b' = 8" "irnetd_event (46 + length (options_text args)) (Some (event_text ev)) s =
        \<lparr>nd_cmd = pppd_command args b', nd_line = buf, nd_ran = nd_ran s @ map (pppd_command args) (addresses [ev])\<rparr>"
      using event_step [OF Cons.prems(2,3) assms(2), of ev] Cons.prems(1) by auto
    then show ?case
      using Cons.IH [of _ b'] Cons.prems(1) by (cases ev) auto
  qed simp
  then show ?thesis using assms(1) by (auto simp: irnetd_main_def build_command_eq)
qed

theorem requests_start_pppd_witness:
  "\<exists>s. irnetd_main [] True [] (map (Some \<circ> event_text) [Other_Line ''Found 12345678 (pda)'', Request ''0a1b2c3d'' '' (pda)'']) = Inr (Inr s) \<and>
     nd_ran s = [''pppd /dev/irnet 9600 local noauth nolock connect-delay 0 idle 10 connect '' @ [CHR 0x22] @ ''echo addr 0a1b2c3d'' @ [CHR 0x22]]"
  using requests_start_pppd [of "[]" "[Other_Line ''Found 12345678 (pda)'', Request ''0a1b2c3d'' '' (pda)'']" "[]"]
  by (simp add: options_text_def no_nul_def is_prefix_def pppd_command_def cmd1_def cmd2_def cmd3_def)

text \<open>The arguments of the daemon are copied without a check: the array for the command is overrun exactly when the options take 200
  characters or more.\<close>

theorem long_options_overrun_command:
  "irnetd_main args opened garbage rs = Inl (Local_Bounds ''cmd'' 255) \<longleftrightarrow> 200 \<le> length (options_text args)"
  by (simp add: irnetd_main_def build_command_eq not_less [symmetric])

text \<open>At the end of the channel the daemon does not stop: the result of \<^verbatim>\<open>fgets\<close> is not looked at, and the last request is answered again
  in every turn of the loop.\<close>

theorem end_of_channel_repeats_request:
  assumes "is_prefix ''Req'' (nd_line s)" "nd_cmd s = take endp (nd_cmd s) @ map (\<lambda>i. nd_line s ! (i + 13)) [0..<8] @ drop (endp + 8) (nd_cmd s)"
  shows "fold (irnetd_event endp) (replicate n None) s = s\<lparr>nd_ran := nd_ran s @ replicate n (c_str (nd_cmd s))\<rparr>"
proof -
  have "irnetd_event endp None (s\<lparr>nd_ran := r\<rparr>) = s\<lparr>nd_ran := r @ [c_str (nd_cmd s)]\<rparr>" for r
    using assms by (simp add: irnetd_event_def store_line_def Let_def)
  then have "fold (irnetd_event endp) (replicate n None) (s\<lparr>nd_ran := r\<rparr>) = s\<lparr>nd_ran := r @ replicate n (c_str (nd_cmd s))\<rparr>" for r
    by (induction n arbitrary: r) simp_all
  from this [of "nd_ran s"] show ?thesis by simp
qed

theorem end_of_channel_repeats_request_witness:
  "nd_ran (fold (irnetd_event 2) (replicate 3 None) \<lparr>nd_cmd = ''a 12345678.'', nd_line = ''Request from 12345678'', nd_ran = []\<rparr>) =
     [''a 12345678.'', ''a 12345678.'', ''a 12345678.'']"
  using end_of_channel_repeats_request [of "\<lparr>nd_cmd = ''a 12345678.'', nd_line = ''Request from 12345678'', nd_ran = []\<rparr>" 2 3]
  by (simp add: is_prefix_def upt_rec numeral_eq_Suc c_str_def)

end
