(* ===== verification/Irtext.thy ===== *)
theory Irtext
  imports C_Prelude
begin

text \<open>
  The example programs of \<^verbatim>\<open>irda-utils/irsockets\<close> that carry text over a connection: \<^verbatim>\<open>irscanf.c\<close> sends the lines that are typed, \<^verbatim>\<open>irprintf.c\<close> shows
  what arrives; \<^verbatim>\<open>irscanfx.c\<close> and \<^verbatim>\<open>irprintfx.c\<close> do the same with file descriptors. \<^verbatim>\<open>send_ultra.c\<close> and \<^verbatim>\<open>recv_ultra.c\<close> carry one packet. Whether
  a system call succeeds is an argument; messages are left out.
\<close>

section \<open>Model\<close>

subsection \<open>Sending of text\<close>

text \<open>The loop of the two clients: what is written in each turn. A point at the start of a line or the end of the input is sent as the
  character 3, which ends the loop.\<close>

function irscanf_loop :: "string \<Rightarrow> string list" where
  "irscanf_loop t =
     (case fgets 4096 t of
        None \<Rightarrow> [[CHR 0x03]]
      | Some (l, r) \<Rightarrow>
          if hd l = CHR ''.'' then [[CHR 0x03]]
          else if hd l = CHR 0x03 then [c_str l]
          else c_str l # irscanf_loop r)"
  by pat_completeness auto
termination
  by (relation "measure length") (auto dest: fgets_shorter)

declare irscanf_loop.simps [simp del]

text \<open>Arguments: do \<^verbatim>\<open>socket\<close>, \<^verbatim>\<open>setsockopt\<close>, \<^verbatim>\<open>connect\<close> and \<^verbatim>\<open>fdopen\<close> succeed?\<close>

definition irscanf_main :: "bool \<Rightarrow> bool \<Rightarrow> bool \<Rightarrow> bool \<Rightarrow> string \<Rightarrow> c_fault + int \<times> string list" where
  "irscanf_main sock opt conn strm t =
     (if \<not> sock then Inl (Exit_With (-1))
      else if \<not> opt then Inl (Exit_With (-1))
      else if \<not> conn then Inr (-1, [])
      else if \<not> strm then Inr (-1, [])
      else Inr (0, irscanf_loop t))"

definition irscanfx_main :: "bool \<Rightarrow> bool \<Rightarrow> bool \<Rightarrow> string \<Rightarrow> c_fault + int \<times> string list" where
  "irscanfx_main sock opt conn t =
     (if \<not> sock then Inl (Exit_With (-1))
      else if \<not> opt then Inl (Exit_With (-1))
      else if \<not> conn then Inr (-1, [])
      else Inr (0, irscanf_loop t))"

subsection \<open>Showing of text\<close>

function irprintf_loop :: "string \<Rightarrow> string" where
  "irprintf_loop t =
     (case fgets 4098 t of
        None \<Rightarrow> []
      | Some (l, r) \<Rightarrow> if hd l = CHR 0x03 \<or> hd l = CHR 0x00 then [] else c_str l @ irprintf_loop r)"
  by pat_completeness auto
termination
  by (relation "measure length") (auto dest: fgets_shorter)

declare irprintf_loop.simps [simp del]

text \<open>The loop with \<^verbatim>\<open>read\<close>, over its results; \<open>None\<close> is an error.\<close>

fun irprintfx_loop :: "string option list \<Rightarrow> string" where
  "irprintfx_loop [] = []"
| "irprintfx_loop (None # rs) = []"
| "irprintfx_loop (Some b # rs) =
     (if b = [] \<or> hd b = CHR 0x03 then [] else b @ (if hd b = CHR 0x00 then [] else irprintfx_loop rs))"

text \<open>The servers: a stream for each connection; \<open>None\<close> where \<^verbatim>\<open>fdopen\<close> fails. At the end \<^verbatim>\<open>accept\<close> fails.\<close>

fun irprintf_server :: "string option list \<Rightarrow> string" where
  "irprintf_server [] = []"
| "irprintf_server (None # cs) = []"
| "irprintf_server (Some t # cs) = irprintf_loop t @ irprintf_server cs"

definition irprintf_main :: "bool \<Rightarrow> bool \<Rightarrow> bool \<Rightarrow> string option list \<Rightarrow> c_fault + int \<times> string" where
  "irprintf_main sock bound listening cs =
     (if \<not> sock then Inl (Exit_With (-1))
      else if \<not> bound then Inr (-1, [])
      else if \<not> listening then Inr (-1, [])
      else Inr (-1, irprintf_server cs))"

definition irprintfx_main :: "bool \<Rightarrow> bool \<Rightarrow> bool \<Rightarrow> string option list list \<Rightarrow> c_fault + int \<times> string" where
  "irprintfx_main sock bound listening cs =
     (if \<not> sock then Inl (Exit_With (-1))
      else if \<not> bound then Inr (-1, [])
      else if \<not> listening then Inr (-1, [])
      else Inr (-1, concat (map irprintfx_loop cs)))"

subsection \<open>Packets\<close>

text \<open>\<^verbatim>\<open>send_ultra\<close>: the packet, from an array of 382 characters. \<open>None\<close> where a system call fails.\<close>

definition ultra_text :: "string option \<Rightarrow> string" where
  "ultra_text arg = (case arg of None \<Rightarrow> ''Ultra-Test'' | Some a \<Rightarrow> take 380 a)"

definition send_ultra :: "bool \<Rightarrow> bool \<Rightarrow> string option \<Rightarrow> int \<times> string option" where
  "send_ultra sock bound arg =
     (if \<not> sock then (-1, None) else if \<not> bound then (-1, None) else (0, Some (ultra_text arg @ [CHR 0x00])))"

text \<open>\<^verbatim>\<open>recv_ultra\<close>: one turn of the loop, for a packet as \<^verbatim>\<open>recv\<close> stores it; what is shown.\<close>

definition recv_ultra :: "string option \<Rightarrow> string \<Rightarrow> c_fault + string \<times> string" where
  "recv_ultra r buf =
     (case r of
        None \<Rightarrow> Inl (Local_Bounds ''buf'' 0)
      | Some p \<Rightarrow>
          let q = take 382 p
          in if length q < 382
             then let b = q @ [CHR 0x00] @ drop (length q + 1) buf in Inr (c_str b, b)
             else Inl (Local_Bounds ''buf'' 382))"

section \<open>Text arrives\<close>

definition plain_line :: "string \<Rightarrow> bool" where
  "plain_line l \<longleftrightarrow> CHR 0x0a \<notin> set l \<and> CHR 0x00 \<notin> set l \<and> CHR 0x03 \<notin> set l \<and> length l \<le> 4094 \<and> \<not> is_prefix ''.'' l"

definition lines_text :: "string list \<Rightarrow> string" where
  "lines_text ls = concat (map (\<lambda>l. l @ [CHR 0x0a]) ls)"

lemma plain_head:
  assumes "plain_line l"
  shows "hd (l @ [CHR 0x0a]) \<noteq> CHR ''.''" "hd (l @ [CHR 0x0a]) \<noteq> CHR 0x03" "hd (l @ [CHR 0x0a]) \<noteq> CHR 0x00" "c_str (l @ [CHR 0x0a]) = l @ [CHR 0x0a]"
proof -
  show "hd (l @ [CHR 0x0a]) \<noteq> CHR ''.''" "hd (l @ [CHR 0x0a]) \<noteq> CHR 0x03" "hd (l @ [CHR 0x0a]) \<noteq> CHR 0x00"
    using assms by (cases l; auto simp: plain_line_def is_prefix_def)+
  have "\<forall>c \<in> set (l @ [CHR 0x0a]). c \<noteq> CHR 0x00" using assms by (auto simp: plain_line_def)
  then show "c_str (l @ [CHR 0x0a]) = l @ [CHR 0x0a]" unfolding c_str_def takeWhile_eq_all_conv .
qed

lemma client_line:
  assumes "plain_line l"
  shows "irscanf_loop (l @ CHR 0x0a # r) = (l @ [CHR 0x0a]) # irscanf_loop r"
  using plain_head [OF assms] assms fgets_line [of l 4096 r]
  by (subst irscanf_loop.simps) (simp add: plain_line_def)

lemma server_line:
  assumes "plain_line l"
  shows "irprintf_loop (l @ CHR 0x0a # r) = l @ CHR 0x0a # irprintf_loop r"
  using plain_head [OF assms] assms fgets_line [of l 4098 r]
  by (subst irprintf_loop.simps) (simp add: plain_line_def)

lemma client_lines:
  "list_all plain_line ls \<Longrightarrow> irscanf_loop (lines_text ls @ r) = map (\<lambda>l. l @ [CHR 0x0a]) ls @ irscanf_loop r"
  by (induction ls) (simp_all add: lines_text_def client_line)

lemma server_lines:
  "list_all plain_line ls \<Longrightarrow> irprintf_loop (lines_text ls @ r) = lines_text ls @ irprintf_loop r"
  by (induction ls) (simp_all add: lines_text_def server_line)

lemma client_stop: "irscanf_loop (CHR ''.'' # r) = [[CHR 0x03]]" "irscanf_loop [] = [[CHR 0x03]]"
  by (subst irscanf_loop.simps, simp add: fgets_def)+

lemma server_stop: "irprintf_loop [CHR 0x03] = []" "irprintf_loop [] = []"
  by (subst irprintf_loop.simps, simp add: fgets_def)+

text \<open>C19: What is typed is shown at the other end: lines of at most 4094 characters, typed until a line with a point, are shown by \<^verbatim>\<open>irprintf\<close> exactly as
  they were typed, and so by \<^verbatim>\<open>irprintfx\<close> when each write of the client arrives as one read.\<close>

theorem typed_text_is_shown:
  assumes "list_all plain_line ls"
  shows "\<exists>ws. irscanf_main True True True True (lines_text ls @ CHR ''.'' # more) = Inr (0, ws) \<and>
    irprintf_loop (concat ws) = lines_text ls \<and> irprintfx_loop (map Some ws) = lines_text ls"
proof -
  let ?ws = "map (\<lambda>l. l @ [CHR 0x0a]) ls @ [[CHR 0x03]]"
  have x: "irprintfx_loop (map Some (map (\<lambda>l. l @ [CHR 0x0a]) ls @ [[CHR 0x03]])) = lines_text ls"
    using assms by (induction ls) (simp_all add: lines_text_def plain_head)
  have "irprintf_loop (concat ?ws) = lines_text ls"
    using server_lines [OF assms, of "[CHR 0x03]"] by (simp add: lines_text_def server_stop)
  then show ?thesis using client_lines [OF assms, of "CHR ''.'' # more"] x by (simp add: irscanf_main_def client_stop)
qed

theorem typed_text_is_shown_witness:
  "\<exists>ws. irscanf_main True True True True (lines_text [''hello'', '''', ''world''] @ ''.'') = Inr (0, ws) \<and>
     irprintf_loop (concat ws) = ''hello'' @ [CHR 0x0a, CHR 0x0a] @ ''world'' @ [CHR 0x0a]"
  using typed_text_is_shown [of "[''hello'', '''', ''world'']" "[]"]
  by (auto simp: plain_line_def is_prefix_def lines_text_def)

text \<open>When the input ends in the middle of a line the mark of the end is shown as part of the text: it does not start a line of its own.\<close>

theorem unfinished_line_shows_mark:
  assumes "list_all plain_line ls" "plain_line l" "l \<noteq> []"
  shows "\<exists>ws. irscanf_main True True True True (lines_text ls @ l) = Inr (0, ws) \<and> irprintf_loop (concat ws) = lines_text ls @ l @ [CHR 0x03]"
proof -
  have nl: "takeWhile (\<lambda>c. c \<noteq> CHR 0x0a) l = l" "takeWhile (\<lambda>c. c \<noteq> CHR 0x0a) (l @ [CHR 0x03]) = l @ [CHR 0x03]"
    using assms(2) unfolding takeWhile_eq_all_conv by (auto simp: plain_line_def)
  have c: "c_str l = l" "c_str (l @ [CHR 0x03]) = l @ [CHR 0x03]"
    using assms(2) unfolding c_str_def takeWhile_eq_all_conv by (auto simp: plain_line_def)
  have h: "hd l \<noteq> CHR ''.''" "hd l \<noteq> CHR 0x03" "hd l \<noteq> CHR 0x00"
    using assms(2,3) by (cases l; auto simp: plain_line_def is_prefix_def)+
  have n: "length l \<le> 4094" using assms(2) by (simp add: plain_line_def)
  have "fgets 4096 l = Some (l, [])" "fgets 4098 (l @ [CHR 0x03]) = Some (l @ [CHR 0x03], [])"
    unfolding fgets_def nl using assms(3) n by simp_all
  then have "irscanf_loop l = [l, [CHR 0x03]]" "irprintf_loop (l @ [CHR 0x03]) = l @ [CHR 0x03]"
    using h c assms(3) by (subst irscanf_loop.simps irprintf_loop.simps, simp add: client_stop server_stop)+
  then show ?thesis
    using client_lines [OF assms(1), of l] server_lines [OF assms(1), of "l @ [CHR 0x03]"]
    by (simp add: irscanf_main_def lines_text_def)
qed

theorem unfinished_line_shows_mark_witness:
  "\<exists>ws. irscanf_main True True True True (lines_text [''a''] @ ''b'') = Inr (0, ws) \<and> irprintf_loop (concat ws) = [CHR ''a'', CHR 0x0a, CHR ''b'', CHR 0x03]"
  using unfinished_line_shows_mark [of "[''a'']" "''b''"]
  by (auto simp: plain_line_def is_prefix_def lines_text_def)

section \<open>Packets\<close>

text \<open>The text given to \<^verbatim>\<open>send_ultra\<close> is shown by \<^verbatim>\<open>recv_ultra\<close>, up to 380 characters; a packet of 382 bytes, the size of the buffer, has its terminator
  stored behind the buffer.\<close>

theorem ultra_packet_shown:
  assumes "CHR 0x00 \<notin> set a" "382 \<le> length p"
  shows "\<exists>q b. send_ultra True True (Some a) = (0, Some q) \<and> recv_ultra (Some q) buf = Inr (take 380 a, b) \<and>
    recv_ultra (Some p) buf = Inl (Local_Bounds ''buf'' 382)"
proof -
  have "CHR 0x00 \<notin> set (take 380 a)" using assms(1) set_take_subset by fastforce
  then have "\<forall>c \<in> set (take 380 a). c \<noteq> CHR 0x00" by blast
  then have c: "c_str (take 380 a @ CHR 0x00 # r) = take 380 a" for r
    unfolding c_str_def by (subst takeWhile_append2) auto
  have "length (take 380 a @ [CHR 0x00]) < 382" by simp
  then have "take 382 (take 380 a @ [CHR 0x00]) = take 380 a @ [CHR 0x00]" by simp
  then show ?thesis
    using assms(2) by (auto simp: send_ultra_def recv_ultra_def ultra_text_def Let_def c)
qed

theorem ultra_packet_shown_witness:
  "\<exists>q b. send_ultra True True (Some ''ping'') = (0, Some q) \<and> recv_ultra (Some q) [] = Inr (''ping'', b) \<and>
     recv_ultra (Some (replicate 400 CHR ''x'')) [] = Inl (Local_Bounds ''buf'' 382)"
  using ultra_packet_shown [of "''ping''" "replicate 400 CHR ''x''" "[]"] by simp

end
