(* ===== verification/Irias.thy ===== *)
theory Irias
  imports C_Exit
begin

text \<open>
  The command-line tool \<^verbatim>\<open>irda\<close> of \<^verbatim>\<open>src/irda/src\<close>, which asks the information access service of this host or of a remote
  device: \<^verbatim>\<open>main.c\<close> with the general options and the timer, \<^verbatim>\<open>irias.c\<close> with the object \<^verbatim>\<open>ias\<close>. Files, the two output streams and the
  queries made are part of the state; the kernel's answers come from the environment.
\<close>

section \<open>Model\<close>

subsection \<open>State and environment\<close>

definition nl :: string where
  "nl = [CHR 0x0a]"

definition quote :: string where
  "quote = [CHR 0x22]"

text \<open>The struct of a query and of its answer; the members of the union are separate fields, as each is read for its type only.\<close>

record ias_set =
  irda_class_name :: string
  irda_attrib_name :: string
  irda_attrib_type :: u32
  irda_attrib_int :: u32
  oct_len :: u16
  octet_seq :: "byte list"
  str_len :: byte
  str_charset :: byte
  str_string :: string
  daddr :: u32

text \<open>
  The variables of \<^verbatim>\<open>irdamain.h\<close> and \<open>ias_data\<close>; then the interval of the timer once it is set, the queries made (with the choice of
  the local base), files, standard output and standard error.
\<close>

record tool =
  count :: u32
  delay :: u32
  fmt_column :: u32
  fmt_no_header :: u32
  fmt_sep :: char
  debug :: u32
  m_func :: bool
  is_local :: bool
  query :: ias_set
  filename :: string
  timer :: "u32 option"
  asked :: "(bool \<times> ias_set) list"
  files :: "string \<Rightarrow> byte list option"
  out :: string
  err :: string

text \<open>
  \<open>kernel n l q\<close>: the answer to the \<open>n\<close>-th query, if any; \<open>sock_errno\<close>: the error of \<^verbatim>\<open>socket\<close>, if any; \<open>wrote n\<close>: what \<^verbatim>\<open>write\<close> returns for \<open>n\<close> bytes;
  \<open>long_bits\<close>: the width of \<^verbatim>\<open>unsigned long\<close>.
\<close>

record env =
  package :: string
  pkg_version :: string
  strerror :: string
  long_bits :: nat
  sock_errno :: "int option"
  kernel :: "nat \<Rightarrow> bool \<Rightarrow> ias_set \<Rightarrow> ias_set option"
  can_open :: "string \<Rightarrow> bool"
  wrote :: "nat \<Rightarrow> int"
  has_proc :: bool

datatype ended = Exit int | Sleeping

type_synonym 'a tprog = "(tool, ended, 'a) eprog"

definition exitc :: "int \<Rightarrow> 'a tprog" where
  "exitc n = ret (Inl (Exit n))"

definition say :: "string \<Rightarrow> unit tprog" where
  "say t = upd (\<lambda>s. s\<lparr>out := out s @ t\<rparr>)"

definition complain :: "string \<Rightarrow> unit tprog" where
  "complain t = upd (\<lambda>s. s\<lparr>err := err s @ t\<rparr>)"

definition perror :: "env \<Rightarrow> string \<Rightarrow> unit tprog" where
  "perror E t = complain (t @ '': '' @ strerror E @ nl)"

text \<open>\<^verbatim>\<open>strncpy\<close> into an array of \<open>n\<close> characters, and what \<^verbatim>\<open>%s\<close> prints of an array.\<close>

definition strncpy :: "nat \<Rightarrow> string \<Rightarrow> string" where
  "strncpy n t = take n (t @ replicate n (CHR 0x00))"

definition text_of :: "string \<Rightarrow> string \<Rightarrow> string tprog" where
  "text_of name a = thenc (check (CHR 0x00 \<in> set a) (Local_Bounds name (length a))) (val (c_str a))"

text \<open>\<^verbatim>\<open>abs\<close> of a value converted to \<^verbatim>\<open>int\<close>.\<close>

definition abs_int :: "int \<Rightarrow> u32" where
  "abs_int v = (let w = word_of_int v :: u32 in if sint w < 0 then - w else w)"

text \<open>\<^verbatim>\<open>strtoul(nptr, &endptr, 16)\<close>.\<close>

definition hex_prefix :: "string \<Rightarrow> string" where
  "hex_prefix t =
     (case t of
        c0 # c1 # c2 # r \<Rightarrow> if c0 = CHR ''0'' \<and> (c1 = CHR ''x'' \<or> c1 = CHR ''X'') \<and> in_base 16 c2 then c2 # r else t
      | _ \<Rightarrow> t)"

definition strtoul_16 :: "nat \<Rightarrow> string \<Rightarrow> int \<times> string" where
  "strtoul_16 w nptr =
     (let (neg, t1) = scan_sign (dropWhile isspace nptr);
          t2 = hex_prefix t1;
          ds = takeWhile (in_base 16) t2;
          v = read_digits 16 ds
      in if ds = [] then (0, nptr)
         else (if v > 2 ^ w - 1 then 2 ^ w - 1 else if neg then (- v) mod 2 ^ w else v, dropWhile (in_base 16) t2))"

subsection \<open>Messages\<close>

definition version :: "env \<Rightarrow> unit tprog" where
  "version E = say (package E @ '', '' @ pkg_version E @ nl)"

definition main_help :: "env \<Rightarrow> unit tprog" where
  "main_help E = say (''Usage: '' @ package E @ '' [ OPTIONS ] OBJECT { COMMAND | help }'' @ nl @
     ''where OBJECT := { lap | lmp | ias | ttp }'' @ nl @
     ''      OPTIONS := { -V[version] | -h[elp] | [ -c count ] [ -d delay ] '' @ nl @
     ''                 [ -H ] [ -C ] [ -S separator ] [ -D ] }'' @ nl)"

definition main_no_option :: "env \<Rightarrow> string \<Rightarrow> unit tprog" where
  "main_no_option E opt = complain (''Option '' @ quote @ opt @ quote @ '' is unknown, try '' @ quote @ package E @ '' -help'' @ quote @ ''.'' @ nl)"

definition main_no_object :: "env \<Rightarrow> string \<Rightarrow> unit tprog" where
  "main_no_object E obj = complain (''Object '' @ quote @ obj @ quote @ '' is unknown, try '' @ quote @ package E @ '' help'' @ quote @ ''.'' @ nl)"

definition main_no_action :: "env \<Rightarrow> unit tprog" where
  "main_no_action E = complain (''No action given, try '' @ quote @ package E @ '' help'' @ quote @ ''.'' @ nl)"

definition main_err_param :: "string \<Rightarrow> unit tprog" where
  "main_err_param p = complain (''Invalid parameter value '' @ quote @ p @ quote @ ''.'' @ nl)"

definition main_no_complete :: "env \<Rightarrow> unit tprog" where
  "main_no_complete E = complain (''Command line is not complete. Try '' @ quote @ package E @ '' help'' @ quote @ ''.'' @ nl)"

definition irias_help :: "env \<Rightarrow> unit tprog" where
  "irias_help E = say (''Usage: '' @ package E @ '' ias list'' @ nl @
     ''       '' @ package E @ '' ias get [ DEST ] class CLASS attrib ATTRIB [ filename FILE ]'' @ nl @
     ''DEST := { local | remote DEVADDR }'' @ nl)"

definition irias_no_option :: "env \<Rightarrow> string \<Rightarrow> unit tprog" where
  "irias_no_option E opt = complain (''Command '' @ quote @ opt @ quote @ '' is unknown, try '' @ quote @ package E @ '' ias help'' @ quote @ ''.'' @ nl)"

definition irias_no_complete :: "env \<Rightarrow> unit tprog" where
  "irias_no_complete E = complain (''Command line is not complete. Try '' @ quote @ package E @ '' ias help'' @ quote @ ''.'' @ nl)"

definition irias_no_iasclass :: "env \<Rightarrow> unit tprog" where
  "irias_no_iasclass E = complain (quote @ ''class'' @ quote @ '' attribute is not present. Try '' @ quote @ package E @ '' ias help'' @ quote @ ''.'' @ nl)"

definition irias_no_iasattrib :: "env \<Rightarrow> unit tprog" where
  "irias_no_iasattrib E = complain (quote @ ''attrib'' @ quote @ '' attribute is not present. Try '' @ quote @ package E @ '' ias help'' @ quote @ ''.'' @ nl)"

definition irias_err_daddr :: "string \<Rightarrow> unit tprog" where
  "irias_err_daddr a = complain (''Invalid device address '' @ quote @ a @ quote @ ''. Example: 0xabcd.'' @ nl)"

subsection \<open>Showing an answer\<close>

definition charset :: "string list" where
  "charset = [''ASCII'', ''ISO-8859-1'', ''ISO-8859-2'', ''ISO-8859-3'', ''ISO-8859-4'', ''ISO-8859-5'', ''ISO-8859-6'', ''ISO-8859-7'',
     ''ISO-8859-8'', ''ISO-8859-9'', ''UNICODE'']"

definition irias_show_octetseq :: "ias_set \<Rightarrow> unit tprog" where
  "irias_show_octetseq q =
     thenc (check (unat (oct_len q) \<le> length (octet_seq q)) (Local_Bounds ''octet_seq'' (length (octet_seq q))))
       (say (concat (map (\<lambda>i. fmt_02x (uint (octet_seq q ! i)) @ '' '') [0..<unat (oct_len q)])))"

text \<open>\<^verbatim>\<open>open\<close> with \<^verbatim>\<open>O_WRONLY|O_CREAT\<close> and one \<^verbatim>\<open>write\<close>: the bytes written replace the first ones of the file.\<close>

definition write_file :: "env \<Rightarrow> string \<Rightarrow> byte list \<Rightarrow> int tprog" where
  "write_file E name bs =
     andthen (get (\<lambda>s. case files s name of None \<Rightarrow> [] | Some b \<Rightarrow> b)) (\<lambda>old.
     let w = wrote E (length bs)
     in thenc (upd (\<lambda>s. s\<lparr>files := (files s)(name \<mapsto> take (nat w) bs @ drop (nat w) old)\<rparr>)) (val w))"

text \<open>The octet sequence goes to the file given on the command line, or to the standard output.\<close>

definition list_octets :: "env \<Rightarrow> ias_set \<Rightarrow> unit tprog" where
  "list_octets E q =
     andthen (get fmt_column) (\<lambda>col. andthen (get fmt_sep) (\<lambda>sep.
     thenc (say (if col = 1 then [sep] @ ''octetseq'' @ [sep]
       else ''Attribute Type: Octet Sequence (length='' @ fmt_d (uint (oct_len q)) @ '')'' @ nl))
     (andthen (andthen (get filename) (text_of ''filename'')) (\<lambda>name.
     if name \<noteq> []
     then
       if can_open E name
       then
         thenc (check (unat (oct_len q) \<le> length (octet_seq q)) (Local_Bounds ''octet_seq'' (length (octet_seq q))))
         (andthen (write_file E name (take (unat (oct_len q)) (octet_seq q))) (\<lambda>wlen.
         thenc (if wlen \<noteq> uint (oct_len q) then perror E name else val ())
         (say (if col = 1 then ''('' @ name @ '')'' @ nl else ''Value: (file='' @ name @ '')'' @ nl))))
       else perror E name
     else
       thenc (if col = 1 then val () else say ''Value: '')
       (thenc (irias_show_octetseq q)
       (say nl))))))"

definition list_string :: "ias_set \<Rightarrow> unit tprog" where
  "list_string q =
     andthen (get fmt_column) (\<lambda>col. andthen (get fmt_sep) (\<lambda>sep.
     if col = 1
     then andthen (text_of ''string'' (str_string q)) (\<lambda>t. say ([sep] @ ''string'' @ [sep] @ t @ nl))
     else
       thenc (check (unat (str_charset q) < length charset) (Table_Bounds (unat (str_charset q))))
       (andthen (text_of ''string'' (str_string q)) (\<lambda>t.
       say (''Attribute Type: String (length='' @ fmt_d (uint (str_len q)) @ '', charset='' @ charset ! unat (str_charset q) @ '')'' @ nl @
         ''Value: '' @ quote @ t @ quote @ nl)))))"

definition irias_list_entry :: "env \<Rightarrow> ias_set \<Rightarrow> unit tprog" where
  "irias_list_entry E q =
     andthen (get fmt_column) (\<lambda>col. andthen (get fmt_sep) (\<lambda>sep.
     andthen (text_of ''irda_class_name'' (irda_class_name q)) (\<lambda>c.
     andthen (text_of ''irda_attrib_name'' (irda_attrib_name q)) (\<lambda>a.
     thenc (say (if col = 1 then c @ [sep] @ a
       else ''Class: '' @ quote @ c @ quote @ nl @ ''Attribute: '' @ quote @ a @ quote @ nl))
     (if irda_attrib_type q = 0 then val ()
      else if irda_attrib_type q = 1
      then say (if col = 1 then [sep] @ ''integer'' @ [sep] @ fmt_d (sint (irda_attrib_int q)) @ nl
        else ''Attribute Type: Integer'' @ nl @ ''Value: '' @ fmt_d (sint (irda_attrib_int q)) @ nl)
      else if irda_attrib_type q = 2 then list_octets E q
      else if irda_attrib_type q = 3 then list_string q
      else
        thenc (complain (package E @ '': Invalid IAS attribute type received. type='' @ fmt_d (sint (irda_attrib_type q))))
        (exitc 1))))))"

definition irias_get_exec :: "env \<Rightarrow> unit tprog" where
  "irias_get_exec E =
     andthen (get (\<lambda>s. (is_local s, query s))) (\<lambda>lq. andthen (get (length \<circ> asked)) (\<lambda>n.
     thenc (upd (\<lambda>s. s\<lparr>asked := asked s @ [lq]\<rparr>))
     (case kernel E n (fst lq) (snd lq) of
        None \<Rightarrow> perror E (package E)
      | Some q \<Rightarrow> irias_list_entry E q)))"

subsection \<open>The timer\<close>

definition cleanup :: "unit tprog" where
  "cleanup = exitc 0"

definition timeout :: "env \<Rightarrow> unit tprog" where
  "timeout E =
     andthen (get count) (\<lambda>n.
     if n \<noteq> 0
     then
       andthen (get m_func) (\<lambda>f.
       thenc (if f then irias_get_exec E else val ())
       (upd (\<lambda>s. s\<lparr>count := count s - 1\<rparr>)))
     else cleanup)"

definition register_timeout :: "unit tprog" where
  "register_timeout = upd (\<lambda>s. s\<lparr>m_func := True, timer := Some (delay s)\<rparr>)"

text \<open>Up to \<open>n\<close> expiries of the timer; an interval of zero stands for a timer that is off.\<close>

fun ticks :: "env \<Rightarrow> nat \<Rightarrow> unit tprog" where
  "ticks E 0 = val ()"
| "ticks E (Suc n) = andthen (get timer) (\<lambda>t. if t = None \<or> t = Some 0 then val () else thenc (timeout E) (ticks E n))"

subsection \<open>The object ias\<close>

text \<open>The option loop of \<open>irias_get\<close>, on the arguments still to be read; the counters of \<^verbatim>\<open>class\<close> and \<^verbatim>\<open>attrib\<close>.\<close>

fun get_options :: "env \<Rightarrow> string list \<Rightarrow> nat \<Rightarrow> nat \<Rightarrow> (nat \<times> nat) tprog" where
  "get_options E [] hc ha = val (hc, ha)"
| "get_options E (a # as) hc ha =
     (if is_prefix ''lo'' a then thenc (upd (\<lambda>s. s\<lparr>is_local := True\<rparr>)) (get_options E as hc ha)
      else if is_prefix ''re'' a then
        thenc (upd (\<lambda>s. s\<lparr>is_local := False\<rparr>))
        (case as of [] \<Rightarrow> thenc (irias_no_complete E) (exitc 255)
         | p # as1 \<Rightarrow>
             (case strtoul_16 (long_bits E) p of (v, r) \<Rightarrow>
              thenc (upd (\<lambda>s. s\<lparr>query := (query s)\<lparr>daddr := word_of_int v\<rparr>\<rparr>))
              (if p = [] \<or> r \<noteq> [] then thenc (irias_err_daddr p) (exitc 1) else get_options E as1 hc ha)))
      else if is_prefix ''cl'' a then
        (case as of [] \<Rightarrow> thenc (irias_no_complete E) (exitc 255)
         | p # as1 \<Rightarrow>
             thenc (upd (\<lambda>s. s\<lparr>query := (query s)\<lparr>irda_class_name := strncpy 64 p\<rparr>\<rparr>)) (get_options E as1 (hc + 1) ha))
      else if is_prefix ''at'' a then
        (case as of [] \<Rightarrow> thenc (irias_no_complete E) (exitc 255)
         | p # as1 \<Rightarrow>
             thenc (upd (\<lambda>s. s\<lparr>query := (query s)\<lparr>irda_attrib_name := strncpy 256 p\<rparr>\<rparr>)) (get_options E as1 hc (ha + 1)))
      else if is_prefix ''fi'' a then
        (case as of [] \<Rightarrow> thenc (irias_no_complete E) (exitc 255)
         | p # as1 \<Rightarrow> thenc (upd (\<lambda>s. s\<lparr>filename := strncpy 4096 p\<rparr>)) (get_options E as1 hc ha))
      else thenc (irias_no_option E a) (exitc 255))"

definition irias_get :: "env \<Rightarrow> string list \<Rightarrow> unit tprog" where
  "irias_get E as =
     thenc (upd (\<lambda>s. s\<lparr>is_local := True, filename := (filename s)[0 := CHR 0x00]\<rparr>))
     (andthen (get_options E as 0 0) (\<lambda>(hc, ha).
     if hc = 0 then thenc (irias_no_iasclass E) (exitc 255)
     else if ha = 0 then thenc (irias_no_iasattrib E) (exitc 255)
     else case sock_errno E of
       Some e \<Rightarrow> thenc (perror E (package E)) (exitc e)
     | None \<Rightarrow>
         andthen (get (\<lambda>s. (fmt_column s, fmt_no_header s, fmt_sep s))) (\<lambda>(col, noh, sep).
         thenc (if col = 1 \<and> noh = 0 then say (''class'' @ [sep] @ ''attribute'' @ [sep] @ ''type'' @ [sep] @ ''value'' @ nl) else val ())
         (andthen (get count) (\<lambda>n.
         if n \<noteq> 0 then thenc register_timeout (ret (Inl Sleeping))
         else irias_get_exec E)))))"

definition irias_set :: "unit tprog" where
  "irias_set = val ()"

text \<open>Where \<^verbatim>\<open>/proc/net/irda/irias\<close> can be opened, the first \<^verbatim>\<open>regcomp\<close> writes through a pointer that was never set.\<close>

definition irias_list :: "env \<Rightarrow> unit tprog" where
  "irias_list E =
     (if \<not> has_proc E then perror E ''Unable to open the /proc/net/irda/irias file''
      else fault (Uninitialised ''rx_class''))"

definition irias_main :: "env \<Rightarrow> string list \<Rightarrow> unit tprog" where
  "irias_main E args =
     (case args of
        [] \<Rightarrow> thenc (irias_list E) (exitc 0)
      | a # as \<Rightarrow>
          if is_prefix ''he'' a then thenc (irias_help E) (exitc 255)
          else if is_prefix ''ge'' a then thenc (irias_get E as) (exitc 0)
          else if is_prefix ''se'' a then thenc irias_set (exitc 0)
          else if is_prefix ''ls'' a \<or> is_prefix ''sh'' a \<or> is_prefix ''li'' a then thenc (irias_list E) (exitc 0)
          else thenc (irias_no_option E a) (exitc 255))"

subsection \<open>Main program\<close>

definition number_param :: "env \<Rightarrow> (u32 \<Rightarrow> tool \<Rightarrow> tool) \<Rightarrow> string \<Rightarrow> unit tprog" where
  "number_param E f p =
     (case strtoul_0 (long_bits E) p of (v, r) \<Rightarrow>
      thenc (upd (f (abs_int v)))
      (if p = [] \<or> r \<noteq> [] then thenc (main_err_param p) (exitc 255) else val ()))"

text \<open>The loop over the general options; the arguments it leaves.\<close>

fun main_options :: "env \<Rightarrow> string list \<Rightarrow> string list tprog" where
  "main_options E [] = val []"
| "main_options E (a # as) =
     (if a = [] \<or> hd a \<noteq> CHR ''-'' then val (a # as)
      else if length a < 2 then main_options E as
      else if a ! 1 = CHR ''V'' then thenc (version E) (exitc 0)
      else if a ! 1 = CHR ''h'' then thenc (main_help E) (exitc 255)
      else if a ! 1 = CHR ''D'' then thenc (upd (\<lambda>s. s\<lparr>debug := debug s + 1\<rparr>)) (main_options E as)
      else if a ! 1 = CHR ''C'' then thenc (upd (\<lambda>s. s\<lparr>fmt_column := 1\<rparr>)) (main_options E as)
      else if a ! 1 = CHR ''H'' then thenc (upd (\<lambda>s. s\<lparr>fmt_no_header := 1\<rparr>)) (main_options E as)
      else if a ! 1 = CHR ''S'' then
        (case as of [] \<Rightarrow> thenc (main_no_complete E) (exitc 255)
         | p # as1 \<Rightarrow> thenc (upd (\<lambda>s. s\<lparr>fmt_sep := (if p = [] then CHR 0x00 else hd p)\<rparr>)) (main_options E as1))
      else if a ! 1 = CHR ''d'' then
        (case as of [] \<Rightarrow> thenc (main_no_complete E) (exitc 255)
         | p # as1 \<Rightarrow> thenc (number_param E (\<lambda>n s. s\<lparr>delay := n\<rparr>) p) (main_options E as1))
      else if a ! 1 = CHR ''c'' then
        (case as of [] \<Rightarrow> thenc (main_no_complete E) (exitc 255)
         | p # as1 \<Rightarrow> thenc (number_param E (\<lambda>n s. s\<lparr>count := n\<rparr>) p) (main_options E as1))
      else thenc (main_no_option E a) (exitc 255))"

text \<open>The program up to its end or to the loop that waits for the timer. Every turn of the loop over the objects leaves the program.\<close>

definition main :: "env \<Rightarrow> string list \<Rightarrow> unit tprog" where
  "main E args =
     (if args = [] then thenc (main_help E) (exitc 255)
      else
        andthen (main_options E args) (\<lambda>rest.
        case rest of
          [] \<Rightarrow> thenc (main_no_action E) (exitc 255)
        | a # as \<Rightarrow>
            if is_prefix ''he'' a then thenc (main_help E) (exitc 255)
            else if is_prefix ''ia'' a then thenc (irias_main E as) (exitc 0)
            else thenc (main_no_object E a) (exitc 255)))"

text \<open>The program and \<open>n\<close> expiries of its timer: how it has ended, if it has.\<close>

definition irda_run :: "env \<Rightarrow> string list \<Rightarrow> nat \<Rightarrow> unit tprog" where
  "irda_run E args n = bnd (main E args) (\<lambda>r. case r of Inl Sleeping \<Rightarrow> ticks E n | _ \<Rightarrow> ret r)"

text \<open>The variables as \<^verbatim>\<open>main\<close> sets them, and the zeros of \<open>ias_data\<close>.\<close>

definition zero_query :: ias_set where
  "zero_query = \<lparr>irda_class_name = strncpy 64 [], irda_attrib_name = strncpy 256 [], irda_attrib_type = 0, irda_attrib_int = 0, oct_len = 0,
     octet_seq = replicate 1024 0, str_len = 0, str_charset = 0, str_string = strncpy 256 [], daddr = 0\<rparr>"

definition tool_start :: "(string \<Rightarrow> byte list option) \<Rightarrow> tool" where
  "tool_start fs = \<lparr>count = 0, delay = 1, fmt_column = 0, fmt_no_header = 0, fmt_sep = CHR '':'', debug = 0, m_func = False, is_local = False,
     query = zero_query, filename = strncpy 4096 [], timer = None, asked = [], files = fs, out = [], err = []\<rparr>"

section \<open>Queries of the command line\<close>

subsection \<open>General options\<close>

text \<open>The options of the usage text, with numbers as decimal arguments.\<close>

datatype main_opt = Column | No_Header | Separator char | Debugging | Delay u32 | Count u32

fun main_arg :: "main_opt \<Rightarrow> string list" where
  "main_arg Column = [''-C'']"
| "main_arg No_Header = [''-H'']"
| "main_arg (Separator c) = [''-S'', [c]]"
| "main_arg Debugging = [''-D'']"
| "main_arg (Delay n) = [''-d'', fmt_d (uint n)]"
| "main_arg (Count n) = [''-c'', fmt_d (uint n)]"

fun main_effect :: "main_opt \<Rightarrow> tool \<Rightarrow> tool" where
  "main_effect Column s = s\<lparr>fmt_column := 1\<rparr>"
| "main_effect No_Header s = s\<lparr>fmt_no_header := 1\<rparr>"
| "main_effect (Separator c) s = s\<lparr>fmt_sep := c\<rparr>"
| "main_effect Debugging s = s\<lparr>debug := debug s + 1\<rparr>"
| "main_effect (Delay n) s = s\<lparr>delay := n\<rparr>"
| "main_effect (Count n) s = s\<lparr>count := n\<rparr>"

fun fits_int :: "main_opt \<Rightarrow> bool" where
  "fits_int (Delay n) \<longleftrightarrow> n < 0x80000000"
| "fits_int (Count n) \<longleftrightarrow> n < 0x80000000"
| "fits_int _ \<longleftrightarrow> True"

lemmas tool_simps = thenc_upd andthen_get

lemma then_val [simp]: "andthen (val x) f = f x" "thenc (val x) m = m"
  by (simp_all add: thenc_def andthen_def val_def)

lemma then_exit [simp]: "andthen (exitc n) f = exitc n" "thenc (exitc n) m = exitc n"
  by (simp_all add: thenc_def andthen_def exitc_def)

lemma then_Inr: "m s = Inr (Inr x, s') \<Longrightarrow> andthen m f s = f x s'" "m s = Inr (Inr x, s') \<Longrightarrow> thenc m n s = n s'"
  by (simp_all add: thenc_def andthen_def bnd_def)

lemma then_Inl: "m s = Inr (Inl x, s') \<Longrightarrow> andthen m f s = Inr (Inl x, s')" "m s = Inr (Inl x, s') \<Longrightarrow> thenc m n s = Inr (Inl x, s')"
  by (simp_all add: thenc_def andthen_def bnd_def ret_def)

lemma abs_int_small: "n < 0x80000000 \<Longrightarrow> abs_int (uint n) = n"
proof -
  assume "n < 0x80000000"
  then have "n div 0x80000000 = 0" by (rule div_word_less)
  then have "\<not> bit n 31" by (simp add: bit_iff_odd)
  then have "\<not> sint n < 0" by (simp add: sint_uint signed_take_bit_negative_iff bit_uint_iff)
  then show ?thesis by (simp add: abs_int_def)
qed

lemma number_param_read:
  assumes "n < 0x80000000" "32 \<le> long_bits E"
  shows "number_param E f (fmt_d (uint n)) s = Inr (Inr (), f n s)"
proof -
  have "(2 :: int) ^ 32 \<le> 2 ^ long_bits E" using assms(2) by (rule power_increasing) simp
  moreover have "uint n < 2 ^ 32" using unsigned_less [of n, where ?'a = int] by simp
  ultimately have "strtoul_0 (long_bits E) (fmt_d (uint n)) = (uint n, [])" by (intro strtoul_0_dec) simp_all
  then show ?thesis using assms(1)
    by (simp add: number_param_def thenc_upd abs_int_small fmt_d_not_Nil) (simp add: val_def ret_def)
qed

lemma main_options_read:
  assumes "list_all fits_int opts" "32 \<le> long_bits E" "a \<noteq> []" "hd a \<noteq> CHR ''-''"
  shows "main_options E (concat (map main_arg opts) @ a # as) s = Inr (Inr (a # as), fold main_effect opts s)"
  using assms(1)
proof (induction opts arbitrary: s)
  case Nil
  then show ?case using assms(3,4) by (simp add: val_def ret_def)
next
  case (Cons opt opts)
  then have IH: "main_options E (concat (map main_arg opts) @ a # as) s = Inr (Inr (a # as), fold main_effect opts s)" for s
    by simp
  show ?case using Cons.prems
    by (cases opt) (simp_all add: thenc_upd IH then_Inr(2) [OF number_param_read [OF _ assms(2)]])
qed


subsection \<open>The query\<close>

text \<open>\<^verbatim>\<open>ias get [ DEST ] class CLASS attrib ATTRIB [ filename FILE ]\<close>, as the usage text has it.\<close>

datatype dest = Default | Local | Remote u32

fun dest_args :: "dest \<Rightarrow> string list" where
  "dest_args Default = []"
| "dest_args Local = [''local'']"
| "dest_args (Remote d) = [''remote'', ''0x'' @ fmt_x (uint d)]"

definition file_args :: "string option \<Rightarrow> string list" where
  "file_args f = (case f of None \<Rightarrow> [] | Some name \<Rightarrow> [''filename'', name])"

definition query_args :: "dest \<Rightarrow> string \<Rightarrow> string \<Rightarrow> string option \<Rightarrow> string list" where
  "query_args d c a f = dest_args d @ [''class'', c, ''attrib'', a] @ file_args f"

definition get_args :: "dest \<Rightarrow> string \<Rightarrow> string \<Rightarrow> string option \<Rightarrow> string list" where
  "get_args d c a f = [''ias'', ''get''] @ query_args d c a f"

text \<open>The name of the file; an empty name is taken as none.\<close>

definition file_name :: "string option \<Rightarrow> string" where
  "file_name f = (case f of None \<Rightarrow> [] | Some name \<Rightarrow> name)"

definition fits_path :: "string \<Rightarrow> bool" where
  "fits_path name \<longleftrightarrow> length name < 4096 \<and> CHR 0x00 \<notin> set name"

fun dest_addr :: "dest \<Rightarrow> u32" where
  "dest_addr (Remote d) = d"
| "dest_addr _ = 0"

fun to_local :: "dest \<Rightarrow> bool" where
  "to_local (Remote d) \<longleftrightarrow> False"
| "to_local _ \<longleftrightarrow> True"

definition request :: "dest \<Rightarrow> string \<Rightarrow> string \<Rightarrow> bool \<times> ias_set" where
  "request d c a = (to_local d, zero_query\<lparr>irda_class_name := strncpy 64 c, irda_attrib_name := strncpy 256 a, daddr := dest_addr d\<rparr>)"

lemma strtoul_16_read:
  assumes "32 \<le> w"
  shows "strtoul_16 w (''0x'' @ fmt_x (uint (d :: u32))) = (uint d, [])"
proof -
  have "(2 :: int) ^ 32 \<le> 2 ^ w" using assms by (rule power_increasing) simp
  moreover have "uint d < 2 ^ 32" using unsigned_less [of d, where ?'a = int] by simp
  ultimately have u: "uint d < 2 ^ w" by linarith
  obtain k r where h: "fmt_x (uint d) = hex_digit k # r" "read_digits 16 (fmt_x (uint d)) = uint d" "list_all (in_base 16) (fmt_x (uint d))"
    using hex_numeral [of "uint d"] by auto
  have "hex_prefix (''0x'' @ fmt_x (uint d)) = fmt_x (uint d)" using h(1,3) by (simp add: hex_prefix_def)
  moreover have "\<not> isspace CHR ''0''" by code_simp
  ultimately show ?thesis using h(1,2) digits_taken [OF h(3)] u by (simp add: strtoul_16_def Let_def)
qed

lemma get_options_read:
  assumes "32 \<le> long_bits E" "daddr (query s) = 0" "is_local s" "filename s = strncpy 4096 []"
  shows "get_options E (query_args d c a f) 0 0 s = Inr (Inr (1, 1), s\<lparr>is_local := to_local d,
    query := (query s)\<lparr>irda_class_name := strncpy 64 c, irda_attrib_name := strncpy 256 a, daddr := dest_addr d\<rparr>,
    filename := strncpy 4096 (file_name f)\<rparr>)"
proof -
  have g: "get_options E (file_args f) (Suc 0) (Suc 0) s1 = Inr (Inr (1, 1), s1\<lparr>filename := strncpy 4096 (file_name f)\<rparr>)"
    if "filename s1 = strncpy 4096 []" for s1
    using that by (cases f) (simp_all add: file_args_def file_name_def is_prefix_def thenc_upd, simp_all add: val_def ret_def)
  show ?thesis
  proof (cases d)
    case (Remote x)
    then show ?thesis using strtoul_16_read [OF assms(1), of x] assms(4) g
      by (simp add: query_args_def is_prefix_def thenc_upd)
  next
    case Local
    then show ?thesis using assms(2-4) g by (simp add: query_args_def is_prefix_def thenc_upd)
  next
    case Default
    then show ?thesis using assms(2-4) g by (simp add: query_args_def is_prefix_def thenc_upd)
  qed
qed

subsection \<open>What is shown\<close>

text \<open>An answer that can be shown: the texts in it are terminated, the lengths are those of the arrays, type and character set are known.\<close>

definition good_answer :: "bool \<Rightarrow> ias_set \<Rightarrow> bool" where
  "good_answer col q \<longleftrightarrow> CHR 0x00 \<in> set (irda_class_name q) \<and> CHR 0x00 \<in> set (irda_attrib_name q) \<and> irda_attrib_type q < 4 \<and>
     (irda_attrib_type q = 2 \<longrightarrow> unat (oct_len q) \<le> length (octet_seq q)) \<and>
     (irda_attrib_type q = 3 \<longrightarrow> CHR 0x00 \<in> set (str_string q) \<and> (col \<or> str_charset q < 11))"

definition octets_text :: "ias_set \<Rightarrow> string" where
  "octets_text q = concat (map (\<lambda>b. fmt_02x (uint b) @ '' '') (take (unat (oct_len q)) (octet_seq q)))"

text \<open>
  With a file name the octets go to the file: its name is shown when it can be opened, nothing otherwise.
\<close>

definition octets_column :: "env \<Rightarrow> string \<Rightarrow> ias_set \<Rightarrow> string" where
  "octets_column E name q =
     (if name = [] then octets_text q @ nl else if can_open E name then ''('' @ name @ '')'' @ nl else [])"

definition octets_lines :: "env \<Rightarrow> string \<Rightarrow> ias_set \<Rightarrow> string" where
  "octets_lines E name q =
     (if name = [] then ''Value: '' @ octets_text q @ nl else if can_open E name then ''Value: (file='' @ name @ '')'' @ nl else [])"

definition store_answer :: "env \<Rightarrow> string \<Rightarrow> ias_set \<Rightarrow> (string \<Rightarrow> byte list option) \<Rightarrow> string \<Rightarrow> byte list option" where
  "store_answer E name q fs =
     (if irda_attrib_type q = 2 \<and> name \<noteq> [] \<and> can_open E name
      then
        let bs = take (unat (oct_len q)) (octet_seq q); w = nat (wrote E (length bs))
        in fs(name \<mapsto> take w bs @ drop w (case fs name of None \<Rightarrow> [] | Some b \<Rightarrow> b))
      else fs)"

definition value_column :: "env \<Rightarrow> string \<Rightarrow> char \<Rightarrow> ias_set \<Rightarrow> string" where
  "value_column E name sep q =
     (if irda_attrib_type q = 0 then []
      else if irda_attrib_type q = 1 then [sep] @ ''integer'' @ [sep] @ fmt_d (sint (irda_attrib_int q)) @ nl
      else if irda_attrib_type q = 2 then [sep] @ ''octetseq'' @ [sep] @ octets_column E name q
      else [sep] @ ''string'' @ [sep] @ c_str (str_string q) @ nl)"

definition value_lines :: "env \<Rightarrow> string \<Rightarrow> ias_set \<Rightarrow> string" where
  "value_lines E name q =
     (if irda_attrib_type q = 0 then []
      else if irda_attrib_type q = 1 then ''Attribute Type: Integer'' @ nl @ ''Value: '' @ fmt_d (sint (irda_attrib_int q)) @ nl
      else if irda_attrib_type q = 2
      then ''Attribute Type: Octet Sequence (length='' @ fmt_d (uint (oct_len q)) @ '')'' @ nl @ octets_lines E name q
      else ''Attribute Type: String (length='' @ fmt_d (uint (str_len q)) @ '', charset='' @ charset ! unat (str_charset q) @ '')'' @ nl @
        ''Value: '' @ quote @ c_str (str_string q) @ quote @ nl)"

definition answer_text :: "env \<Rightarrow> string \<Rightarrow> bool \<Rightarrow> char \<Rightarrow> ias_set \<Rightarrow> string" where
  "answer_text E name col sep q =
     (if col then c_str (irda_class_name q) @ [sep] @ c_str (irda_attrib_name q) @ value_column E name sep q
      else ''Class: '' @ quote @ c_str (irda_class_name q) @ quote @ nl @ ''Attribute: '' @ quote @ c_str (irda_attrib_name q) @ quote @ nl @ value_lines E name q)"

lemma text_of_terminated: "CHR 0x00 \<in> set a \<Longrightarrow> text_of name a = val (c_str a)"
  by (simp add: text_of_def check_def)

lemma say_eq: "say t s = Inr (Inr (), s\<lparr>out := out s @ t\<rparr>)"
  by (simp add: say_def upd_def)

lemma then_say: "thenc (say t) m s = m (s\<lparr>out := out s @ t\<rparr>)"
  by (simp add: say_def thenc_upd)

lemma octets_shown:
  assumes "unat (oct_len q) \<le> length (octet_seq q)"
  shows "irias_show_octetseq q s = Inr (Inr (), s\<lparr>out := out s @ octets_text q\<rparr>)"
proof -
  have "map (\<lambda>i. f (octet_seq q ! i)) [0..<unat (oct_len q)] = map f (take (unat (oct_len q)) (octet_seq q))" for f :: "byte \<Rightarrow> string"
    using assms by (intro nth_equalityI) auto
  from this [of "\<lambda>b. fmt_02x (uint b) @ '' ''"] show ?thesis
    using assms by (simp add: irias_show_octetseq_def octets_text_def check_def say_eq)
qed

lemma type_cases: "t < (4 :: u32) \<Longrightarrow> t = 0 \<or> t = 1 \<or> t = 2 \<or> t = 3"
proof -
  assume "t < 4"
  then have "unat t < 4" by (simp add: word_less_nat_alt)
  then have "unat t = 0 \<or> unat t = 1 \<or> unat t = 2 \<or> unat t = 3" by linarith
  then show ?thesis by (simp add: word_unat_eq_iff)
qed


definition file_is :: "string \<Rightarrow> tool \<Rightarrow> bool" where
  "file_is name s \<longleftrightarrow> filename s = strncpy 4096 name \<and> fits_path name"

lemma file_is_text:
  assumes "file_is name s"
  shows "text_of ''filename'' (filename s) = val name"
proof -
  have "CHR 0x00 \<in> set (strncpy 4096 name)" "c_str (strncpy 4096 name) = name"
    using assms by (simp_all add: file_is_def fits_path_def strncpy_def c_str_def takeWhile_append2 takeWhile_append takeWhile_eq_all_conv)
  then show ?thesis using assms by (simp add: file_is_def text_of_terminated)
qed

text \<open>The state when an answer has been shown.\<close>

definition shown :: "env \<Rightarrow> string \<Rightarrow> ias_set \<Rightarrow> string \<Rightarrow> string \<Rightarrow> tool \<Rightarrow> tool" where
  "shown E name q t e s = s\<lparr>out := out s @ t, files := store_answer E name q (files s), err := e\<rparr>"

lemma string_shown:
  assumes "CHR 0x00 \<in> set (str_string q)" "fmt_column s = 1 \<or> str_charset q < 11" "irda_attrib_type q = 3"
  shows "list_string q s = Inr (Inr (), s\<lparr>out := out s @ (if fmt_column s = 1 then value_column E name (fmt_sep s) q else value_lines E name q)\<rparr>)"
  using assms
  by (auto simp: list_string_def andthen_get text_of_terminated say_eq value_column_def value_lines_def check_def charset_def word_less_nat_alt)

lemma octets_listed:
  assumes "unat (oct_len q) \<le> length (octet_seq q)" "file_is name s" "irda_attrib_type q = 2"
  shows "\<exists>e. list_octets E q s = Inr (Inr (), shown E name q (if fmt_column s = 1 then value_column E name (fmt_sep s) q else value_lines E name q) e s)"
proof (cases "name = []")
  case True
  have "list_octets E q s = Inr (Inr (), s\<lparr>out := out s @ (if fmt_column s = 1 then value_column E name (fmt_sep s) q else value_lines E name q)\<rparr>)"
    using assms(1,3) file_is_text [OF assms(2)] True
    by (simp add: list_octets_def andthen_assoc andthen_get then_say then_Inr(2) [OF octets_shown] say_eq value_column_def value_lines_def
        octets_column_def octets_lines_def)
  then show ?thesis using True by (intro exI [of _ "err s"]) (simp add: shown_def store_answer_def)
next
  case False
  note r = list_octets_def andthen_assoc andthen_thenc andthen_get then_say check_def write_file_def Let_def thenc_upd say_eq perror_def complain_def
    value_column_def value_lines_def octets_column_def octets_lines_def shown_def store_answer_def
  show ?thesis
  proof (cases "can_open E name \<and> wrote E (unat (oct_len q)) = uint (oct_len q)")
    case True
    with False show ?thesis using assms(1,3) file_is_text [OF assms(2)]
      by (intro exI [of _ "err s"]) (simp add: r min.absorb2)
  next
    case no: False
    show ?thesis using False no assms(1,3) file_is_text [OF assms(2)]
      by (intro exI [of _ "err s @ name @ '': '' @ strerror E @ nl"]) (cases "can_open E name"; simp add: r min.absorb2; simp add: upd_def)
  qed
qed

lemma entry_listed:
  assumes "good_answer (fmt_column s = 1) q" "file_is name s"
  shows "\<exists>e. irias_list_entry E q s = Inr (Inr (), shown E name q (answer_text E name (fmt_column s = 1) (fmt_sep s) q) e s)"
proof -
  have n: "file_is name (s\<lparr>out := x\<rparr>)" for x using assms(2) by (simp add: file_is_def)
  have t: "irda_attrib_type q = 0 \<or> irda_attrib_type q = 1 \<or> irda_attrib_type q = 2 \<or> irda_attrib_type q = 3"
    using assms(1) by (intro type_cases) (simp add: good_answer_def)
  have c: "CHR 0x00 \<in> set (irda_class_name q)" "CHR 0x00 \<in> set (irda_attrib_name q)" using assms(1) by (simp_all add: good_answer_def)
  have plain: ?thesis if "irda_attrib_type q \<noteq> 2"
    "irias_list_entry E q s = Inr (Inr (), s\<lparr>out := out s @ answer_text E name (fmt_column s = 1) (fmt_sep s) q\<rparr>)"
    using that by (intro exI [of _ "err s"]) (simp add: shown_def store_answer_def)
  consider "irda_attrib_type q = 0" | "irda_attrib_type q = 1" | "irda_attrib_type q = 2" | "irda_attrib_type q = 3" using t by blast
  then show ?thesis
  proof cases
    case 3
    then have l: "unat (oct_len q) \<le> length (octet_seq q)" using assms(1) by (simp add: good_answer_def)
    let ?h = "if fmt_column s = 1 then c_str (irda_class_name q) @ [fmt_sep s] @ c_str (irda_attrib_name q)
      else ''Class: '' @ quote @ c_str (irda_class_name q) @ quote @ nl @ ''Attribute: '' @ quote @ c_str (irda_attrib_name q) @ quote @ nl"
    have "irias_list_entry E q s = list_octets E q (s\<lparr>out := out s @ ?h\<rparr>)"
      using 3 c by (simp add: irias_list_entry_def andthen_get text_of_terminated then_say)
    then show ?thesis
      using octets_listed [OF l n 3, of E "out s @ ?h"] by (auto simp: shown_def answer_text_def)
  next
    case 4
    then have "CHR 0x00 \<in> set (str_string q)" "fmt_column s = 1 \<or> str_charset q < 11" using assms(1) by (simp_all add: good_answer_def)
    with 4 c show ?thesis
      by (intro plain) (simp_all add: irias_list_entry_def andthen_get text_of_terminated then_say string_shown [where E = E and name = name] answer_text_def)
  next
    case 2
    with c show ?thesis
      by (intro plain) (simp_all add: irias_list_entry_def andthen_get text_of_terminated then_say answer_text_def value_column_def value_lines_def say_eq)
  next
    case 1
    with c have "irias_list_entry E q s = val () (s\<lparr>out := out s @ answer_text E name (fmt_column s = 1) (fmt_sep s) q\<rparr>)"
      by (simp add: irias_list_entry_def andthen_get text_of_terminated then_say answer_text_def value_column_def value_lines_def)
    with 1 show ?thesis by (intro plain) (simp_all add: val_def ret_def)
  qed
qed

definition reply_text :: "env \<Rightarrow> string \<Rightarrow> bool \<Rightarrow> char \<Rightarrow> ias_set option \<Rightarrow> string" where
  "reply_text E name col sep r = (case r of None \<Rightarrow> [] | Some q \<Rightarrow> answer_text E name col sep q)"

definition store_reply :: "env \<Rightarrow> string \<Rightarrow> ias_set option \<Rightarrow> (string \<Rightarrow> byte list option) \<Rightarrow> string \<Rightarrow> byte list option" where
  "store_reply E name r fs = (case r of None \<Rightarrow> fs | Some q \<Rightarrow> store_answer E name q fs)"

definition good_replies :: "env \<Rightarrow> bool \<Rightarrow> bool \<times> ias_set \<Rightarrow> bool" where
  "good_replies E col lq \<longleftrightarrow> (\<forall>n q. kernel E n (fst lq) (snd lq) = Some q \<longrightarrow> good_answer col q)"

lemma query_made:
  assumes "good_replies E (fmt_column s = 1) (is_local s, query s)" "file_is name s"
  shows "\<exists>e. irias_get_exec E s = Inr (Inr (), s\<lparr>asked := asked s @ [(is_local s, query s)],
    out := out s @ reply_text E name (fmt_column s = 1) (fmt_sep s) (kernel E (length (asked s)) (is_local s) (query s)),
    files := store_reply E name (kernel E (length (asked s)) (is_local s) (query s)) (files s), err := e\<rparr>)"
proof (cases "kernel E (length (asked s)) (is_local s) (query s)")
  case None
  then show ?thesis
    by (simp add: irias_get_exec_def andthen_get thenc_upd reply_text_def store_reply_def perror_def complain_def) (simp add: upd_def, blast)
next
  case (Some q)
  let ?s = "s\<lparr>asked := asked s @ [(is_local s, query s)]\<rparr>"
  obtain e where "irias_list_entry E q ?s = Inr (Inr (), shown E name q (answer_text E name (fmt_column ?s = 1) (fmt_sep ?s) q) e ?s)"
    using entry_listed [of ?s q name E] assms Some by (auto simp: good_replies_def file_is_def)
  with Some show ?thesis
    by (intro exI [of _ e]) (simp add: irias_get_exec_def andthen_get thenc_upd reply_text_def store_reply_def shown_def)
qed


subsection \<open>Repetition\<close>

text \<open>The texts shown for \<open>m\<close> queries, the first of which is the \<open>n\<close>-th, and what they leave in the files.\<close>

definition replies_text :: "env \<Rightarrow> string \<Rightarrow> bool \<Rightarrow> char \<Rightarrow> bool \<times> ias_set \<Rightarrow> nat \<Rightarrow> nat \<Rightarrow> string" where
  "replies_text E name col sep lq n m = concat (map (\<lambda>i. reply_text E name col sep (kernel E i (fst lq) (snd lq))) [n..<n + m])"

definition replies_stored :: "env \<Rightarrow> string \<Rightarrow> bool \<times> ias_set \<Rightarrow> nat \<Rightarrow> nat \<Rightarrow> (string \<Rightarrow> byte list option) \<Rightarrow> string \<Rightarrow> byte list option" where
  "replies_stored E name lq n m fs = fold (\<lambda>i. store_reply E name (kernel E i (fst lq) (snd lq))) [n..<n + m] fs"

lemma replies_Suc:
  "replies_text E name col sep lq n (Suc m) = reply_text E name col sep (kernel E n (fst lq) (snd lq)) @ replies_text E name col sep lq (Suc n) m"
  "replies_stored E name lq n (Suc m) fs = replies_stored E name lq (Suc n) m (store_reply E name (kernel E n (fst lq) (snd lq)) fs)"
  by (simp_all add: replies_text_def replies_stored_def upt_conv_Cons del: upt_Suc)

definition after_queries :: "env \<Rightarrow> string \<Rightarrow> nat \<Rightarrow> tool \<Rightarrow> string \<Rightarrow> tool" where
  "after_queries E name m s e = s\<lparr>count := count s - of_nat m, asked := asked s @ replicate m (is_local s, query s),
     out := out s @ replies_text E name (fmt_column s = 1) (fmt_sep s) (is_local s, query s) (length (asked s)) m,
     files := replies_stored E name (is_local s, query s) (length (asked s)) m (files s), err := e\<rparr>"

lemma timeout_queries:
  assumes "good_replies E (fmt_column s = 1) (is_local s, query s)" "file_is name s" "m_func s" "count s \<noteq> 0"
  shows "\<exists>e. timeout E s = Inr (Inr (), after_queries E name 1 s e)"
proof -
  obtain e where q: "irias_get_exec E s = Inr (Inr (), s\<lparr>asked := asked s @ [(is_local s, query s)],
      out := out s @ reply_text E name (fmt_column s = 1) (fmt_sep s) (kernel E (length (asked s)) (is_local s) (query s)),
      files := store_reply E name (kernel E (length (asked s)) (is_local s) (query s)) (files s), err := e\<rparr>)"
    using query_made [OF assms(1,2)] by blast
  from assms(3,4) show ?thesis by (auto simp: then_Inr(2) [of "irias_get_exec E", OF q] timeout_def andthen_get upd_def after_queries_def
      replies_text_def replies_stored_def intro!: exI [of _ e])
qed

lemma after_queries_0: "after_queries E name 0 s (err s) = s"
  by (simp add: after_queries_def replies_text_def replies_stored_def)

lemma after_queries_Suc:
  "after_queries E name m (after_queries E name (Suc 0) s e') e = after_queries E name (Suc m) s e"
  by (simp add: after_queries_def replies_Suc) (simp add: replies_text_def replies_stored_def algebra_simps)

lemma ticks_query:
  assumes "good_replies E (fmt_column s = 1) (is_local s, query s)" "file_is name s" "m_func s" "timer s = Some d" "d \<noteq> 0"
  shows "\<exists>e. ticks E k s = Inr (if unat (count s) < k then Inl (Exit 0) else Inr (), after_queries E name (min k (unat (count s))) s e)"
  using assms(1-4)
proof (induction k arbitrary: s)
  case 0
  then show ?case by (auto simp: val_def ret_def after_queries_0 intro!: exI [of _ "err s"])
next
  case (Suc k)
  show ?case
  proof (cases "count s = 0")
    case True
    then have "timeout E s = Inr (Inl (Exit 0), s)" by (simp add: timeout_def andthen_get cleanup_def exitc_def ret_def)
    note t = this
    have "min (Suc k) (unat (count s)) = 0" using True by simp
    with Suc.prems True assms(5) show ?thesis
      by (auto simp: andthen_get then_Inl(2) [of "timeout E", OF t] after_queries_0 intro!: exI [of _ "err s"])
  next
    case False
    obtain e' where t: "timeout E s = Inr (Inr (), after_queries E name 1 s e')" using timeout_queries [OF Suc.prems(1-3) False] by blast
    let ?s = "after_queries E name 1 s e'"
    have "good_replies E (fmt_column ?s = 1) (is_local ?s, query ?s)" "file_is name ?s" "m_func ?s" "timer ?s = Some d"
      using Suc.prems by (simp_all add: after_queries_def file_is_def)
    from Suc.IH [OF this] obtain e where
      "ticks E k ?s = Inr (if unat (count ?s) < k then Inl (Exit 0) else Inr (), after_queries E name (min k (unat (count ?s))) ?s e)" by blast
    moreover have "unat (count s) = Suc (unat (count ?s))"
      using False by (simp add: after_queries_def unat_minus_one unat_gt_0)
    ultimately show ?thesis
      using Suc.prems(4) assms(5) by (auto simp: andthen_get then_Inr(2) [of "timeout E", OF t] after_queries_Suc intro!: exI [of _ e])
  qed
qed


definition header_text :: "tool \<Rightarrow> string" where
  "header_text s = (if fmt_column s = 1 \<and> fmt_no_header s = 0
     then ''class'' @ [fmt_sep s] @ ''attribute'' @ [fmt_sep s] @ ''type'' @ [fmt_sep s] @ ''value'' @ nl else [])"

definition settings :: "main_opt list \<Rightarrow> (string \<Rightarrow> byte list option) \<Rightarrow> tool" where
  "settings opts fs = fold main_effect opts (tool_start fs)"

lemma settings_rest:
  "query (settings opts fs) = zero_query" "filename (settings opts fs) = strncpy 4096 []" "asked (settings opts fs) = []" "out (settings opts fs) = []"
  "files (settings opts fs) = fs"
proof -
  have "query (main_effect x s) = query s \<and> filename (main_effect x s) = filename s \<and> asked (main_effect x s) = asked s \<and> out (main_effect x s) = out s \<and>
      files (main_effect x s) = files s" for x s
    by (cases x) simp_all
  then have "query (fold main_effect opts s) = query s \<and> filename (fold main_effect opts s) = filename s \<and> asked (fold main_effect opts s) = asked s \<and>
      out (fold main_effect opts s) = out s \<and> files (fold main_effect opts s) = files s" for s
    by (induction opts arbitrary: s) simp_all
  then show "query (settings opts fs) = zero_query" "filename (settings opts fs) = strncpy 4096 []" "asked (settings opts fs) = []" "out (settings opts fs) = []"
    "files (settings opts fs) = fs"
    by (simp_all add: settings_def tool_start_def)
qed

text \<open>The state when the command line has been read.\<close>

definition prepared :: "main_opt list \<Rightarrow> (string \<Rightarrow> byte list option) \<Rightarrow> dest \<Rightarrow> string \<Rightarrow> string \<Rightarrow> string option \<Rightarrow> tool" where
  "prepared opts fs d c a f =
     (let s = settings opts fs
      in s\<lparr>is_local := fst (request d c a), query := snd (request d c a), filename := strncpy 4096 (file_name f), out := out s @ header_text s\<rparr>)"

lemma get_prepared:
  assumes "32 \<le> long_bits E" "sock_errno E = None"
  shows "irias_get E (query_args d c a f) (settings opts fs) =
    (if count (settings opts fs) = 0 then irias_get_exec E (prepared opts fs d c a f)
     else Inr (Inl Sleeping, (prepared opts fs d c a f)\<lparr>m_func := True, timer := Some (delay (settings opts fs))\<rparr>))"
proof -
  let ?s = "settings opts fs" and ?s1 = "(settings opts fs)\<lparr>is_local := True\<rparr>"
  have f: "(filename ?s)[0 := CHR 0x00] = filename ?s" by (simp add: settings_rest strncpy_def list_update_same_conv)
  have u: "?s\<lparr>is_local := True, filename := filename ?s\<rparr> = ?s1" by simp
  have "get_options E (query_args d c a f) 0 0 ?s1 = Inr (Inr (1, 1), ?s1\<lparr>is_local := to_local d,
      query := (query ?s1)\<lparr>irda_class_name := strncpy 64 c, irda_attrib_name := strncpy 256 a, daddr := dest_addr d\<rparr>,
      filename := strncpy 4096 (file_name f)\<rparr>)"
    using assms(1) by (intro get_options_read) (simp_all add: settings_rest zero_query_def)
  note g = then_Inr(1) [of "get_options E (query_args d c a f) 0 0", OF this]
  show ?thesis
    using assms(2) unfolding irias_get_def thenc_upd f u g
    by (auto simp: andthen_get then_say thenc_upd register_timeout_def prepared_def Let_def request_def header_text_def settings_rest(1) ret_def)
qed


lemma main_get:
  assumes "32 \<le> long_bits E" "list_all fits_int opts"
  shows "main E (concat (map main_arg opts) @ get_args d c a f) (tool_start fs) =
    thenc (irias_get E (query_args d c a f)) (exitc 0) (settings opts fs)"
proof -
  have g: "get_args d c a f = ''ias'' # ''get'' # query_args d c a f" by (simp add: get_args_def)
  have "main_options E (concat (map main_arg opts) @ get_args d c a f) (tool_start fs) = Inr (Inr (get_args d c a f), settings opts fs)"
    unfolding g settings_def by (rule main_options_read [OF assms(2,1)]) simp_all
  note o = then_Inr(1) [of "main_options E (concat (map main_arg opts) @ get_args d c a f)", OF this]
  have "thenc (thenc m (exitc 0) :: unit tprog) (exitc 0) = (thenc m (exitc 0) :: unit tprog)" for m :: "unit tprog"
    by (rule ext) (auto simp: thenc_def andthen_def bnd_def exitc_def ret_def split: sum.splits)
  then show ?thesis by (simp add: main_def o) (simp add: get_args_def irias_main_def is_prefix_def)
qed

text \<open>C36: 
  A query given as in the usage text (with local, remote or no destination, class, attribute and an optional file name) is made of the service it names, once, or
  with \<^verbatim>\<open>-c n\<close> at every expiry of the timer until it has been made \<open>n\<close> times, and the next expiry ends the program. The answers
  are shown in the format that was asked for, under the header if there is one; a query that fails shows nothing. With a file name an octet sequence is written
  over the first bytes of the file instead, as much of it as the system accepts, and the name is shown in its place (nothing where the file cannot be opened). This holds when the socket
  can be opened, counts and intervals are below 2^31 and the interval is not zero, the file name is shorter than
  4096 characters, and every answer has terminated class and attribute names, a known type, a length within its array, and for a string a
  terminator and, except in columns, a known character set.
\<close>

theorem query_repeated:
  assumes "32 \<le> long_bits E" "sock_errno E = None" "list_all fits_int opts" "delay (settings opts fs) \<noteq> 0"
    "good_replies E (fmt_column (settings opts fs) = 1) (request d c a)" "fits_path (file_name f)"
  shows "\<exists>s. let S = settings opts fs; n = unat (count S); m = (if n = 0 then 1 else min k n) in
    irda_run E (concat (map main_arg opts) @ get_args d c a f) k (tool_start fs) = Inr (if n = 0 \<or> n < k then Inl (Exit 0) else Inr (), s) \<and>
    asked s = replicate m (request d c a) \<and>
    out s = header_text S @ replies_text E (file_name f) (fmt_column S = 1) (fmt_sep S) (request d c a) 0 m \<and>
    files s = replies_stored E (file_name f) (request d c a) 0 m fs"
proof -
  let ?S = "settings opts fs" and ?P = "prepared opts fs d c a f" and ?name = "file_name f"
  have P: "is_local ?P = fst (request d c a)" "query ?P = snd (request d c a)" "file_is ?name ?P" "asked ?P = []" "out ?P = header_text ?S"
    "fmt_column ?P = fmt_column ?S" "fmt_sep ?P = fmt_sep ?S" "count ?P = count ?S" "files ?P = fs"
    using assms(6) by (simp_all add: prepared_def Let_def file_is_def settings_rest)
  show ?thesis
  proof (cases "count ?S = 0")
    case True
    then have "irias_get E (query_args d c a f) ?S = irias_get_exec E ?P" using get_prepared [OF assms(1,2)] by simp
    moreover obtain e where "irias_get_exec E ?P = Inr (Inr (), ?P\<lparr>asked := asked ?P @ [(is_local ?P, query ?P)],
        out := out ?P @ reply_text E ?name (fmt_column ?P = 1) (fmt_sep ?P) (kernel E (length (asked ?P)) (is_local ?P) (query ?P)),
        files := store_reply E ?name (kernel E (length (asked ?P)) (is_local ?P) (query ?P)) (files ?P), err := e\<rparr>)"
      using query_made [of E ?P] assms(5) P by auto
    ultimately have "irias_get E (query_args d c a f) ?S = Inr (Inr (), ?P\<lparr>asked := [request d c a],
        out := header_text ?S @ replies_text E ?name (fmt_column ?S = 1) (fmt_sep ?S) (request d c a) 0 1,
        files := replies_stored E ?name (request d c a) 0 1 fs, err := e\<rparr>)"
      using P by (simp add: replies_text_def replies_stored_def)
    note g = then_Inr(2) [of "irias_get E (query_args d c a f)", OF this]
    show ?thesis using True by (simp add: irda_run_def bnd_def main_get [OF assms(1,3)] g exitc_def ret_def Let_def)
  next
    case False
    let ?Q = "?P\<lparr>m_func := True, timer := Some (delay ?S)\<rparr>"
    have "irias_get E (query_args d c a f) ?S = Inr (Inl Sleeping, ?Q)" using False get_prepared [OF assms(1,2)] by simp
    note g = then_Inl(2) [of "irias_get E (query_args d c a f)", OF this]
    obtain e where "ticks E k ?Q = Inr (if unat (count ?Q) < k then Inl (Exit 0) else Inr (), after_queries E ?name (min k (unat (count ?Q))) ?Q e)"
      using ticks_query [of E ?Q ?name "delay ?S" k] assms(4,5) P by (auto simp: file_is_def)
    then show ?thesis using False P
      by (simp add: irda_run_def bnd_def main_get [OF assms(1,3)] g after_queries_def Let_def unat_eq_0)
  qed
qed


definition sample_answer :: ias_set where
  "sample_answer = zero_query\<lparr>irda_class_name := ''Device'' @ [CHR 0x00], irda_attrib_name := ''DeviceName'' @ [CHR 0x00], irda_attrib_type := 2,
     oct_len := 3, octet_seq := [1, 2, 3]\<rparr>"

definition sample_env :: env where
  "sample_env = \<lparr>package = ''irda'', pkg_version = ''0.1'', strerror = ''Error'', long_bits = 64, sock_errno = None, kernel = (\<lambda>n l q. Some sample_answer),
     can_open = (\<lambda>t. True), wrote = int, has_proc = True\<rparr>"

lemma sample_settings:
  "count (settings [Column, Count 2] fs) = 2" "delay (settings [Column, Count 2] fs) = 1" "fmt_column (settings [Column, Count 2] fs) = 1"
  "fmt_no_header (settings [Column, Count 2] fs) = 0" "fmt_sep (settings [Column, Count 2] fs) = CHR '':''"
  by (simp_all add: settings_def tool_start_def)

theorem query_repeated_witness:
  "\<exists>s. irda_run sample_env ([''-C'', ''-c'', ''2''] @ get_args (Remote 0xabcd) ''Device'' ''DeviceName'' (Some ''f'')) 3 (tool_start (\<lambda>f. None)) =
       Inr (Inl (Exit 0), s) \<and>
     asked s = replicate 2 (request (Remote 0xabcd) ''Device'' ''DeviceName'') \<and>
     out s = ''class:attribute:type:value'' @ nl @ ''Device:DeviceName:octetseq:(f)'' @ nl @ ''Device:DeviceName:octetseq:(f)'' @ nl \<and>
     files s ''f'' = Some [1, 2, 3]"
proof -
  have d: "fmt_d 2 = ''2''" by code_simp
  have k: "good_replies sample_env True (request (Remote 0xabcd) ''Device'' ''DeviceName'')" "fits_path (file_name (Some ''f''))"
    by (auto simp: good_replies_def sample_env_def sample_answer_def good_answer_def fits_path_def file_name_def)
  have t: "replies_text sample_env ''f'' True (CHR '':'') lq 0 2 = ''Device:DeviceName:octetseq:(f)'' @ nl @ ''Device:DeviceName:octetseq:(f)'' @ nl" for lq
    by (simp add: replies_text_def reply_text_def upt_rec sample_env_def sample_answer_def answer_text_def value_column_def octets_column_def c_str_def)
  have w: "replies_stored sample_env ''f'' lq 0 2 (\<lambda>f. None) ''f'' = Some [1, 2, 3]" for lq
    by (simp add: replies_stored_def store_reply_def store_answer_def upt_rec sample_env_def sample_answer_def Let_def)
  have e: "32 \<le> long_bits sample_env" "sock_errno sample_env = None" by (simp_all add: sample_env_def)
  show ?thesis
    using query_repeated [OF e, of "[Column, Count 2]" "\<lambda>f. None" "Remote 0xabcd" "''Device''" "''DeviceName''" "Some ''f''" 3] k
    by (simp add: sample_settings d t header_text_def Let_def file_name_def) (metis w)
qed

section \<open>Where the tool fails\<close>

text \<open>A string whose character set is not one of the eleven in the table makes the program read past the table, unless the output is in
  columns.\<close>

theorem unknown_charset_overruns_table:
  assumes "fmt_column s \<noteq> 1" "irda_attrib_type q = 3"
    "CHR 0x00 \<in> set (irda_class_name q)" "CHR 0x00 \<in> set (irda_attrib_name q)" "CHR 0x00 \<in> set (str_string q)"
  shows "irias_list_entry E q s = Inl (Table_Bounds (unat (str_charset q))) \<longleftrightarrow> 11 \<le> str_charset q"
  using assms
  by (simp add: irias_list_entry_def andthen_get text_of_terminated then_say list_string_def check_def charset_def say_eq word_le_nat_alt)
    (simp add: thenc_def andthen_def fault_def bnd_def)

text \<open>With an interval of zero the timer is never started: the program waits for ever and makes no query.\<close>

theorem zero_delay_never_queries:
  assumes "32 \<le> long_bits E" "sock_errno E = None" "list_all fits_int opts" "delay (settings opts fs) = 0" "count (settings opts fs) \<noteq> 0"
  shows "\<exists>s. irda_run E (concat (map main_arg opts) @ get_args d c a f) k (tool_start fs) = Inr (Inr (), s) \<and> asked s = []"
proof -
  let ?S = "settings opts fs"
  let ?Q = "(prepared opts fs d c a f)\<lparr>m_func := True, timer := Some 0\<rparr>"
  have "irias_get E (query_args d c a f) ?S = Inr (Inl Sleeping, ?Q)" using assms(4,5) get_prepared [OF assms(1,2)] by simp
  note g = then_Inl(2) [of "irias_get E (query_args d c a f)", OF this]
  have "ticks E k ?Q = Inr (Inr (), ?Q)" by (cases k) (simp_all add: andthen_get, simp_all add: val_def ret_def)
  then show ?thesis by (simp add: irda_run_def bnd_def main_get [OF assms(1,3)] g) (simp add: prepared_def Let_def settings_rest)
qed

theorem zero_delay_never_queries_witness:
  "\<exists>s. irda_run sample_env ([''-d'', ''0'', ''-c'', ''2''] @ get_args Local ''Device'' ''DeviceName'' None) 100 (tool_start (\<lambda>f. None)) = Inr (Inr (), s) \<and> asked s = []"
proof -
  have "fmt_d 0 = ''0''" "fmt_d 2 = ''2''" by code_simp+
  then show ?thesis
    using zero_delay_never_queries [of sample_env "[Delay 0, Count 2]" "\<lambda>f. None" Local "''Device''" "''DeviceName''" None 100]
    by (simp add: settings_def tool_start_def) (simp add: sample_env_def)
qed

text \<open>A class name of 64 characters or more leaves no room for the terminator; when the kernel hands it back with the answer, the program
  prints past the array.\<close>

theorem long_class_name_overruns:
  assumes "32 \<le> long_bits E" "sock_errno E = None" "list_all fits_int opts" "count (settings opts fs) = 0"
    "64 \<le> length c" "CHR 0x00 \<notin> set c" "kernel E 0 (fst (request d c a)) (snd (request d c a)) = Some q" "irda_class_name q = strncpy 64 c"
  shows "irda_run E (concat (map main_arg opts) @ get_args d c a f) k (tool_start fs) = Inl (Local_Bounds ''irda_class_name'' 64)"
proof -
  let ?S = "settings opts fs" and ?P = "prepared opts fs d c a f"
  have n: "CHR 0x00 \<notin> set (strncpy 64 c)" "length (strncpy 64 c) = 64"
    using assms(5,6) by (auto simp: strncpy_def dest: in_set_takeD)
  have "irias_get E (query_args d c a f) ?S = irias_get_exec E ?P" using get_prepared [OF assms(1,2)] assms(4) by simp
  also have "\<dots> = Inl (Local_Bounds ''irda_class_name'' 64)"
    using assms(7,8) n
    by (simp add: irias_get_exec_def andthen_get thenc_upd prepared_def Let_def settings_rest irias_list_entry_def text_of_def check_def)
      (simp add: thenc_def andthen_def fault_def bnd_def)
  finally show ?thesis by (simp add: irda_run_def main_get [OF assms(1,3)] bnd_def thenc_def andthen_def)
qed

text \<open>Where the kernel lists its objects in \<^verbatim>\<open>/proc\<close>, the list command uses a pointer that was never set; otherwise it prints an error and
  exits as if it had succeeded.\<close>

theorem list_uses_unset_pointer:
  "irda_run E [''ias'', ''list''] k (tool_start fs) = Inl (Uninitialised ''rx_class'') \<longleftrightarrow> has_proc E"
  "\<not> has_proc E \<Longrightarrow> \<exists>s. irda_run E [''ias'', ''list''] k (tool_start fs) = Inr (Inl (Exit 0), s)"
  by (simp_all add: irda_run_def main_def irias_main_def irias_list_def is_prefix_def perror_def complain_def exitc_def)
    (simp_all add: thenc_def andthen_def fault_def bnd_def upd_def ret_def)

text \<open>An octet sequence written to an existing file replaces its first bytes only: the rest of a longer file stays.\<close>

theorem old_file_contents_stay:
  assumes "filename s = strncpy 4096 name" "name \<noteq> []" "length name < 4096" "CHR 0x00 \<notin> set name" "can_open E name" "\<And>n. wrote E n = int n"
    "unat (oct_len q) \<le> length (octet_seq q)" "files s name = Some old"
  shows "\<exists>s'. list_octets E q s = Inr (Inr (), s') \<and>
    files s' name = Some (take (unat (oct_len q)) (octet_seq q) @ drop (unat (oct_len q)) old)"
proof -
  have t: "CHR 0x00 \<in> set (strncpy 4096 name)" "c_str (strncpy 4096 name) = name"
    using assms(3,4) by (simp_all add: strncpy_def c_str_def takeWhile_append2 takeWhile_append takeWhile_eq_all_conv)
  show ?thesis
    using assms t
    by (simp add: list_octets_def andthen_assoc andthen_thenc andthen_get then_say text_of_terminated check_def write_file_def Let_def thenc_upd
        say_eq min.absorb2)
qed


end
