(* ===== verification/Spec2Isabelle.thy ===== *)
theory Spec2Isabelle
  imports Irdadump Findchip Irkbd Psion Smcinit Toshiba Irattach Irdaping Irdaspray Ircard_Link Irnetd Irtext Irias
begin

text \<open>
  \<^bold>\<open>Verification of the Linux IrDA utilities.\<close>

  The repository holds the user-space tools of the Linux IrDA project. Modelled are the tool \<^verbatim>\<open>irda\<close> of \<^verbatim>\<open>src/irda\<close> and these programs of
  \<^verbatim>\<open>src/irda-utils\<close>: the packet sniffer \<^verbatim>\<open>irdadump\<close>, the chip detection \<^verbatim>\<open>findchip\<close>, the chip set-up \<^verbatim>\<open>smcinit\<close> with its variants for Toshiba laptops, the daemon
  \<^verbatim>\<open>irattach\<close> with \<^verbatim>\<open>dongle_attach\<close>, the ping program \<^verbatim>\<open>irdaping\<close>, the throughput test \<^verbatim>\<open>irdaspray\<close>, the keyboard daemon \<^verbatim>\<open>tekram/irkbd\<close>, the file
  transfer \<^verbatim>\<open>psion/irpsion5\<close>, the daemon \<^verbatim>\<open>irnetd\<close>, examples for sockets and the kernel driver \<^verbatim>\<open>pcmcia/ircard_cs\<close>.

  \<^bold>\<open>How C is modelled.\<close> \<open>C_Prelude\<close> has a monad of state and faults. A C function is a definition of the same name
  whose value is a program of that monad; a struct is a record, an enumeration a datatype, an unsigned
  integer a word of its width; loops are recursive functions, each with a termination proof, so that no
  fuel is used anywhere. An access outside a buffer, a local array or a table, a copy that runs past both its ends, a null or unset pointer, a signed
  overflow where the code adds up without bound, a denied I/O port, a failed assertion and a call of \<^verbatim>\<open>exit\<close> are values of \<open>c_fault\<close>: a theorem that gives \<open>Inr\<close> says that the
  code returns, and one that gives \<open>Inl\<close> says how it ends (with the combinators of \<open>C_Exit\<close>, which \<open>Irattach\<close>
  and \<open>Irias\<close> use, \<^verbatim>\<open>exit\<close> is a result with a final state). \<open>wp\<close>, \<open>keeps\<close>, \<open>preserves\<close> and \<open>yields\<close> with their
  collections of rules carry the proofs. \<open>C_Float\<close> has the rounding of \<^verbatim>\<open>float\<close> and \<^verbatim>\<open>double\<close> (to nearest, ties to even) on rational numbers and
  the format \<^verbatim>\<open>%6.2f\<close>; overflow and the special values of floating point do not occur and are left out. What is not in the repository (the allocator, the sockets, the
  clock, the hardware) is an argument.

  \<^bold>\<open>irdadump.\<close> Bytes go from the socket or a capture file through a message buffer to the parsers, which
  follow the layering of the protocols and append to one line of text.
  \<^item> \<open>Netbuf\<close> (\<^verbatim>\<open>netbuf.c\<close>): the buffer with block, data, tail and end as offsets. The locale \<open>message_buffer\<close> states
    what its users rely on; its interpretation gives that header stacks come off as they went on. Each
    operation acts on the payload like an operation on a list of bytes.
  \<^item> \<open>Dump_State\<close> (variables and connection table of \<^verbatim>\<open>irlap.c\<close>, \<^verbatim>\<open>irdadump.h\<close>): the state, reads and writes in the frame
    buffer with their faults, the table of connections with its lookup cache (locale \<open>connection_table\<close>), and the
    parameter loop shared by two parsers (locale \<open>tlv_handler\<close>).
  \<^item> \<open>Ircomm\<close>, \<open>Obex\<close>, \<open>Irlmp\<close>, \<open>Irlap\<close> (\<^verbatim>\<open>ircomm.c\<close>, \<^verbatim>\<open>obex.c\<close>, \<^verbatim>\<open>irlmp.c\<close>, \<^verbatim>\<open>irlap.c\<close>): the parsers. They decode well-formed
    messages exactly, and only information frames and disconnects change what is known of the connections. On frames of
    at most 1536 bytes, whatever these hold, they stay within the receive buffer unless they overrun a local array or a value
    table; the theorems say which arrays and when.
  \<^item> \<open>Capture\<close> (\<^verbatim>\<open>capture.c\<close>): capture files, written and read on hosts of either byte order; the locale \<open>frame_log\<close> gives
    that a session is read back as it was written.
  \<^item> \<open>Irdadump\<close> (\<^verbatim>\<open>irdadump.c\<close>, \<^verbatim>\<open>main.c\<close>): time stamps, the loop over packets, options and start-up. A replay repeats the
    live session on a big-endian host and drops every frame on a little-endian one; start-up establishes the invariant of the
    parser state, which then holds in every reachable state.

  \<^bold>\<open>findchip.\<close> \<open>Findchip_Bus\<close> has the I/O ports, whose hardware is a parameter, and the report; \<open>Nsc\<close>, \<open>Smc\<close> and \<open>Winbond\<close>
  (\<^verbatim>\<open>nsc.c\<close>, \<^verbatim>\<open>smc.c\<close>, \<^verbatim>\<open>winbond.c\<close>) the probes, \<open>Findchip\<close> (\<^verbatim>\<open>findchip.c\<close>) the main program. What a probe reports is compared
  with the register tables; on any hardware a probe that returns has closed every configuration session it
  opened.

  \<^bold>\<open>smcinit.\<close> \<open>Smcinit\<close> (\<^verbatim>\<open>smcinit.c\<close>): the I/O hub and the chip are programmed. The chip is a parameter with the documented behaviour \<open>reg_port\<close>: it
  answers in configuration mode only, which 0x55 enters and 0xaa leaves. A chip that \<^verbatim>\<open>smcinit\<close> has set up is left outside this mode, and the routine
  \<^verbatim>\<open>findchip\<close> has for this family reads back the addresses, interrupt and channel that were asked for once it is given the port and
  the identification, which its own table lacks; a hub of another maker is not written to; run by root the set-up returns on any hardware; a
  setting that does not read back leaves the chip in its configuration mode.
  \<open>Toshiba\<close> (\<^verbatim>\<open>tosh1800-smcinit.c\<close>, \<^verbatim>\<open>tosh2450-smcinit.c\<close>) uses the same ports and lemmas: the chip the first program has set up can be read
  back in the same way, and the bridge decodes its addresses, but the mode of the port is left as it is; the second leaves
  the chip as \<^verbatim>\<open>smcinit\<close> does with four particular settings.

  \<^bold>\<open>irattach.\<close> \<open>Irattach\<close> (\<^verbatim>\<open>irattach.c\<close>, \<^verbatim>\<open>util.c\<close>, \<^verbatim>\<open>dongle_attach.c\<close>): each system call succeeds, fails or is preceded by a signal, as the
  environment says. Programs return a value or end the process, and the state at the end is kept. Whatever fails and
  whenever a signal with a handler comes, the serial port is left as it was found, except where the program crashes in one of a few
  listed ways (\<open>triple\<close> and \<open>frame\<close> carry this through the start-up;
  the locale \<open>syscall\<close> states what a system call may do). The store behind the array \<^verbatim>\<open>device\<close>, which every run makes, is recorded in the
  state and does not end a run; without failures the interface comes up; a module's interfaces
  get a process each; no array a command is formatted into is overrun.

  \<^bold>\<open>irdaping.\<close> \<open>Irdaping\<close> (\<^verbatim>\<open>irdaping.c\<close>) on hosts with 32-bit and 64-bit \<^verbatim>\<open>long\<close>: the sniffer of \<open>Irlap\<close> shows its frames as test
  commands; on a 32-bit host the answer to a frame is shown with its time in milliseconds, correct to a
  hundredth for answers within a minute, and with too long a time on a 64-bit one.

  \<^bold>\<open>irdaspray.\<close> \<open>Irdaspray\<close> (\<^verbatim>\<open>irdaspray.c\<close>): discovery, connecting, client and server. Run against each other over sockets that lose
  nothing, the two processes of the client and the server agree on every frame and byte, as long as the total
  fits an \<^verbatim>\<open>int\<close>; failed calls are counted as
  bytes, and the number the user chooses a device by is not checked.

  \<^bold>\<open>irkbd.\<close> \<open>Irkbd\<close> (\<^verbatim>\<open>irkbd.c\<close>): the two signal handlers and the connect loop as steps of a transition system. No
  received data makes the parse loop leave its buffer, well-formed frames are delivered (locale \<open>byte_handler\<close>), the
  daemon gets to polling and stays there, and the keyboard is never initialised.

  \<^bold>\<open>irpsion5.\<close> \<open>Psion\<close> (\<^verbatim>\<open>irpsion5.c\<close>): choice of a device, sending, receiving, the command line. A file sent and received
  by the program arrives with its name, contents and date; a broken transfer is noticed.

  \<^bold>\<open>ircard_cs.\<close> \<open>Ircard\<close> (\<^verbatim>\<open>ircard_cs.c\<close>, \<^verbatim>\<open>ircard_cs.h\<close>): the banks of registers of the card, the queue of frames in the memory shared with
  it, interrupts, speeds. The card is a parameter whose documented behaviour is \<open>chip\<close>. The locale \<open>bounded_fifo\<close> states what a transmit queue
  promises; its interpretations give that the card is told to send the frames handed over, unchanged and in order, and that the
  ninth frame before a turn to reception overruns the queue. A received frame is
  delivered without its checksum; the interrupt handler puts the bank back, but reads the status of a second event in the wrong one.
  \<open>Ircard_Link\<close> has the life cycle: an inserted card comes into use, a configuration succeeds or is undone with a report of the call that failed, unloading ends; default entries of the card's
  table and devices marked for removal get lost.

  \<^bold>\<open>irnetd and examples.\<close> \<open>Irnetd\<close> (\<^verbatim>\<open>irnetd.c\<close>): with short options, and as long as the channel can be read, every request starts \<^verbatim>\<open>pppd\<close> once with its address. \<open>Irtext\<close> (\<^verbatim>\<open>irscanf.c\<close>, \<^verbatim>\<open>irprintf.c\<close>, their \<^verbatim>\<open>x\<close> variants,
  \<^verbatim>\<open>send_ultra.c\<close>, \<^verbatim>\<open>recv_ultra.c\<close>): text typed at one end is shown at the other.

  \<^bold>\<open>irda.\<close> \<open>Irias\<close> (\<^verbatim>\<open>src/irda/src/main.c\<close>, \<^verbatim>\<open>irias.c\<close>): a query given as in the usage text is made as often as asked for and its answers are shown, or stored in
  a file; an
  interval of zero, a long class name, an unknown character set and the list command make the tool fail.

  \<^bold>\<open>Not modelled.\<close> Of the modelled programs: the signal handler \<^verbatim>\<open>cleanup\<close> and the print-out of a buffer for debugging in
  \<^verbatim>\<open>irdadump\<close>, messages of debug options and on the standard error, usage texts, the text of the progress display, the
  splitting of command lines by \<^verbatim>\<open>getopt\<close>, the arrival of a signal while a handler of \<^verbatim>\<open>irkbd\<close> runs, the signals that end \<^verbatim>\<open>irda\<close>. Other programs:
  the GTK front end \<^verbatim>\<open>gfindchip\<close> (widget calls), \<^verbatim>\<open>ias_query\<close> (one system call and its result), the functions of \<^verbatim>\<open>irdaspray\<close> that try out the information base (not
  called), and the older copy of the three
  \<^verbatim>\<open>smcinit\<close> programs under \<^verbatim>\<open>src/smcinit\<close>.
\<close>

end
